(* ===== verification/Prelude.thy ===== *)
theory Prelude
  imports Complex_Main "HOL-Library.List_Lexorder" "HOL-Library.Char_ord"
    "HOL-Library.Product_Lexorder" "HOL-Library.Multiset"
begin

text \<open>
  What every theory of this development shares: the named collections of facts, the
  reading of Python's strings and lists that the models use (prefix and suffix tests,
  slices, splitting, joining, replacing), and the generic lemmas on lists.

  Python's \<open>str\<close> is a list of characters; the models use Isabelle's \<open>char\<close>, so a
  modelled text holds the code points U+0000 to U+00FF. Python's \<open>float\<close> seconds are
  exact rationals.
\<close>

section \<open>Collections of facts\<close>

named_theorems perm_facts \<open>operations that only rearrange their list\<close>
named_theorems frame_facts \<open>what an operation leaves as it was\<close>
named_theorems inv_intros \<open>operations that keep their component's invariant\<close>

section \<open>Python numbers\<close>

text \<open>Python's \<open>int(x)\<close> of a float cuts towards zero.\<close>

definition py_int :: "rat \<Rightarrow> int" where
  "py_int x = (if x < 0 then - \<lfloor>- x\<rfloor> else \<lfloor>x\<rfloor>)"

lemma py_int_of_int [simp]: "py_int (of_int k) = k"
  by (simp add: py_int_def)

lemma py_int_nonneg: "0 \<le> x \<Longrightarrow> of_int (py_int x) \<le> x \<and> x < of_int (py_int x) + 1"
  unfolding py_int_def using of_int_floor_le [of x] real_of_int_floor_add_one_gt by (simp, linarith)

section \<open>Python strings and lists\<close>

definition starts_with :: "'a list \<Rightarrow> 'a list \<Rightarrow> bool" where
  "starts_with s p \<longleftrightarrow> take (length p) s = p"

definition ends_with :: "'a list \<Rightarrow> 'a list \<Rightarrow> bool" where
  "ends_with s p \<longleftrightarrow> length p \<le> length s \<and> drop (length s - length p) s = p"

definition starts_at :: "'a list \<Rightarrow> nat \<Rightarrow> 'a list \<Rightarrow> bool" where
  "starts_at s i p \<longleftrightarrow> take (length p) (drop i s) = p"

definition slice :: "'a list \<Rightarrow> nat \<Rightarrow> nat \<Rightarrow> 'a list" where
  "slice s i j = take (j - i) (drop i s)"

fun contains :: "'a list \<Rightarrow> 'a list \<Rightarrow> bool" where
  "contains [] p = (p = [])"
| "contains (c # s) p = (starts_with (c # s) p \<or> contains s p)"

fun replace_all :: "'a \<Rightarrow> 'a list \<Rightarrow> 'a list \<Rightarrow> 'a list" where
  "replace_all c r [] = []"
| "replace_all c r (x # xs) = (if x = c then r @ replace_all c r xs else x # replace_all c r xs)"

fun join :: "'a list \<Rightarrow> 'a list list \<Rightarrow> 'a list" where
  "join sep [] = []"
| "join sep [x] = x"
| "join sep (x # y # ys) = x @ sep @ join sep (y # ys)"

text \<open>The part after the last \<open>c\<close>: \<open>s.rsplit(c, 1)[-1]\<close>.\<close>

definition after_last :: "'a \<Rightarrow> 'a list \<Rightarrow> 'a list" where
  "after_last c s = rev (takeWhile (\<lambda>x. x \<noteq> c) (rev s))"

lemma starts_with_append [simp]: "starts_with (p @ s) p"
  by (simp add: starts_with_def)

lemma starts_with_iff: "starts_with s p \<longleftrightarrow> (\<exists>r. s = p @ r)"
  by (metis append_eq_conv_conj append_take_drop_id starts_with_def)

lemma length_slice [simp]: "i \<le> j \<Longrightarrow> j \<le> length s \<Longrightarrow> length (slice s i j) = j - i"
  by (simp add: slice_def)

lemma slice_append_slice:
  "i \<le> j \<Longrightarrow> j \<le> k \<Longrightarrow> slice s i j @ slice s j k = slice s i k"
proof -
  assume ij: "i \<le> j" and jk: "j \<le> k"
  have "take (k - i) (drop i s) = take (j - i) (drop i s) @ take (k - j) (drop (j - i) (drop i s))"
    using ij jk take_add [of "j - i" "k - j" "drop i s"] by simp
  with ij show ?thesis by (simp add: slice_def)
qed

lemma slice_full [simp]: "slice s 0 (length s) = s"
  by (simp add: slice_def)

lemma take_append_slice: "i \<le> j \<Longrightarrow> take i s @ slice s i j = take j s"
  by (metis le_add_diff_inverse slice_def take_add)

lemma replace_all_absent [simp]: "c \<notin> set s \<Longrightarrow> replace_all c r s = s"
  by (induction s) auto

section \<open>Lists\<close>

text \<open>Move the element at position \<open>i\<close> to the front: \<open>xs.insert(0, xs.pop(i))\<close>.\<close>

definition to_front :: "nat \<Rightarrow> 'a list \<Rightarrow> 'a list" where
  "to_front i xs = (if i < length xs then xs ! i # take i xs @ drop (Suc i) xs else xs)"

text \<open>The index of the first element that satisfies \<open>P\<close>.\<close>

fun find_index :: "('a \<Rightarrow> bool) \<Rightarrow> 'a list \<Rightarrow> nat option" where
  "find_index P [] = None"
| "find_index P (x # xs) = (if P x then Some 0 else map_option Suc (find_index P xs))"

lemma mset_to_front [simp, perm_facts]: "mset (to_front i xs) = mset xs"
proof (cases "i < length xs")
  case True
  then have "mset xs = mset (take i xs @ xs ! i # drop (Suc i) xs)"
    by (simp add: id_take_nth_drop [symmetric])
  with True show ?thesis by (simp add: to_front_def)
qed (simp add: to_front_def)

lemma set_to_front [simp]: "set (to_front i xs) = set xs"
  by (metis mset_to_front set_mset_mset)

lemma length_to_front [simp]: "length (to_front i xs) = length xs"
  by (metis mset_to_front size_mset)

lemma find_index_None: "find_index P xs = None \<longleftrightarrow> (\<forall>x \<in> set xs. \<not> P x)"
  by (induction xs) auto

lemma find_index_Some:
  "find_index P xs = Some i \<Longrightarrow> i < length xs \<and> P (xs ! i) \<and> (\<forall>j < i. \<not> P (xs ! j))"
proof (induction xs arbitrary: i)
  case Nil
  then show ?case by simp
next
  case (Cons x xs)
  show ?case
  proof (cases "P x")
    case True
    with Cons.prems show ?thesis by simp
  next
    case False
    with Cons.prems obtain k where k: "find_index P xs = Some k" "i = Suc k" by auto
    from Cons.IH [OF k(1)] False show ?thesis
      by (auto simp: k(2) nth_Cons split: nat.splits)
  qed
qed

lemma distinct_map_filter: "distinct (map f xs) \<Longrightarrow> distinct (map f (filter P xs))"
  by (induction xs) auto

lemma distinct_map_mset_eq:
  "mset xs = mset ys \<Longrightarrow> distinct (map f xs) = distinct (map f ys)"
  by (metis mset_eq_imp_distinct_iff mset_map)

lemma mset_singleton_list [simp]: "mset xs = {#x#} \<longleftrightarrow> xs = [x]"
  by (cases xs) auto

lemma mset_eq_set: "mset xs = mset ys \<Longrightarrow> set xs = set ys"
  by (metis set_mset_mset)

section \<open>Results\<close>

text \<open>A chain of guards and lookups that answers: each guard was passed, each lookup found.\<close>

lemma guard_Inr: "(if b then Inl e else r) = Inr y \<longleftrightarrow> \<not> b \<and> r = Inr y"
  by simp

lemma found_Inr: "(case a of None \<Rightarrow> Inl e | Some m \<Rightarrow> f m) = Inr y \<longleftrightarrow> (\<exists>m. a = Some m \<and> f m = Inr y)"
  by (cases a) simp_all

lemma next_Inr: "(case a of Inl e \<Rightarrow> Inl e | Inr m \<Rightarrow> f m) = Inr y \<longleftrightarrow> (\<exists>m. a = Inr m \<and> f m = Inr y)"
  by (cases a) simp_all

lemma either_Inr: "(if b then r else r') = Inr y \<longleftrightarrow> b \<and> r = Inr y \<or> \<not> b \<and> r' = Inr y"
  by simp

lemmas answers = guard_Inr found_Inr next_Inr

end
