(* ===== verification/Json.thy ===== *)
theory Json
  imports Prelude
begin

text \<open>
  JSON values as the Python code meets them after \<open>json.loads\<close>: a dictionary keeps its
  insertion order and is an association list with distinct keys. The accessors are those
  the modelled code uses: \<open>d.get(k)\<close>, the \<open>isinstance\<close> tests (Python's \<open>bool\<close> is
  an \<open>int\<close>) and truth of a value.
\<close>

datatype json =
    JNull
  | JBool bool
  | JInt int
  | JFloat rat
  | JStr string
  | JArr "json list"
  | JObj "(string \<times> json) list"

fun is_obj :: "json \<Rightarrow> bool" where
  "is_obj (JObj _) = True"
| "is_obj _ = False"

fun is_str :: "json \<Rightarrow> bool" where
  "is_str (JStr _) = True"
| "is_str _ = False"

text \<open>\<open>d.get(k)\<close>; \<open>None\<close> is also what a key holding null gives.\<close>

fun jget :: "json \<Rightarrow> string \<Rightarrow> json" where
  "jget (JObj kvs) k = (case map_of kvs k of Some v \<Rightarrow> v | None \<Rightarrow> JNull)"
| "jget _ k = JNull"

fun jhas :: "json \<Rightarrow> string \<Rightarrow> bool" where
  "jhas (JObj kvs) k = (k \<in> set (map fst kvs))"
| "jhas _ k = False"

text \<open>\<open>isinstance(v, int)\<close> and its value; \<open>isinstance(v, (int, float))\<close> and its value.\<close>

fun as_int :: "json \<Rightarrow> int option" where
  "as_int (JInt i) = Some i"
| "as_int (JBool b) = Some (if b then 1 else 0)"
| "as_int _ = None"

fun as_num :: "json \<Rightarrow> rat option" where
  "as_num (JInt i) = Some (of_int i)"
| "as_num (JBool b) = Some (if b then 1 else 0)"
| "as_num (JFloat x) = Some x"
| "as_num _ = None"

fun as_str :: "json \<Rightarrow> string option" where
  "as_str (JStr s) = Some s"
| "as_str _ = None"

fun as_arr :: "json \<Rightarrow> json list option" where
  "as_arr (JArr xs) = Some xs"
| "as_arr _ = None"

text \<open>Truth of a value, as in \<open>if v:\<close>.\<close>

fun truthy :: "json \<Rightarrow> bool" where
  "truthy JNull = False"
| "truthy (JBool b) = b"
| "truthy (JInt i) = (i \<noteq> 0)"
| "truthy (JFloat x) = (x \<noteq> 0)"
| "truthy (JStr s) = (s \<noteq> [])"
| "truthy (JArr xs) = (xs \<noteq> [])"
| "truthy (JObj kvs) = (kvs \<noteq> [])"

text \<open>\<open>{**d, k: v}\<close> and \<open>d[k] = v\<close>: a present key keeps its place, a new one goes last.\<close>

fun alist_set :: "string \<Rightarrow> 'v \<Rightarrow> (string \<times> 'v) list \<Rightarrow> (string \<times> 'v) list" where
  "alist_set k v [] = [(k, v)]"
| "alist_set k v ((k', v') # kvs) =
     (if k' = k then (k, v) # kvs else (k', v') # alist_set k v kvs)"

text \<open>\<open>d.pop(k)\<close> of a present key.\<close>

definition alist_pop :: "string \<Rightarrow> (string \<times> 'v) list \<Rightarrow> (string \<times> 'v) list" where
  "alist_pop k kvs = filter (\<lambda>(k', _). k' \<noteq> k) kvs"

lemma map_of_alist_set [simp]: "map_of (alist_set k v kvs) = (map_of kvs)(k \<mapsto> v)"
  by (induction kvs) auto

lemma map_of_alist_pop [simp]:
  "map_of (alist_pop k kvs) k' = (if k' = k then None else map_of kvs k')"
  by (induction kvs) (auto simp: alist_pop_def)

lemma keys_alist_set: "fst ` set (alist_set k v kvs) = insert k (fst ` set kvs)"
  by (induction k v kvs rule: alist_set.induct) (simp_all add: insert_commute)

lemma distinct_alist_set:
  "distinct (map fst kvs) \<Longrightarrow> distinct (map fst (alist_set k v kvs))"
proof (induction kvs)
  case (Cons kv kvs)
  obtain a b where kv: "kv = (a, b)" by (cases kv)
  with Cons have "distinct (map fst (alist_set k v kvs))" "a \<notin> fst ` set kvs" by auto
  with Cons.prems show ?case 
    by (cases "a = k") (simp_all add: kv keys_alist_set)
qed simp

lemma jget_set [simp]:
  "jget (JObj (alist_set k v kvs)) k' = (if k' = k then v else jget (JObj kvs) k')"
  by simp

lemma jget_pop [simp]:
  "jget (JObj (alist_pop k kvs)) k' = (if k' = k then JNull else jget (JObj kvs) k')"
  by simp

lemma alist_set_same:
  "map_of kvs k = Some v \<Longrightarrow> distinct (map fst kvs) \<Longrightarrow> alist_set k v kvs = kvs"
  by (induction kvs) (auto split: if_splits)

end
