(* ===== verification/Heavy_Queue.thy ===== *)
theory Heavy_Queue
  imports Json
begin

text \<open>
  The queue of the host's heavy-job slot (\<open>claudlobby/_runtime_scripts/heavy-slot.py\<close>,
  from \<open>_epoch\<close> to \<open>settle\<close> and \<open>_decide\<close>): tickets, the order they are served in, one
  caller's decision and what it writes back. The slots' files are records with the flock's
  state beside them. \<open>Heavy_Host\<close> composes the decisions into the host's state machine.
\<close>

section \<open>Data\<close>

text \<open>A ticket, an element of \<open>queue.lock\<close>'s \<open>tickets\<close> list.\<close>

record ticket =
  tk_n :: int
  tk_fleet :: string
  tk_bot :: string
  tk_tool :: json
  tk_since :: rat
  tk_seen :: rat

text \<open>
  The fields of a slot's record that the queue reads: a number under \<open>started_epoch\<close> and
  the epoch that \<open>started_at\<close> parses to (\<open>None\<close> where the field is absent or is not such
  a value), the same two for the release, and the fleet and state.
\<close>

record slot_rec =
  sr_state :: "string option"
  sr_fleet :: "string option"
  sr_bot :: "string option"
  sr_pid :: "nat option"
  sr_boot_id :: "string option"
  sr_started_epoch :: "rat option"
  sr_started_at :: "rat option"
  sr_released_epoch :: "rat option"
  sr_released_at :: "rat option"
  sr_exit :: "int option"

definition empty_rec :: slot_rec where
  "empty_rec = \<lparr>sr_state = None, sr_fleet = None, sr_bot = None, sr_pid = None,
     sr_boot_id = None, sr_started_epoch = None,
     sr_started_at = None, sr_released_epoch = None, sr_released_at = None, sr_exit = None\<rparr>"

text \<open>A probe's row: the slot's number, whether it is held, its record.\<close>

type_synonym slot_row = "nat \<times> bool \<times> slot_rec"

record queue =
  qu_next :: int
  qu_tickets :: "ticket list"

definition epoch_of :: "rat option \<Rightarrow> rat option \<Rightarrow> rat option" where
  "epoch_of num stamp = (case num of Some v \<Rightarrow> Some v | None \<Rightarrow> stamp)"

section \<open>Reading the queue's file\<close>

definition ticket_ok :: "json \<Rightarrow> bool" where
  "ticket_ok t \<longleftrightarrow> is_obj t \<and> as_int (jget t ''n'') \<noteq> None
     \<and> (\<forall>k \<in> set [''fleet'', ''bot'']. is_str (jget t k))
     \<and> (\<forall>k \<in> set [''since'', ''seen'']. as_num (jget t k) \<noteq> None)"

definition ticket_of :: "json \<Rightarrow> ticket" where
  "ticket_of t = \<lparr>tk_n = the (as_int (jget t ''n'')), tk_fleet = the (as_str (jget t ''fleet'')),
     tk_bot = the (as_str (jget t ''bot'')), tk_tool = jget t ''tool'',
     tk_since = the (as_num (jget t ''since'')), tk_seen = the (as_num (jget t ''seen''))\<rparr>"

definition queue_of :: "json \<Rightarrow> queue" where
  "queue_of rec =
     (case (as_int (jget rec ''next''), as_arr (jget rec ''tickets'')) of
        (Some nx, Some ts) \<Rightarrow> \<lparr>qu_next = nx, qu_tickets = map ticket_of (filter ticket_ok ts)\<rparr>
      | _ \<Rightarrow> \<lparr>qu_next = 1, qu_tickets = []\<rparr>)"

text \<open>What \<open>_decide\<close> writes: \<open>json.dumps\<close> of the queue.\<close>

definition json_of_ticket :: "ticket \<Rightarrow> json" where
  "json_of_ticket t = JObj [(''n'', JInt (tk_n t)), (''fleet'', JStr (tk_fleet t)),
     (''bot'', JStr (tk_bot t)), (''tool'', tk_tool t), (''since'', JFloat (tk_since t)),
     (''seen'', JFloat (tk_seen t))]"

definition json_of_queue :: "queue \<Rightarrow> json" where
  "json_of_queue q = JObj [(''v'', JInt 1), (''next'', JInt (qu_next q)),
     (''tickets'', JArr (map json_of_ticket (qu_tickets q)))]"

section \<open>One caller's decision\<close>

definition free_recs :: "slot_row list \<Rightarrow> slot_rec list" where
  "free_recs slots = map (\<lambda>(_, _, r). r) (filter (\<lambda>(_, held, _). \<not> held) slots)"

text \<open>When the longest-free slot came free; only asked when some slot is free.\<close>

definition free_since :: "slot_rec list \<Rightarrow> rat" where
  "free_since free = foldr min
     (map (\<lambda>r. case epoch_of (sr_released_epoch r) (sr_released_at r) of Some v \<Rightarrow> v | None \<Rightarrow> 0)
       (tl free))
     (case free of [] \<Rightarrow> 0
      | r # _ \<Rightarrow> (case epoch_of (sr_released_epoch r) (sr_released_at r) of Some v \<Rightarrow> v | None \<Rightarrow> 0))"

definition silent_for :: "rat \<Rightarrow> rat \<Rightarrow> ticket \<Rightarrow> rat" where
  "silent_for now since t = now - max (tk_seen t) since"

definition live :: "ticket list \<Rightarrow> slot_row list \<Rightarrow> rat \<Rightarrow> int \<Rightarrow> ticket list \<times> (ticket \<times> int) list" where
  "live tickets slots now idle =
     (let free = free_recs slots in
      if free = [] then (tickets, [])
      else let since = free_since free in
        (filter (\<lambda>t. silent_for now since t \<le> of_int idle) tickets,
         map (\<lambda>t. (t, py_int (silent_for now since t)))
           (filter (\<lambda>t. \<not> silent_for now since t \<le> of_int idle) tickets)))"

definition takes :: "slot_row list \<Rightarrow> (rat \<times> string) list" where
  "takes slots = concat (map (\<lambda>(_, _, r).
     case epoch_of (sr_started_epoch r) (sr_started_at r) of
       None \<Rightarrow> []
     | Some start \<Rightarrow> [(start, case sr_fleet r of Some f \<Rightarrow> f | None \<Rightarrow> [])]) slots)"

definition last_fleet :: "slot_row list \<Rightarrow> string option" where
  "last_fleet slots = (case takes slots of [] \<Rightarrow> None | x # xs \<Rightarrow> Some (snd (fold max xs x)))"

text \<open>
  \<open>_served\<close>: oldest first, except that the oldest ticket from a fleet other than the last
  taker's goes ahead. The list carries a mark beside each ticket: the code tells the
  caller's own ticket by object identity (\<open>t is mine\<close>), which a mark models.
\<close>

definition served :: "(bool \<times> ticket) list \<Rightarrow> string option \<Rightarrow> (bool \<times> ticket) list" where
  "served lv lf =
     (let order = sort_key (\<lambda>mt. tk_n (snd mt)) lv in
      case lf of None \<Rightarrow> order
      | Some f \<Rightarrow> (case find_index (\<lambda>mt. tk_fleet (snd mt) \<noteq> f) order of
                    None \<Rightarrow> order | Some i \<Rightarrow> to_front i order))"

text \<open>Mark the first element that satisfies \<open>P\<close>: \<open>next((t for t in live if ...), None)\<close>.\<close>

fun mark_first :: "(ticket \<Rightarrow> bool) \<Rightarrow> ticket list \<Rightarrow> (bool \<times> ticket) list" where
  "mark_first P [] = []"
| "mark_first P (t # ts) = (if P t then (True, t) # map (Pair False) ts
                            else (False, t) # mark_first P ts)"

definition is_for :: "string \<times> string \<Rightarrow> ticket \<Rightarrow> bool" where
  "is_for me t \<longleftrightarrow> (tk_fleet t, tk_bot t) = me"

record decision =
  de_may :: bool
  de_mine :: ticket
  de_queued :: bool
  de_order :: "(bool \<times> ticket) list"
  de_dropped :: "(ticket \<times> int) list"

definition touch :: "rat \<Rightarrow> bool \<times> ticket \<Rightarrow> bool \<times> ticket" where
  "touch now mt = (if fst mt then (True, (snd mt)\<lparr>tk_seen := of_int (py_int now)\<rparr>) else mt)"

definition take_turn ::
    "queue \<Rightarrow> slot_row list \<Rightarrow> string \<times> string \<Rightarrow> string \<Rightarrow> rat \<Rightarrow> int \<Rightarrow> decision" where
  "take_turn q slots me tool now idle =
     (let (lv, dropped) = live (qu_tickets q) slots now idle;
          queued = (\<exists>t \<in> set lv. is_for me t);
          marked = (if queued then mark_first (is_for me) lv
            else map (Pair False) lv @
              [(True, \<lparr>tk_n = qu_next q, tk_fleet = fst me, tk_bot = snd me, tk_tool = JStr tool,
                 tk_since = of_int (py_int now), tk_seen = of_int (py_int now)\<rparr>)]);
          order = served (map (touch now) marked) (last_fleet slots);
          free = length (free_recs slots)
      in \<lparr>de_may = (\<exists>mt \<in> set (take free order). fst mt),
          de_mine = snd (hd (filter fst order)), de_queued = queued,
          de_order = order, de_dropped = dropped\<rparr>)"

text \<open>
  \<open>settle\<close>: the caller's ticket stays while it is needed. \<open>ahead\<close>: the call goes ahead;
  \<open>take\<close>: the caller is the wrapper, which takes the slot itself.
\<close>

definition settle :: "queue \<Rightarrow> decision \<Rightarrow> bool \<Rightarrow> bool \<Rightarrow> queue" where
  "settle q d ahead tk =
     (let keep = (\<not> ahead \<or> (de_queued d \<and> \<not> tk)) in
      \<lparr>qu_next = (if keep \<and> \<not> de_queued d then tk_n (de_mine d) + 1 else qu_next q),
       qu_tickets = map snd (if keep then de_order d
                             else filter (\<lambda>mt. \<not> fst mt) (de_order d))\<rparr>)"

section \<open>The order of service\<close>

lemma insort_key_map:
  "insort_key k (f x) (map f xs) = map f (insort_key (\<lambda>y. k (f y)) x xs)"
  by (induction xs) auto

lemma sort_key_map: "sort_key k (map f xs) = map f (sort_key (\<lambda>y. k (f y)) xs)"
  by (induction xs) (simp_all add: insort_key_map)

lemma find_index_map: "find_index P (map f xs) = find_index (\<lambda>y. P (f y)) xs"
  by (induction xs) auto

lemma to_front_map: "to_front i (map f xs) = map f (to_front i xs)"
  by (simp add: to_front_def take_map drop_map)

lemma served_map:
  assumes "\<And>mt. tk_n (snd (f mt)) = tk_n (snd mt)" and "\<And>mt. tk_fleet (snd (f mt)) = tk_fleet (snd mt)"
  shows "served (map f lv) lf = map f (served lv lf)"
  by (simp add: served_def Let_def sort_key_map find_index_map to_front_map assms
      split: option.splits)

lemma mset_served [simp, perm_facts]: "mset (served lv lf) = mset lv"
  by (simp add: served_def Let_def split: option.splits)

text \<open>
  The interface the decision uses: an order of service only rearranges the tickets.
\<close>

locale service_order =
  fixes ord :: "(bool \<times> ticket) list \<Rightarrow> string option \<Rightarrow> (bool \<times> ticket) list"
  assumes ord_perm: "mset (ord lv lf) = mset lv"
begin

lemma ord_set: "set (ord lv lf) = set lv"
  by (rule mset_eq_set [OF ord_perm])

lemma ord_length: "length (ord lv lf) = length lv"
  by (rule mset_eq_length [OF ord_perm])

lemma ord_marks: "length (filter fst (ord lv lf)) = length (filter fst lv)"
  using ord_perm [of lv lf] by (metis mset_filter size_mset)

lemma ord_unmarked: "mset (filter (\<lambda>mt. \<not> fst mt) (ord lv lf)) = mset (filter (\<lambda>mt. \<not> fst mt) lv)"
  using ord_perm [of lv lf] by (metis mset_filter)

lemma ord_the_mark:
  assumes "filter fst lv = [mt]"
  shows "filter fst (ord lv lf) = [mt]"
proof -
  have "mset (filter fst (ord lv lf)) = mset (filter fst lv)"
    using ord_perm [of lv lf] by (metis mset_filter)
  with assms show ?thesis by (simp add: mset_singleton_list del: mset_filter)
qed

end

interpretation serv: service_order served
  by unfold_locales simp

section \<open>Marks\<close>

lemma map_snd_mark_first [simp]: "map snd (mark_first P ts) = ts"
  by (induction ts) (auto simp: comp_def)

lemma mark_first_one: "\<exists>t \<in> set ts. P t \<Longrightarrow> \<exists>t \<in> set ts. P t \<and> filter fst (mark_first P ts) = [(True, t)]"
  by (induction ts) (auto simp: filter_map comp_def)

lemma mark_first_distinct:
  assumes "distinct (map f ts)" and "\<And>t. P t \<longleftrightarrow> f t = me"
  shows "mark_first P ts = map (\<lambda>t. (P t, t)) ts"
  using assms(1)
proof (induction ts)
  case (Cons t ts)
  show ?case
  proof (cases "P t")
    case True
    with Cons.prems have "f u \<noteq> f t" if "u \<in> set ts" for u
      using that by (simp add: image_iff) metis
    with True have "\<forall>u \<in> set ts. \<not> P u" by (simp add: assms(2))
    with True show ?thesis by simp
  qed (use Cons in simp)
qed simp

section \<open>Who still waits\<close>

lemma live_subseq: "fst (live ts slots now idle) = filter (\<lambda>t. free_recs slots = [] \<or>
    silent_for now (free_since (free_recs slots)) t \<le> of_int idle) ts"
  by (simp add: live_def Let_def)

lemma live_dropped: "map fst (snd (live ts slots now idle)) = filter (\<lambda>t. \<not> (free_recs slots = [] \<or>
    silent_for now (free_since (free_recs slots)) t \<le> of_int idle)) ts"
  by (simp add: live_def Let_def comp_def)

lemma live_partition:
  "mset (fst (live ts slots now idle)) + mset (map fst (snd (live ts slots now idle))) = mset ts"
  unfolding live_dropped live_subseq mset_filter by (rule multiset_partition [symmetric])

lemma live_all_held: "free_recs slots = [] \<Longrightarrow> live ts slots now idle = (ts, [])"
  by (simp add: live_def)

lemma live_dropped_silent:
  "(t, k) \<in> set (snd (live ts slots now idle)) \<Longrightarrow> 0 < idle \<Longrightarrow>
   of_int idle < now - tk_seen t \<and> of_int idle < now - free_since (free_recs slots)
     \<and> free_recs slots \<noteq> []"
  by (auto simp: live_def Let_def silent_for_def max_def split: if_splits)

section \<open>The invariant of the queue\<close>

definition queue_wf :: "queue \<Rightarrow> bool" where
  "queue_wf q \<longleftrightarrow> distinct (map tk_n (qu_tickets q))
     \<and> (\<forall>t \<in> set (qu_tickets q). tk_n t < qu_next q)
     \<and> distinct (map (\<lambda>t. (tk_fleet t, tk_bot t)) (qu_tickets q))"

definition turn_marked ::
    "queue \<Rightarrow> slot_row list \<Rightarrow> string \<times> string \<Rightarrow> string \<Rightarrow> rat \<Rightarrow> int \<Rightarrow> (bool \<times> ticket) list" where
  "turn_marked q slots me tool now idle =
     (let lv = fst (live (qu_tickets q) slots now idle) in
      if \<exists>t \<in> set lv. is_for me t then mark_first (is_for me) lv
      else map (Pair False) lv @
        [(True, \<lparr>tk_n = qu_next q, tk_fleet = fst me, tk_bot = snd me, tk_tool = JStr tool,
           tk_since = of_int (py_int now), tk_seen = of_int (py_int now)\<rparr>)])"

lemma take_turn_order:
  "de_order (take_turn q slots me tool now idle) =
   served (map (touch now) (turn_marked q slots me tool now idle)) (last_fleet slots)"
  by (simp add: take_turn_def turn_marked_def Let_def split_def)

lemma take_turn_queued:
  "de_queued (take_turn q slots me tool now idle) \<longleftrightarrow>
   (\<exists>t \<in> set (fst (live (qu_tickets q) slots now idle)). is_for me t)"
  by (simp add: take_turn_def Let_def split_def)

lemma touch_keeps [simp]:
  "tk_n (snd (touch now mt)) = tk_n (snd mt)" "tk_fleet (snd (touch now mt)) = tk_fleet (snd mt)"
  "tk_bot (snd (touch now mt)) = tk_bot (snd mt)" "fst (touch now mt) = fst mt"
  by (simp_all add: touch_def)

lemma filter_touch: "filter fst (map (touch now) lv) = map (touch now) (filter fst lv)"
  by (simp add: filter_map comp_def)

lemma turn_marked_one:
  "\<exists>t. filter fst (turn_marked q slots me tool now idle) = [(True, t)] \<and> is_for me t"
proof (cases "\<exists>t \<in> set (fst (live (qu_tickets q) slots now idle)). is_for me t")
  case True
  from mark_first_one [OF True] True show ?thesis
    by (auto simp: turn_marked_def Let_def)
next
  case False
  then show ?thesis
    by (simp add: turn_marked_def Let_def filter_map comp_def is_for_def)
qed

lemma take_turn_mine:
  "\<exists>t. filter fst (de_order (take_turn q slots me tool now idle)) =
     [(True, de_mine (take_turn q slots me tool now idle))]
   \<and> filter fst (turn_marked q slots me tool now idle) = [(True, t)]
   \<and> de_mine (take_turn q slots me tool now idle) = t\<lparr>tk_seen := of_int (py_int now)\<rparr>
   \<and> is_for me t"
proof -
  from turn_marked_one obtain t where t: "filter fst (turn_marked q slots me tool now idle) = [(True, t)]"
    "is_for me t" by blast
  then have "filter fst (map (touch now) (turn_marked q slots me tool now idle))
      = [(True, t\<lparr>tk_seen := of_int (py_int now)\<rparr>)]"
    by (simp add: filter_touch touch_def)
  note o = serv.ord_the_mark [OF this, of "last_fleet slots"]
  moreover have "de_mine (take_turn q slots me tool now idle)
      = snd (hd (filter fst (de_order (take_turn q slots me tool now idle))))"
    by (simp add: take_turn_def Let_def split_def)
  ultimately show ?thesis using t by (simp add: take_turn_order)
qed

definition tk_id :: "ticket \<Rightarrow> string \<times> string" where
  "tk_id t = (tk_fleet t, tk_bot t)"

definition tickets_ok :: "int \<Rightarrow> ticket list \<Rightarrow> bool" where
  "tickets_ok nx ts \<longleftrightarrow> distinct (map tk_n ts) \<and> (\<forall>k \<in> set (map tk_n ts). k < nx)
     \<and> distinct (map tk_id ts)"

lemma queue_wf_tickets: "queue_wf q \<longleftrightarrow> tickets_ok (qu_next q) (qu_tickets q)"
proof -
  have "(\<lambda>t. (tk_fleet t, tk_bot t)) = tk_id" by (simp add: fun_eq_iff tk_id_def)
  then show ?thesis by (simp add: queue_wf_def tickets_ok_def)
qed

lemma tickets_ok_perm: "mset ts = mset us \<Longrightarrow> tickets_ok nx ts = tickets_ok nx us"
proof -
  assume m: "mset ts = mset us"
  from mset_eq_set [OF m] distinct_map_mset_eq [OF m, of tk_n] distinct_map_mset_eq [OF m, of tk_id]
  show ?thesis by (simp add: tickets_ok_def)
qed

lemma tickets_ok_keys:
  "map tk_n ts = map tk_n us \<Longrightarrow> map tk_id ts = map tk_id us \<Longrightarrow> tickets_ok nx ts = tickets_ok nx us"
  by (simp add: tickets_ok_def)

lemma tickets_ok_filter: "tickets_ok nx ts \<Longrightarrow> tickets_ok nx (filter P ts)"
  by (auto simp: tickets_ok_def distinct_map_filter)

lemma tickets_ok_snoc:
  "tickets_ok nx ts \<Longrightarrow> \<forall>t \<in> set ts. tk_id t \<noteq> tk_id u \<Longrightarrow> tk_n u = nx \<Longrightarrow> tickets_ok (nx + 1) (ts @ [u])"
  by (fastforce simp: tickets_ok_def)

lemma tickets_ok_later: "tickets_ok nx ts \<Longrightarrow> nx \<le> ny \<Longrightarrow> tickets_ok ny ts"
  by (fastforce simp: tickets_ok_def)

lemma touched_keys:
  "map tk_n (map snd (map (touch now) lv)) = map tk_n (map snd lv)"
  "map tk_id (map snd (map (touch now) lv)) = map tk_id (map snd lv)"
  by (simp_all add: tk_id_def comp_def)

lemma turn_marked_ok:
  assumes "queue_wf q"
  shows "tickets_ok (if de_queued (take_turn q slots me tool now idle) then qu_next q
           else qu_next q + 1) (map snd (turn_marked q slots me tool now idle))"
proof -
  let ?lv = "fst (live (qu_tickets q) slots now idle)"
  from assms have lv: "tickets_ok (qu_next q) ?lv"
    by (simp add: queue_wf_tickets live_subseq tickets_ok_filter)
  show ?thesis
  proof (cases "\<exists>t \<in> set ?lv. is_for me t")
    case True
    with lv show ?thesis by (simp add: take_turn_queued turn_marked_def)
  next
    case False
    then have "\<forall>t \<in> set ?lv. tk_id t \<noteq> me" by (auto simp: is_for_def tk_id_def)
    with lv False show ?thesis
      by (simp add: take_turn_queued turn_marked_def comp_def)
         (rule tickets_ok_snoc, simp_all add: tk_id_def)
  qed
qed

lemma order_ok:
  assumes "queue_wf q"
  shows "tickets_ok (if de_queued (take_turn q slots me tool now idle) then qu_next q
           else qu_next q + 1) (map snd (de_order (take_turn q slots me tool now idle)))"
proof -
  let ?m = "turn_marked q slots me tool now idle"
  have "mset (map snd (de_order (take_turn q slots me tool now idle))) = mset (map snd (map (touch now) ?m))"
    by (simp only: take_turn_order mset_map mset_served)
  from tickets_ok_perm [OF this] tickets_ok_keys [OF touched_keys] turn_marked_ok [OF assms]
  show ?thesis by metis
qed

lemma filter_unmarked_ok:
  "tickets_ok nx (map snd lv) \<Longrightarrow> tickets_ok nx (map snd (filter P lv))"
  by (induction lv) (auto simp: tickets_ok_def image_iff)

lemma others_ok:
  assumes "queue_wf q"
  shows "tickets_ok (qu_next q) (map snd (filter (\<lambda>mt. \<not> fst mt) (de_order (take_turn q slots me tool now idle))))"
proof -
  let ?m = "turn_marked q slots me tool now idle"
  have 1: "mset (map snd (filter (\<lambda>mt. \<not> fst mt) (served (map (touch now) ?m) (last_fleet slots))))
      = mset (map snd (filter (\<lambda>mt. \<not> fst mt) (map (touch now) ?m)))"
    by (simp only: mset_map serv.ord_unmarked)
  have 2: "map snd (filter (\<lambda>mt. \<not> fst mt) (map (touch now) ?m)) = map snd (filter (\<lambda>mt. \<not> fst mt) ?m)"
    by (simp add: filter_map comp_def touch_def cong: filter_cong map_cong)
  have 3: "tickets_ok (qu_next q) (map snd (filter (\<lambda>mt. \<not> fst mt) ?m))"
  proof (cases "de_queued (take_turn q slots me tool now idle)")
    case True
    with turn_marked_ok [OF assms, of slots me tool now idle] show ?thesis
      by (simp add: filter_unmarked_ok)
  next
    case False
    then have "map snd (filter (\<lambda>mt. \<not> fst mt) ?m) = fst (live (qu_tickets q) slots now idle)"
      by (simp add: take_turn_queued turn_marked_def filter_map comp_def)
    with assms show ?thesis by (simp add: queue_wf_tickets live_subseq tickets_ok_filter)
  qed
  from 3 have "tickets_ok (qu_next q) (map snd (filter (\<lambda>mt. \<not> fst mt) (map (touch now) ?m)))"
    by (simp only: 2)
  with tickets_ok_perm [OF 1] show ?thesis by (simp only: take_turn_order)
qed

lemma mine_number:
  "\<not> de_queued (take_turn q slots me tool now idle) \<Longrightarrow> tk_n (de_mine (take_turn q slots me tool now idle)) = qu_next q"
proof -
  assume nq: "\<not> de_queued (take_turn q slots me tool now idle)"
  from take_turn_mine [of q slots me tool now idle] obtain t where
    t: "filter fst (turn_marked q slots me tool now idle) = [(True, t)]"
      "de_mine (take_turn q slots me tool now idle) = t\<lparr>tk_seen := of_int (py_int now)\<rparr>" by blast
  with nq have "tk_n t = qu_next q"
    by (auto simp: take_turn_queued turn_marked_def filter_map comp_def)
  with t(2) show ?thesis by simp
qed

lemma settle_wf [inv_intros]:
  assumes "queue_wf q"
  shows "queue_wf (settle q (take_turn q slots me tool now idle) ahead tk)"
  using order_ok [OF assms, of slots me tool now idle] others_ok [OF assms, of slots me tool now idle]
  by (auto simp: settle_def Let_def queue_wf_tickets mine_number)

section \<open>Who is served, and when\<close>

text \<open>The order of service as a function of the tickets' numbers and owners alone.\<close>

definition tk_key :: "ticket \<Rightarrow> int \<times> string \<times> string" where
  "tk_key t = (tk_n t, tk_id t)"

definition served_keys :: "(int \<times> string \<times> string) list \<Rightarrow> string option \<Rightarrow> (int \<times> string \<times> string) list" where
  "served_keys ks lf =
     (let order = sort_key fst ks in
      case lf of None \<Rightarrow> order
      | Some f \<Rightarrow> (case find_index (\<lambda>k. fst (snd k) \<noteq> f) order of
                    None \<Rightarrow> order | Some i \<Rightarrow> to_front i order))"

lemma served_served_keys:
  "map (\<lambda>mt. tk_key (snd mt)) (served lv lf) = served_keys (map (\<lambda>mt. tk_key (snd mt)) lv) lf"
  by (simp add: served_def served_keys_def Let_def sort_key_map find_index_map to_front_map
      tk_key_def tk_id_def split: option.splits)

lemma order_keys:
  "map (\<lambda>mt. tk_key (snd mt)) (de_order (take_turn q slots me tool now idle)) =
   served_keys (map (\<lambda>t. tk_key t) (map snd (turn_marked q slots me tool now idle))) (last_fleet slots)"
  unfolding take_turn_order served_served_keys by (simp add: comp_def tk_key_def tk_id_def)

lemma turn_marked_queued:
  "de_queued (take_turn q slots me tool now idle) \<Longrightarrow>
   map snd (turn_marked q slots me tool now idle) = fst (live (qu_tickets q) slots now idle)"
  by (simp add: take_turn_queued turn_marked_def)

lemma take_turn_may:
  "de_may (take_turn q slots me tool now idle) \<longleftrightarrow>
   (\<exists>mt \<in> set (take (length (free_recs slots)) (de_order (take_turn q slots me tool now idle))). fst mt)"
  by (simp add: take_turn_def Let_def split_def)

lemma order_mark_is_me:
  "mt \<in> set (de_order (take_turn q slots me tool now idle)) \<Longrightarrow> fst mt \<Longrightarrow> tk_id (snd mt) = me"
proof -
  assume "mt \<in> set (de_order (take_turn q slots me tool now idle))" "fst mt"
  then have "mt \<in> set (filter fst (de_order (take_turn q slots me tool now idle)))" by simp
  with take_turn_mine [of q slots me tool now idle] show ?thesis
    by (auto simp: is_for_def tk_id_def)
qed

text \<open>
  However many callers ask, no more of the queued ones are told to go than there are free
  slots: each one told to go owns one of the first places.
\<close>

lemma may_is_first:
  assumes "de_queued (take_turn q slots me tool now idle)" "de_may (take_turn q slots me tool now idle)"
  shows "me \<in> set (map snd (take (length (free_recs slots))
           (served_keys (map tk_key (fst (live (qu_tickets q) slots now idle))) (last_fleet slots))))"
proof -
  let ?o = "de_order (take_turn q slots me tool now idle)" and ?f = "length (free_recs slots)"
  from assms(2) obtain mt where mt: "mt \<in> set (take ?f ?o)" "fst mt"
    by (auto simp: take_turn_may)
  then have "tk_id (snd mt) = me" by (auto dest: in_set_takeD order_mark_is_me)
  moreover from mt have "tk_key (snd mt) \<in> set (take ?f (map (\<lambda>mt. tk_key (snd mt)) ?o))"
    by (auto simp: take_map)
  ultimately show ?thesis
    unfolding order_keys turn_marked_queued [OF assms(1)]
    by (auto simp: tk_key_def image_iff intro!: bexI [of _ "tk_key (snd mt)"])
qed

lemma admitted_at_most_free:
  "finite {me. de_queued (take_turn q slots me tool now idle) \<and> de_may (take_turn q slots me tool now idle)}
   \<and> card {me. de_queued (take_turn q slots me tool now idle) \<and> de_may (take_turn q slots me tool now idle)}
     \<le> length (free_recs slots)"
proof -
  let ?A = "{me. de_queued (take_turn q slots me tool now idle) \<and> de_may (take_turn q slots me tool now idle)}"
  let ?l = "map snd (take (length (free_recs slots))
           (served_keys (map tk_key (fst (live (qu_tickets q) slots now idle))) (last_fleet slots)))"
  have sub: "?A \<subseteq> set ?l" using may_is_first by auto
  then have "card ?A \<le> card (set ?l)" by (intro card_mono) auto
  also have "\<dots> \<le> length ?l" by (rule card_length)
  also have "\<dots> \<le> length (free_recs slots)" by simp
  finally show ?thesis using finite_subset [OF sub] by simp
qed

text \<open>The oldest key is first in the sorted list, and first in the order of service unless
  its fleet took last.\<close>

lemma sort_key_hd_min:
  assumes "x \<in> set xs" "\<forall>y \<in> set xs. y \<noteq> x \<longrightarrow> k x < k y"
  shows "hd (sort_key k xs) = x \<and> sort_key k xs \<noteq> []"
proof -
  from assms(1) have ne: "sort_key k xs \<noteq> []" using set_sort [of k xs] by force
  then have h: "hd (sort_key k xs) \<in> set xs" by (metis hd_in_set set_sort)
  have "sorted (map k (sort_key k xs))" by simp
  with ne assms(1) have "k (hd (sort_key k xs)) \<le> k x"
    by (cases "sort_key k xs") (auto simp: set_sort [of k xs, symmetric] simp del: set_sort)
  with h assms(2) ne show ?thesis by force
qed

lemma served_keys_oldest:
  assumes "x \<in> set ks" "\<forall>y \<in> set ks. y \<noteq> x \<longrightarrow> fst x < fst y"
  shows "lf \<noteq> Some (fst (snd x)) \<Longrightarrow> hd (served_keys ks lf) = x"
    and "hd (served_keys ks lf) \<noteq> x \<Longrightarrow> fst (snd (hd (served_keys ks lf))) \<noteq> fst (snd x)"
proof -
  let ?o = "sort_key fst ks"
  from sort_key_hd_min [OF assms, of ] have h: "hd ?o = x" "?o \<noteq> []" by auto
  then obtain os where o: "?o = x # os" by (cases ?o) auto
  show "hd (served_keys ks lf) = x" if "lf \<noteq> Some (fst (snd x))"
    using that o by (auto simp: served_keys_def Let_def to_front_def split: option.splits)
  show "fst (snd (hd (served_keys ks lf))) \<noteq> fst (snd x)" if "hd (served_keys ks lf) \<noteq> x"
  proof (cases lf)
    case None
    with that o show ?thesis by (simp add: served_keys_def)
  next
    case (Some f)
    show ?thesis
    proof (cases "find_index (\<lambda>k. fst (snd k) \<noteq> f) ?o")
      case None
      with that o Some show ?thesis by (simp add: served_keys_def)
    next
      case (Some i)
      note fi = find_index_Some [OF Some]
      with \<open>lf = Some f\<close> Some have hd: "hd (served_keys ks lf) = ?o ! i"
        by (simp add: served_keys_def Let_def to_front_def)
      moreover from hd that o have "i \<noteq> 0" by (cases i) auto
      moreover from \<open>i \<noteq> 0\<close> fi o have "fst (snd x) = f" by auto
      ultimately show ?thesis using fi by simp
    qed
  qed
qed

section \<open>A refused caller keeps its place\<close>

lemma is_for_iff_id: "is_for me t \<longleftrightarrow> tk_id t = me"
  by (simp add: is_for_def tk_id_def)

lemma mine_is_first:
  assumes "distinct (map tk_id (fst (live (qu_tickets q) slots now idle)))"
    and "t \<in> set (fst (live (qu_tickets q) slots now idle))" and "is_for me t"
  shows "de_queued (take_turn q slots me tool now idle)"
    and "de_mine (take_turn q slots me tool now idle) = t\<lparr>tk_seen := of_int (py_int now)\<rparr>"
proof -
  let ?lv = "fst (live (qu_tickets q) slots now idle)"
  show q: "de_queued (take_turn q slots me tool now idle)"
    using assms(2,3) by (auto simp: take_turn_queued)
  have mk: "turn_marked q slots me tool now idle = map (\<lambda>t. (is_for me t, t)) ?lv"
    using q mark_first_distinct [OF assms(1), of "is_for me" me]
    by (simp add: turn_marked_def take_turn_queued is_for_iff_id)
  from take_turn_mine [of q slots me tool now idle] obtain u where
    u: "filter fst (turn_marked q slots me tool now idle) = [(True, u)]"
      "de_mine (take_turn q slots me tool now idle) = u\<lparr>tk_seen := of_int (py_int now)\<rparr>" by blast
  have "(True, t) \<in> set (filter fst (turn_marked q slots me tool now idle))"
    using assms(2,3) by (force simp: mk)
  then have "u = t" by (simp add: u(1))
  with u(2) show "de_mine (take_turn q slots me tool now idle) = t\<lparr>tk_seen := of_int (py_int now)\<rparr>"
    by simp
qed

lemma refused_keeps_ticket:
  fixes idle :: int
  assumes wf: "queue_wf q"
    and d: "d = take_turn q slots me tool now idle"
    and wait: "free_recs slots' = []
      \<or> now' - max (of_int (py_int now)) (free_since (free_recs slots')) \<le> of_int idle"
  shows "de_queued (take_turn (settle q d False tk) slots' me tool' now' idle)
    \<and> tk_n (de_mine (take_turn (settle q d False tk) slots' me tool' now' idle)) = tk_n (de_mine d)
    \<and> tk_since (de_mine (take_turn (settle q d False tk) slots' me tool' now' idle)) = tk_since (de_mine d)"
proof -
  let ?q = "settle q d False tk" and ?t = "de_mine d"
  let ?lv = "fst (live (qu_tickets ?q) slots' now' idle)"
  from settle_wf [OF wf] have wf': "queue_wf ?q" by (simp add: d)
  from take_turn_mine [of q slots me tool now idle] obtain u where
    u: "filter fst (de_order d) = [(True, ?t)]" "?t = u\<lparr>tk_seen := of_int (py_int now)\<rparr>" "is_for me u"
    by (auto simp: d)
  then have "(True, ?t) \<in> set (de_order d)" by (metis (mono_tags, lifting) filter_set list.set_intros(1) mem_Collect_eq set_filter)
  then have "?t \<in> set (qu_tickets ?q)" by (force simp: settle_def)
  moreover have "tk_seen ?t = of_int (py_int now)" using u(2) by (metis ticket.select_convs(6) ticket.surjective ticket.update_convs(6))
  ultimately have t: "?t \<in> set ?lv" using wait by (auto simp: live_subseq silent_for_def)
  have "is_for me ?t" using u(2,3) by (simp add: is_for_def)
  moreover have "distinct (map tk_id ?lv)"
    using wf' by (simp add: queue_wf_tickets tickets_ok_def live_subseq distinct_map_filter)
  ultimately show ?thesis using mine_is_first [OF _ t] by simp
qed

section \<open>The file\<close>

lemma ticket_json_ok [simp]: "ticket_ok (json_of_ticket t)"
  by (simp add: ticket_ok_def json_of_ticket_def)

lemma ticket_of_json [simp]: "ticket_of (json_of_ticket t) = t"
  by (simp add: ticket_of_def json_of_ticket_def)

lemma queue_of_json: "queue_of (json_of_queue q) = q"
  by (simp add: queue_of_def json_of_queue_def comp_def filter_map)

end
