(* ===== verification/Py_Text.thy ===== *)
theory Py_Text
  imports Prelude
begin

text \<open>
  Python's reading of characters and decimal text, over the code points U+0000 to U+00FF:
  \<open>isalpha\<close>, \<open>isalnum\<close>, the regular expressions' \<open>\\w\<close>, blanks, \<open>str.strip\<close>,
  \<open>str.split\<close>, \<open>str.find\<close> and \<open>int(text)\<close>.
\<close>

section \<open>Characters\<close>

definition code :: "char \<Rightarrow> nat" where
  "code c = of_char c"

definition is_letter :: "char \<Rightarrow> bool" where
  "is_letter c \<longleftrightarrow> (65 \<le> code c \<and> code c \<le> 90) \<or> (97 \<le> code c \<and> code c \<le> 122)
     \<or> code c \<in> {170, 181, 186} \<or> (192 \<le> code c \<and> code c \<noteq> 215 \<and> code c \<noteq> 247)"

definition is_ascii_letter :: "char \<Rightarrow> bool" where
  "is_ascii_letter c \<longleftrightarrow> (65 \<le> code c \<and> code c \<le> 90) \<or> (97 \<le> code c \<and> code c \<le> 122)"

definition is_digit :: "char \<Rightarrow> bool" where
  "is_digit c \<longleftrightarrow> 48 \<le> code c \<and> code c \<le> 57"

definition is_space :: "char \<Rightarrow> bool" where
  "is_space c \<longleftrightarrow> code c \<in> {9, 10, 11, 12, 13, 28, 29, 30, 31, 32, 133, 160}"

definition is_alnum :: "char \<Rightarrow> bool" where
  "is_alnum c \<longleftrightarrow> is_letter c \<or> is_digit c \<or> code c \<in> {178, 179, 185, 188, 189, 190}"

text \<open>\<open>\\w\<close>, and the identifier characters of \<open>[A-Za-z0-9_]\<close>.\<close>

definition is_word_char :: "char \<Rightarrow> bool" where
  "is_word_char c \<longleftrightarrow> is_alnum c \<or> c = CHR ''_''"

definition is_ident_start :: "char \<Rightarrow> bool" where
  "is_ident_start c \<longleftrightarrow> is_ascii_letter c \<or> c = CHR ''_''"

definition is_ident_char :: "char \<Rightarrow> bool" where
  "is_ident_char c \<longleftrightarrow> is_ident_start c \<or> is_digit c"

definition is_hex :: "char \<Rightarrow> bool" where
  "is_hex c \<longleftrightarrow> is_digit c \<or> (97 \<le> code c \<and> code c \<le> 102)"

text \<open>\<open>[0-9a-f]{32}\<close>.\<close>

definition hex32 :: "string \<Rightarrow> bool" where
  "hex32 s \<longleftrightarrow> length s = 32 \<and> (\<forall>c \<in> set s. is_hex c)"

section \<open>Text\<close>

definition strip :: "string \<Rightarrow> string" where
  "strip s = rev (dropWhile is_space (rev (dropWhile is_space s)))"

text \<open>\<open>s.find(c, i)\<close>.\<close>

definition find_from :: "char \<Rightarrow> string \<Rightarrow> nat \<Rightarrow> nat option" where
  "find_from c s i = map_option (\<lambda>k. i + k) (find_index (\<lambda>x. x = c) (drop i s))"

text \<open>\<open>s.split()\<close>: the runs of characters that are no blanks.\<close>

fun split_ws :: "string \<Rightarrow> string \<Rightarrow> string list" where
  "split_ws w [] = (if w = [] then [] else [w])"
| "split_ws w (c # cs) =
     (if is_space c then (if w = [] then split_ws [] cs else w # split_ws [] cs)
      else split_ws (w @ [c]) cs)"

text \<open>Python's \<open>int(text)\<close> for decimal text: blanks around it, a sign, digits with single
  underscores between them.\<close>

fun digits_value :: "int \<Rightarrow> string \<Rightarrow> int option" where
  "digits_value acc [] = Some acc"
| "digits_value acc (c # cs) =
     (if is_digit c then digits_value (10 * acc + (int (code c) - 48)) cs
      else case cs of d # ds \<Rightarrow> (if c = CHR ''_'' \<and> is_digit d then digits_value acc cs else None)
         | [] \<Rightarrow> None)"

definition unsigned_value :: "string \<Rightarrow> int option" where
  "unsigned_value s = (case s of [] \<Rightarrow> None | c # _ \<Rightarrow> if is_digit c then digits_value 0 s else None)"

definition py_parse_int :: "string \<Rightarrow> int option" where
  "py_parse_int text =
     (case strip text of
        [] \<Rightarrow> None
      | c # cs \<Rightarrow> if c = CHR ''-'' then map_option uminus (unsigned_value cs)
                 else if c = CHR ''+'' then unsigned_value cs
                 else unsigned_value (c # cs))"

lemma find_from_Some:
  "find_from c s i = Some j \<Longrightarrow> i \<le> j \<and> j < length s \<and> s ! j = c"
  by (auto simp: find_from_def dest!: find_index_Some)

lemma find_from_first:
  "find_from c s i = Some j \<Longrightarrow> i \<le> k \<Longrightarrow> k < j \<Longrightarrow> s ! k \<noteq> c"
proof -
  assume "find_from c s i = Some j" and k: "i \<le> k" "k < j"
  then obtain d where d: "find_index (\<lambda>x. x = c) (drop i s) = Some d" "j = i + d"
    by (auto simp: find_from_def)
  from find_index_Some [OF d(1)] have "drop i s ! (k - i) \<noteq> c" "d < length (drop i s)"
    using k d(2) by auto
  with k d(2) show ?thesis by simp
qed

lemma find_from_None: "find_from c s i = None \<Longrightarrow> c \<notin> set (drop i s)"
  by (auto simp: find_from_def find_index_None)

end
