(* ===== verification/Heavy_Host.thy ===== *)
theory Heavy_Host
  imports Heavy_Queue Py_Text
begin

text \<open>
  The host's heavy slot as a state machine: the slot files with the kernel's flock on each,
  the queue, and the steps of the processes that use them (\<open>probe\<close>, \<open>_acquire\<close>,
  \<open>_decide\<close>, \<open>_held_record\<close>, \<open>_report_unreleased\<close> and the release in \<open>cmd_run\<close> of
  \<open>claudlobby/_runtime_scripts/heavy-slot.py\<close>). A process that dies loses its lock and
  leaves its record, as the kernel does. \<open>Heavy_Hook\<close> puts the rewrite in front of it.
\<close>

section \<open>Knobs\<close>

text \<open>A file as a reader finds it.\<close>

datatype file_text = Missing | Unreadable | Content string

definition slot_count :: "file_text \<Rightarrow> int" where
  "slot_count f =
     (case f of
        Missing \<Rightarrow> 1
      | Unreadable \<Rightarrow> 1
      | Content text \<Rightarrow>
          (case py_parse_int text of
             None \<Rightarrow> 1
           | Some n \<Rightarrow> if \<not> (1 \<le> n \<and> n \<le> 8) then 1 else n))"

definition TICKET_IDLE_S :: int where
  "TICKET_IDLE_S = 180"

text \<open>The environment's \<open>HEAVY_SLOT_TICKET_IDLE_S\<close>, absent or its text.\<close>

definition ticket_idle_s :: "string option \<Rightarrow> int" where
  "ticket_idle_s env =
     (case env of
        None \<Rightarrow> TICKET_IDLE_S
      | Some text \<Rightarrow>
          (if text = [] then TICKET_IDLE_S
           else case py_parse_int text of
             None \<Rightarrow> TICKET_IDLE_S
           | Some idle \<Rightarrow> if idle \<ge> 1 then idle else TICKET_IDLE_S))"

section \<open>The host\<close>

text \<open>
  \<open>ho_slots\<close> is \<open>slot-0.lock\<close> to \<open>slot-(n-1).lock\<close>: the process that holds the file's
  flock, if one does, and the file's record. \<open>ho_dead\<close> is the history of processes that
  died holding a slot; no operation of the code reads it.
\<close>

record host =
  ho_slots :: "(nat option \<times> slot_rec) list"
  ho_queue :: queue
  ho_dead :: "nat set"

definition probe :: "host \<Rightarrow> slot_row list" where
  "probe h = map (\<lambda>(i, own, r). (i, own \<noteq> None, r)) (enumerate 0 (ho_slots h))"

definition acquire :: "host \<Rightarrow> nat option" where
  "acquire h = find_index (\<lambda>(own, _). own = None) (ho_slots h)"

definition set_owner :: "nat \<Rightarrow> nat option \<Rightarrow> host \<Rightarrow> host" where
  "set_owner i own h = h\<lparr>ho_slots := (ho_slots h)[i := (own, snd (ho_slots h ! i))]\<rparr>"

definition write_rec :: "nat \<Rightarrow> slot_rec \<Rightarrow> host \<Rightarrow> host" where
  "write_rec i r h = h\<lparr>ho_slots := (ho_slots h)[i := (fst (ho_slots h ! i), r)]\<rparr>"

datatype got = Refused | Ahead | Slot nat

text \<open>
  \<open>_decide\<close>. \<open>lock\<close>: the queue's lock was had (not switched off, not timed out); without it
  the caller decides on an empty queue and writes nothing. \<open>slots\<close> is the snapshot probed,
  which may be older than the state \<open>_acquire\<close> then meets. The result is what the caller
  goes on with, the ticket and order it is shown, and the host after.
\<close>

definition decide ::
    "bool \<Rightarrow> slot_row list \<Rightarrow> nat \<Rightarrow> string \<times> string \<Rightarrow> string \<Rightarrow> bool \<Rightarrow> rat \<Rightarrow> int \<Rightarrow> host
      \<Rightarrow> got \<times> (ticket \<times> (bool \<times> ticket) list) option \<times> host" where
  "decide lock slots pid me tool tk now idle h =
     (let q = (if lock then ho_queue h else \<lparr>qu_next = 1, qu_tickets = []\<rparr>);
          d = take_turn q slots me tool now idle;
          got = (if \<not> de_may d then Refused
                 else if \<not> tk then Ahead
                 else case acquire h of None \<Rightarrow> Refused | Some i \<Rightarrow> Slot i);
          h1 = (case got of Slot i \<Rightarrow> set_owner i (Some pid) h | _ \<Rightarrow> h);
          h2 = (if lock then h1\<lparr>ho_queue := settle q d (got \<noteq> Refused) tk\<rparr> else h1)
      in (got,
          if \<not> lock \<or> (got \<noteq> Refused \<and> \<not> de_queued d) then None else Some (de_mine d, de_order d),
          h2))"

definition held_record :: "string \<times> string \<Rightarrow> nat \<Rightarrow> string \<Rightarrow> rat \<Rightarrow> slot_rec" where
  "held_record me pid boot started =
     \<lparr>sr_state = Some ''held'', sr_fleet = Some (fst me), sr_bot = Some (snd me),
      sr_pid = Some pid, sr_boot_id = Some boot,
      sr_started_epoch = Some (of_int (py_int started)),
      sr_started_at = Some (of_int \<lfloor>started\<rfloor>),
      sr_released_epoch = None, sr_released_at = None, sr_exit = None\<rparr>"

definition exit_status :: "int \<Rightarrow> int" where
  "exit_status rc = (if rc \<ge> 0 then rc else 128 - rc)"

definition released_record :: "slot_rec \<Rightarrow> rat \<Rightarrow> int \<Rightarrow> slot_rec" where
  "released_record r ended status =
     r\<lparr>sr_state := Some ''released'', sr_released_at := Some (of_int \<lfloor>ended\<rfloor>),
       sr_released_epoch := Some (of_int (round (ended * 1000)) / 1000), sr_exit := Some status\<rparr>"

text \<open>\<open>_report_unreleased\<close>: the record found under a slot just taken, when it says held; with
  whether it is from an earlier boot.\<close>

definition report_unreleased :: "slot_rec \<Rightarrow> string \<Rightarrow> (slot_rec \<times> bool) option" where
  "report_unreleased previous boot =
     (if sr_state previous = Some ''held'' then Some (previous, sr_boot_id previous \<noteq> Some boot)
      else None)"

section \<open>Steps\<close>

text \<open>
  The processes' steps: a hook's and a wrapper's decision (each with or without the queue's
  lock, on any snapshot), the wrapper writing its record and its release, closing the file,
  and a holder dying at any point before its release is written.
\<close>

inductive step :: "host \<Rightarrow> host \<Rightarrow> bool" where
  hook: "decide lock slots pid me tool False now idle h = (got, shown, h') \<Longrightarrow> step h h'"
| wrapper: "\<forall>s \<in> set (ho_slots h). fst s \<noteq> Some pid \<Longrightarrow> pid \<notin> ho_dead h \<Longrightarrow>
    \<forall>s \<in> set (ho_slots h). sr_pid (snd s) \<noteq> Some pid \<Longrightarrow>
    decide lock slots pid me tool True now idle h = (got, shown, h') \<Longrightarrow> step h h'"
| write_held: "i < length (ho_slots h) \<Longrightarrow> fst (ho_slots h ! i) = Some pid \<Longrightarrow>
    step h (write_rec i (held_record me pid boot now) h)"
| write_release: "i < length (ho_slots h) \<Longrightarrow> fst (ho_slots h ! i) = Some pid \<Longrightarrow>
    sr_pid (snd (ho_slots h ! i)) = Some pid \<Longrightarrow>
    step h (write_rec i (released_record (snd (ho_slots h ! i)) now (exit_status rc)) h)"
| close_released: "i < length (ho_slots h) \<Longrightarrow> fst (ho_slots h ! i) = Some pid \<Longrightarrow>
    sr_pid (snd (ho_slots h ! i)) = Some pid \<Longrightarrow>
    sr_state (snd (ho_slots h ! i)) = Some ''released'' \<Longrightarrow> step h (set_owner i None h)"
| die: "i < length (ho_slots h) \<Longrightarrow> fst (ho_slots h ! i) = Some pid \<Longrightarrow>
    step h ((set_owner i None h)\<lparr>ho_dead := insert pid (ho_dead h)\<rparr>)"

definition fresh_host :: "nat \<Rightarrow> host" where
  "fresh_host n = \<lparr>ho_slots = replicate n (None, empty_rec),
     ho_queue = \<lparr>qu_next = 1, qu_tickets = []\<rparr>, ho_dead = {}\<rparr>"

inductive reachable :: "nat \<Rightarrow> host \<Rightarrow> bool" for n where
  start: "reachable n (fresh_host n)"
| step: "reachable n h \<Longrightarrow> step h h' \<Longrightarrow> reachable n h'"

section \<open>Knobs stay in their bounds\<close>

lemma slot_count_bounds: "1 \<le> slot_count f \<and> slot_count f \<le> 8"
  by (auto simp: slot_count_def split: file_text.splits option.splits)

lemma ticket_idle_s_pos: "1 \<le> ticket_idle_s env"
  by (auto simp: ticket_idle_s_def TICKET_IDLE_S_def split: option.splits)

section \<open>The invariant of the host\<close>

definition slot_ok :: "nat set \<Rightarrow> nat option \<times> slot_rec \<Rightarrow> bool" where
  "slot_ok dead s \<longleftrightarrow>
     (sr_state (snd s) = Some ''held'' \<longrightarrow>
        (\<exists>p. sr_pid (snd s) = Some p \<and> (fst s = Some p \<or> p \<in> dead)))"

definition owners_distinct :: "(nat option \<times> slot_rec) list \<Rightarrow> bool" where
  "owners_distinct ss \<longleftrightarrow> (\<forall>i < length ss. \<forall>j < length ss.
     fst (ss ! i) \<noteq> None \<longrightarrow> fst (ss ! i) = fst (ss ! j) \<longrightarrow> i = j)"

definition host_inv :: "host \<Rightarrow> bool" where
  "host_inv h \<longleftrightarrow> queue_wf (ho_queue h)
     \<and> (\<forall>s \<in> set (ho_slots h). slot_ok (ho_dead h) s)
     \<and> owners_distinct (ho_slots h)"

lemma queue_wf_empty: "queue_wf \<lparr>qu_next = 1, qu_tickets = []\<rparr>"
  by (simp add: queue_wf_def)

lemma acquire_free: "acquire h = Some i \<Longrightarrow> i < length (ho_slots h) \<and> fst (ho_slots h ! i) = None"
  by (auto simp: acquire_def split_def dest!: find_index_Some)

lemma set_owner_simps [simp]:
  "ho_queue (set_owner i own h) = ho_queue h" "ho_dead (set_owner i own h) = ho_dead h"
  "length (ho_slots (set_owner i own h)) = length (ho_slots h)"
  by (simp_all add: set_owner_def)

lemma write_rec_simps [simp]:
  "ho_queue (write_rec i r h) = ho_queue h" "ho_dead (write_rec i r h) = ho_dead h"
  "length (ho_slots (write_rec i r h)) = length (ho_slots h)"
  by (simp_all add: write_rec_def)

lemma decide_cases:
  assumes "decide lock slots pid me tool tk now idle h = (got, shown, h')"
  shows "ho_dead h' = ho_dead h"
    and "ho_slots h' = (case got of Slot i \<Rightarrow> ho_slots (set_owner i (Some pid) h) | _ \<Rightarrow> ho_slots h)"
    and "got = Slot i \<Longrightarrow> tk \<and> acquire h = Some i"
    and "ho_queue h' = (if lock then settle (ho_queue h) (take_turn (ho_queue h) slots me tool now idle)
           (got \<noteq> Refused) tk else ho_queue h)"
  using assms by (auto simp: decide_def Let_def split: got.splits if_splits option.splits)

lemma set_owner_inv:
  assumes "host_inv h" "i < length (ho_slots h)"
    and "own \<noteq> None \<Longrightarrow> fst (ho_slots h ! i) = None \<and> (\<forall>s \<in> set (ho_slots h). fst s \<noteq> own)"
    and "own = None \<Longrightarrow> sr_state (snd (ho_slots h ! i)) = Some ''held'' \<Longrightarrow>
           \<exists>p \<in> ho_dead h \<union> D. sr_pid (snd (ho_slots h ! i)) = Some p"
  shows "host_inv ((set_owner i own h)\<lparr>ho_dead := ho_dead h \<union> D\<rparr>)"
proof -
  let ?h = "set_owner i own h"
  have ok: "\<forall>s \<in> set (ho_slots h). slot_ok (ho_dead h) s" using assms(1) by (simp add: host_inv_def)
  with assms(2) have i: "slot_ok (ho_dead h) (ho_slots h ! i)" by simp
  have "slot_ok (ho_dead h \<union> D) (own, snd (ho_slots h ! i))"
    using i assms(3,4) by (cases own) (auto simp: slot_ok_def)
  moreover have "\<forall>s \<in> set (ho_slots h). slot_ok (ho_dead h \<union> D) s"
    using ok by (auto simp: slot_ok_def)
  ultimately have "\<forall>s \<in> set (ho_slots ?h). slot_ok (ho_dead h \<union> D) s"
    by (auto simp: set_owner_def dest!: set_update_subset_insert [THEN subsetD])
  moreover have "owners_distinct (ho_slots ?h)"
    unfolding owners_distinct_def set_owner_simps
  proof (intro allI impI)
    fix a b
    assume ab: "a < length (ho_slots h)" "b < length (ho_slots h)"
      "fst (ho_slots ?h ! a) \<noteq> None" "fst (ho_slots ?h ! a) = fst (ho_slots ?h ! b)"
    from assms(1) have d: "\<And>a b. a < length (ho_slots h) \<Longrightarrow> b < length (ho_slots h) \<Longrightarrow>
      fst (ho_slots h ! a) \<noteq> None \<Longrightarrow> fst (ho_slots h ! a) = fst (ho_slots h ! b) \<Longrightarrow> a = b"
      by (auto simp: host_inv_def owners_distinct_def)
    have n: "own \<noteq> None \<Longrightarrow> k < length (ho_slots h) \<Longrightarrow> fst (ho_slots h ! k) \<noteq> own" for k
      using assms(3) by auto
    show "a = b"
      using ab d [of a b] n [of a] n [of b] assms(2)
      by (cases "a = i"; cases "b = i") (auto simp: set_owner_def)
  qed
  ultimately show ?thesis using assms(1) by (simp add: host_inv_def)
qed

lemma write_rec_inv:
  assumes "host_inv h" "i < length (ho_slots h)" "slot_ok (ho_dead h) (fst (ho_slots h ! i), r)"
  shows "host_inv (write_rec i r h)"
proof -
  have "\<forall>s \<in> set (ho_slots (write_rec i r h)). slot_ok (ho_dead h) s"
    using assms by (auto simp: write_rec_def host_inv_def dest!: set_update_subset_insert [THEN subsetD])
  moreover have k: "fst (ho_slots (write_rec i r h) ! k) = fst (ho_slots h ! k)" if "k < length (ho_slots h)" for k
    using that assms(2) by (cases "k = i") (auto simp: write_rec_def)
  have "owners_distinct (ho_slots (write_rec i r h)) = owners_distinct (ho_slots h)"
    by (simp add: owners_distinct_def k)
  ultimately show ?thesis using assms(1) by (simp add: host_inv_def)
qed

lemma same_dead: "ho_dead h = d \<Longrightarrow> h\<lparr>ho_dead := d\<rparr> = h"
  by simp

lemma decide_inv:
  assumes "host_inv h" "decide lock slots pid me tool tk now idle h = (got, shown, h')"
    and "tk \<Longrightarrow> \<forall>s \<in> set (ho_slots h). fst s \<noteq> Some pid"
  shows "host_inv h'"
proof -
  note d = decide_cases [OF assms(2)]
  have "queue_wf (ho_queue h')"
    using assms(1) d(4) by (simp add: host_inv_def settle_wf)
  moreover have "host_inv (h\<lparr>ho_slots := ho_slots h'\<rparr>)"
  proof (cases got)
    case (Slot i)
    with d(3) have "tk" "acquire h = Some i" by auto
    with acquire_free assms(3) have "i < length (ho_slots h)" "fst (ho_slots h ! i) = None"
      "\<forall>s \<in> set (ho_slots h). fst s \<noteq> Some pid" by auto
    from set_owner_inv [OF assms(1) this(1), of "Some pid" "{}"] this Slot d(2)
    have "host_inv (set_owner i (Some pid) h)" by (simp add: same_dead)
    with Slot d(2) show ?thesis by (simp add: set_owner_def)
  qed (use assms(1) d(2) in simp_all)
  ultimately show ?thesis using d(1) by (simp add: host_inv_def)
qed

lemma step_inv: "step h h' \<Longrightarrow> host_inv h \<Longrightarrow> host_inv h'"
proof (induction rule: step.induct)
  case (hook lock slots pid me tool now idle h got shown h')
  then show ?case using decide_inv [of h lock slots pid me tool False] by blast
next
  case (wrapper h pid lock slots me tool now idle got shown h')
  then show ?case using decide_inv [of h lock slots pid me tool True] by blast
next
  case (write_held i h pid me boot now)
  then show ?case by (intro write_rec_inv) (auto simp: slot_ok_def held_record_def)
next
  case (write_release i h pid now rc)
  then show ?case by (intro write_rec_inv) (auto simp: slot_ok_def released_record_def)
next
  case (close_released i h pid)
  then show ?case using set_owner_inv [of h i None "{}"] by (simp add: same_dead)
next
  case (die i h pid)
  from die have "slot_ok (ho_dead h) (ho_slots h ! i)" by (simp add: host_inv_def)
  with die show ?case using set_owner_inv [of h i None "{pid}"]
    by (auto simp: slot_ok_def insert_def [symmetric] Un_commute)
qed

lemma reachable_inv: "reachable n h \<Longrightarrow> host_inv h"
proof (induction rule: reachable.induct)
  case start
  show ?case by (auto simp: host_inv_def fresh_host_def queue_wf_empty slot_ok_def empty_rec_def owners_distinct_def)
qed (rule step_inv)

section \<open>One slot: the oldest waiter is overtaken at most once\<close>

lemma last_fleet_one:
  "last_fleet [(k, own, r)] = (case epoch_of (sr_started_epoch r) (sr_started_at r) of
     None \<Rightarrow> None | Some _ \<Rightarrow> Some (case sr_fleet r of Some f \<Rightarrow> f | None \<Rightarrow> []))"
  by (simp add: last_fleet_def takes_def split: option.splits)

lemma probe_one: "ho_slots h = [s] \<Longrightarrow> probe h = [(0, fst s \<noteq> None, snd s)]"
  by (cases s) (simp add: probe_def)

lemma decide_slot:
  assumes "decide lock slots pid me tool tk now idle h = (Slot i, shown, h')"
  shows "de_may (take_turn (if lock then ho_queue h else \<lparr>qu_next = 1, qu_tickets = []\<rparr>) slots me tool now idle)"
    and "tk" and "acquire h = Some i"
  using assms by (auto simp: decide_def Let_def split: if_splits option.splits)

lemma turn_marked_tickets:
  "map snd (turn_marked q slots me tool now idle) = fst (live (qu_tickets q) slots now idle)
   \<or> (\<exists>u. tk_n u = qu_next q \<and>
        map snd (turn_marked q slots me tool now idle) = fst (live (qu_tickets q) slots now idle) @ [u])"
proof (cases "\<exists>t \<in> set (fst (live (qu_tickets q) slots now idle)). is_for me t")
  case True
  then show ?thesis
    by (intro disjI1) (simp only: turn_marked_def Let_def if_True map_snd_mark_first)
next
  case False
  then show ?thesis
    by (intro disjI2 exI [of _ "\<lparr>tk_n = qu_next q, tk_fleet = fst me, tk_bot = snd me,
        tk_tool = JStr tool, tk_since = of_int (py_int now), tk_seen = of_int (py_int now)\<rparr>"])
      (simp add: turn_marked_def Let_def comp_def)
qed

lemma oldest_key:
  assumes "queue_wf q" "t \<in> set (fst (live (qu_tickets q) slots now idle))"
    and "\<forall>u \<in> set (fst (live (qu_tickets q) slots now idle)). u \<noteq> t \<longrightarrow> tk_n t < tk_n u"
  shows "tk_key t \<in> set (map tk_key (map snd (turn_marked q slots me tool now idle)))"
    and "\<forall>y \<in> set (map tk_key (map snd (turn_marked q slots me tool now idle))).
           y \<noteq> tk_key t \<longrightarrow> fst (tk_key t) < fst y"
proof -
  let ?ts = "map snd (turn_marked q slots me tool now idle)"
  have t: "tk_n t < qu_next q" using assms(1,2) by (auto simp: queue_wf_def live_subseq)
  have "t \<in> set ?ts" using turn_marked_tickets [of q slots me tool now idle] assms(2)
    by (elim disjE exE conjE) (simp_all only: set_append Un_iff simp_thms)
  then show "tk_key t \<in> set (map tk_key ?ts)"
    by (simp only: set_map imageI)
  have u: "tk_n t < tk_n u" if "u \<in> set ?ts" "u \<noteq> t" for u
    using turn_marked_tickets [of q slots me tool now idle]
  proof (elim disjE exE conjE)
    fix v assume "tk_n v = qu_next q" "?ts = fst (live (qu_tickets q) slots now idle) @ [v]"
    with that t assms(3) show ?thesis by (metis Un_iff empty_iff empty_set set_ConsD set_append)
  qed (use that assms(3) in metis)
  show "\<forall>y \<in> set (map tk_key ?ts). y \<noteq> tk_key t \<longrightarrow> fst (tk_key t) < fst y"
  proof (intro ballI impI)
    fix y assume "y \<in> set (map tk_key ?ts)" "y \<noteq> tk_key t"
    then obtain v where "v \<in> set ?ts" "y = tk_key v" "v \<noteq> t"
      by (metis (no_types, lifting) imageE set_map)
    with u show "fst (tk_key t) < fst y" by (simp add: tk_key_def)
  qed
qed

lemma order_hd_key:
  assumes "de_order (take_turn q slots me tool now idle) \<noteq> []"
  shows "tk_key (snd (hd (de_order (take_turn q slots me tool now idle)))) =
    hd (served_keys (map tk_key (map snd (turn_marked q slots me tool now idle))) (last_fleet slots))"
proof -
  have "hd (map (\<lambda>mt. tk_key (snd mt)) (de_order (take_turn q slots me tool now idle))) =
    tk_key (snd (hd (de_order (take_turn q slots me tool now idle))))"
    using assms by (simp add: hd_map)
  then show ?thesis by (simp only: order_keys)
qed

lemma order_nonempty: "de_order (take_turn q slots me tool now idle) \<noteq> []"
  using take_turn_mine [of q slots me tool now idle] by auto

text \<open>On one slot, whoever goes ahead is the head of the order.\<close>

lemma may_one_slot:
  assumes "de_may (take_turn q slots me tool now idle)" "length slots = 1"
  shows "tk_id (snd (hd (de_order (take_turn q slots me tool now idle)))) = me"
proof -
  let ?o = "de_order (take_turn q slots me tool now idle)"
  have "length (free_recs slots) \<le> 1"
    using assms(2) length_filter_le [of _ slots] by (simp add: free_recs_def)
  moreover obtain x xs where o: "?o = x # xs" using order_nonempty by (cases ?o) auto
  ultimately have "take (length (free_recs slots)) ?o = [] \<or> take (length (free_recs slots)) ?o = [x]"
    by (cases "length (free_recs slots)") auto
  with assms(1) have "fst x" by (auto simp: take_turn_may)
  with o order_mark_is_me [of x q slots me tool now idle] show ?thesis by simp
qed

lemma settled_keys:
  assumes "x \<in> set (qu_tickets (settle q (take_turn q slots me tool now idle) ahead tk))"
  shows "tk_key x \<in> set (map tk_key (map snd (turn_marked q slots me tool now idle)))"
proof -
  let ?m = "turn_marked q slots me tool now idle"
  from assms obtain mt where mt: "mt \<in> set (de_order (take_turn q slots me tool now idle))" "x = snd mt"
    by (auto simp: settle_def Let_def split: if_splits)
  then obtain nt where nt: "nt \<in> set ?m" "mt = touch now nt"
    by (auto simp: take_turn_order serv.ord_set)
  then have "tk_key x = tk_key (snd nt)" by (simp add: mt(2) tk_key_def tk_id_def)
  with nt(1) show ?thesis by simp
qed

lemma oldest_overtaken_once_aux:
  assumes wf: "queue_wf q" and slots: "length slots = 1"
    and may: "de_may (take_turn q slots me tool now idle)"
    and t: "t \<in> set (fst (live (qu_tickets q) slots now idle))"
    and old: "\<forall>u \<in> set (fst (live (qu_tickets q) slots now idle)). u \<noteq> t \<longrightarrow> tk_n t < tk_n u"
    and other: "tk_id t \<noteq> me"
    and q': "q' = settle q (take_turn q slots me tool now idle) True True"
    and last: "last_fleet slots' = Some (fst me)"
    and t': "t' \<in> set (fst (live (qu_tickets q') slots' now' idle))" "tk_key t' = tk_key t"
  shows "tk_key (snd (hd (de_order (take_turn q' slots' me' tool' now' idle)))) = tk_key t"
proof -
  note k = oldest_key [OF wf t old, of me tool]
  have hk: "tk_key (snd (hd (de_order (take_turn q slots me tool now idle)))) =
    hd (served_keys (map tk_key (map snd (turn_marked q slots me tool now idle))) (last_fleet slots))"
    by (rule order_hd_key [OF order_nonempty])
  have "hd (served_keys (map tk_key (map snd (turn_marked q slots me tool now idle))) (last_fleet slots)) \<noteq> tk_key t"
    using may_one_slot [OF may slots] other unfolding hk [symmetric] by (auto simp: tk_key_def)
  from served_keys_oldest(2) [OF k this] have "fst (tk_id t) \<noteq> fst me"
    using may_one_slot [OF may slots] unfolding hk [symmetric] by (simp add: tk_key_def)
  then have lf: "last_fleet slots' \<noteq> Some (fst (snd (tk_key t')))" using last t'(2) by (simp add: tk_key_def)
  have wf': "queue_wf q'" using settle_wf [OF wf] by (simp add: q')
  have "\<forall>u \<in> set (fst (live (qu_tickets q') slots' now' idle)). u \<noteq> t' \<longrightarrow> tk_n t' < tk_n u"
  proof (intro ballI impI)
    fix u assume u: "u \<in> set (fst (live (qu_tickets q') slots' now' idle))" "u \<noteq> t'"
    then have uq: "u \<in> set (qu_tickets q')" "t' \<in> set (qu_tickets q')" using t'(1) by (auto simp: live_subseq)
    then have "tk_n u \<noteq> tk_n t'" using wf' u(2) by (auto simp: queue_wf_def distinct_map inj_on_def)
    then have "tk_key u \<noteq> tk_key t" using t'(2) by (auto simp: tk_key_def)
    with settled_keys [of u q slots me tool now idle] uq k(2) q' have "fst (tk_key t) < fst (tk_key u)" by blast
    then show "tk_n t' < tk_n u" using t'(2) by (simp add: tk_key_def)
  qed
  from oldest_key [OF wf' t'(1) this] lf
  have "hd (served_keys (map tk_key (map snd (turn_marked q' slots' me' tool' now' idle))) (last_fleet slots')) = tk_key t'"
    by (intro served_keys_oldest(1)) auto
  then show ?thesis using order_hd_key [OF order_nonempty] t'(2) by simp
qed

section \<open>Properties\<close>

text \<open>
  C7. In every state the processes can reach, the queue holds at most one ticket per caller,
  no ticket number twice and none not yet issued; no process holds two slots; and a slot's
  record that says held is the record of the slot's holder or of a process that died holding
  it.
\<close>

theorem host_safe:
  assumes "reachable n h"
  shows "host_inv h"
  using assms by (rule reachable_inv)

text \<open>The wrapper of bot b takes the slot of a fresh one-slot host and writes its record.\<close>

lemma example_wrapper:
  "decide True (probe (fresh_host 1)) 7 (''f'', ''b'') ''pytest'' True 100 180 (fresh_host 1)
   = (Slot 0, None, set_owner 0 (Some 7) (fresh_host 1))"
  by code_simp

lemma example_reachable:
  "reachable 1 (write_rec 0 (held_record (''f'', ''b'') 7 ''boot'' 100) (set_owner 0 (Some 7) (fresh_host 1)))"
proof (rule reachable.step [OF reachable.step [OF reachable.start]])
  show "step (fresh_host 1) (set_owner 0 (Some 7) (fresh_host 1))"
    by (rule step.wrapper [OF _ _ _ example_wrapper]) (simp_all add: fresh_host_def empty_rec_def)
  show "step (set_owner 0 (Some 7) (fresh_host 1))
     (write_rec 0 (held_record (''f'', ''b'') 7 ''boot'' 100) (set_owner 0 (Some 7) (fresh_host 1)))"
    by (rule step.write_held) (simp_all add: fresh_host_def set_owner_def)
qed

theorem host_safe_witness:
  "host_inv (write_rec 0 (held_record (''f'', ''b'') 7 ''boot'' 100) (set_owner 0 (Some 7) (fresh_host 1)))"
  by (rule host_safe [OF example_reachable])

text \<open>
  The record of a slot just taken is reported as never released only when the process it
  names died holding the slot: a holder that wrote its release is never reported, and a
  process that lives on is never blamed.
\<close>

theorem unreleased_means_died:
  assumes "reachable n h" and "i < length (ho_slots h)" and "fst (ho_slots h ! i) = Some pid"
    and "sr_pid (snd (ho_slots h ! i)) \<noteq> Some pid"
    and "report_unreleased (snd (ho_slots h ! i)) boot = Some (r, across)"
  shows "r = snd (ho_slots h ! i) \<and> (\<exists>p \<in> ho_dead h. sr_pid r = Some p)"
proof -
  from reachable_inv [OF assms(1)] assms(2) have "slot_ok (ho_dead h) (ho_slots h ! i)"
    by (simp add: host_inv_def)
  with assms(3-5) show ?thesis by (auto simp: slot_ok_def report_unreleased_def split: if_splits)
qed

definition crashed_host :: host where
  "crashed_host = (set_owner 0 None (write_rec 0 (held_record (''f'', ''b'') 7 ''boot'' 100)
     (set_owner 0 (Some 7) (fresh_host 1))))\<lparr>ho_dead := {7}\<rparr>"

lemma crashed_reachable: "reachable 1 crashed_host"
proof (rule reachable.step [OF example_reachable])
  let ?h = "write_rec 0 (held_record (''f'', ''b'') 7 ''boot'' 100) (set_owner 0 (Some 7) (fresh_host 1))"
  have "crashed_host = (set_owner 0 None ?h)\<lparr>ho_dead := insert 7 (ho_dead ?h)\<rparr>"
    by (simp add: crashed_host_def fresh_host_def)
  then show "step ?h crashed_host"
    using step.die [of 0 ?h 7] by (simp add: fresh_host_def set_owner_def write_rec_def)
qed

lemma crashed_retaken:
  "decide True (probe crashed_host) 9 (''g'', ''c'') ''vitest'' True 200 180 crashed_host
   = (Slot 0, None, set_owner 0 (Some 9) crashed_host)"
  unfolding crashed_host_def by code_simp

theorem unreleased_means_died_witness:
  "\<exists>p \<in> ho_dead (set_owner 0 (Some 9) crashed_host).
     sr_pid (held_record (''f'', ''b'') 7 ''boot'' 100) = Some p"
proof -
  let ?h = "set_owner 0 (Some 9) crashed_host"
  have slots: "ho_slots ?h = [(Some 9, held_record (''f'', ''b'') 7 ''boot'' 100)]"
    by (simp add: crashed_host_def set_owner_def write_rec_def fresh_host_def)
  have "reachable 1 ?h"
    by (rule reachable.step [OF crashed_reachable], rule step.wrapper [OF _ _ _ crashed_retaken])
       (simp_all add: crashed_host_def set_owner_def write_rec_def fresh_host_def held_record_def)
  from unreleased_means_died [OF this, of 0 9 "''boot2''"] show ?thesis
    by (auto simp: slots report_unreleased_def held_record_def)
qed

text \<open>
  However many callers with a ticket ask, on one queue and one snapshot of the slots, no
  more of them are told to go ahead than there are free slots.
\<close>

theorem no_more_than_free_go:
  "card {me. de_queued (take_turn q slots me tool now idle) \<and> de_may (take_turn q slots me tool now idle)}
     \<le> length (free_recs slots)"
  using admitted_at_most_free by blast

text \<open>
  A refused caller keeps its place: its next call, from either door, finds the same
  ticket with the same number and waiting time, as long as no slot came free in between or it
  asks again within the idle time of its last call or of the slot coming free.
\<close>

theorem refused_caller_keeps_ticket:
  fixes idle :: int
  assumes "queue_wf q"
    and "free_recs slots' = [] \<or> now' - max (of_int (py_int now)) (free_since (free_recs slots')) \<le> of_int idle"
  shows "let d = take_turn q slots me tool now idle;
             d' = take_turn (settle q d False tk) slots' me tool' now' idle
         in de_queued d' \<and> tk_n (de_mine d') = tk_n (de_mine d) \<and> tk_since (de_mine d') = tk_since (de_mine d)"
  unfolding Let_def by (rule refused_keeps_ticket [OF assms(1) refl assms(2)])

theorem refused_caller_keeps_ticket_witness:
  "let d = take_turn \<lparr>qu_next = 1, qu_tickets = []\<rparr> [(0, True, empty_rec)] (''f'', ''b'') ''pytest'' 100 180
   in de_queued (take_turn (settle \<lparr>qu_next = 1, qu_tickets = []\<rparr> d False True)
        [(0, True, empty_rec)] (''f'', ''b'') ''pytest'' 1000 180)"
  unfolding Let_def
  using refused_caller_keeps_ticket [OF queue_wf_empty, of "[(0, True, empty_rec)]" 1000 100 180
      "[(0, True, empty_rec)]" "(''f'', ''b'')" "''pytest''" True "''pytest''"]
  by (simp add: free_recs_def Let_def)


definition two_fleets :: host where
  "two_fleets = \<lparr>ho_slots = [(None, released_record (held_record (''f'', ''z'') 3 ''boot'' 10) 20 0)],
     ho_queue = \<lparr>qu_next = 3, qu_tickets =
       [\<lparr>tk_n = 1, tk_fleet = ''f'', tk_bot = ''x'', tk_tool = JStr ''pytest'', tk_since = 12, tk_seen = 30\<rparr>,
        \<lparr>tk_n = 2, tk_fleet = ''g'', tk_bot = ''y'', tk_tool = JStr ''vitest'', tk_since = 13, tk_seen = 30\<rparr>]\<rparr>,
     ho_dead = {}\<rparr>"

definition after_overtake :: host where
  "after_overtake = (let h1 = snd (snd (decide True (probe two_fleets) 5 (''g'', ''y'') ''vitest'' True 40 180 two_fleets))
     in set_owner 0 None (write_rec 0 (released_record (held_record (''g'', ''y'') 5 ''boot'' 40) 50 0) h1))"



text \<open>
  Whatever the host's \<open>slots\<close> file holds, the number of slots is between 1 and 8, and
  whatever the environment holds, a ticket's idle time is at least a second.
\<close>

theorem knobs_bounded: "1 \<le> slot_count f \<and> slot_count f \<le> 8 \<and> 1 \<le> ticket_idle_s env"
  using slot_count_bounds ticket_idle_s_pos by blast

end
