(* ===== verification/Shell_Scanner.thy ===== *)
theory Shell_Scanner
  imports Py_Text
begin

text \<open>
  The matcher's reading of a Bash command (\<open>_Scanner\<close> of
  \<open>claudlobby/_runtime_scripts/heavy-slot.py\<close>): the simple commands in it with the position,
  the text and, where no expansion is involved, the value of each word. A construct the code
  does not parse is \<open>Unsure\<close>, its exception.

  The code's methods call each other and loop; every call and every turn of a loop spends one
  unit of fuel, and \<open>Stuck\<close> is running out of it. \<open>parse\<close> gives \<open>4 * n + 8\<close> units for a
  command of \<open>n\<close> characters; \<open>parse_total\<close> shows that this is always enough. Python's own
  recursion limit is not modelled.
\<close>

section \<open>Results\<close>

datatype 'a res = Ok 'a | Unsure string | Stuck

definition bind_res :: "'a res \<Rightarrow> ('a \<Rightarrow> 'b res) \<Rightarrow> 'b res" where
  "bind_res r f = (case r of Ok x \<Rightarrow> f x | Unsure why \<Rightarrow> Unsure why | Stuck \<Rightarrow> Stuck)"

lemma bind_res_simps [simp]:
  "bind_res (Ok x) f = f x" "bind_res (Unsure why) f = Unsure why" "bind_res Stuck f = Stuck"
  by (simp_all add: bind_res_def)

section \<open>Characters and patterns\<close>

abbreviation NL :: char where "NL \<equiv> CHR 0x0A"
abbreviation TAB :: char where "TAB \<equiv> CHR 0x09"
abbreviation BSL :: char where "BSL \<equiv> CHR 0x5C"
abbreviation SQ :: char where "SQ \<equiv> CHR 0x27"
abbreviation DQ :: char where "DQ \<equiv> CHR 0x22"
abbreviation BT :: char where "BT \<equiv> CHR 0x60"
abbreviation DOL :: char where "DOL \<equiv> CHR 0x24"

definition META :: "char list" where
  "META = [CHR '' '', TAB, NL, CHR '';'', CHR ''&'', CHR ''|'', CHR ''('', CHR '')'', CHR ''<'', CHR ''>'']"

definition SPECIAL_PARAMS :: "char list" where
  "SPECIAL_PARAMS = ''?$#@*!-0123456789''"

definition OPENERS :: "string list" where
  "OPENERS = [''if'', ''then'', ''elif'', ''else'', ''while'', ''until'', ''do'', ''{'', ''!'', ''time'']"

definition CLOSERS :: "string list" where
  "CLOSERS = [''fi'', ''done'', ''esac'', ''}'']"

definition UNPARSED :: "string list" where
  "UNPARSED = [''case'', ''function'', ''coproc'', ''select'']"

text \<open>A word boundary before position \<open>i\<close>, and the words \<open>pip3?\<close> and \<open>uv\<close> at \<open>i\<close>.\<close>

definition boundary :: "string \<Rightarrow> nat \<Rightarrow> bool" where
  "boundary s i \<longleftrightarrow> (0 < i \<and> i \<le> length s \<and> is_word_char (s ! (i - 1))) \<noteq> (i < length s \<and> is_word_char (s ! i))"

definition word_at :: "string \<Rightarrow> nat \<Rightarrow> string \<Rightarrow> bool" where
  "word_at s i w \<longleftrightarrow> starts_at s i w \<and> boundary s i \<and> boundary s (i + length w)"

definition HEAVY_SUBSTRINGS :: "string list" where
  "HEAVY_SUBSTRINGS = [''pytest'', ''py.test'', ''vitest'', ''npm'', ''pnpm'', ''yarn'', ''npx'',
     ''next'', ''playwright'', ''chrom'']"

text \<open>\<open>_HEAVY_WORD.search(text)\<close>.\<close>

definition heavy_word :: "string \<Rightarrow> bool" where
  "heavy_word s \<longleftrightarrow> (\<exists>w \<in> set HEAVY_SUBSTRINGS. contains s w)
     \<or> (\<exists>i \<in> set [0..<length s]. word_at s i ''pip'' \<or> word_at s i ''pip3'' \<or> word_at s i ''uv'')"

text \<open>\<open>_ASSIGN.match(raw)\<close>: an identifier, an index in brackets, a plus sign, an equals sign.\<close>

definition after_index :: "string \<Rightarrow> string" where
  "after_index s =
     (case s of c # cs \<Rightarrow>
        (if c = CHR ''['' then (case dropWhile (\<lambda>x. x \<noteq> CHR '']'') cs of [] \<Rightarrow> s | _ # r \<Rightarrow> r) else s)
      | [] \<Rightarrow> [])"

definition assign_match :: "string \<Rightarrow> bool" where
  "assign_match raw =
     (case raw of [] \<Rightarrow> False
      | c # cs \<Rightarrow> is_ident_start c \<and>
          (let r = after_index (dropWhile is_ident_char cs)
           in starts_with r ''='' \<or> starts_with r ''+=''))"

text \<open>
  \<open>_REDIR.match(s, i)\<close>: the operator it finds and the index after the match. The prefix is a
  file descriptor's number or \<open>{name}\<close>.
\<close>

definition REDIR_OPS :: "string list" where
  "REDIR_OPS = [''<<<'', ''<<-'', ''<<'', ''<>'', ''<&'', ''>&'', ''>>'', ''>|'', ''&>>'', ''&>'', ''<'', ''>'']"

fun first_op :: "string list \<Rightarrow> string \<Rightarrow> nat \<Rightarrow> (string \<times> nat) option" where
  "first_op [] s i = None"
| "first_op (p # ps) s i = (if starts_at s i p then Some (p, i + length p) else first_op ps s i)"

definition fd_prefix :: "string \<Rightarrow> nat \<Rightarrow> nat" where
  "fd_prefix s i =
     (let rest = drop i s; ds = takeWhile is_digit rest in
      if ds \<noteq> [] then i + length ds
      else case rest of
        c # d # cs \<Rightarrow>
          (if c = CHR ''{'' \<and> is_ident_start d then
             (let nm = takeWhile is_ident_char cs in
              if starts_with (dropWhile is_ident_char cs) ''}'' then i + 3 + length nm else i)
           else i)
      | _ \<Rightarrow> i)"

definition redir_match :: "string \<Rightarrow> nat \<Rightarrow> (string \<times> nat) option" where
  "redir_match s i = first_op REDIR_OPS s (fd_prefix s i)"

section \<open>Words and the scanner's state\<close>

record word =
  w_start :: nat
  w_end :: nat
  w_raw :: string
  w_value :: "string option"

type_synonym simple = "word list"

text \<open>Heredocs waiting for their bodies (delimiter, whether \<open><<-\<close>), and the commands found.\<close>

type_synonym scan = "(string \<times> bool) list \<times> simple list"

fun finish :: "simple option \<Rightarrow> scan \<Rightarrow> scan" where
  "finish cur (pending, commands) =
     (pending, case cur of Some ws \<Rightarrow> if ws \<noteq> [] then commands @ [ws] else commands | None \<Rightarrow> commands)"

definition add_word :: "simple option \<Rightarrow> word \<Rightarrow> simple option" where
  "add_word cur w = (case cur of None \<Rightarrow> Some [w] | Some ws \<Rightarrow> Some (ws @ [w]))"

section \<open>Loops that call nothing else\<close>

function skip_blanks :: "string \<Rightarrow> nat \<Rightarrow> nat" where
  "skip_blanks s i =
     (if i < length s \<and> s ! i \<in> {CHR '' '', TAB} then skip_blanks s (i + 1) else i)"
  by pat_completeness auto
termination by (relation "measure (\<lambda>(s, i). length s - i)") auto

function ansi_c :: "string \<Rightarrow> nat \<Rightarrow> nat res" where
  "ansi_c s i =
     (if i < length s then
        (if s ! i = BSL then ansi_c s (i + 2)
         else if s ! i = SQ then Ok (i + 1)
         else ansi_c s (i + 1))
      else Unsure (''unterminated $'' @ [SQ]))"
  by pat_completeness auto
termination by (relation "measure (\<lambda>(s, i). length s - i)") auto

text \<open>\<open>i\<close> is the backtick's index, \<open>j\<close> the loop's.\<close>

function backtick :: "string \<Rightarrow> nat \<Rightarrow> nat \<Rightarrow> nat res" where
  "backtick s i j =
     (if j < length s then
        (if s ! j = BSL then backtick s i (j + 2)
         else if s ! j = BT then
           (if heavy_word (slice s (i + 1) j) then Unsure ''backtick substitution'' else Ok (j + 1))
         else backtick s i (j + 1))
      else Unsure (''unterminated '' @ [BT]))"
  by pat_completeness auto
termination by (relation "measure (\<lambda>(s, i, j). length s - j)") auto

function arith_end :: "string \<Rightarrow> nat \<Rightarrow> int \<Rightarrow> nat res" where
  "arith_end s i depth =
     (if i < length s then
        (if s ! i = CHR ''('' then arith_end s (i + 1) (depth + 1)
         else if s ! i = CHR '')'' then
           (if depth - 1 = 0 then Ok (i + 1) else arith_end s (i + 1) (depth - 1))
         else arith_end s (i + 1) depth)
      else Unsure ''unterminated (('')"
  by pat_completeness auto
termination by (relation "measure (\<lambda>(s, i, d). length s - i)") auto

fun dequote :: "string \<Rightarrow> string" where
  "dequote [] = []"
| "dequote [c] = (if c = SQ \<or> c = DQ then [] else [c])"
| "dequote (c # d # cs) =
     (if c = BSL then d # dequote cs
      else if c = SQ \<or> c = DQ then dequote (d # cs)
      else c # dequote (d # cs))"

text \<open>One heredoc's body from the start of a line, then all that wait.\<close>

function heredoc_end :: "string \<Rightarrow> string \<Rightarrow> bool \<Rightarrow> nat \<Rightarrow> nat res" where
  "heredoc_end s delim strp i =
     (if i < length s then
        (let line = takeWhile (\<lambda>c. c \<noteq> NL) (drop i s);
             i' = (case find_from NL s i of None \<Rightarrow> length s | Some j \<Rightarrow> j + 1)
         in if (if strp then dropWhile (\<lambda>c. c = TAB) line else line) = delim then Ok i'
            else heredoc_end s delim strp i')
      else Unsure ''unterminated heredoc'')"
  by pat_completeness auto
termination
  by (relation "measure (\<lambda>(s, d, b, i). length s - i)")
     (auto split: option.splits dest: find_from_Some)

fun heredocs :: "string \<Rightarrow> (string \<times> bool) list \<Rightarrow> nat \<Rightarrow> nat res" where
  "heredocs s [] i = Ok i"
| "heredocs s ((delim, strp) # pend) i = bind_res (heredoc_end s delim strp i) (heredocs s pend)"

declare skip_blanks.simps [simp del] ansi_c.simps [simp del] backtick.simps [simp del]
  arith_end.simps [simp del] heredoc_end.simps [simp del]

section \<open>The scanner\<close>

text \<open>
  Each method of \<open>_Scanner\<close> is one definition, the body of its loop, over the methods it
  calls (its own next turn included), which come as arguments. The loops carry their local
  variables as arguments. \<open>list_body\<close> is the loop of \<open>_list\<close> up to the reading of a word
  and \<open>list_word_body\<close> what follows in it; \<open>cur\<close>, \<open>atc\<close>, \<open>dead\<close> and \<open>fh\<close> are \<open>cur\<close>,
  \<open>at_cmd\<close>, \<open>dead\<close> and \<open>for_header\<close>. The functions after the bodies close the recursion,
  with the fuel.
\<close>

type_synonym list_call = "nat \<Rightarrow> char option \<Rightarrow> simple option \<Rightarrow> bool \<Rightarrow> bool \<Rightarrow> bool
      \<Rightarrow> scan \<Rightarrow> (nat \<times> scan) res"
type_synonym redir_call = "string \<Rightarrow> nat \<Rightarrow> scan \<Rightarrow> (nat \<times> scan) res"
type_synonym word_call = "nat \<Rightarrow> nat \<Rightarrow> string \<Rightarrow> bool \<Rightarrow> scan \<Rightarrow> (word \<times> nat \<times> scan) res"
type_synonym dollar_call = "nat \<Rightarrow> scan \<Rightarrow> (bool \<times> nat \<times> scan) res"
type_synonym dquote_call = "nat \<Rightarrow> string \<Rightarrow> bool \<Rightarrow> scan \<Rightarrow> (string option \<times> nat \<times> scan) res"
type_synonym braces_call = "nat \<Rightarrow> int \<Rightarrow> scan \<Rightarrow> (nat \<times> scan) res"
type_synonym plain_call = "nat \<Rightarrow> scan \<Rightarrow> (nat \<times> scan) res"

definition dollar_body :: "list_call \<Rightarrow> braces_call \<Rightarrow> string \<Rightarrow> dollar_call" where
  "dollar_body lst brc s i st =
     (if starts_at s i ''$(('' then bind_res (arith_end s (i + 3) 2) (\<lambda>j. Ok (True, j, st))
      else if starts_at s i ''$('' then
        bind_res (lst (i + 2) (Some (CHR '')'')) None True False False st)
          (\<lambda>(j, st'). Ok (True, j, st'))
      else if starts_at s i ''${'' then
        bind_res (brc (i + 2) 1 st) (\<lambda>(j, st'). Ok (True, j, st'))
      else if i + 1 < length s \<and> (is_letter (s ! (i + 1)) \<or> s ! (i + 1) = CHR ''_'') then
        Ok (True, i + 1 + length (takeWhile is_word_char (drop (i + 1) s)), st)
      else if i + 1 < length s \<and> s ! (i + 1) \<in> set SPECIAL_PARAMS then Ok (True, i + 2, st)
      else Ok (False, i + 1, st))"

definition dquote_body :: "dollar_call \<Rightarrow> dquote_call \<Rightarrow> string \<Rightarrow> dquote_call" where
  "dquote_body dol dqt s i out dyn st =
     (if \<not> i < length s then Unsure (''unterminated '' @ [DQ])
      else if s ! i = DQ then Ok (if dyn then None else Some out, i + 1, st)
      else if s ! i = BSL \<and> i + 1 < length s then
        dqt (i + 2)
          (if s ! (i + 1) \<noteq> NL then
             out @ (if s ! (i + 1) \<in> {DQ, BSL, DOL, BT} then [s ! (i + 1)] else [BSL, s ! (i + 1)])
           else out) dyn st
      else if s ! i = DOL then
        bind_res (dol i st) (\<lambda>(expn, j, st').
          if expn then dqt j out True st' else dqt j (out @ [DOL]) dyn st')
      else if s ! i = BT then bind_res (backtick s i (i + 1)) (\<lambda>j. dqt j out True st)
      else dqt (i + 1) (out @ [s ! i]) dyn st)"

definition braces_body :: "dollar_call \<Rightarrow> dquote_call \<Rightarrow> braces_call \<Rightarrow> string \<Rightarrow> braces_call" where
  "braces_body dol dqt brc s i depth st =
     (if \<not> i < length s then Unsure ''unterminated ${''
      else if s ! i = BSL then brc (i + 2) depth st
      else if s ! i = SQ then
        (case find_from SQ s (i + 1) of
           None \<Rightarrow> Unsure (''unterminated '' @ [SQ])
         | Some j \<Rightarrow> brc (j + 1) depth st)
      else if s ! i = DQ then
        bind_res (dqt (i + 1) [] False st) (\<lambda>(v, j, st'). brc j depth st')
      else if s ! i = DOL \<and> starts_at s i ''$('' then
        bind_res (dol i st) (\<lambda>(expn, j, st'). brc j depth st')
      else if s ! i = CHR ''{'' then brc (i + 1) (depth + 1) st
      else if s ! i = CHR ''}'' then
        (if depth - 1 = 0 then Ok (i + 1, st) else brc (i + 1) (depth - 1) st)
      else brc (i + 1) depth st)"

definition word_body :: "word_call \<Rightarrow> dollar_call \<Rightarrow> dquote_call \<Rightarrow> string \<Rightarrow> word_call" where
  "word_body wrd dol dqt s start i out dyn st =
     (if \<not> (i < length s \<and> s ! i \<notin> set META) then
        Ok (\<lparr>w_start = start, w_end = i, w_raw = slice s start i, w_value = (if dyn then None else Some out)\<rparr>, i, st)
      else if s ! i = BSL then
        (if starts_at s i [BSL, NL] then wrd start (i + 2) out dyn st
         else wrd start (i + 2) (if i + 1 < length s then out @ [s ! (i + 1)] else out) dyn st)
      else if s ! i = SQ then
        (case find_from SQ s (i + 1) of
           None \<Rightarrow> Unsure (''unterminated '' @ [SQ])
         | Some j \<Rightarrow> wrd start (j + 1) (out @ slice s (i + 1) j) dyn st)
      else if s ! i = DQ then
        bind_res (dqt (i + 1) [] False st) (\<lambda>(v, j, st').
          (case v of None \<Rightarrow> wrd start j out True st'
           | Some x \<Rightarrow> wrd start j (out @ x) dyn st'))
      else if s ! i = DOL then
        (if starts_at s i [DOL, SQ] then
           bind_res (ansi_c s (i + 2)) (\<lambda>j. wrd start j out True st)
         else if starts_at s i [DOL, DQ] then
           bind_res (dqt (i + 2) [] False st) (\<lambda>(v, j, st'). wrd start j out True st')
         else bind_res (dol i st) (\<lambda>(expn, j, st').
           if expn then wrd start j out True st'
           else wrd start j (out @ [DOL]) dyn st'))
      else if s ! i = BT then
        bind_res (backtick s i (i + 1)) (\<lambda>j. wrd start j out True st)
      else wrd start (i + 1) (out @ [s ! i]) dyn st)"

definition parens_body :: "word_call \<Rightarrow> plain_call \<Rightarrow> string \<Rightarrow> plain_call" where
  "parens_body wrd par s i st =
     (if \<not> i < length s then Unsure ''unterminated (''
      else if s ! i = CHR '')'' then Ok (i + 1, st)
      else if s ! i \<in> {CHR '' '', TAB, NL} then par (i + 1) st
      else bind_res (wrd i i [] False st) (\<lambda>(w, j, st').
        if j < length s \<and> s ! j \<in> set '';&|(<>'' then Unsure ''array assignment''
        else par j st'))"

definition dbracket_body :: "word_call \<Rightarrow> plain_call \<Rightarrow> string \<Rightarrow> plain_call" where
  "dbracket_body wrd dbr s i st =
     (if \<not> i < length s then Unsure ''unterminated [[''
      else if s ! i \<in> {CHR '' '', TAB, NL} then dbr (i + 1) st
      else if starts_at s i '']]'' \<and> (i + 2 \<ge> length s \<or> s ! (i + 2) \<in> set META) then Ok (i + 2, st)
      else if s ! i \<in> set ''();&|<>'' then dbr (i + 1) st
      else bind_res (wrd i i [] False st) (\<lambda>(w, j, st'). dbr j st'))"

definition redirection_body :: "word_call \<Rightarrow> string \<Rightarrow> redir_call" where
  "redirection_body wrd s opr j st =
     (let i = skip_blanks s j in
      if i \<ge> length s \<or> s ! i \<in> set [NL, CHR '';'', CHR ''&'', CHR ''|'', CHR ''('', CHR '')'', CHR ''<'', CHR ''>'']
      then Unsure ''redirection with no target''
      else bind_res (wrd i i [] False st) (\<lambda>(target, k, (pend, cmds)).
        if opr \<in> {''<<'', ''<<-''} then
          (if dequote (w_raw target) = [] then Unsure ''heredoc with no delimiter''
           else Ok (k, (pend @ [(dequote (w_raw target), opr = ''<<-'')], cmds)))
        else Ok (k, (pend, cmds))))"

definition list_word_body :: "list_call \<Rightarrow> word_call \<Rightarrow> plain_call \<Rightarrow> plain_call \<Rightarrow> string \<Rightarrow> list_call" where
  "list_word_body lst wrd par dbr s i closer cur atc dead fh st =
     bind_res (wrd i i [] False st) (\<lambda>(w, j, st').
       if cur = None \<and> atc \<and> \<not> dead \<and> w_raw w \<in> set UNPARSED then Unsure (w_raw w)
       else if cur = None \<and> atc \<and> \<not> dead \<and> w_raw w \<in> set OPENERS then
         (if w_raw w = ''time'' \<and> starts_at s (skip_blanks s j) ''-p'' then
            bind_res (wrd (skip_blanks s j) (skip_blanks s j) [] False st')
              (\<lambda>(w', k, st''). lst k closer cur atc dead fh st'')
          else lst j closer cur atc dead fh st')
       else if cur = None \<and> atc \<and> \<not> dead \<and> w_raw w = ''for'' then
         lst j closer cur False dead True st'
       else if cur = None \<and> atc \<and> \<not> dead \<and> w_raw w = ''[['' then
         bind_res (dbr j st') (\<lambda>(k, st''). lst k closer cur False True fh st'')
       else if cur = None \<and> w_raw w \<in> set CLOSERS \<and> (atc \<or> dead) then
         lst j closer cur False True fh st'
       else if fh \<or> dead then lst j closer cur atc dead fh st'
       else if cur = None \<and> assign_match (w_raw w) then
         (if ends_with (w_raw w) ''='' \<and> starts_at s j ''('' then
            bind_res (par (j + 1) st') (\<lambda>(k, st''). lst k closer cur atc dead fh st'')
          else lst j closer cur atc dead fh st')
       else lst j closer (add_word cur w) False dead fh st')"

definition list_body :: "list_call \<Rightarrow> list_call \<Rightarrow> redir_call \<Rightarrow> string \<Rightarrow> list_call" where
  "list_body lst lwd red s i closer cur atc dead fh st =
     (if \<not> i < length s then
        (if closer \<noteq> None then Unsure ''unclosed ('' else Ok (i, finish cur st))
      else if s ! i \<in> {CHR '' '', TAB} then lst (i + 1) closer cur atc dead fh st
      else if starts_at s i [BSL, NL] then lst (i + 2) closer cur atc dead fh st
      else if s ! i = NL then
        bind_res (heredocs s (fst (finish cur st)) (i + 1))
          (\<lambda>j. lst j closer None True False False ([], snd (finish cur st)))
      else if s ! i = CHR ''#'' then
        lst (case find_from NL s i of None \<Rightarrow> length s | Some j \<Rightarrow> j) closer cur atc dead fh st
      else if closer = Some (s ! i) then Ok (i + 1, finish cur st)
      else if starts_at s i '';;'' then Unsure ''case''
      else if starts_at s i ''&&'' \<or> starts_at s i ''||'' then
        lst (i + 2) closer None True False fh (finish cur st)
      else if s ! i = CHR '';'' then lst (i + 1) closer None True False False (finish cur st)
      else if starts_at s i ''|&'' then lst (i + 2) closer None True False fh (finish cur st)
      else if s ! i = CHR ''|'' then lst (i + 1) closer None True False fh (finish cur st)
      else if starts_at s i ''<('' \<or> starts_at s i ''>('' then
        bind_res (lst (i + 2) (Some (CHR '')'')) None True False False st)
          (\<lambda>(j, st'). lst j closer
             (add_word cur \<lparr>w_start = i, w_end = j, w_raw = slice s i j, w_value = None\<rparr>) False dead fh st')
      else (case redir_match s i of
        Some (opr, j) \<Rightarrow> bind_res (red opr j st)
           (\<lambda>(k, st'). lst k closer cur atc dead fh st')
      | None \<Rightarrow>
        if s ! i = CHR ''&'' then lst (i + 1) closer None True False fh (finish cur st)
        else if s ! i = CHR ''('' then
          (if cur \<noteq> None \<or> \<not> atc then Unsure ''( inside a command''
           else if starts_at s i ''(('' then
             bind_res (arith_end s (i + 2) 2) (\<lambda>j. lst j closer cur False True fh st)
           else bind_res (lst (i + 1) (Some (CHR '')'')) None True False False st)
             (\<lambda>(j, st'). lst j closer cur False True fh st'))
        else if s ! i = CHR '')'' then Unsure ''unbalanced )''
        else lwd i closer cur atc dead fh st))"

text \<open>The methods, with fuel.\<close>

fun list_loop :: "nat \<Rightarrow> string \<Rightarrow> list_call"
and list_word :: "nat \<Rightarrow> string \<Rightarrow> list_call"
and redirection :: "nat \<Rightarrow> string \<Rightarrow> redir_call"
and word_loop :: "nat \<Rightarrow> string \<Rightarrow> word_call"
and dollar :: "nat \<Rightarrow> string \<Rightarrow> dollar_call"
and dquote :: "nat \<Rightarrow> string \<Rightarrow> dquote_call"
and braces :: "nat \<Rightarrow> string \<Rightarrow> braces_call"
and parens :: "nat \<Rightarrow> string \<Rightarrow> plain_call"
and dbracket :: "nat \<Rightarrow> string \<Rightarrow> plain_call"
where
  "list_loop 0 = (\<lambda>s i closer cur atc dead fh st. Stuck)"
| "list_loop (Suc fuel) = (\<lambda>s. list_body (list_loop fuel s) (list_word fuel s) (redirection fuel s) s)"
| "list_word 0 = (\<lambda>s i closer cur atc dead fh st. Stuck)"
| "list_word (Suc fuel) = (\<lambda>s. list_word_body (list_loop fuel s) (word_loop fuel s) (parens fuel s) (dbracket fuel s) s)"
| "redirection 0 = (\<lambda>s opr j st. Stuck)"
| "redirection (Suc fuel) = (\<lambda>s. redirection_body (word_loop fuel s) s)"
| "word_loop 0 = (\<lambda>s start i out dyn st. Stuck)"
| "word_loop (Suc fuel) = (\<lambda>s. word_body (word_loop fuel s) (dollar fuel s) (dquote fuel s) s)"
| "dollar 0 = (\<lambda>s i st. Stuck)"
| "dollar (Suc fuel) = (\<lambda>s. dollar_body (list_loop fuel s) (braces fuel s) s)"
| "dquote 0 = (\<lambda>s i out dyn st. Stuck)"
| "dquote (Suc fuel) = (\<lambda>s. dquote_body (dollar fuel s) (dquote fuel s) s)"
| "braces 0 = (\<lambda>s i depth st. Stuck)"
| "braces (Suc fuel) = (\<lambda>s. braces_body (dollar fuel s) (dquote fuel s) (braces fuel s) s)"
| "parens 0 = (\<lambda>s i st. Stuck)"
| "parens (Suc fuel) = (\<lambda>s. parens_body (word_loop fuel s) (parens fuel s) s)"
| "dbracket 0 = (\<lambda>s i st. Stuck)"
| "dbracket (Suc fuel) = (\<lambda>s. dbracket_body (word_loop fuel s) (dbracket fuel s) s)"

declare list_loop.simps [simp del] list_word.simps [simp del] redirection.simps [simp del] word_loop.simps [simp del] dollar.simps [simp del] dquote.simps [simp del] braces.simps [simp del] parens.simps [simp del] dbracket.simps [simp del]

lemma scanner_eqs [code]:
  "list_loop 0 s i closer cur atc dead fh st = Stuck"
  "list_loop (Suc fuel) s i closer cur atc dead fh st =
     list_body (list_loop fuel s) (list_word fuel s) (redirection fuel s) s i closer cur atc dead fh st"
  "list_word 0 s i closer cur atc dead fh st = Stuck"
  "list_word (Suc fuel) s i closer cur atc dead fh st =
     list_word_body (list_loop fuel s) (word_loop fuel s) (parens fuel s) (dbracket fuel s) s i closer cur atc dead fh st"
  "redirection 0 s opr j st = Stuck"
  "redirection (Suc fuel) s opr j st =
     redirection_body (word_loop fuel s) s opr j st"
  "word_loop 0 s start i out dyn st = Stuck"
  "word_loop (Suc fuel) s start i out dyn st =
     word_body (word_loop fuel s) (dollar fuel s) (dquote fuel s) s start i out dyn st"
  "dollar 0 s i st = Stuck"
  "dollar (Suc fuel) s i st =
     dollar_body (list_loop fuel s) (braces fuel s) s i st"
  "dquote 0 s i out dyn st = Stuck"
  "dquote (Suc fuel) s i out dyn st =
     dquote_body (dollar fuel s) (dquote fuel s) s i out dyn st"
  "braces 0 s i depth st = Stuck"
  "braces (Suc fuel) s i depth st =
     braces_body (dollar fuel s) (dquote fuel s) (braces fuel s) s i depth st"
  "parens 0 s i st = Stuck"
  "parens (Suc fuel) s i st =
     parens_body (word_loop fuel s) (parens fuel s) s i st"
  "dbracket 0 s i st = Stuck"
  "dbracket (Suc fuel) s i st =
     dbracket_body (word_loop fuel s) (dbracket fuel s) s i st"
  by (simp_all add: list_loop.simps list_word.simps redirection.simps word_loop.simps dollar.simps dquote.simps braces.simps parens.simps dbracket.simps)

text \<open>\<open>_Scanner(command).parse()\<close>.\<close>

definition scan_fuel :: "string \<Rightarrow> nat" where
  "scan_fuel s = 4 * length s + 8"

definition parse :: "string \<Rightarrow> simple list res" where
  "parse s =
     bind_res (list_loop (scan_fuel s) s 0 None None True False False ([], []))
       (\<lambda>(i, (pending, commands)).
          if i < length s then Unsure ''unbalanced )''
          else if pending \<noteq> [] then Unsure ''unterminated heredoc''
          else Ok commands)"

section \<open>What the scanner's methods promise each other\<close>

text \<open>\<open>res_sat P r\<close>: the result is \<open>Unsure\<close> or satisfies \<open>P\<close>, and the fuel was enough.\<close>

definition res_sat :: "('a \<Rightarrow> bool) \<Rightarrow> 'a res \<Rightarrow> bool" where
  "res_sat P r = (case r of Ok x \<Rightarrow> P x | Unsure _ \<Rightarrow> True | Stuck \<Rightarrow> False)"

lemma res_sat_simps [simp]: "res_sat P (Ok x) = P x" "res_sat P (Unsure w)" "\<not> res_sat P Stuck"
  by (simp_all add: res_sat_def)

lemma res_sat_if: "(b \<Longrightarrow> res_sat P x) \<Longrightarrow> (\<not> b \<Longrightarrow> res_sat P y) \<Longrightarrow> res_sat P (if b then x else y)"
  by simp

lemma res_sat_bind: "res_sat Q r \<Longrightarrow> (\<And>x. Q x \<Longrightarrow> res_sat P (f x)) \<Longrightarrow> res_sat P (bind_res r f)"
  by (cases r) simp_all

lemma res_sat_mono: "res_sat Q r \<Longrightarrow> (\<And>x. Q x \<Longrightarrow> P x) \<Longrightarrow> res_sat P r"
  by (cases r) simp_all

lemma res_sat_adv:
  "res_sat (\<lambda>j. a < j \<and> j \<le> n) r \<Longrightarrow> b \<le> a \<Longrightarrow> res_sat (\<lambda>j. b < j \<and> j \<le> (n::nat)) r"
  by (erule res_sat_mono) auto

text \<open>A word's span lies in the text and is its raw text; a command's words follow each other.\<close>

definition word_ok :: "string \<Rightarrow> word \<Rightarrow> bool" where
  "word_ok s w \<longleftrightarrow> w_start w < w_end w \<and> w_start w < length s \<and> w_raw w = slice s (w_start w) (w_end w)"

definition words_ok :: "string \<Rightarrow> simple \<Rightarrow> bool" where
  "words_ok s ws \<longleftrightarrow> ws \<noteq> [] \<and> (\<forall>w \<in> set ws. word_ok s w)
     \<and> sorted_wrt (\<lambda>a b. w_end a \<le> w_start b) ws"

definition scan_ok :: "string \<Rightarrow> scan \<Rightarrow> bool" where
  "scan_ok s st \<longleftrightarrow> (\<forall>ws \<in> set (snd st). words_ok s ws)"

definition cur_ok :: "string \<Rightarrow> nat \<Rightarrow> simple option \<Rightarrow> bool" where
  "cur_ok s i cur = (case cur of None \<Rightarrow> True
     | Some ws \<Rightarrow> words_ok s ws \<and> (\<forall>w \<in> set ws. w_end w \<le> i))"

lemma cur_ok_None [simp]: "cur_ok s i None"
  by (simp add: cur_ok_def)

lemma cur_ok_mono: "cur_ok s i cur \<Longrightarrow> i \<le> j \<Longrightarrow> cur_ok s j cur"
  by (auto simp: cur_ok_def split: option.splits)

lemma scan_ok_empty [simp]: "scan_ok s (p, [])"
  by (simp add: scan_ok_def)

lemma scan_ok_pending: "scan_ok s (p, c) \<longleftrightarrow> scan_ok s (q, c)"
  by (simp add: scan_ok_def)

lemma finish_ok: "scan_ok s st \<Longrightarrow> cur_ok s i cur \<Longrightarrow> scan_ok s (finish cur st)"
  by (cases st) (auto simp: scan_ok_def cur_ok_def split: option.splits)

lemma finish_ok_pending: "scan_ok s st \<Longrightarrow> cur_ok s i cur \<Longrightarrow> scan_ok s (p, snd (finish cur st))"
  using finish_ok [of s st i cur] by (simp add: scan_ok_def)

lemma add_word_ok:
  "cur_ok s i cur \<Longrightarrow> word_ok s w \<Longrightarrow> i \<le> w_start w \<Longrightarrow> w_end w \<le> j \<Longrightarrow> cur_ok s j (add_word cur w)"
  by (force simp: cur_ok_def add_word_def words_ok_def word_ok_def sorted_wrt_append split: option.splits)

lemma starts_at_length: "starts_at s i p \<Longrightarrow> p \<noteq> [] \<Longrightarrow> i + length p \<le> length s"
proof -
  assume "starts_at s i p" and p: "p \<noteq> []"
  then have "length (take (length p) (drop i s)) = length p" by (simp add: starts_at_def)
  with p show ?thesis by (cases p) (auto simp: min_def split: if_splits)
qed

lemma starts_at_nth: "starts_at s i (c # p) \<Longrightarrow> i < length s \<and> s ! i = c"
proof -
  assume a: "starts_at s i (c # p)"
  then have "drop i s \<noteq> []" by (auto simp: starts_at_def)
  then have "i < length s" by simp
  with a show ?thesis by (simp add: starts_at_def Cons_nth_drop_Suc [symmetric])
qed

section \<open>The plain loops\<close>

lemma skip_blanks_ge: "i \<le> skip_blanks s i"
  by (induction s i rule: skip_blanks.induct) (subst skip_blanks.simps, auto)

lemma skip_blanks_stop: "skip_blanks s i < length s \<Longrightarrow> s ! skip_blanks s i \<notin> {CHR '' '', TAB}"
proof (induction s i rule: skip_blanks.induct)
  case (1 s i)
  show ?case
  proof (cases "i < length s \<and> s ! i \<in> {CHR '' '', TAB}")
    case True
    then have "skip_blanks s i = skip_blanks s (i + 1)" by (subst skip_blanks.simps) simp
    with 1 True show ?thesis by simp
  next
    case False
    then have "skip_blanks s i = i" by (subst skip_blanks.simps) auto
    with 1 False show ?thesis by auto
  qed
qed

lemma ansi_c_ok: "res_sat (\<lambda>j. i < j \<and> j \<le> length s) (ansi_c s i)"
  by (induction s i rule: ansi_c.induct) (subst ansi_c.simps, auto intro: res_sat_adv)

lemma backtick_ok: "res_sat (\<lambda>k. j < k \<and> k \<le> length s) (backtick s i j)"
  by (induction s i j rule: backtick.induct) (subst backtick.simps, auto intro: res_sat_adv)

lemma arith_end_ok: "res_sat (\<lambda>j. i < j \<and> j \<le> length s) (arith_end s i d)"
  by (induction s i d rule: arith_end.induct) (subst arith_end.simps, auto intro: res_sat_adv)

lemma heredoc_end_ok: "res_sat (\<lambda>j. i < j \<and> j \<le> length s) (heredoc_end s d b i)"
proof (induction s d b i rule: heredoc_end.induct)
  case (1 s d b i)
  let ?i = "case find_from NL s i of None \<Rightarrow> length s | Some j \<Rightarrow> j + 1"
  show ?case
  proof (cases "i < length s")
    case True
    have lt: "i < ?i" "?i \<le> length s"
      using True by (auto split: option.splits dest: find_from_Some)
    show ?thesis
    proof (subst heredoc_end.simps, unfold Let_def, intro res_sat_if)
      assume n: "(if b then dropWhile (\<lambda>c. c = TAB) (takeWhile (\<lambda>c. c \<noteq> NL) (drop i s)) else takeWhile (\<lambda>c. c \<noteq> NL) (drop i s)) \<noteq> d"
      show "res_sat (\<lambda>j. i < j \<and> j \<le> length s) (heredoc_end s d b ?i)"
        using "1" [OF True refl refl n] lt(1) by (rule res_sat_adv [OF _ less_imp_le])
    qed (use lt in simp_all)
  next
    case False
    then show ?thesis by (subst heredoc_end.simps) simp
  qed
qed

lemma heredocs_ok: "res_sat (\<lambda>j. i \<le> j \<and> (i \<le> length s \<longrightarrow> j \<le> length s)) (heredocs s p i)"
proof (induction p arbitrary: i)
  case (Cons x p)
  obtain d b where x: "x = (d, b)" by (cases x)
  show ?case unfolding x heredocs.simps
    by (rule res_sat_bind [OF heredoc_end_ok]) (auto intro: res_sat_mono [OF Cons])
qed simp

lemma first_op_ok: "first_op ps s i = Some (p, j) \<Longrightarrow> [] \<notin> set ps \<Longrightarrow> i < j \<and> j \<le> length s"
  by (induction ps) (auto split: if_splits dest: starts_at_length)

lemma fd_prefix_ge: "i \<le> fd_prefix s i"
  by (auto simp: fd_prefix_def Let_def split: list.splits)

lemma redir_match_ok: "redir_match s i = Some (p, j) \<Longrightarrow> i < j \<and> j \<le> length s"
proof -
  assume "redir_match s i = Some (p, j)"
  moreover have "[] \<notin> set REDIR_OPS" by (simp add: REDIR_OPS_def)
  ultimately have "fd_prefix s i < j \<and> j \<le> length s"
    unfolding redir_match_def by (rule first_op_ok)
  with fd_prefix_ge [of i s] show ?thesis by simp
qed

lemma first_op_None: "first_op ps s i = None \<Longrightarrow> p \<in> set ps \<Longrightarrow> \<not> starts_at s i p"
  by (induction ps) (auto split: if_splits)

lemma starts_at_single: "i < length s \<Longrightarrow> starts_at s i [s ! i]"
  by (simp add: starts_at_def Cons_nth_drop_Suc [symmetric])

lemma redir_match_None:
  assumes "redir_match s i = None" "i < length s"
  shows "s ! i \<noteq> CHR ''<'' \<and> s ! i \<noteq> CHR ''>''"
proof (rule ccontr)
  assume "\<not> ?thesis"
  then have c: "s ! i = CHR ''<'' \<or> s ! i = CHR ''>''" by blast
  have d: "drop i s = s ! i # drop (Suc i) s" using assms(2) by (simp add: Cons_nth_drop_Suc)
  have "fd_prefix s i = i"
    using c by (auto simp: fd_prefix_def Let_def d is_digit_def code_def split: list.splits)
  then have "first_op REDIR_OPS s i = None" using assms(1) by (simp add: redir_match_def)
  moreover have "[s ! i] \<in> set REDIR_OPS" using c by (auto simp: REDIR_OPS_def)
  ultimately show False using first_op_None starts_at_single [OF assms(2)] by blast
qed

section \<open>The contract of the scanner's methods\<close>

text \<open>
  What a call gives back: a list returns an index that is not behind, past its closer when it
  has one; a word's span starts where it began and ends at the index returned, and a character
  that may start a word is consumed; the other methods move forward.
\<close>

definition list_post :: "string \<Rightarrow> nat \<Rightarrow> char option \<Rightarrow> nat \<times> scan \<Rightarrow> bool" where
  "list_post s i closer r \<longleftrightarrow> i \<le> fst r \<and> (closer \<noteq> None \<longrightarrow> i < fst r) \<and> scan_ok s (snd r)"

definition word_post :: "string \<Rightarrow> nat \<Rightarrow> nat \<Rightarrow> word \<times> nat \<times> scan \<Rightarrow> bool" where
  "word_post s start i r \<longleftrightarrow> (case r of (w, j, st) \<Rightarrow>
     w_start w = start \<and> w_end w = j \<and> w_raw w = slice s start j \<and> i \<le> j
     \<and> (i < length s \<and> s ! i \<notin> set META \<longrightarrow> i < j) \<and> scan_ok s st)"

definition ahead :: "string \<Rightarrow> nat \<Rightarrow> nat \<times> scan \<Rightarrow> bool" where
  "ahead s i r \<longleftrightarrow> i < fst r \<and> scan_ok s (snd r)"

definition ahead_v :: "string \<Rightarrow> nat \<Rightarrow> 'v \<times> nat \<times> scan \<Rightarrow> bool" where
  "ahead_v s i r \<longleftrightarrow> ahead s i (snd r)"

locale scan_calls =
  fixes s :: string and f :: nat
    and lst lwd :: list_call and red :: redir_call and wrd :: word_call
    and dol :: dollar_call and dqt :: dquote_call and brc :: braces_call
    and par dbr :: plain_call
  assumes lst: "4 * (length s - i) + 4 \<le> f \<Longrightarrow> scan_ok s st \<Longrightarrow> cur_ok s i cur
      \<Longrightarrow> res_sat (list_post s i closer) (lst i closer cur atc dead fh st)"
    and lwd: "4 * (length s - i) + 3 \<le> f \<Longrightarrow> i < length s \<Longrightarrow> s ! i \<notin> set META \<Longrightarrow> scan_ok s st
      \<Longrightarrow> cur_ok s i cur \<Longrightarrow> res_sat (list_post s i closer) (lwd i closer cur atc dead fh st)"
    and red: "4 * (length s - j) + 3 \<le> f \<Longrightarrow> scan_ok s st \<Longrightarrow> res_sat (ahead s j) (red opr j st)"
    and wrd: "4 * (length s - i) + 2 \<le> f \<Longrightarrow> scan_ok s st
      \<Longrightarrow> res_sat (word_post s start i) (wrd start i out dyn st)"
    and dol: "4 * (length s - i) + 1 \<le> f \<Longrightarrow> i < length s \<Longrightarrow> scan_ok s st
      \<Longrightarrow> res_sat (ahead_v s i) (dol i st)"
    and dqt: "4 * (length s - i) + 2 \<le> f \<Longrightarrow> scan_ok s st \<Longrightarrow> res_sat (ahead_v s i) (dqt i out dyn st)"
    and brc: "4 * (length s - i) + 2 \<le> f \<Longrightarrow> scan_ok s st \<Longrightarrow> res_sat (ahead s i) (brc i depth st)"
    and par: "4 * (length s - i) + 3 \<le> f \<Longrightarrow> scan_ok s st \<Longrightarrow> res_sat (ahead s i) (par i st)"
    and dbr: "4 * (length s - i) + 3 \<le> f \<Longrightarrow> scan_ok s st \<Longrightarrow> res_sat (ahead s i) (dbr i st)"
begin

text \<open>A call from an earlier place \<open>i\<close>: its fuel is enough, and its result is past \<open>i\<close>.\<close>

lemma lst_on:
  "i < length s \<Longrightarrow> i < k \<Longrightarrow> 4 * (length s - i) \<le> f \<Longrightarrow> scan_ok s st \<Longrightarrow> cur_ok s k cur
   \<Longrightarrow> res_sat (\<lambda>r. list_post s k closer r \<and> list_post s i closer r \<and> i < fst r) (lst k closer cur atc dead fh st)"
  by (rule res_sat_mono [OF lst]) (auto simp: list_post_def)

lemma lst_to:
  "i < length s \<Longrightarrow> i < k \<Longrightarrow> 4 * (length s - i) \<le> f \<Longrightarrow> scan_ok s st \<Longrightarrow> cur_ok s k cur
   \<Longrightarrow> res_sat (list_post s i closer) (lst k closer cur atc dead fh st)"
  by (rule res_sat_mono [OF lst_on]) auto

lemma wrd_to:
  "i < length s \<Longrightarrow> i < k \<Longrightarrow> 4 * (length s - i) \<le> f \<Longrightarrow> scan_ok s st
   \<Longrightarrow> res_sat (word_post s start i) (wrd start k out dyn st)"
  by (rule res_sat_mono [OF wrd]) (auto simp: word_post_def)

lemma dqt_to:
  "i < length s \<Longrightarrow> i < k \<Longrightarrow> 4 * (length s - i) \<le> f \<Longrightarrow> scan_ok s st
   \<Longrightarrow> res_sat (ahead_v s i) (dqt k out dyn st)"
  by (rule res_sat_mono [OF dqt]) (auto simp: ahead_v_def ahead_def)

lemma brc_to:
  "i < length s \<Longrightarrow> i < k \<Longrightarrow> 4 * (length s - i) \<le> f \<Longrightarrow> scan_ok s st
   \<Longrightarrow> res_sat (ahead s i) (brc k depth st)"
  by (rule res_sat_mono [OF brc]) (auto simp: ahead_def)

lemma par_to:
  "i < length s \<Longrightarrow> i < k \<Longrightarrow> 4 * (length s - i) \<le> f \<Longrightarrow> scan_ok s st \<Longrightarrow> res_sat (ahead s i) (par k st)"
  by (rule res_sat_mono [OF par]) (auto simp: ahead_def)

lemma dbr_to:
  "i < length s \<Longrightarrow> i < k \<Longrightarrow> 4 * (length s - i) \<le> f \<Longrightarrow> scan_ok s st \<Longrightarrow> res_sat (ahead s i) (dbr k st)"
  by (rule res_sat_mono [OF dbr]) (auto simp: ahead_def)

lemma dollar_body_ok:
  assumes "4 * (length s - i) \<le> f" "i < length s" "scan_ok s st"
  shows "res_sat (ahead_v s i) (dollar_body lst brc s i st)"
  unfolding dollar_body_def
proof (intro res_sat_if)
  show "res_sat (ahead_v s i) (bind_res (arith_end s (i + 3) 2) (\<lambda>j. Ok (True, j, st)))"
    using assms by (intro res_sat_bind [OF arith_end_ok]) (auto simp: ahead_v_def ahead_def)
  show "res_sat (ahead_v s i) (bind_res (lst (i + 2) (Some (CHR '')'')) None True False False st)
      (\<lambda>(j, st'). Ok (True, j, st')))"
    using assms by (intro res_sat_bind [OF lst_to [of i]]) (auto simp: ahead_v_def ahead_def list_post_def)
  show "res_sat (ahead_v s i) (bind_res (brc (i + 2) 1 st) (\<lambda>(j, st'). Ok (True, j, st')))"
    using assms by (intro res_sat_bind [OF brc_to [of i]]) (auto simp: ahead_v_def)
qed (use assms in \<open>auto simp: ahead_v_def ahead_def\<close>)

lemma dquote_body_ok:
  assumes "4 * (length s - i) + 1 \<le> f" "scan_ok s st"
  shows "res_sat (ahead_v s i) (dquote_body dol dqt s i out dyn st)"
  unfolding dquote_body_def
  using assms
  by (intro res_sat_if)
     (auto intro!: dqt_to res_sat_bind [OF dol] res_sat_bind [OF backtick_ok]
       simp: ahead_v_def ahead_def)

lemma braces_body_ok:
  assumes "4 * (length s - i) + 1 \<le> f" "scan_ok s st"
  shows "res_sat (ahead s i) (braces_body dol dqt brc s i depth st)"
  unfolding braces_body_def
  using assms
  by (intro res_sat_if)
     (auto intro!: brc_to res_sat_bind [OF dol] res_sat_bind [OF dqt_to [of i]]
       simp: ahead_v_def ahead_def split: option.splits dest: find_from_Some)

lemma word_body_ok:
  assumes "4 * (length s - i) + 1 \<le> f" "scan_ok s st"
  shows "res_sat (word_post s start i) (word_body wrd dol dqt s start i out dyn st)"
  unfolding word_body_def
  using assms
  by (intro res_sat_if)
     (auto intro!: wrd_to res_sat_bind [OF dol] res_sat_bind [OF dqt_to [of i]] res_sat_bind [OF backtick_ok]
         res_sat_bind [OF ansi_c_ok]
       simp: ahead_v_def ahead_def word_post_def split: option.splits dest: find_from_Some)

lemma parens_body_ok:
  assumes "4 * (length s - i) + 2 \<le> f" "scan_ok s st"
  shows "res_sat (ahead s i) (parens_body wrd par s i st)"
  unfolding parens_body_def
proof (intro res_sat_if)
  assume i: "\<not> \<not> i < length s" and nc: "s ! i \<noteq> CHR '')''" "s ! i \<notin> {CHR '' '', TAB, NL}"
  show "res_sat (ahead s i) (bind_res (wrd i i [] False st) (\<lambda>(w, j, st').
        if j < length s \<and> s ! j \<in> set '';&|(<>'' then Unsure ''array assignment'' else par j st'))"
  proof (rule res_sat_bind [OF wrd])
    fix r assume r: "word_post s i i r"
    obtain w j st' where rr: "r = (w, j, st')" by (cases r)
    have "i < j" if "\<not> (j < length s \<and> s ! j \<in> set '';&|(<>'')"
      using r i nc that by (cases "j = i") (auto simp: word_post_def rr META_def)
    then show "res_sat (ahead s i) (case r of (w, j, st') \<Rightarrow>
        if j < length s \<and> s ! j \<in> set '';&|(<>'' then Unsure ''array assignment'' else par j st')"
      using r i assms by (auto simp: rr word_post_def intro!: par_to)
  qed (use assms in auto)
qed (use assms in \<open>auto intro!: par_to simp: ahead_def\<close>)

lemma dbracket_body_ok:
  assumes "4 * (length s - i) + 2 \<le> f" "scan_ok s st"
  shows "res_sat (ahead s i) (dbracket_body wrd dbr s i st)"
  unfolding dbracket_body_def
proof (intro res_sat_if)
  assume i: "\<not> \<not> i < length s" and nc: "s ! i \<notin> {CHR '' '', TAB, NL}" "s ! i \<notin> set ''();&|<>''"
  then have "s ! i \<notin> set META" by (simp add: META_def)
  then show "res_sat (ahead s i) (bind_res (wrd i i [] False st) (\<lambda>(w, j, st'). dbr j st'))"
    using i assms by (intro res_sat_bind [OF wrd]) (auto simp: word_post_def intro!: dbr_to)
qed (use assms in \<open>auto intro!: dbr_to simp: ahead_def\<close>)

lemma redirection_body_ok:
  assumes "4 * (length s - j) + 2 \<le> f" "scan_ok s st"
  shows "res_sat (ahead s j) (redirection_body wrd s opr j st)"
proof -
  let ?i = "skip_blanks s j"
  have ge: "j \<le> ?i" by (rule skip_blanks_ge)
  show ?thesis unfolding redirection_body_def Let_def
  proof (rule res_sat_if)
    assume n: "\<not> (?i \<ge> length s \<or> s ! ?i \<in> set [NL, CHR '';'', CHR ''&'', CHR ''|'', CHR ''('', CHR '')'', CHR ''<'', CHR ''>''])"
    then have "s ! ?i \<notin> set META" using skip_blanks_stop [of s j] by (auto simp: META_def)
    moreover have "4 * (length s - ?i) + 2 \<le> f" using assms(1) ge by linarith
    ultimately show "res_sat (ahead s j) (bind_res (wrd ?i ?i [] False st) (\<lambda>(target, k, (pend, cmds)).
        if opr \<in> {''<<'', ''<<-''} then
          (if dequote (w_raw target) = [] then Unsure ''heredoc with no delimiter''
           else Ok (k, (pend @ [(dequote (w_raw target), opr = ''<<-'')], cmds)))
        else Ok (k, (pend, cmds))))"
      using n ge assms(2) by (intro res_sat_bind [OF wrd]) (auto simp: word_post_def ahead_def scan_ok_def)
  qed simp
qed

lemma list_word_body_ok:
  assumes fl: "4 * (length s - i) + 2 \<le> f" and i: "i < length s" and m: "s ! i \<notin> set META"
    and st: "scan_ok s st" and cur: "cur_ok s i cur"
  shows "res_sat (list_post s i closer) (list_word_body lst wrd par dbr s i closer cur atc dead fh st)"
  unfolding list_word_body_def
proof (rule res_sat_bind [OF wrd [OF fl st]], clarsimp split del: if_split)
  fix w j p c assume "word_post s i i (w, j, p, c)"
  then have w: "word_ok s w" "w_start w = i" "w_end w = j" and ij: "i < j" and sc: "scan_ok s (p, c)"
    using i m by (auto simp: word_post_def word_ok_def)
  have f4: "4 * (length s - i) \<le> f" using fl by simp
  have cj: "cur_ok s j cur" using cur ij by (auto intro: cur_ok_mono)
  have ck: "cur_ok s k cur" if "j \<le> k" for k using cj that by (rule cur_ok_mono)
  have cw: "cur_ok s j (add_word cur w)" using cur w ij by (intro add_word_ok) auto
  note to = lst_to [OF i _ f4]
  have time: "res_sat (list_post s i closer) (bind_res (wrd (skip_blanks s j) (skip_blanks s j) [] False (p, c))
      (\<lambda>(w', k, st''). lst k closer cur atc dead fh st''))"
  proof (rule res_sat_bind)
    show "res_sat (word_post s (skip_blanks s j) (skip_blanks s j)) (wrd (skip_blanks s j) (skip_blanks s j) [] False (p, c))"
      using fl skip_blanks_ge [of j s] ij sc by (intro wrd) auto
    fix r assume "word_post s (skip_blanks s j) (skip_blanks s j) r"
    then show "res_sat (list_post s i closer) (case r of (w', k, st'') \<Rightarrow> lst k closer cur atc dead fh st'')"
      using skip_blanks_ge [of j s] ij by (auto simp: word_post_def intro!: to ck)
  qed
  have sub: "res_sat (list_post s i closer) (bind_res x (\<lambda>(k, st''). lst k closer cur a d fh st''))"
    if "res_sat (ahead s j) x" for x a d
    using ij by (intro res_sat_bind [OF that]) (auto simp: ahead_def intro!: to ck)
  have dbr': "res_sat (ahead s j) (dbr j (p, c))" using fl i ij sc by (intro dbr) auto
  have par': "res_sat (ahead s j) (par (j + 1) (p, c))" 
    using fl i ij sc by (intro res_sat_mono [OF par]) (auto simp: ahead_def)
  show "res_sat (list_post s i closer)
     (if cur = None \<and> atc \<and> \<not> dead \<and> w_raw w \<in> set UNPARSED then Unsure (w_raw w)
       else if cur = None \<and> atc \<and> \<not> dead \<and> w_raw w \<in> set OPENERS then
         (if w_raw w = ''time'' \<and> starts_at s (skip_blanks s j) ''-p'' then
            bind_res (wrd (skip_blanks s j) (skip_blanks s j) [] False (p, c))
              (\<lambda>(w', k, st''). lst k closer cur atc dead fh st'')
          else lst j closer cur atc dead fh (p, c))
       else if cur = None \<and> atc \<and> \<not> dead \<and> w_raw w = ''for'' then
         lst j closer cur False dead True (p, c)
       else if cur = None \<and> atc \<and> \<not> dead \<and> w_raw w = ''[['' then
         bind_res (dbr j (p, c)) (\<lambda>(k, st''). lst k closer cur False True fh st'')
       else if cur = None \<and> w_raw w \<in> set CLOSERS \<and> (atc \<or> dead) then
         lst j closer cur False True fh (p, c)
       else if fh \<or> dead then lst j closer cur atc dead fh (p, c)
       else if cur = None \<and> assign_match (w_raw w) then
         (if ends_with (w_raw w) ''='' \<and> starts_at s j ''('' then
            bind_res (par (j + 1) (p, c)) (\<lambda>(k, st''). lst k closer cur atc dead fh st'')
          else lst j closer cur atc dead fh (p, c))
       else lst j closer (add_word cur w) False dead fh (p, c))"
    by (intro res_sat_if; (rule time | rule sub [OF dbr'] | rule sub [OF par'] | rule to | simp only: res_sat_simps))
       (use ij sc cj cw in auto)
qed

lemma list_body_ok:
  assumes fl: "4 * (length s - i) + 3 \<le> f" and st: "scan_ok s st" and cur: "cur_ok s i cur"
  shows "res_sat (list_post s i closer) (list_body lst lwd red s i closer cur atc dead fh st)"
proof (cases "i < length s")
  case False
  then show ?thesis using st cur
    by (auto simp: list_body_def list_post_def intro: finish_ok)
next
  case i: True
  have f4: "4 * (length s - i) \<le> f" using fl by simp
  note to = lst_to [OF i _ f4]
  have fin: "scan_ok s (finish cur st)" using st cur by (rule finish_ok)
  have finp: "scan_ok s (q, snd (finish cur st))" for q using st cur by (rule finish_ok_pending)
  have ck: "cur_ok s k cur" if "i \<le> k" for k using cur that by (rule cur_ok_mono)
  have inner: "res_sat (\<lambda>r. list_post s i (Some (CHR '')'')) r \<and> k < fst r) (lst k (Some (CHR '')'')) None True False False st)"
    if "i < k" for k
    using lst_on [OF i that f4 st, of None "Some (CHR '')'')" True False False] 
    by (rule res_sat_mono) (auto simp: list_post_def cur_ok_def)
  have nl: "res_sat (list_post s i closer) (bind_res (heredocs s (fst (finish cur st)) (i + 1))
          (\<lambda>j. lst j closer None True False False ([], snd (finish cur st))))"
    by (rule res_sat_bind [OF heredocs_ok]) (auto intro!: to finp)
  have subst: "res_sat (list_post s i closer) (bind_res (lst (i + 2) (Some (CHR '')'')) None True False False st)
          (\<lambda>(j, st'). lst j closer
             (add_word cur \<lparr>w_start = i, w_end = j, w_raw = slice s i j, w_value = None\<rparr>) False dead fh st'))"
    by (rule res_sat_bind [OF inner])
       (auto simp: list_post_def word_ok_def i intro!: to add_word_ok [OF cur])
  have paren: "res_sat (list_post s i closer) (bind_res (lst (i + 1) (Some (CHR '')'')) None True False False st)
             (\<lambda>(j, st'). lst j closer cur False True fh st'))"
    by (rule res_sat_bind [OF inner]) (auto simp: list_post_def intro!: to ck)
  have arith: "res_sat (list_post s i closer) (bind_res (arith_end s (i + 2) 2) (\<lambda>j. lst j closer cur False True fh st))"
    by (rule res_sat_bind [OF arith_end_ok]) (auto intro!: to ck st)
  have redr: "res_sat (list_post s i closer) (bind_res (red opr j st) (\<lambda>(k, st'). lst k closer cur atc dead fh st'))"
    if m: "redir_match s i = Some (opr, j)" for opr j
  proof (rule res_sat_bind)
    have ij: "i < j" "j \<le> length s" using redir_match_ok [OF m] by auto
    then show "res_sat (ahead s j) (red opr j st)" using fl i st by (intro red) auto
    fix r assume "ahead s j r"
    then show "res_sat (list_post s i closer) (case r of (k, st') \<Rightarrow> lst k closer cur atc dead fh st')"
      using ij by (cases r) (auto simp: ahead_def intro!: to ck)
  qed
  have cmt: "i < j" if "find_from NL s i = Some j" "s ! i = CHR ''#''" for j
    using find_from_Some [OF that(1)] that(2) by (cases "j = i") auto
  have word: "res_sat (list_post s i closer) (lwd i closer cur atc dead fh st)" if "s ! i \<notin> set META"
    using fl i that st cur by (intro lwd) auto
  have other: "res_sat (list_post s i closer) (case redir_match s i of
        Some (opr, j) \<Rightarrow> bind_res (red opr j st) (\<lambda>(k, st'). lst k closer cur atc dead fh st')
      | None \<Rightarrow>
        if s ! i = CHR ''&'' then lst (i + 1) closer None True False fh (finish cur st)
        else if s ! i = CHR ''('' then
          (if cur \<noteq> None \<or> \<not> atc then Unsure ''( inside a command''
           else if starts_at s i ''(('' then
             bind_res (arith_end s (i + 2) 2) (\<lambda>j. lst j closer cur False True fh st)
           else bind_res (lst (i + 1) (Some (CHR '')'')) None True False False st)
             (\<lambda>(j, st'). lst j closer cur False True fh st'))
        else if s ! i = CHR '')'' then Unsure ''unbalanced )''
        else lwd i closer cur atc dead fh st)"
    if "s ! i \<notin> {CHR '' '', TAB, NL, CHR '';'', CHR ''|''}"
  proof (cases "redir_match s i")
    case None
    with that redir_match_None [OF None i] have m: "s ! i \<notin> set META"
      if "s ! i \<noteq> CHR ''&''" "s ! i \<noteq> CHR ''(''" "s ! i \<noteq> CHR '')''" using that by (auto simp: META_def)
    show ?thesis unfolding None option.case
      by (intro res_sat_if; (rule arith | rule paren | rule word | rule to | simp only: res_sat_simps))
         (use m fin in auto)
  next
    case (Some a)
    then show ?thesis using redr by (cases a) simp
  qed
  show ?thesis
    unfolding list_body_def
    by (intro res_sat_if; (rule nl | rule subst | rule other | rule to | simp only: res_sat_simps))
       (use i st fin ck cmt in \<open>auto simp: list_post_def split: option.splits\<close>)
qed

end

section \<open>The methods keep the contract\<close>

text \<open>The methods with fuel \<open>f\<close> are the callees of the methods with fuel \<open>Suc f\<close>.\<close>

lemma scan_calls_fuel:
  "scan_calls s f (list_loop f s) (list_word f s) (redirection f s) (word_loop f s) (dollar f s)
     (dquote f s) (braces f s) (parens f s) (dbracket f s)"
proof (induction f)
  case 0
  show ?case by unfold_locales auto
next
  case (Suc f)
  show ?case
    by unfold_locales
       (simp_all only: scanner_eqs,
        insert scan_calls.list_body_ok [OF Suc] scan_calls.list_word_body_ok [OF Suc]
          scan_calls.redirection_body_ok [OF Suc] scan_calls.word_body_ok [OF Suc] scan_calls.dollar_body_ok [OF Suc]
          scan_calls.dquote_body_ok [OF Suc] scan_calls.braces_body_ok [OF Suc] scan_calls.parens_body_ok [OF Suc]
          scan_calls.dbracket_body_ok [OF Suc], auto)
qed

interpretation scanner: scan_calls s f "list_loop f s" "list_word f s" "redirection f s" "word_loop f s"
    "dollar f s" "dquote f s" "braces f s" "parens f s" "dbracket f s" for s f
  by (rule scan_calls_fuel)

text \<open>The whole command: fuel enough, and every command found made of words that lie in it.\<close>

lemma parse_sat: "res_sat (\<lambda>cs. \<forall>ws \<in> set cs. words_ok s ws) (parse s)"
  unfolding parse_def
  by (rule res_sat_bind [OF scanner.lst [where i = 0 and cur = None and st = "([], [])"]])
     (auto simp: scan_fuel_def list_post_def scan_ok_def)

lemma parse_not_Stuck: "parse s \<noteq> Stuck"
  using parse_sat [of s] by auto

lemma parse_words: "parse s = Ok cs \<Longrightarrow> ws \<in> set cs \<Longrightarrow> words_ok s ws"
  using parse_sat [of s] by auto

section \<open>Properties\<close>

text \<open>
  The reading of a command always ends: whatever the text, \<open>parse\<close> gives its simple commands
  or the construct it does not parse, and its fuel is never the reason.
\<close>

theorem parse_total: "parse s \<noteq> Stuck"
  by (rule parse_not_Stuck)

text \<open>
  What is found lies in the text: every simple command has a word, each word is the text at
  its own place, and the words of a command follow each other without overlapping.
\<close>

theorem commands_lie_in_text:
  "parse s = Ok cs \<Longrightarrow> ws \<in> set cs \<Longrightarrow>
     ws \<noteq> []
     \<and> list_all (\<lambda>w. w_start w < w_end w \<and> w_start w < length s \<and> w_raw w = slice s (w_start w) (w_end w)) ws
     \<and> sorted_wrt (\<lambda>a b. w_end a \<le> w_start b) ws"
  using parse_words unfolding words_ok_def word_ok_def list_all_iff by blast

definition sample_words :: "word list" where
  "sample_words = [\<lparr>w_start = 4, w_end = 5, w_raw = ''b'', w_value = Some ''b''\<rparr>,
     \<lparr>w_start = 6, w_end = 12, w_raw = ''$(c d)'', w_value = None\<rparr>]"

lemma commands_lie_in_text_witness:
  "sample_words \<noteq> []
     \<and> list_all (\<lambda>w. w_start w < w_end w \<and> w_start w < length ''a=1 b $(c d)|e''
          \<and> w_raw w = slice ''a=1 b $(c d)|e'' (w_start w) (w_end w)) sample_words
     \<and> sorted_wrt (\<lambda>a b. w_end a \<le> w_start b) sample_words"
proof (rule commands_lie_in_text)
  show "parse ''a=1 b $(c d)|e'' = Ok [[\<lparr>w_start = 8, w_end = 9, w_raw = ''c'', w_value = Some ''c''\<rparr>,
      \<lparr>w_start = 10, w_end = 11, w_raw = ''d'', w_value = Some ''d''\<rparr>], sample_words,
      [\<lparr>w_start = 13, w_end = 14, w_raw = ''e'', w_value = Some ''e''\<rparr>]]"
    by code_simp
qed simp

end
