(* ===== verification/Heavy_Classify.thy ===== *)
theory Heavy_Classify
  imports Shell_Scanner
begin

text \<open>
  What a heavy job is (\<open>_classify\<close> and the functions it calls, \<open>classify\<close>,
  \<open>heavy_family\<close>, in \<open>claudlobby/_runtime_scripts/heavy-slot.py\<close>): the label of the heavy
  tool an argument list runs, or none. \<open>lenient\<close> is the wrapper's reading, which asks for the
  tool only.

  The code's sets of words are lists here, used by membership. \<open>classify_args\<close> calls itself
  through \<open>npx\<close>, \<open>pnpm exec\<close> and the like, always with \<open>allow_pm=False\<close>: \<open>classify_bin\<close>
  is \<open>_classify\<close> at that value and closes the recursion.
\<close>

section \<open>The tables\<close>

definition CHROMIUM :: "string list" where
  "CHROMIUM =
    [''chromium'', ''chromium-browser'', ''google-chrome'', ''google-chrome-stable'',
     ''google-chrome-beta'', ''chrome'', ''chrome-headless-shell'', ''headless_shell'',
     ''Google Chrome'']"

definition SHELLS :: "string list" where
  "SHELLS =
    [''bash'', ''sh'', ''zsh'', ''dash'']"

definition INFO :: "string list" where
  "INFO =
    [''--version'', ''-V'', ''--help'', ''-h'', ''-v'', ''version'', ''help'']"

definition PYTEST_VALUE :: "string list" where
  "PYTEST_VALUE =
    [''-k'', ''-m'', ''-p'', ''-c'', ''-o'', ''-W'', ''-n'', ''-r'', ''--deselect'',
     ''--ignore'', ''--ignore-glob'', ''--rootdir'', ''--basetemp'', ''--junitxml'',
     ''--junit-xml'', ''--confcutdir'', ''--maxfail'', ''--tb'', ''--durations'',
     ''--durations-min'', ''--log-level'', ''--log-file'', ''--log-cli-level'',
     ''--log-format'', ''--log-date-format'', ''--log-file-level'', ''--cov'',
     ''--cov-report'', ''--cov-config'', ''--cov-fail-under'', ''--import-mode'',
     ''--capture'', ''--color'', ''--override-ini'', ''--timeout'', ''--dist'',
     ''--maxprocesses'', ''--numprocesses'', ''--reruns'', ''--reruns-delay'', ''--count'',
     ''--html'', ''--json-report-file'', ''--report-log'', ''--asyncio-mode'',
     ''--hypothesis-seed'']"

definition VITEST_VALUE :: "string list" where
  "VITEST_VALUE =
    [''-t'', ''--testNamePattern'', ''-c'', ''--config'', ''-r'', ''--root'', ''--dir'',
     ''--project'', ''--reporter'', ''--outputFile'', ''--pool'', ''--shard'',
     ''--environment'', ''--mode'', ''--exclude'', ''--workspace'']"

definition NPM_INSTALL :: "string list" where
  "NPM_INSTALL =
    [''install'', ''i'', ''in'', ''ins'', ''inst'', ''insta'', ''instal'', ''isnt'',
     ''isnta'', ''isntal'', ''isntall'', ''add'', ''update'', ''up'', ''upgrade'',
     ''udpate'', ''install-test'', ''it'', ''install-ci-test'', ''cit'', ''rebuild'',
     ''rb'']"

definition NPM_CI :: "string list" where
  "NPM_CI =
    [''ci'', ''clean-install'', ''ic'', ''install-clean'', ''isntall-clean'']"

definition NPM_TEST :: "string list" where
  "NPM_TEST =
    [''test'', ''t'', ''tst'']"

definition NPM_RUN :: "string list" where
  "NPM_RUN =
    [''run'', ''run-script'', ''rum'', ''urn'']"

definition NPM_EXEC :: "string list" where
  "NPM_EXEC =
    [''exec'', ''x'']"

definition NPM_VALUE :: "string list" where
  "NPM_VALUE =
    [''--prefix'', ''--workspace'', ''-w'', ''--registry'', ''--userconfig'', ''--cache'',
     ''--loglevel'', ''--tag'']"

definition PNPM_INSTALL :: "string list" where
  "PNPM_INSTALL =
    [''install'', ''i'', ''add'', ''update'', ''up'', ''upgrade'', ''rebuild'', ''rb'']"

definition PNPM_VALUE :: "string list" where
  "PNPM_VALUE =
    [''--filter'', ''-F'', ''-C'', ''--dir'', ''--workspace-dir'']"

definition YARN_INSTALL :: "string list" where
  "YARN_INSTALL =
    [''install'', ''add'', ''upgrade'', ''up'']"

definition YARN_NOT_A_JOB :: "string list" where
  "YARN_NOT_A_JOB =
    [''why'', ''info'', ''list'', ''ls'', ''config'', ''cache'', ''remove'', ''dev'',
     ''start'', ''serve'', ''lint'', ''outdated'', ''audit'', ''init'']"

definition PIP_VALUE :: "string list" where
  "PIP_VALUE =
    [''--log'', ''--proxy'', ''--timeout'', ''--retries'', ''--cache-dir'', ''--python'']"

definition UV_VALUE :: "string list" where
  "UV_VALUE =
    [''--project'', ''--directory'', ''--python'', ''-p'', ''--config-file'',
     ''--cache-dir'', ''--color'', ''--index'', ''--default-index'', ''--index-url'']"

text \<open>A regular expression's \<open>$\<close> also matches before a last newline.\<close>

definition ends_at_line :: "string \<Rightarrow> string \<Rightarrow> bool" where
  "ends_at_line v p \<longleftrightarrow> ends_with v p \<or> ends_with v (p @ [NL])"

text \<open>\<open>_TEST_FILE.search\<close>, \<open>_PYTHON.match\<close>.\<close>

definition TEST_EXTENSIONS :: "string list" where
  "TEST_EXTENSIONS = ''.py'' # ''.vue'' # ''.svelte''
     # [''.'' @ m @ l @ ''s'' @ x. m \<leftarrow> [[], ''c'', ''m''], l \<leftarrow> [''j'', ''t''], x \<leftarrow> [[], ''x'']]"

definition test_file :: "string \<Rightarrow> bool" where
  "test_file v \<longleftrightarrow> contains v ''.test.'' \<or> contains v ''.spec.''
     \<or> (\<exists>p \<in> set TEST_EXTENSIONS. ends_at_line v p)"

text \<open>\<open>\\d+(\\.\\d+)*\<close>; \<open>seen\<close> tells whether the current number has a digit.\<close>

fun version_digits :: "bool \<Rightarrow> string \<Rightarrow> bool" where
  "version_digits seen [] = seen"
| "version_digits seen (c # cs) =
     (if is_digit c then version_digits True cs
      else c = CHR ''.'' \<and> seen \<and> version_digits False cs)"

definition python_match :: "string \<Rightarrow> bool" where
  "python_match b \<longleftrightarrow> starts_with b ''python''
     \<and> (let v = drop 6 b; v' = (if v \<noteq> [] \<and> last v = NL then butlast v else v)
        in v' = [] \<or> version_digits False v')"

section \<open>Words as the classifier sees them\<close>

record tok =
  t_value :: "string option"
  t_raw :: string

definition toks :: "string list \<Rightarrow> tok list" where
  "toks argv = map (\<lambda>a. \<lparr>t_value = Some a, t_raw = a\<rparr>) argv"

definition base :: "tok \<Rightarrow> string option" where
  "base t = (case t_value t of None \<Rightarrow> None | Some v \<Rightarrow> if v = [] then None else Some (after_last (CHR ''/'') v))"

text \<open>\<open>t.value in (...)\<close>, and \<open>any(a.value in (...) for a in args)\<close>.\<close>

definition value_in :: "tok \<Rightarrow> string list \<Rightarrow> bool" where
  "value_in t vs = (case t_value t of None \<Rightarrow> False | Some v \<Rightarrow> v \<in> set vs)"

definition any_in :: "tok list \<Rightarrow> string list \<Rightarrow> bool" where
  "any_in args vs \<longleftrightarrow> (\<exists>a \<in> set args. value_in a vs)"

function skip_opts :: "tok list \<Rightarrow> nat \<Rightarrow> string list \<Rightarrow> nat" where
  "skip_opts args i value_opts =
     (if i < length args then
        (case t_value (args ! i) of
           None \<Rightarrow> i
         | Some v \<Rightarrow>
             if \<not> starts_with v ''-'' \<or> v = ''-'' then i
             else if v = ''--'' then i + 1
             else skip_opts args (if CHR ''='' \<notin> set v \<and> v \<in> set value_opts then i + 2 else i + 1) value_opts)
      else i)"
  by pat_completeness auto
termination by (relation "measure (\<lambda>(args, i, vs). length args - i)") (auto split: if_splits)

declare skip_opts.simps [simp del]

lemma skip_opts_ge: "i \<le> skip_opts args i vs"
  by (induction args i vs rule: skip_opts.induct) (subst skip_opts.simps, force split: option.splits)

section \<open>Runners\<close>

function skip_assigns :: "tok list \<Rightarrow> nat \<Rightarrow> nat" where
  "skip_assigns args i =
     (if i < length args \<and> assign_match (t_raw (args ! i)) then skip_assigns args (i + 1) else i)"
  by pat_completeness auto
termination by (relation "measure (\<lambda>(args, i). length args - i)") auto

declare skip_assigns.simps [simp del]

lemma skip_assigns_ge: "i \<le> skip_assigns args i"
  by (induction args i rule: skip_assigns.induct) (subst skip_assigns.simps, force)

text \<open>One turn of \<open>_strip_runners\<close>'s loop at index \<open>i\<close>: the next index, or none to stop.\<close>

definition runner_step :: "tok list \<Rightarrow> nat \<Rightarrow> nat option" where
  "runner_step args i =
     (let b = base (args ! i) in
      if b = Some ''env'' then
        Some (skip_assigns args (skip_opts args (i + 1) [''-u'', ''--unset'', ''-C'', ''--chdir'', ''-S'']))
      else if b = Some ''timeout'' then
        Some (skip_opts args (i + 1) [''-s'', ''--signal'', ''-k'', ''--kill-after''] + 1)
      else if b = Some ''nice'' then Some (skip_opts args (i + 1) [''-n'', ''--adjustment''])
      else if b = Some ''ionice'' then
        Some (skip_opts args (i + 1) [''-c'', ''-n'', ''--class'', ''--classdata''])
      else if b = Some ''stdbuf'' then Some (skip_opts args (i + 1) [''-i'', ''-o'', ''-e''])
      else if b = Some ''time'' then
        Some (skip_opts args (i + 1) [''-o'', ''-f'', ''--output'', ''--format''])
      else if b = Some ''nohup'' then Some (i + 1)
      else if b = Some ''xvfb-run'' then
        Some (skip_opts args (i + 1)
          [''-s'', ''-n'', ''-e'', ''-f'', ''-w'', ''-p'', ''--server-args'', ''--server-num'',
           ''--error-file'', ''--auth-file'', ''--wait''])
      else if b \<in> Some ` set [''uv'', ''poetry'', ''pipenv'', ''pdm'', ''hatch''] \<and> i + 1 < length args
          \<and> t_value (args ! (i + 1)) = Some ''run'' then
        Some (skip_opts args (i + 2)
          [''--with'', ''--python'', ''-p'', ''--project'', ''--directory'', ''--extra'', ''--group'',
           ''--env-file'', ''--index''])
      else if b = Some ''flock'' then
        (let j = skip_opts args (i + 1) [''-w'', ''--timeout'', ''-E'', ''--conflict-exit-code'']
         in Some (if j < length args
                     \<and> (case t_value (args ! j) of None \<Rightarrow> False | Some v \<Rightarrow> v \<noteq> [] \<and> \<not> starts_with v ''-'')
                  then j + 1 else j))
      else if b = Some ''xargs'' then
        Some (skip_opts args (i + 1)
          [''-a'', ''--arg-file'', ''-E'', ''-d'', ''--delimiter'', ''-I'', ''-L'', ''-n'', ''--max-args'', ''-P'',
           ''--max-procs'', ''-s'', ''--max-chars''])
      else None)"

lemma runner_step_gt: "runner_step args i = Some j \<Longrightarrow> i < j"
proof -
  assume r: "runner_step args i = Some j"
  have "i < skip_opts args (i + 1) vs" "i < skip_opts args (i + 2) vs" for vs
    using skip_opts_ge [of "i + 1" args vs] skip_opts_ge [of "i + 2" args vs] by simp_all
  moreover have "i < skip_assigns args (skip_opts args (i + 1) vs)" for vs
    using skip_opts_ge [of "i + 1" args vs] skip_assigns_ge [of "skip_opts args (i + 1) vs" args] by simp
  ultimately show ?thesis
    using r by (auto simp: runner_step_def Let_def less_Suc_eq split: if_splits)
qed

function strip_from :: "tok list \<Rightarrow> nat \<Rightarrow> nat" where
  "strip_from args i =
     (if i < length args then
        (case runner_step args i of None \<Rightarrow> i | Some j \<Rightarrow> strip_from args j)
      else i)"
  by pat_completeness auto
termination
  by (relation "measure (\<lambda>(args, i). length args - i)") (auto dest: runner_step_gt)

declare strip_from.simps [simp del]

definition strip_runners :: "tok list \<Rightarrow> tok list" where
  "strip_runners args = drop (strip_from args 0) args"

lemma length_strip_runners: "length (strip_runners args) \<le> length args"
  by (simp add: strip_runners_def)

lemma strip_from_stops:
  "strip_from args i < length args \<Longrightarrow> runner_step args (strip_from args i) = None"
  by (induction args i rule: strip_from.induct)
     (subst strip_from.simps, subst (asm) (2) strip_from.simps, auto split: option.splits if_splits)

section \<open>The tools\<close>

function positionals_from :: "tok list \<Rightarrow> nat \<Rightarrow> string list \<Rightarrow> string option list" where
  "positionals_from args i value_opts =
     (if i < length args then
        (case t_value (args ! i) of
           None \<Rightarrow> None # positionals_from args (i + 1) value_opts
         | Some v \<Rightarrow>
             if v = ''--'' then map t_value (drop (i + 1) args)
             else if starts_with v ''-'' \<and> v \<noteq> ''-'' then
               positionals_from args (if CHR ''='' \<notin> set v \<and> v \<in> set value_opts then i + 2 else i + 1) value_opts
             else Some v # positionals_from args (i + 1) value_opts)
      else [])"
  by pat_completeness auto
termination by (relation "measure (\<lambda>(args, i, vs). length args - i)") (auto split: if_splits)

declare positionals_from.simps [simp del]

definition positionals :: "tok list \<Rightarrow> string list \<Rightarrow> string option list" where
  "positionals args value_opts = positionals_from args 0 value_opts"

definition names_test_file :: "string option \<Rightarrow> bool" where
  "names_test_file p = (case p of None \<Rightarrow> False | Some v \<Rightarrow> ends_with v ''.py'' \<or> contains v ''::'')"

definition pytest_kind :: "tok list \<Rightarrow> bool \<Rightarrow> string option" where
  "pytest_kind args lenient =
     (if any_in args [''--version'', ''-V'', ''--help'', ''-h'', ''--collect-only'', ''--co''] then None
      else if lenient then Some ''pytest''
      else let pos = positionals args PYTEST_VALUE in
        if pos \<noteq> [] \<and> (\<forall>p \<in> set pos. names_test_file p) then None else Some ''pytest'')"

definition first_in :: "string option list \<Rightarrow> string list \<Rightarrow> bool" where
  "first_in pos vs = (case pos of Some v # _ \<Rightarrow> v \<in> set vs | _ \<Rightarrow> False)"

definition vitest_kind :: "tok list \<Rightarrow> bool \<Rightarrow> string option" where
  "vitest_kind args lenient =
     (if lenient then Some ''vitest''
      else if any_in args [''--version'', ''-v'', ''--help'', ''-h'', ''--watch'', ''-w''] then None
      else let pos = positionals args VITEST_VALUE in
        if first_in pos [''watch'', ''dev'', ''related'', ''list'', ''init''] then None
        else let pos' = (if first_in pos [''run'', ''bench''] then drop 1 pos else pos) in
          if pos' \<noteq> [] then None else Some ''vitest'')"

definition is_job_script :: "string \<Rightarrow> bool" where
  "is_job_script name \<longleftrightarrow> name \<in> set [''test'', ''build''] \<or> starts_with name ''test:'' \<or> starts_with name ''build:''"

definition script_kind :: "string \<Rightarrow> string option \<Rightarrow> tok list \<Rightarrow> bool \<Rightarrow> string option" where
  "script_kind pm name rest lenient =
     (case name of None \<Rightarrow> None
      | Some nm \<Rightarrow>
          if \<not> is_job_script nm then None
          else if lenient then Some (pm @ '' '' @ nm)
          else if contains nm ''watch'' then None
          else let after = map t_value rest in
            if Some ''--'' \<in> set after
               \<and> (let files = [v. Some v \<leftarrow> drop 1 (dropWhile (\<lambda>v. v \<noteq> Some ''--'') after),
                                 v \<noteq> [] \<and> \<not> starts_with v ''-'']
                  in files \<noteq> [] \<and> (\<forall>v \<in> set files. test_file v))
            then None else Some (pm @ '' '' @ nm))"

definition playwright_kind :: "tok list \<Rightarrow> bool \<Rightarrow> string option" where
  "playwright_kind args lenient =
     (let pos = positionals args [] in
      if first_in pos [''test'', ''install'', ''install-deps''] then Some ''playwright''
      else if lenient \<and> pos \<noteq> [] then Some ''playwright'' else None)"

definition pip_kind :: "tok list \<Rightarrow> bool \<Rightarrow> string option" where
  "pip_kind args lenient =
     (let i = skip_opts args 0 PIP_VALUE in
      if i \<ge> length args \<or> t_value (args ! i) \<noteq> Some ''install'' then None
      else if \<not> lenient \<and> any_in (drop (i + 1) args) [''--dry-run'', ''--help'', ''-h''] then None
      else Some ''pip install'')"

definition light :: "bool \<Rightarrow> tok list \<Rightarrow> bool" where
  "light lenient a \<longleftrightarrow> \<not> lenient \<and> any_in a [''--dry-run'', ''--help'', ''-h'']"

text \<open>\<open>(t.value or "").split("=", 1)[0] in quiet\<close>.\<close>

definition names_quiet :: "tok \<Rightarrow> bool" where
  "names_quiet t \<longleftrightarrow> takeWhile (\<lambda>c. c \<noteq> CHR ''='') (case t_value t of None \<Rightarrow> [] | Some v \<Rightarrow> v)
     \<in> set [''--no-sync'', ''--frozen'', ''--script'']"

definition uv_kind :: "tok list \<Rightarrow> bool \<Rightarrow> string option" where
  "uv_kind args lenient =
     (let i = skip_opts args 0 UV_VALUE in
      if i \<ge> length args then None
      else case t_value (args ! i) of None \<Rightarrow> None
      | Some sub \<Rightarrow>
          let rest = drop (i + 1) args in
          if sub = ''sync'' then (if light lenient rest then None else Some ''uv sync'')
          else if sub = ''add'' then
            (if light lenient rest \<or> \<not> lenient \<and> (\<exists>t \<in> set rest. names_quiet t) then None
             else Some ''uv add'')
          else if sub = ''pip'' then
            (let j = skip_opts rest 0 [] in
             if j < length rest \<and> value_in (rest ! j) [''install'', ''sync''] then
               (if light lenient (drop (j + 1) rest) then None
                else Some (''uv pip '' @ the (t_value (rest ! j))))
             else None)
          else None)"

function python_from :: "tok list \<Rightarrow> nat \<Rightarrow> bool \<Rightarrow> string option" where
  "python_from args i lenient =
     (if i < length args then
        (case t_value (args ! i) of
           None \<Rightarrow> None
         | Some v \<Rightarrow>
             if v \<in> set [''-X'', ''-W''] then python_from args (i + 2) lenient
             else if v = ''-m'' then
               (if i + 1 \<ge> length args then None
                else let module = t_value (args ! (i + 1)); rest = drop (i + 2) args in
                  if module = Some ''pytest'' \<or> module = Some ''py.test'' then pytest_kind rest lenient
                  else if module = Some ''pip'' then pip_kind rest lenient
                  else if module = Some ''playwright'' then playwright_kind rest lenient
                  else None)
             else if starts_with v ''-'' \<and> v \<notin> set [''-'', ''-c''] then python_from args (i + 1) lenient
             else None)
      else None)"
  by pat_completeness auto
termination by (relation "measure (\<lambda>(args, i, l). length args - i)") auto

declare python_from.simps [simp del]

definition python_kind :: "tok list \<Rightarrow> bool \<Rightarrow> string option" where
  "python_kind args lenient = python_from args 0 lenient"

section \<open>Package runners and the classifier\<close>

text \<open>\<open>_npx\<close>'s loop: the index where it stops, or none where it gives up.\<close>

function npx_from :: "tok list \<Rightarrow> nat \<Rightarrow> nat option" where
  "npx_from args i =
     (if i < length args then
        (case t_value (args ! i) of
           None \<Rightarrow> None
         | Some v \<Rightarrow>
             if v \<in> set [''-c'', ''--call''] then None
             else if v \<in> set [''-p'', ''--package''] then npx_from args (i + 2)
             else if v = ''--'' then Some (i + 1)
             else if starts_with v ''-'' then npx_from args (i + 1)
             else Some i)
      else Some i)"
  by pat_completeness auto
termination by (relation "measure (\<lambda>(args, i). length args - i)") auto

declare npx_from.simps [simp del]

text \<open>\<open>re.sub(r"@[^@/]*$", "", v)\<close>: a last part \<open>@version\<close> is dropped.\<close>

definition strip_version :: "string \<Rightarrow> string" where
  "strip_version v =
     (if CHR ''@'' \<in> set v \<and> CHR ''/'' \<notin> set (after_last (CHR ''@'') v)
      then take (length v - length (after_last (CHR ''@'') v) - 1) v else v)"

text \<open>What \<open>npx ARGS\<close> runs, as the argument list \<open>_npx\<close> classifies.\<close>

definition npx_target :: "tok list \<Rightarrow> tok list option" where
  "npx_target args =
     (case npx_from args 0 of None \<Rightarrow> None
      | Some i \<Rightarrow>
          (case drop i args of [] \<Rightarrow> None
           | t # rest \<Rightarrow>
               (case t_value t of None \<Rightarrow> None
                | Some v \<Rightarrow> if starts_with v ''@'' then None
                           else Some (\<lparr>t_value = Some (strip_version v), t_raw = t_raw t\<rparr> # rest))))"

lemma length_npx_target: "npx_target args = Some ts \<Longrightarrow> length ts \<le> length args"
proof -
  assume "npx_target args = Some ts"
  then obtain i t rest where "drop i args = t # rest" "length ts = length (t # rest)"
    by (auto simp: npx_target_def split: option.splits list.splits if_splits)
  then show ?thesis by (metis diff_le_self length_drop)
qed

text \<open>
  \<open>_classify\<close> with what it does for \<open>npx\<close> and for the package managers as arguments.
\<close>

definition classify_body ::
    "(tok list \<Rightarrow> string option) \<Rightarrow> (string \<Rightarrow> tok list \<Rightarrow> string option) \<Rightarrow> tok list \<Rightarrow> bool \<Rightarrow> string option" where
  "classify_body npxf pm args lenient =
     (case strip_runners args of [] \<Rightarrow> None
      | t # rest \<Rightarrow>
          (case base t of None \<Rightarrow> None
           | Some b \<Rightarrow>
               if b \<in> set [''pytest'', ''py.test''] then pytest_kind rest lenient
               else if b = ''vitest'' then vitest_kind rest lenient
               else if b = ''next'' then
                 (if rest \<noteq> [] \<and> t_value (hd rest) = Some ''build'' then Some ''next build'' else None)
               else if b = ''playwright'' then playwright_kind rest lenient
               else if b \<in> set CHROMIUM then
                 (if \<not> lenient \<and> any_in rest [''--version'', ''-version'', ''--help''] then None
                  else Some ''chromium'')
               else if python_match b then python_kind rest lenient
               else if b \<in> set [''pip'', ''pip3''] then pip_kind rest lenient
               else if b = ''uv'' then uv_kind rest lenient
               else if b = ''npx'' then npxf rest
               else pm b rest))"

lemma classify_body_cong [fundef_cong]:
  assumes "args = args'" "lenient = lenient'"
    and "\<And>rest. length rest < length args' \<Longrightarrow> npxf rest = npxf' rest"
    and "\<And>b rest. length rest < length args' \<Longrightarrow> pm b rest = pm' b rest"
  shows "classify_body npxf pm args lenient = classify_body npxf' pm' args' lenient'"
proof (cases "strip_runners args'")
  case Nil
  then show ?thesis using assms(1) by (simp add: classify_body_def)
next
  case (Cons t rest)
  with length_strip_runners [of args'] have "length rest < length args'" by simp
  then have "npxf rest = npxf' rest" "\<And>b. pm b rest = pm' b rest" using assms(3, 4) by auto
  then show ?thesis by (simp only: classify_body_def assms(1, 2) Cons list.case)
qed

text \<open>\<open>_classify(args, lenient, allow_pm=False)\<close>, and \<open>_npx\<close> over it.\<close>

function classify_bin :: "tok list \<Rightarrow> bool \<Rightarrow> string option" where
  "classify_bin args lenient =
     classify_body (\<lambda>rest. case npx_target rest of None \<Rightarrow> None | Some ts \<Rightarrow> classify_bin ts lenient)
       (\<lambda>_ _. None) args lenient"
  by pat_completeness auto
termination
  by (relation "measure (\<lambda>(args, l). length args)") (auto dest: length_npx_target)

declare classify_bin.simps [simp del]

definition npx_kind :: "tok list \<Rightarrow> bool \<Rightarrow> string option" where
  "npx_kind args lenient = (case npx_target args of None \<Rightarrow> None | Some ts \<Rightarrow> classify_bin ts lenient)"

text \<open>\<open>_script(pm, rest[j].value, rest[j + 1:], lenient) if j < len(rest) else None\<close>.\<close>

definition script_at :: "string \<Rightarrow> tok list \<Rightarrow> nat \<Rightarrow> bool \<Rightarrow> string option" where
  "script_at pm rest j lenient =
     (if j < length rest then script_kind pm (t_value (rest ! j)) (drop (j + 1) rest) lenient else None)"

definition npm_kind :: "tok list \<Rightarrow> bool \<Rightarrow> string option" where
  "npm_kind args lenient =
     (let i = skip_opts args 0 NPM_VALUE in
      if i \<ge> length args then None
      else case t_value (args ! i) of None \<Rightarrow> None
      | Some sub \<Rightarrow>
          let rest = drop (i + 1) args in
          if \<not> lenient \<and> any_in rest [''--help'', ''-h''] then None
          else if sub \<in> set NPM_CI then Some ''npm ci''
          else if sub \<in> set NPM_INSTALL then Some ''npm install''
          else if sub \<in> set NPM_TEST then script_kind ''npm'' (Some ''test'') rest lenient
          else if sub \<in> set NPM_RUN then
            script_at ''npm'' rest (skip_opts rest 0 [''-w'', ''--workspace'']) lenient
          else if sub \<in> set NPM_EXEC then npx_kind rest lenient
          else None)"

definition pnpm_kind :: "tok list \<Rightarrow> bool \<Rightarrow> string option" where
  "pnpm_kind args lenient =
     (let i = skip_opts args 0 PNPM_VALUE in
      if i \<ge> length args then None
      else case t_value (args ! i) of None \<Rightarrow> None
      | Some sub \<Rightarrow>
          let rest = drop (i + 1) args in
          if sub \<in> set INFO then None
          else if sub \<in> set PNPM_INSTALL then Some ''pnpm install''
          else if sub \<in> set NPM_TEST then script_kind ''pnpm'' (Some ''test'') rest lenient
          else if sub \<in> set [''run'', ''run-script''] then
            script_at ''pnpm'' rest (skip_opts rest 0 PNPM_VALUE) lenient
          else if sub = ''exec'' then classify_bin (drop (skip_opts rest 0 []) rest) lenient
          else if sub = ''dlx'' then npx_kind rest lenient
          else if starts_with sub ''test'' \<or> starts_with sub ''build'' then
            script_kind ''pnpm'' (Some sub) rest lenient
          else classify_bin (drop i args) lenient)"

definition yarn_kind :: "tok list \<Rightarrow> bool \<Rightarrow> string option" where
  "yarn_kind args lenient =
     (if \<not> lenient \<and> args \<noteq> [] \<and> value_in (hd args) INFO then None
      else let i = skip_opts args 0 [''--cwd''] in
      if i \<ge> length args then Some ''yarn install''
      else case t_value (args ! i) of None \<Rightarrow> None
      | Some sub \<Rightarrow>
          let rest = drop (i + 1) args in
          if sub \<in> set INFO \<or> sub \<in> set YARN_NOT_A_JOB then None
          else if sub \<in> set YARN_INSTALL then Some ''yarn install''
          else if sub = ''test'' then script_kind ''yarn'' (Some ''test'') rest lenient
          else if sub \<in> set [''run'', ''run-script''] then script_at ''yarn'' rest 0 lenient
          else if sub = ''exec'' then classify_bin rest lenient
          else if sub = ''dlx'' then npx_kind rest lenient
          else if starts_with sub ''test'' \<or> starts_with sub ''build'' then
            script_kind ''yarn'' (Some sub) rest lenient
          else classify_bin (drop i args) lenient)"

text \<open>The end of \<open>_classify\<close>, where a package manager may run the job.\<close>

definition manager_kind :: "bool \<Rightarrow> bool \<Rightarrow> string \<Rightarrow> tok list \<Rightarrow> string option" where
  "manager_kind lenient allow_pm b rest =
     (if \<not> allow_pm then None
      else if b = ''npm'' then
        (if \<not> lenient \<and> rest \<noteq> [] \<and> value_in (hd rest) [''-v'', ''--version'', ''-h'', ''--help''] then None
         else npm_kind rest lenient)
      else if b = ''pnpm'' then pnpm_kind rest lenient
      else if b = ''yarn'' then yarn_kind rest lenient
      else None)"

definition classify_args :: "tok list \<Rightarrow> bool \<Rightarrow> bool \<Rightarrow> string option" where
  "classify_args args lenient allow_pm =
     classify_body (\<lambda>rest. npx_kind rest lenient) (manager_kind lenient allow_pm) args lenient"

definition classify :: "string list \<Rightarrow> string option" where
  "classify argv = classify_args (toks argv) False True"

definition heavy_family :: "string list \<Rightarrow> bool" where
  "heavy_family argv \<longleftrightarrow> classify_args (toks argv) True True \<noteq> None"

text \<open>\<open>classify_bin\<close> is \<open>_classify\<close> with no package manager allowed.\<close>

lemma classify_bin_eq: "classify_bin args lenient = classify_args args lenient False"
  by (subst classify_bin.simps) (simp add: classify_args_def npx_kind_def manager_kind_def cong: classify_body_cong)

section \<open>The lenient reading accepts what the strict one does\<close>

lemma if_keeps:
  "(if c then x else y) = Some l \<Longrightarrow> (c \<Longrightarrow> x = Some l \<Longrightarrow> x' = Some l)
     \<Longrightarrow> (\<not> c \<Longrightarrow> y = Some l \<Longrightarrow> y' = Some l) \<Longrightarrow> (if c then x' else y') = Some l"
  by (cases c) simp_all

lemma if_strict:
  "(if \<not> False \<and> c then None else y) = Some l \<Longrightarrow> (y = Some l \<Longrightarrow> y' = Some l)
     \<Longrightarrow> (if \<not> True \<and> c then None else y') = Some l"
  by (cases c) simp_all

lemma pytest_lenient: "pytest_kind args False = Some l \<Longrightarrow> pytest_kind args True = Some l"
  by (auto simp: pytest_kind_def Let_def split: if_splits)

lemma vitest_lenient: "vitest_kind args False = Some l \<Longrightarrow> vitest_kind args True = Some l"
  by (auto simp: vitest_kind_def Let_def split: if_splits)

lemma script_lenient: "script_kind pm nm rest False = Some l \<Longrightarrow> script_kind pm nm rest True = Some l"
  by (auto simp: script_kind_def Let_def split: if_splits option.splits)

lemma script_at_lenient: "script_at pm rest j False = Some l \<Longrightarrow> script_at pm rest j True = Some l"
  by (auto simp: script_at_def script_lenient split: if_splits)

lemma playwright_lenient: "playwright_kind args False = Some l \<Longrightarrow> playwright_kind args True = Some l"
  by (auto simp: playwright_kind_def Let_def split: if_splits)

lemma pip_lenient: "pip_kind args False = Some l \<Longrightarrow> pip_kind args True = Some l"
  by (auto simp: pip_kind_def Let_def split: if_splits)

lemma uv_lenient: "uv_kind args False = Some l \<Longrightarrow> uv_kind args True = Some l"
  by (auto simp: uv_kind_def Let_def light_def split: if_splits option.splits)

lemma python_from_lenient: "python_from args i False = Some l \<Longrightarrow> python_from args i True = Some l"
proof (induction "length args - i" arbitrary: i rule: less_induct)
  case less
  have ih: "python_from args j True = Some l" if "python_from args j False = Some l" "i < length args" "i < j" for j
    using that by (intro less.hyps) auto
  show ?case
  proof (cases "t_value (args ! i)")
    case None
    then show ?thesis using less.prems by (simp add: python_from.simps [of args i] split: if_splits)
  next
    case (Some v)
    show ?thesis
      using less.prems unfolding python_from.simps [of args i] Some option.case Let_def
      by (elim if_keeps) (simp_all add: ih pytest_lenient pip_lenient playwright_lenient)
  qed
qed

lemmas kind_lenient = pytest_lenient vitest_lenient script_lenient script_at_lenient
  playwright_lenient pip_lenient uv_lenient python_from_lenient

lemma classify_body_lenient:
  assumes "classify_body npxf pm args False = Some l"
    and "\<And>rest. length rest < length args \<Longrightarrow> npxf rest = Some l \<Longrightarrow> npxf' rest = Some l"
    and "\<And>b rest. length rest < length args \<Longrightarrow> pm b rest = Some l \<Longrightarrow> pm' b rest = Some l"
  shows "classify_body npxf' pm' args True = Some l"
proof -
  obtain t rest b where s: "strip_runners args = t # rest" and b: "base t = Some b"
    using assms(1) by (auto simp: classify_body_def split: list.splits option.splits)
  have "length rest < length args" using length_strip_runners [of args] s by simp
  note sub = assms(2, 3) [OF this]
  show ?thesis
    using assms(1) unfolding classify_body_def s list.case b option.case
    by (elim if_keeps if_strict) (simp_all add: sub python_kind_def kind_lenient)
qed

lemma classify_bin_lenient: "classify_bin args False = Some l \<Longrightarrow> classify_bin args True = Some l"
proof (induction "length args" arbitrary: args rule: less_induct)
  case less
  from less.prems show ?case
    unfolding classify_bin.simps [of args]
    by (rule classify_body_lenient)
       (use less.hyps length_npx_target in \<open>fastforce split: option.splits\<close>)+
qed

lemma npx_lenient: "npx_kind args False = Some l \<Longrightarrow> npx_kind args True = Some l"
  by (auto simp: npx_kind_def classify_bin_lenient split: option.splits)

lemmas bin_lenient = classify_bin_lenient npx_lenient kind_lenient

lemma npm_lenient: "npm_kind args False = Some l \<Longrightarrow> npm_kind args True = Some l"
  by (cases "t_value (args ! skip_opts args 0 NPM_VALUE)")
     (simp_all only: npm_kind_def Let_def option.case, (elim if_keeps if_strict; simp add: bin_lenient)+)

lemma pnpm_lenient: "pnpm_kind args False = Some l \<Longrightarrow> pnpm_kind args True = Some l"
  by (cases "t_value (args ! skip_opts args 0 PNPM_VALUE)")
     (simp_all only: pnpm_kind_def Let_def option.case, (elim if_keeps if_strict; simp add: bin_lenient)+)

lemma yarn_lenient: "yarn_kind args False = Some l \<Longrightarrow> yarn_kind args True = Some l"
  by (cases "t_value (args ! skip_opts args 0 [''--cwd''])")
     (simp_all only: yarn_kind_def Let_def option.case, (elim if_keeps if_strict; simp add: bin_lenient)+)

lemma manager_lenient: "manager_kind False pm b rest = Some l \<Longrightarrow> manager_kind True pm b rest = Some l"
  unfolding manager_kind_def
  by (elim if_keeps if_strict) (simp_all add: npm_lenient pnpm_lenient yarn_lenient)

lemma classify_args_lenient:
  "classify_args args False pm = Some l \<Longrightarrow> classify_args args True pm = Some l"
  unfolding classify_args_def
  by (erule classify_body_lenient) (auto intro: npx_lenient manager_lenient)

section \<open>What the wrapper may run\<close>

text \<open>The programs \<open>_classify\<close> knows.\<close>

definition heavy_program :: "string \<Rightarrow> bool" where
  "heavy_program b \<longleftrightarrow> b \<in> set [''pytest'', ''py.test'', ''vitest'', ''next'', ''playwright'', ''pip'', ''pip3'',
     ''uv'', ''npx'', ''npm'', ''pnpm'', ''yarn''] \<or> b \<in> set CHROMIUM \<or> python_match b"

lemma classify_args_program:
  "classify_args args lenient pm = Some l \<Longrightarrow>
     \<exists>t rest b. strip_runners args = t # rest \<and> base t = Some b \<and> heavy_program b"
  by (cases "strip_runners args"; cases "base (hd (strip_runners args))")
     (auto simp: classify_args_def classify_body_def manager_kind_def heavy_program_def split: if_splits)

lemma heavy_program_not_shell: "heavy_program b \<Longrightarrow> b \<notin> set SHELLS"
  by (auto simp: heavy_program_def SHELLS_def CHROMIUM_def python_match_def starts_with_def)

lemma heavy_program_not_privileged:
  "heavy_program b \<Longrightarrow> b \<notin> set [''sudo'', ''doas'', ''su'', ''pkexec'', ''runuser'']"
  by (auto simp: heavy_program_def CHROMIUM_def python_match_def starts_with_def)

section \<open>Properties\<close>

text \<open>
  What the hook sends the wrapper accepts, under the same label: an argument list the strict
  reading labels, the lenient reading labels the same.
\<close>

theorem hook_label_kept:
  "classify argv = Some l \<Longrightarrow> heavy_family argv \<and> classify_args (toks argv) True True = Some l"
  by (simp add: classify_def heavy_family_def classify_args_lenient)

lemma hook_label_kept_witness:
  "heavy_family [''timeout'', ''60'', ''npm'', ''run'', ''test:unit'']
   \<and> classify_args (toks [''timeout'', ''60'', ''npm'', ''run'', ''test:unit'']) True True = Some ''npm test:unit''"
proof (rule hook_label_kept)
  show "classify [''timeout'', ''60'', ''npm'', ''run'', ''test:unit''] = Some ''npm test:unit''"
    by code_simp
qed



text \<open>
  The one way the two readings disagree after an expansion: a run whose argument the shell
  still has to expand is sent to the wrapper, and if it expands to \<open>--version\<close> (or
  \<open>--help\<close>, \<open>--collect-only\<close>) the wrapper does not know it as a heavy job.
\<close>

theorem expanded_report_refused:
  "classify_args [\<lparr>t_value = Some ''pytest'', t_raw = ''pytest''\<rparr>, \<lparr>t_value = None, t_raw = ''$ARGS''\<rparr>] False True
     = Some ''pytest''
   \<and> \<not> heavy_family [''pytest'', ''--version'']
   \<and> \<not> heavy_family [''pytest'', ''--collect-only'']"
  by (intro conjI; code_simp)

end
