(* ===== verification/Heavy_Gate.thy ===== *)
theory Heavy_Gate
  imports Heavy_Classify "HOL-Library.Sublist"
begin

text \<open>
  The rewrite of a Bash command (\<open>_shell_string\<close>, \<open>_flock_c_string\<close>, \<open>_insertions\<close>,
  \<open>_dq_escape\<close>, \<open>_escape_for_ctx\<close>, \<open>gate\<close> of
  \<open>claudlobby/_runtime_scripts/heavy-slot.py\<close>): where the wrapper goes, and the command with
  the wrapper in front of each heavy command.

  An insertion point is an offset and the enclosing quotes, outermost first. \<open>insertions\<close>
  gives each point with its label, where the code appends the label to a list of the caller.
  It calls itself on the text inside a quoted \<open>bash -c\<close> string, which is shorter than the
  command: its fuel is the number of nested readings, and \<open>length command + 1\<close> is enough.
\<close>

section \<open>The string of a shell's -c\<close>

definition value_dash :: "word \<Rightarrow> bool" where
  "value_dash w \<longleftrightarrow> (case w_value w of None \<Rightarrow> False | Some v \<Rightarrow> starts_with v ''-'')"

text \<open>The first word that is no option: \<open>words[j]\<close> after the inner loop.\<close>

definition first_plain :: "word list \<Rightarrow> word option" where
  "first_plain ws = (case dropWhile value_dash ws of [] \<Rightarrow> None | w # _ \<Rightarrow> Some w)"

fun shell_string_from :: "word list \<Rightarrow> word option" where
  "shell_string_from [] = None"
| "shell_string_from (w # ws) =
     (case w_value w of None \<Rightarrow> None
      | Some v \<Rightarrow>
          if \<not> starts_with v ''-'' \<or> v = ''-'' then None
          else if \<not> starts_with v ''--'' \<and> CHR ''c'' \<in> set (drop 1 v) then first_plain ws
          else shell_string_from ws)"

definition shell_string :: "word list \<Rightarrow> word option" where
  "shell_string ws = shell_string_from (drop 1 ws)"

definition tok_of :: "word \<Rightarrow> tok" where
  "tok_of w = \<lparr>t_value = w_value w, t_raw = w_raw w\<rparr>"

definition flock_c_string :: "word list \<Rightarrow> word option" where
  "flock_c_string ws =
     (let ts = map tok_of ws;
          i = skip_opts ts 1 [''-w'', ''--timeout'', ''-E'', ''--conflict-exit-code''];
          i' = (if i < length ts
                   \<and> (case t_value (ts ! i) of None \<Rightarrow> False | Some v \<Rightarrow> v \<noteq> [] \<and> \<not> starts_with v ''-'')
                then i + 1 else i)
      in if i' < length ts \<and> value_in (ts ! i') [''-c'', ''--command''] then first_plain (drop (i' + 1) ws)
         else None)"

section \<open>The insertion points\<close>

type_synonym point = "nat \<times> char list"
type_synonym insertions_call = "string \<Rightarrow> nat \<Rightarrow> char list \<Rightarrow> (point \<times> string) list res"

definition inner :: "string \<Rightarrow> string" where
  "inner raw = butlast (drop 1 raw)"

text \<open>Whether a quoted string's value is its text, so that offsets carry over.\<close>

definition maps :: "string \<Rightarrow> bool" where
  "maps raw \<longleftrightarrow> 2 \<le> length raw
     \<and> (hd raw = SQ \<and> last raw = SQ \<and> SQ \<notin> set (inner raw)
        \<or> hd raw = DQ \<and> last raw = DQ \<and> (\<forall>ch \<in> set [BSL, DOL, BT, DQ]. ch \<notin> set (inner raw)))"

text \<open>
  The words a simple command runs, past \<open>command\<close> and \<open>exec\<close>; none where the loop goes on to
  the next command.
\<close>

definition lead :: "string \<Rightarrow> word list \<Rightarrow> word list option res" where
  "lead command ws =
     (let v = w_value (hd ws) in
      if v = Some ''builtin'' then Ok None
      else if v = Some ''command'' then
        (let rest = tl ws in
         if rest \<noteq> [] \<and> w_value (hd rest) \<in> {Some ''-v'', Some ''-V''} then Ok None
         else let rest' = (if rest \<noteq> [] \<and> w_value (hd rest) = Some ''-p'' then tl rest else rest)
              in if rest' = [] then Ok None else Ok (Some rest'))
      else if v = Some ''exec'' then
        (let rest = tl ws in
         if rest \<noteq> [] \<and> value_dash (hd rest) then
           (if heavy_word (drop (w_start (hd ws)) command) then Unsure ''exec with options'' else Ok None)
         else if rest = [] then Ok None else Ok (Some rest))
      else Ok (Some ws))"

text \<open>The text inside a \<open>-c\<close> string, when it can be mapped.\<close>

definition inside :: "insertions_call \<Rightarrow> nat \<Rightarrow> char list \<Rightarrow> word \<Rightarrow> string \<Rightarrow> (point \<times> string) list res" where
  "inside ins start ctx string why =
     (let raw = w_raw string in
      if maps raw then ins (inner raw) (start + w_start string + 1) (ctx @ [hd raw])
      else if heavy_word raw then Unsure why
      else Ok [])"

definition simple_points :: "insertions_call \<Rightarrow> string \<Rightarrow> nat \<Rightarrow> char list \<Rightarrow> word list \<Rightarrow> (point \<times> string) list res" where
  "simple_points ins command start ctx words =
     bind_res (lead command words) (\<lambda>l. case l of None \<Rightarrow> Ok []
      | Some ws \<Rightarrow>
          let first = hd ws; v = w_value first; prog = map_option (after_last (CHR ''/'')) v in
          if v = Some ''eval'' then
            (if heavy_word (slice command (w_end first) (w_end (last ws))) then Unsure ''eval'' else Ok [])
          else if prog \<in> Some ` set SHELLS then
            (case shell_string ws of None \<Rightarrow> Ok []
             | Some s \<Rightarrow> inside ins start ctx s ''a shell -c string the matcher cannot map'')
          else if prog = Some ''flock'' \<and> flock_c_string ws \<noteq> None then
            inside ins start ctx (the (flock_c_string ws)) ''a flock -c string the matcher cannot map''
          else
            (case classify_args (map tok_of ws) False True of None \<Rightarrow> Ok []
             | Some label \<Rightarrow> Ok [((start + w_start first, ctx), label)]))"

fun collect :: "('a \<Rightarrow> 'b list res) \<Rightarrow> 'a list \<Rightarrow> 'b list res" where
  "collect f [] = Ok []"
| "collect f (x # xs) = bind_res (f x) (\<lambda>a. bind_res (collect f xs) (\<lambda>b. Ok (a @ b)))"

fun insertions :: "nat \<Rightarrow> insertions_call" where
  "insertions 0 command start ctx = Stuck"
| "insertions (Suc fuel) command start ctx =
     bind_res (parse command) (collect (simple_points (insertions fuel) command start ctx))"

section \<open>The rewrite\<close>

definition dq_escape :: "string \<Rightarrow> string" where
  "dq_escape s =
     replace_all BT [BSL, BT] (replace_all DOL [BSL, DOL] (replace_all DQ [BSL, DQ] (replace_all BSL [BSL, BSL] s)))"

definition sq_escape :: "string \<Rightarrow> string" where
  "sq_escape s = replace_all SQ [SQ, BSL, SQ, SQ] s"

definition escape_level :: "char \<Rightarrow> string \<Rightarrow> string" where
  "escape_level quote w = (if quote = SQ then sq_escape w else if quote = DQ then dq_escape w else w)"

definition escape_for_ctx :: "string \<Rightarrow> char list \<Rightarrow> string" where
  "escape_for_ctx wrapper ctx = fold escape_level (rev ctx) wrapper"

fun splice :: "string \<Rightarrow> point list \<Rightarrow> string \<Rightarrow> string" where
  "splice wrapper [] command = command"
| "splice wrapper ((p, ctx) # ps) command =
     splice wrapper ps (take p command @ escape_for_ctx wrapper ctx @ '' '' @ drop p command)"

definition labelled :: "string \<Rightarrow> (point \<times> string) list res" where
  "labelled command = insertions (length command + 1) command 0 []"

definition gate :: "string \<Rightarrow> string \<Rightarrow> string option res" where
  "gate command wrapper =
     bind_res (labelled command) (\<lambda>pts.
       let points = rev (sort (remdups (map fst pts))) in
       if points = [] then Ok None else Ok (Some (splice wrapper points command)))"

section \<open>The points lie in the command\<close>

text \<open>
  A point of a reading that begins at offset \<open>start\<close> inside the quotes \<open>ctx\<close>: it lies in the
  text read, and its quotes extend \<open>ctx\<close>.
\<close>

definition point_ok :: "string \<Rightarrow> nat \<Rightarrow> char list \<Rightarrow> point \<times> string \<Rightarrow> bool" where
  "point_ok command start ctx pt \<longleftrightarrow> (case pt of ((p, c), label) \<Rightarrow>
     start \<le> p \<and> p < start + length command \<and> starts_with c ctx \<and> set (drop (length ctx) c) \<subseteq> {SQ, DQ})"

definition points_ok :: "string \<Rightarrow> nat \<Rightarrow> char list \<Rightarrow> (point \<times> string) list \<Rightarrow> bool" where
  "points_ok command start ctx pts \<longleftrightarrow> (\<forall>pt \<in> set pts. point_ok command start ctx pt)"

lemma points_ok_Nil [simp]: "points_ok command start ctx []"
  by (simp add: points_ok_def)

lemma collect_ok:
  "(\<And>x. x \<in> set xs \<Longrightarrow> res_sat (points_ok command start ctx) (f x))
     \<Longrightarrow> res_sat (points_ok command start ctx) (collect f xs)"
proof (induction xs)
  case (Cons x xs)
  have "res_sat (points_ok command start ctx) (f x)" using Cons.prems by simp
  moreover have "res_sat (points_ok command start ctx) (collect f xs)" using Cons by simp
  ultimately show ?case
    by (simp, elim res_sat_bind) (auto simp: points_ok_def)
qed simp

lemma length_inner: "maps raw \<Longrightarrow> length (inner raw) + 2 = length raw"
  by (auto simp: maps_def inner_def)

lemma word_in_command:
  "word_ok s w \<Longrightarrow> w_start w + length (w_raw w) \<le> length s \<and> w_start w < length s"
  by (auto simp: word_ok_def slice_def)

lemma inside_ok:
  assumes w: "word_ok command w"
    and ins: "\<And>t st c. length t < length command \<Longrightarrow> res_sat (points_ok t st c) (ins t st c)"
  shows "res_sat (points_ok command start ctx) (inside ins start ctx w why)"
proof (cases "maps (w_raw w)")
  case True
  let ?t = "inner (w_raw w)" and ?st = "start + w_start w + 1" and ?c = "ctx @ [hd (w_raw w)]"
  have q: "hd (w_raw w) \<in> {SQ, DQ}" using True by (auto simp: maps_def)
  have l: "length ?t < length command" using word_in_command [OF w] length_inner [OF True] by linarith
  have "points_ok command start ctx pts" if p: "points_ok ?t ?st ?c pts" for pts
    unfolding points_ok_def point_ok_def
  proof (clarsimp, intro conjI)
    fix p c lb assume "((p, c), lb) \<in> set pts"
    then have k: "?st \<le> p" "p < ?st + length ?t" "starts_with c ?c" "set (drop (length ?c) c) \<subseteq> {SQ, DQ}"
      using p by (auto simp: points_ok_def point_ok_def)
    from k(3) obtain r where r: "c = ?c @ r" by (auto simp: starts_with_iff)
    show "start \<le> p" "p < start + length command"
      using k(1,2) word_in_command [OF w] length_inner [OF True] by linarith+
    show "starts_with c ctx" using r by simp
    show "set (drop (length ctx) c) \<subseteq> {SQ, DQ}" using r k(4) q by auto
  qed
  with ins [OF l] show ?thesis
    unfolding inside_def Let_def if_P [OF True] by (rule res_sat_mono)
qed (simp add: inside_def)

lemma shell_string_from_in: "shell_string_from ws = Some w \<Longrightarrow> w \<in> set ws"
proof (induction ws)
  case (Cons x ws)
  have "first_plain ws = Some w \<Longrightarrow> w \<in> set ws"
    by (auto simp: first_plain_def split: list.splits) (metis list.set_intros(1) set_dropWhileD)
  with Cons show ?case by (auto split: option.splits if_splits)
qed simp

lemma shell_string_in: "shell_string ws = Some w \<Longrightarrow> w \<in> set ws"
  unfolding shell_string_def using shell_string_from_in in_set_dropD by metis

lemma flock_c_string_in: "flock_c_string ws = Some w \<Longrightarrow> w \<in> set ws"
proof -
  have "first_plain xs = Some w \<Longrightarrow> w \<in> set xs" for xs
    by (auto simp: first_plain_def split: list.splits) (metis list.set_intros(1) set_dropWhileD)
  then show "flock_c_string ws = Some w \<Longrightarrow> w \<in> set ws"
    by (auto simp: flock_c_string_def Let_def split: if_splits dest: in_set_dropD)
qed

lemma lead_ok:
  "ws \<noteq> [] \<Longrightarrow> res_sat (\<lambda>l. \<forall>xs. l = Some xs \<longrightarrow> xs \<noteq> [] \<and> set xs \<subseteq> set ws) (lead command ws)"
  by (cases ws) (auto simp: lead_def Let_def dest: list.set_sel(2))

lemma simple_points_ok:
  assumes ws: "words_ok command ws"
    and ins: "\<And>t st c. length t < length command \<Longrightarrow> res_sat (points_ok t st c) (ins t st c)"
  shows "res_sat (points_ok command start ctx) (simple_points ins command start ctx ws)"
  unfolding simple_points_def
proof (rule res_sat_bind [OF lead_ok])
  show "ws \<noteq> []" using ws by (simp add: words_ok_def)
  fix l assume l: "\<forall>xs. l = Some xs \<longrightarrow> xs \<noteq> [] \<and> set xs \<subseteq> set ws"
  show "res_sat (points_ok command start ctx) (case l of None \<Rightarrow> Ok []
      | Some ws \<Rightarrow>
          let first = hd ws; v = w_value first; prog = map_option (after_last (CHR ''/'')) v in
          if v = Some ''eval'' then
            (if heavy_word (slice command (w_end first) (w_end (last ws))) then Unsure ''eval'' else Ok [])
          else if prog \<in> Some ` set SHELLS then
            (case shell_string ws of None \<Rightarrow> Ok []
             | Some s \<Rightarrow> inside ins start ctx s ''a shell -c string the matcher cannot map'')
          else if prog = Some ''flock'' \<and> flock_c_string ws \<noteq> None then
            inside ins start ctx (the (flock_c_string ws)) ''a flock -c string the matcher cannot map''
          else
            (case classify_args (map tok_of ws) False True of None \<Rightarrow> Ok []
             | Some label \<Rightarrow> Ok [((start + w_start first, ctx), label)]))"
  proof (cases l)
    case (Some xs)
    with l ws have ok: "word_ok command w" if "w \<in> set xs" for w using that by (auto simp: words_ok_def)
    have "hd xs \<in> set xs" using l Some by auto
    from word_in_command [OF ok [OF this]] have pt: "w_start (hd xs) < length command" by simp
    have sub: "res_sat (points_ok command start ctx) (inside ins start ctx w why)" if "w \<in> set xs" for w why
      using ok [OF that] ins by (rule inside_ok)
    have sh: "res_sat (points_ok command start ctx) (inside ins start ctx w why)" if "shell_string xs = Some w" for w why
      using shell_string_in [OF that] by (rule sub)
    have fl: "res_sat (points_ok command start ctx) (inside ins start ctx (the (flock_c_string xs)) why)"
      if "flock_c_string xs \<noteq> None" for why
      using that flock_c_string_in [of xs] by (auto intro!: sub)
    show ?thesis unfolding Some option.case Let_def
      by (intro res_sat_if)
         (use pt in \<open>auto split: option.split intro!: sh fl[simplified] simp: points_ok_def point_ok_def starts_with_def\<close>)
  qed simp
qed

lemma insertions_ok:
  "length command < fuel \<Longrightarrow> res_sat (points_ok command start ctx) (insertions fuel command start ctx)"
proof (induction fuel arbitrary: command start ctx)
  case (Suc fuel)
  have ins: "res_sat (points_ok t st c) (insertions fuel t st c)" if "length t < length command" for t st c
    using that Suc.prems by (intro Suc.IH) simp
  show ?case unfolding insertions.simps
    by (rule res_sat_bind [OF parse_sat]) (blast intro: collect_ok simple_points_ok ins)
qed simp

lemma labelled_ok: "res_sat (points_ok command 0 []) (labelled command)"
  unfolding labelled_def by (rule insertions_ok) simp

section \<open>The rewrite keeps the command\<close>

text \<open>The command with each wrapper in its place, read from the left.\<close>

fun weave :: "string \<Rightarrow> point list \<Rightarrow> nat \<Rightarrow> string \<Rightarrow> string" where
  "weave wrapper [] i command = drop i command"
| "weave wrapper ((p, ctx) # ps) i command =
     slice command i p @ (escape_for_ctx wrapper ctx @ '' '') @ weave wrapper ps p command"

lemma splice_append: "splice w (xs @ ys) c = splice w ys (splice w xs c)"
  by (induction w xs c rule: splice.induct) auto

lemma drop_slice: "i \<le> p \<Longrightarrow> drop i c = slice c i p @ drop p c"
proof -
  assume "i \<le> p"
  then have "drop p c = drop (p - i) (drop i c)" by simp
  then show ?thesis by (simp add: slice_def del: drop_drop)
qed

lemma weave_from:
  "i \<le> p \<Longrightarrow> p \<le> length c \<Longrightarrow> \<forall>x \<in> set ps. p \<le> fst x \<Longrightarrow> weave w ps i c = slice c i p @ weave w ps p c"
proof (cases ps)
  case Nil
  assume "i \<le> p"
  from drop_slice [OF this] show ?thesis by (simp add: Nil)
next
  case (Cons x ps')
  obtain q ctx where x: "x = (q, ctx)" by (cases x)
  assume "i \<le> p" "\<forall>x \<in> set ps. p \<le> fst x"
  then have "slice c i q = slice c i p @ slice c p q"
    by (simp add: Cons x slice_append_slice)
  then show ?thesis by (simp add: Cons x)
qed

lemma splice_weave:
  "sorted_wrt (\<lambda>a b. fst a \<le> fst b) ps \<Longrightarrow> \<forall>x \<in> set ps. fst x \<le> length c
     \<Longrightarrow> splice w (rev ps) c = weave w ps 0 c"
proof (induction ps)
  case (Cons x ps)
  obtain p ctx where x: "x = (p, ctx)" by (cases x)
  have "splice w (rev ps) c = weave w ps 0 c" using Cons by simp
  also have "\<dots> = slice c 0 p @ weave w ps p c" using Cons.prems by (intro weave_from) (auto simp: x)
  finally have s: "splice w (rev ps) c = slice c 0 p @ weave w ps p c" .
  have "length (slice c 0 p) = p" using Cons.prems by (simp add: x)
  then show ?case by (simp add: x splice_append s)
qed simp

lemma subseq_weave:
  "sorted_wrt (\<lambda>a b. fst a \<le> fst b) ps \<Longrightarrow> \<forall>x \<in> set ps. i \<le> fst x \<and> fst x \<le> length c
     \<Longrightarrow> subseq (drop i c) (weave w ps i c)"
proof (induction ps arbitrary: i)
  case (Cons x ps)
  obtain p ctx where x: "x = (p, ctx)" by (cases x)
  have p: "i \<le> p" using Cons.prems by (simp add: x)
  have "subseq (drop p c) (weave w ps p c)" using Cons.prems by (intro Cons.IH) (auto simp: x)
  then have "subseq (slice c i p @ [] @ drop p c) (slice c i p @ (escape_for_ctx w ctx @ '' '') @ weave w ps p c)"
    by (intro list_emb_append_mono) simp_all
  moreover have "drop i c = slice c i p @ [] @ drop p c" using drop_slice [OF p] by simp
  ultimately show ?case by (simp only: x weave.simps)
qed simp

text \<open>What \<open>gate\<close> gives, whatever the command.\<close>

lemma gate_cases:
  obtains (nothing) "gate command wrapper = Ok None" "labelled command = Ok []"
  | (unsure) why where "gate command wrapper = Unsure why" "labelled command = Unsure why"
  | (rewrite) lps pts where "labelled command = Ok lps" "lps \<noteq> []" "set pts = fst ` set lps"
      "sorted_wrt (\<lambda>a b. fst a \<le> fst b) pts" "\<forall>x \<in> set pts. fst x < length command \<and> set (snd x) \<subseteq> {SQ, DQ}"
      "gate command wrapper = Ok (Some (weave wrapper pts 0 command))"
proof (cases "labelled command")
  case (Ok lps)
  let ?pts = "sort (remdups (map fst lps))"
  have s: "sorted_wrt (\<lambda>a b. fst a \<le> fst b) ?pts"
    by (rule sorted_wrt_mono_rel [OF _ sorted_sort]) (auto simp: less_eq_prod_def)
  have b: "\<forall>x \<in> set ?pts. fst x < length command \<and> set (snd x) \<subseteq> {SQ, DQ}"
    using labelled_ok [of command] by (fastforce simp: Ok points_ok_def point_ok_def)
  have set: "set ?pts = fst ` set lps" by simp
  then have "?pts = [] \<longleftrightarrow> lps = []" by (metis image_is_empty set_empty)
  then have "gate command wrapper = (if lps = [] then Ok None else Ok (Some (splice wrapper (rev ?pts) command)))"
    by (simp add: gate_def Ok Let_def)
  moreover have "splice wrapper (rev ?pts) command = weave wrapper ?pts 0 command"
    using s b by (intro splice_weave) auto
  ultimately have g: "gate command wrapper = (if lps = [] then Ok None else Ok (Some (weave wrapper ?pts 0 command)))"
    by simp
  show ?thesis
  proof (cases "lps = []")
    case True
    show ?thesis by (rule nothing) (use True g Ok in simp_all)
  next
    case False
    with g have "gate command wrapper = Ok (Some (weave wrapper ?pts 0 command))" by simp
    with False Ok set s b rewrite show ?thesis by blast
  qed
next
  case (Unsure why)
  then show ?thesis using unsure by (simp add: gate_def)
next
  case Stuck
  with labelled_ok [of command] show ?thesis by simp
qed

section \<open>Properties\<close>


text \<open>
  C19. A rewrite adds the wrapper and loses nothing: the new command is the old one with the
  wrapper, escaped for its quotes and followed by a blank, put at points of the command; the old
  command is a subsequence of it.
\<close>

theorem rewrite_keeps_command:
  "gate command wrapper = Ok (Some new) \<Longrightarrow>
     subseq command new
     \<and> (\<exists>pts. pts \<noteq> [] \<and> sorted_wrt (\<lambda>a b. fst a \<le> fst b) pts
          \<and> (\<forall>x \<in> set pts. fst x < length command \<and> set (snd x) \<subseteq> {SQ, DQ})
          \<and> new = weave wrapper pts 0 command)"
proof (cases rule: gate_cases [of command wrapper])
  case (rewrite lps pts)
  assume "gate command wrapper = Ok (Some new)"
  with rewrite(6) have new: "new = weave wrapper pts 0 command" by simp
  have "pts \<noteq> []" using rewrite(2,3) by auto
  moreover have "subseq (drop 0 command) new" unfolding new using rewrite(4,5) by (intro subseq_weave) auto
  ultimately show ?thesis using rewrite(4,5) new by auto
qed simp_all

lemma rewrite_keeps_command_witness:
  "subseq ''cd x && pytest -q'' ''cd x && W pytest -q''
   \<and> (\<exists>pts. pts \<noteq> [] \<and> sorted_wrt (\<lambda>a b. fst a \<le> fst b) pts
        \<and> (\<forall>x \<in> set pts. fst x < length ''cd x && pytest -q'' \<and> set (snd x) \<subseteq> {SQ, DQ})
        \<and> ''cd x && W pytest -q'' = weave ''W'' pts 0 ''cd x && pytest -q'')"
proof (rule rewrite_keeps_command)
  show "gate ''cd x && pytest -q'' ''W'' = Ok (Some ''cd x && W pytest -q'')" by code_simp
qed

end
