(* ===== verification/Shell_Quote.thy ===== *)
theory Shell_Quote
  imports Heavy_Gate
begin

text \<open>
  What the scanner reads back of quoted text: the words \<open>shlex.quote\<close> writes, and a quoted
  string with the wrapper spliced into it (\<open>_escape_for_ctx\<close>,
  \<open>claudlobby/_runtime_scripts/heavy-slot.py\<close>). \<open>shlex_quote\<close> is the standard library's
  function, which the code uses for the wrapper's path and for the commands it prints.
\<close>

section \<open>Reading a word piece by piece\<close>

text \<open>
  \<open>reads tx v\<close>: met inside a word, the text \<open>tx\<close> is consumed and adds \<open>v\<close> to the word's
  value. \<open>dq_reads\<close> is the same inside double quotes.
\<close>

definition reads :: "string \<Rightarrow> string \<Rightarrow> bool" where
  "reads tx v \<longleftrightarrow> (\<forall>s i start out dyn st f. starts_at s i tx \<longrightarrow> 4 * (length s - i) + 2 \<le> f \<longrightarrow>
     (\<exists>f'. 4 * (length s - (i + length tx)) + 2 \<le> f'
        \<and> word_loop f s start i out dyn st = word_loop f' s start (i + length tx) (out @ v) dyn st))"

definition dq_reads :: "string \<Rightarrow> string \<Rightarrow> bool" where
  "dq_reads tx v \<longleftrightarrow> (\<forall>s i out dyn st f. starts_at s i tx \<longrightarrow> 4 * (length s - i) + 2 \<le> f \<longrightarrow>
     (\<exists>f'. 4 * (length s - (i + length tx)) + 2 \<le> f'
        \<and> dquote f s i out dyn st = dquote f' s (i + length tx) (out @ v) dyn st))"

lemma starts_at_append:
  "starts_at s i (a @ b) \<longleftrightarrow> starts_at s i a \<and> starts_at s (i + length a) b"
proof
  assume "starts_at s i (a @ b)"
  then have "drop i s = a @ b @ drop (length a + length b) (drop i s)"
    unfolding starts_at_def by (metis append.assoc append_take_drop_id length_append)
  then obtain r where r: "drop i s = a @ b @ r" by blast
  then have "drop (i + length a) s = b @ r" by (metis add.commute append_eq_conv_conj drop_drop)
  with r show "starts_at s i a \<and> starts_at s (i + length a) b" by (simp add: starts_at_def)
next
  assume "starts_at s i a \<and> starts_at s (i + length a) b"
  then show "starts_at s i (a @ b)"
    by (simp add: starts_at_def take_add) (metis add.commute drop_drop)
qed

lemma starts_at_Cons:
  "starts_at s i (c # p) \<longleftrightarrow> i < length s \<and> s ! i = c \<and> starts_at s (Suc i) p"
proof (cases "i < length s")
  case True
  then show ?thesis by (simp add: starts_at_def Cons_nth_drop_Suc [symmetric])
next
  case False
  then show ?thesis by (simp add: starts_at_def)
qed

lemma starts_at_Nil [simp]: "starts_at s i []"
  by (simp add: starts_at_def)

lemma reads_Nil: "reads [] []"
  unfolding reads_def by fastforce

lemma reads_append:
  assumes 1: "reads t1 v1" and 2: "reads t2 v2"
  shows "reads (t1 @ t2) (v1 @ v2)"
  unfolding reads_def
proof (intro allI impI)
  fix s i start out dyn st f
  assume a: "starts_at s i (t1 @ t2)" and f: "4 * (length s - i) + 2 \<le> (f::nat)"
  from 1 a f obtain f1 where f1: "4 * (length s - (i + length t1)) + 2 \<le> f1"
    "word_loop f s start i out dyn st = word_loop f1 s start (i + length t1) (out @ v1) dyn st"
    unfolding reads_def starts_at_append by meson
  from 2 a f1(1) obtain f2 where "4 * (length s - (i + length t1 + length t2)) + 2 \<le> f2"
    "word_loop f1 s start (i + length t1) (out @ v1) dyn st
       = word_loop f2 s start (i + length t1 + length t2) ((out @ v1) @ v2) dyn st"
    unfolding reads_def starts_at_append by meson
  with f1(2) show "\<exists>f'. 4 * (length s - (i + length (t1 @ t2))) + 2 \<le> f'
      \<and> word_loop f s start i out dyn st = word_loop f' s start (i + length (t1 @ t2)) (out @ v1 @ v2) dyn st"
    by (auto simp: add.assoc)
qed

lemma dq_reads_Nil: "dq_reads [] []"
  unfolding dq_reads_def by fastforce

lemma dq_reads_append:
  assumes 1: "dq_reads t1 v1" and 2: "dq_reads t2 v2"
  shows "dq_reads (t1 @ t2) (v1 @ v2)"
  unfolding dq_reads_def
proof (intro allI impI)
  fix s i out dyn st f
  assume a: "starts_at s i (t1 @ t2)" and f: "4 * (length s - i) + 2 \<le> (f::nat)"
  from 1 a f obtain f1 where f1: "4 * (length s - (i + length t1)) + 2 \<le> f1"
    "dquote f s i out dyn st = dquote f1 s (i + length t1) (out @ v1) dyn st"
    unfolding dq_reads_def starts_at_append by meson
  from 2 a f1(1) obtain f2 where "4 * (length s - (i + length t1 + length t2)) + 2 \<le> f2"
    "dquote f1 s (i + length t1) (out @ v1) dyn st
       = dquote f2 s (i + length t1 + length t2) ((out @ v1) @ v2) dyn st"
    unfolding dq_reads_def starts_at_append by meson
  with f1(2) show "\<exists>f'. 4 * (length s - (i + length (t1 @ t2))) + 2 \<le> f'
      \<and> dquote f s i out dyn st = dquote f' s (i + length (t1 @ t2)) (out @ v1 @ v2) dyn st"
    by (auto simp: add.assoc)
qed

text \<open>One turn of the loop that goes on gives a piece.\<close>

lemma readsI:
  assumes "\<And>s i f start out dyn st. starts_at s i tx \<Longrightarrow> i < length s \<Longrightarrow> 4 * (length s - i) + 1 \<le> f
      \<Longrightarrow> word_body (word_loop f s) (dollar f s) (dquote f s) s start i out dyn st
         = word_loop f s start (i + length tx) (out @ v) dyn st"
    and "tx \<noteq> []"
  shows "reads tx v"
  unfolding reads_def
proof (intro allI impI)
  fix s i start out dyn st f
  assume a: "starts_at s i tx" and f: "4 * (length s - i) + 2 \<le> (f::nat)"
  then obtain g where g: "f = Suc g" "4 * (length s - i) + 1 \<le> g" by (cases f) auto
  have i: "i < length s" using starts_at_length [OF a assms(2)] assms(2) by (cases tx) auto
  have "word_loop f s start i out dyn st = word_loop g s start (i + length tx) (out @ v) dyn st"
    unfolding g(1) scanner_eqs by (rule assms(1) [OF a i g(2)])
  moreover have "4 * (length s - (i + length tx)) + 2 \<le> g"
    using g(2) i assms(2) by (cases tx) auto
  ultimately show "\<exists>f'. 4 * (length s - (i + length tx)) + 2 \<le> f'
      \<and> word_loop f s start i out dyn st = word_loop f' s start (i + length tx) (out @ v) dyn st" by blast
qed

lemma dq_readsI:
  assumes "\<And>s i f out dyn st. starts_at s i tx \<Longrightarrow> i < length s
      \<Longrightarrow> dquote_body (dollar f s) (dquote f s) s i out dyn st
         = dquote f s (i + length tx) (out @ v) dyn st"
    and "tx \<noteq> []"
  shows "dq_reads tx v"
  unfolding dq_reads_def
proof (intro allI impI)
  fix s i out dyn st f
  assume a: "starts_at s i tx" and f: "4 * (length s - i) + 2 \<le> (f::nat)"
  then obtain g where g: "f = Suc g" "4 * (length s - i) + 1 \<le> g" by (cases f) auto
  have i: "i < length s" using starts_at_length [OF a assms(2)] assms(2) by (cases tx) auto
  have "dquote f s i out dyn st = dquote g s (i + length tx) (out @ v) dyn st"
    unfolding g(1) scanner_eqs by (rule assms(1) [OF a i])
  moreover have "4 * (length s - (i + length tx)) + 2 \<le> g"
    using g(2) i assms(2) by (cases tx) auto
  ultimately show "\<exists>f'. 4 * (length s - (i + length tx)) + 2 \<le> f'
      \<and> dquote f s i out dyn st = dquote f' s (i + length tx) (out @ v) dyn st" by blast
qed

definition plain_char :: "char \<Rightarrow> bool" where
  "plain_char c \<longleftrightarrow> c \<notin> set META \<and> c \<notin> {BSL, SQ, DQ, DOL, BT}"

lemma reads_plain: "plain_char c \<Longrightarrow> reads [c] [c]"
  by (rule readsI) (auto simp: word_body_def plain_char_def starts_at_Cons)

lemma reads_escape: "c \<noteq> NL \<Longrightarrow> reads [BSL, c] [c]"
  by (rule readsI) (auto simp: word_body_def starts_at_Cons META_def)

lemma reads_plains: "\<forall>c \<in> set w. plain_char c \<Longrightarrow> reads w w"
proof (induction w)
  case (Cons c w)
  then show ?case using reads_append [OF reads_plain [of c], of w w] by simp
qed (rule reads_Nil)

lemma find_from_starts:
  assumes "starts_at s i (x @ [c])" "c \<notin> set x"
  shows "find_from c s i = Some (i + length x)"
proof -
  have "find_index (\<lambda>y. y = c) (x @ c # r) = Some (length x)" for r
    using assms(2) by (induction x) auto
  moreover obtain r where "drop i s = x @ c # r"
    using assms(1) unfolding starts_at_def by (metis append_Cons append_Nil append_assoc append_take_drop_id)
  ultimately show ?thesis by (simp add: find_from_def)
qed

lemma slice_starts: "starts_at s i x \<Longrightarrow> slice s i (i + length x) = x"
  by (simp add: slice_def starts_at_def)

lemma reads_single:
  assumes "SQ \<notin> set x"
  shows "reads (SQ # x @ [SQ]) x"
proof (rule readsI)
  fix s i start out dyn st and f :: nat
  assume a: "starts_at s i (SQ # x @ [SQ])" and i: "i < length s"
  then have "s ! i = SQ" and x: "starts_at s (Suc i) (x @ [SQ])" by (auto simp: starts_at_Cons)
  moreover have "find_from SQ s (Suc i) = Some (Suc i + length x)"
    using x assms by (rule find_from_starts)
  moreover have "slice s (Suc i) (Suc i + length x) = x"
    using x by (intro slice_starts) (simp add: starts_at_append)
  ultimately show "word_body (word_loop f s) (dollar f s) (dquote f s) s start i out dyn st
      = word_loop f s start (i + length (SQ # x @ [SQ])) (out @ x) dyn st"
    using i by (simp add: word_body_def META_def)
qed simp

lemma dq_reads_char: "c \<notin> {DQ, BSL, DOL, BT} \<Longrightarrow> dq_reads [c] [c]"
  by (rule dq_readsI) (auto simp: dquote_body_def starts_at_Cons)

lemma dq_reads_escape: "c \<in> {DQ, BSL, DOL, BT} \<Longrightarrow> dq_reads [BSL, c] [c]"
  by (rule dq_readsI) (auto simp: dquote_body_def starts_at_Cons)

lemma dq_reads_chars: "\<forall>c \<in> set w. c \<notin> {DQ, BSL, DOL, BT} \<Longrightarrow> dq_reads w w"
proof (induction w)
  case (Cons c w)
  then show ?case using dq_reads_append [OF dq_reads_char [of c], of w w] by simp
qed (rule dq_reads_Nil)

lemma reads_double:
  assumes d: "dq_reads t v"
  shows "reads (DQ # t @ [DQ]) v"
proof (rule readsI)
  fix s i start out dyn st and f :: nat
  assume a: "starts_at s i (DQ # t @ [DQ])" and i: "i < length s" and f: "4 * (length s - i) + 1 \<le> f"
  then have c: "s ! i = DQ" and t: "starts_at s (Suc i) t" and q: "starts_at s (Suc i + length t) [DQ]"
    by (auto simp: starts_at_Cons starts_at_append)
  have "4 * (length s - Suc i) + 2 \<le> f" using f i by auto
  with d t obtain g where g: "4 * (length s - (Suc i + length t)) + 2 \<le> g"
    "dquote f s (Suc i) [] False st = dquote g s (Suc i + length t) ([] @ v) False st"
    unfolding dq_reads_def by meson
  then obtain h where h: "g = Suc h" by (cases g) auto
  have "dquote g s (Suc i + length t) v False st = Ok (Some v, Suc i + length t + 1, st)"
    using q unfolding h scanner_eqs by (simp add: dquote_body_def starts_at_Cons)
  then show "word_body (word_loop f s) (dollar f s) (dquote f s) s start i out dyn st
      = word_loop f s start (i + length (DQ # t @ [DQ])) (out @ v) dyn st"
    using c i g(2) by (simp add: word_body_def META_def)
qed simp

section \<open>Quoting\<close>

lemma sq_escape_Cons: "sq_escape (c # w) = (if c = SQ then [SQ, BSL, SQ, SQ] else [c]) @ sq_escape w"
  by (simp add: sq_escape_def)

lemma reads_sq_escape:
  "SQ \<notin> set a \<Longrightarrow> SQ \<notin> set b \<Longrightarrow> reads (SQ # a @ sq_escape w @ b @ [SQ]) (a @ w @ b)"
proof (induction w arbitrary: a)
  case Nil
  then show ?case using reads_single [of "a @ b"] by (simp add: sq_escape_def)
next
  case (Cons c w)
  show ?case
  proof (cases "c = SQ")
    case True
    have "reads ((SQ # a @ [SQ]) @ [BSL, SQ] @ (SQ # [] @ sq_escape w @ b @ [SQ])) (a @ [SQ] @ ([] @ w @ b))"
      using Cons.prems by (intro reads_append reads_single reads_escape Cons.IH) auto
    then show ?thesis by (simp add: True sq_escape_Cons)
  next
    case False
    then show ?thesis using Cons.IH [of "a @ [c]"] Cons.prems by (simp add: sq_escape_Cons)
  qed
qed

lemma dq_escape_Cons:
  "dq_escape (c # w) = (if c \<in> {DQ, BSL, DOL, BT} then [BSL, c] else [c]) @ dq_escape w"
  by (auto simp: dq_escape_def)

lemma dq_reads_escape_text: "dq_reads (dq_escape w) w"
proof (induction w)
  case Nil
  show ?case using dq_reads_Nil by (simp add: dq_escape_def)
next
  case (Cons c w)
  have "dq_reads (if c \<in> {DQ, BSL, DOL, BT} then [BSL, c] else [c]) [c]"
    using dq_reads_escape [of c] dq_reads_char [of c] by presburger
  from dq_reads_append [OF this Cons] show ?case by (simp only: dq_escape_Cons append_Cons append_Nil)
qed

lemma reads_dq_escape:
  assumes "\<forall>c \<in> set (a @ b). c \<notin> {DQ, BSL, DOL, BT}"
  shows "reads (DQ # a @ dq_escape w @ b @ [DQ]) (a @ w @ b)"
proof -
  have "dq_reads (a @ dq_escape w @ b) (a @ w @ b)"
    using assms by (intro dq_reads_append dq_reads_chars dq_reads_escape_text) auto
  from reads_double [OF this] show ?thesis by simp
qed

text \<open>The standard library's \<open>shlex.quote\<close>.\<close>

definition shlex_safe :: "char \<Rightarrow> bool" where
  "shlex_safe c \<longleftrightarrow> is_ident_char c \<or> c \<in> set ''@%+=:,./-''"

definition shlex_quote :: "string \<Rightarrow> string" where
  "shlex_quote s =
     (if s = [] then [SQ, SQ]
      else if \<forall>c \<in> set s. shlex_safe c then s
      else SQ # replace_all SQ [SQ, DQ, SQ, DQ, SQ] s @ [SQ])"

lemma shlex_safe_plain: "shlex_safe c \<Longrightarrow> plain_char c"
  by (auto simp: shlex_safe_def plain_char_def META_def is_ident_char_def is_ident_start_def
      is_ascii_letter_def is_digit_def code_def)

lemma reads_replaced:
  "SQ \<notin> set a \<Longrightarrow> reads (SQ # a @ replace_all SQ [SQ, DQ, SQ, DQ, SQ] w @ [SQ]) (a @ w)"
proof (induction w arbitrary: a)
  case Nil
  then show ?case using reads_single [of a] by simp
next
  case (Cons c w)
  show ?case
  proof (cases "c = SQ")
    case True
    have "reads ((SQ # a @ [SQ]) @ (DQ # [SQ] @ [DQ]) @ (SQ # [] @ replace_all SQ [SQ, DQ, SQ, DQ, SQ] w @ [SQ])) (a @ [SQ] @ ([] @ w))"
      using Cons.prems by (intro reads_append reads_single reads_double dq_reads_char Cons.IH) auto
    then show ?thesis by (simp add: True)
  next
    case False
    then show ?thesis using Cons.IH [of "a @ [c]"] Cons.prems by simp
  qed
qed

lemma reads_quoted: "reads (shlex_quote w) w"
  using reads_single [of "[]"] reads_plains [of w] reads_replaced [of "[]" w] shlex_safe_plain
  by (auto simp: shlex_quote_def)

section \<open>Reading words from a list\<close>

text \<open>
  A text that is one word: it is read to a value, and the list's loop takes it for a word's
  start, whatever follows.
\<close>

definition not_op :: "char \<Rightarrow> bool" where
  "not_op c \<longleftrightarrow> c \<notin> {CHR ''<'', CHR ''>'', CHR ''&''}"

definition word_text :: "string \<Rightarrow> string \<Rightarrow> bool" where
  "word_text tx v \<longleftrightarrow> reads tx v \<and> tx \<noteq> [] \<and> hd tx \<notin> set META \<and> hd tx \<notin> {BSL, CHR ''#''}
     \<and> (hd tx \<in> {SQ, DQ} \<or> (\<forall>c \<in> set tx. not_op c \<and> c \<noteq> CHR ''{''))"

lemma first_op_Some: "first_op ps s i = Some (p, j) \<Longrightarrow> p \<in> set ps \<and> starts_at s i p"
  by (induction ps) (auto split: if_splits)

lemma redir_op_char:
  assumes "redir_match s i = Some (p, j)"
  shows "fd_prefix s i < length s \<and> \<not> not_op (s ! fd_prefix s i)"
proof -
  from first_op_Some [OF assms [unfolded redir_match_def]]
  have "p \<in> set REDIR_OPS" "starts_at s (fd_prefix s i) p" by auto
  then show ?thesis by (auto simp: REDIR_OPS_def not_op_def starts_at_Cons)
qed

lemma no_redirection:
  assumes w: "word_text tx v" and a: "starts_at s i tx"
    and e: "i + length tx < length s \<Longrightarrow> s ! (i + length tx) = CHR '' ''"
  shows "redir_match s i = None"
proof (rule ccontr)
  assume "redir_match s i \<noteq> None"
  then obtain p j where "redir_match s i = Some (p, j)" by (metis not_None_eq surj_pair)
  from redir_op_char [OF this] have k: "fd_prefix s i < length s" "\<not> not_op (s ! fd_prefix s i)" by auto
  obtain c t where tx: "tx = c # t" using w by (cases tx) (auto simp: word_text_def)
  obtain r where d: "drop i s = tx @ r" using a by (metis append_take_drop_id starts_at_def)
  have r: "r = [] \<or> hd r = CHR '' ''"
  proof (cases r)
    case (Cons x r')
    have "drop (i + length tx) s = r" by (metis d add.commute append_eq_conv_conj drop_drop)
    then have "i + length tx < length s \<and> s ! (i + length tx) = x"
      using Cons by (metis drop_eq_Nil hd_drop_conv_nth list.discI list.sel(1) not_less)
    with e Cons show ?thesis by simp
  qed simp
  have sep: "takeWhile is_digit r = []"
    using r by (cases r) (auto simp: is_digit_def code_def)
  show False
  proof (cases "c \<in> {SQ, DQ}")
    case True
    then have "fd_prefix s i = i"
      by (auto simp: fd_prefix_def Let_def d tx is_digit_def code_def split: list.splits)
    moreover have "s ! i = c" using a by (simp add: tx starts_at_Cons)
    ultimately show False using k(2) True by (auto simp: not_op_def)
  next
    case False
    then have safe: "\<forall>c \<in> set tx. not_op c \<and> c \<noteq> CHR ''{''" using w by (auto simp: word_text_def tx)
    let ?n = "length (takeWhile is_digit (tx @ r))"
    have pre: "fd_prefix s i = i + ?n"
      using safe by (auto simp: fd_prefix_def Let_def d tx split: list.splits)
    have n: "?n \<le> length tx"
      using sep length_takeWhile_le [of is_digit tx] by (simp add: takeWhile_append)
    have "s ! (i + ?n) = (tx @ r) ! ?n" using k(1) pre d by (metis less_imp_le add_leD1 nth_drop)
    moreover have "not_op ((tx @ r) ! ?n)"
    proof (cases "?n < length tx")
      case True
      then show ?thesis using safe by (simp add: nth_append)
    next
      case False
      with n have l: "?n = length tx" by simp
      have "drop ?n (drop i s) \<noteq> []" using k(1) pre by simp
      then have "r \<noteq> []" using l d by simp
      then show ?thesis using r l by (simp add: nth_append not_op_def hd_conv_nth)
    qed
    ultimately show False using k(2) pre by simp
  qed
qed

lemma word_text_quoted: "word_text (shlex_quote w) w"
proof -
  have "shlex_safe c \<Longrightarrow> not_op c \<and> c \<noteq> CHR ''{'' \<and> c \<notin> set META \<and> c \<notin> {BSL, CHR ''#''}" for c
    by (auto simp: shlex_safe_def not_op_def META_def is_ident_char_def is_ident_start_def
        is_ascii_letter_def is_digit_def code_def)
  moreover have "hd w \<in> set w" if "w \<noteq> []" using that by simp
  ultimately show ?thesis
    using reads_quoted [of w] by (auto simp: word_text_def shlex_quote_def META_def)
qed

lemma word_read:
  assumes w: "word_text tx v" and a: "starts_at s i tx"
    and e: "i + length tx < length s \<Longrightarrow> s ! (i + length tx) = CHR '' ''"
    and f: "4 * (length s - i) + 2 \<le> f"
  shows "word_loop f s i i [] False st
    = Ok (\<lparr>w_start = i, w_end = i + length tx, w_raw = tx, w_value = Some v\<rparr>, i + length tx, st)"
proof -
  from w a f obtain g where g: "4 * (length s - (i + length tx)) + 2 \<le> g"
    "word_loop f s i i [] False st = word_loop g s i (i + length tx) ([] @ v) False st"
    unfolding word_text_def reads_def by meson
  then obtain h where h: "g = Suc h" by (cases g) auto
  have "\<not> (i + length tx < length s \<and> s ! (i + length tx) \<notin> set META)"
    using e by (auto simp: META_def)
  with slice_starts [OF a] show ?thesis
    unfolding g(2) h scanner_eqs by (simp add: word_body_def)
qed

text \<open>A word the list's loop may take for the command: no reserved word and no assignment.\<close>

definition command_word :: "string \<Rightarrow> bool" where
  "command_word raw \<longleftrightarrow> raw \<notin> set UNPARSED \<and> raw \<notin> set OPENERS \<and> raw \<notin> set CLOSERS
     \<and> raw \<noteq> ''for'' \<and> raw \<noteq> ''[['' \<and> \<not> assign_match raw"

lemma list_body_word:
  assumes w: "word_text tx v" and a: "starts_at s i tx"
    and e: "i + length tx < length s \<Longrightarrow> s ! (i + length tx) = CHR '' ''"
  shows "list_body lst lwd red s i None cur atc False False st = lwd i None cur atc False False st"
proof -
  obtain c t where tx: "tx = c # t" using w by (cases tx) (auto simp: word_text_def)
  have c: "c \<notin> set META" "c \<notin> {BSL, CHR ''#''}" using w by (auto simp: word_text_def tx)
  have i: "i < length s" "s ! i = c" using a by (auto simp: tx starts_at_Cons)
  have "redir_match s i = None" by (rule no_redirection [OF w a e])
  with c i show ?thesis by (simp add: list_body_def starts_at_Cons META_def)
qed

lemma list_word_plain:
  assumes w: "word_text tx v" and a: "starts_at s i tx"
    and e: "i + length tx < length s \<Longrightarrow> s ! (i + length tx) = CHR '' ''"
    and f: "4 * (length s - i) + 2 \<le> f"
    and c: "cur = None \<Longrightarrow> atc \<and> command_word tx"
  shows "list_word_body lst (word_loop f s) par dbr s i None cur atc False False st
    = lst (i + length tx) None
        (add_word cur \<lparr>w_start = i, w_end = i + length tx, w_raw = tx, w_value = Some v\<rparr>) False False False st"
proof -
  have "word_loop f s i i [] False st
      = Ok (\<lparr>w_start = i, w_end = i + length tx, w_raw = tx, w_value = Some v\<rparr>, i + length tx, st)"
    using e by (rule word_read [OF w a _ f])
  then show ?thesis using c
    by (cases cur) (simp_all add: list_word_body_def command_word_def)
qed

lemma list_loop_word:
  assumes w: "word_text tx v" and a: "starts_at s i tx"
    and e: "i + length tx < length s \<Longrightarrow> s ! (i + length tx) = CHR '' ''"
    and f: "4 * (length s - i) + 4 \<le> f"
    and c: "cur = None \<Longrightarrow> atc \<and> command_word tx"
  shows "\<exists>g. 4 * (length s - (i + length tx)) + 4 \<le> g
    \<and> list_loop f s i None cur atc False False st
      = list_loop g s (i + length tx) None
          (add_word cur \<lparr>w_start = i, w_end = i + length tx, w_raw = tx, w_value = Some v\<rparr>) False False False st"
proof -
  obtain g where g: "f = Suc (Suc g)" "4 * (length s - i) + 2 \<le> g"
    using f by (cases f; cases "f - 1") auto
  have "0 < length tx" "i + length tx \<le> length s"
    using w starts_at_length [OF a] by (auto simp: word_text_def)
  then have "4 * (length s - (i + length tx)) + 4 \<le> g" using g(2) by linarith
  then show ?thesis
    by (intro exI [of _ g])
       (simp only: g(1) scanner_eqs list_body_word [OF w a e] list_word_plain [OF w a e g(2) c] simp_thms)
qed

lemma drop_add_list: "drop i s = a @ b \<Longrightarrow> drop (i + length a) s = b"
  by (metis add.commute append_eq_conv_conj drop_drop)

lemma list_loop_words:
  assumes "\<forall>(tx, v) \<in> set xs. word_text tx v" and "xs \<noteq> []"
    and "drop i s = join '' '' (map fst xs)" and "4 * (length s - i) + 4 \<le> f"
    and "cur = None \<Longrightarrow> atc \<and> command_word (fst (hd xs))"
  shows "\<exists>ws. map w_value ws = map (Some \<circ> snd) xs \<and> map w_raw ws = map fst xs \<and> w_start (hd ws) = i
    \<and> list_loop f s i None cur atc False False st
      = Ok (length s, finish (Some ((case cur of None \<Rightarrow> [] | Some c \<Rightarrow> c) @ ws)) st)"
  using assms
proof (induction xs arbitrary: i f cur atc)
  case (Cons x xs)
  obtain tx v where x: "x = (tx, v)" by (cases x)
  have w: "word_text tx v" using Cons.prems(1) by (simp add: x)
  let ?w = "\<lparr>w_start = i, w_end = i + length tx, w_raw = tx, w_value = Some v\<rparr>"
  let ?cur = "add_word cur ?w"
  have cur': "?cur = Some ((case cur of None \<Rightarrow> [] | Some c \<Rightarrow> c) @ [?w])"
    by (simp add: add_word_def split: option.split)
  obtain r where d: "drop i s = tx @ r" and r: "r = (if xs = [] then [] else CHR '' '' # join '' '' (map fst xs))"
    using Cons.prems(3) by (cases xs) (auto simp: x)
  have a: "starts_at s i tx" by (simp add: starts_at_def d)
  have dr: "drop (i + length tx) s = r" by (rule drop_add_list [OF d])
  have e: "s ! (i + length tx) = CHR '' ''" if "i + length tx < length s"
    using hd_drop_conv_nth [OF that] that dr r by (auto split: if_splits)
  have c: "atc \<and> command_word tx" if "cur = None" using Cons.prems(5) [OF that] by (simp add: x)
  obtain g where g: "4 * (length s - (i + length tx)) + 4 \<le> g"
    "list_loop f s i None cur atc False False st = list_loop g s (i + length tx) None ?cur False False False st"
    using list_loop_word [OF w a e Cons.prems(4) c] by blast
  then obtain h where h: "g = Suc h" by (cases g) auto
  show ?case
  proof (cases "xs = []")
    case True
    then have "length s \<le> i + length tx" "i + length tx \<le> length s"
      using dr r starts_at_length [OF a] w by (auto simp: word_text_def)
    then have "list_loop g s (i + length tx) None ?cur False False False st = Ok (length s, finish ?cur st)"
      unfolding h scanner_eqs by (simp add: list_body_def)
    then show ?thesis using g(2) cur' by (intro exI [of _ "[?w]"]) (simp add: True x)
  next
    case False
    have sp: "i + length tx < length s" using dr r False by (metis drop_eq_Nil list.discI not_less)
    have d1: "drop (i + length tx + 1) s = join '' '' (map fst xs)"
      using drop_add_list [of "i + length tx" s "'' ''" "join '' '' (map fst xs)"] dr r False by simp
    have f1: "4 * (length s - (i + length tx + 1)) + 4 \<le> h" using g(1) h sp by linarith
    have m: "\<forall>(tx, v) \<in> set xs. word_text tx v" using Cons.prems(1) by simp
    have "\<exists>ws. map w_value ws = map (Some \<circ> snd) xs \<and> map w_raw ws = map fst xs
      \<and> w_start (hd ws) = i + length tx + 1 \<and> list_loop h s (i + length tx + 1) None ?cur False False False st
        = Ok (length s, finish (Some ((case ?cur of None \<Rightarrow> [] | Some c \<Rightarrow> c) @ ws)) st)"
      by (rule Cons.IH [OF m False d1 f1]) (simp add: cur')
    then obtain ws where ws: "map w_value ws = map (Some \<circ> snd) xs" "map w_raw ws = map fst xs"
      "list_loop h s (i + length tx + 1) None ?cur False False False st
        = Ok (length s, finish (Some ((case ?cur of None \<Rightarrow> [] | Some c \<Rightarrow> c) @ ws)) st)" by blast
    have "list_loop g s (i + length tx) None ?cur False False False st
        = list_loop h s (i + length tx + 1) None ?cur False False False st"
      unfolding h scanner_eqs using e [OF sp] sp by (simp add: list_body_def)
    with g(2) ws cur' show ?thesis by (intro exI [of _ "?w # ws"]) (simp add: x)
  qed
qed simp

lemma parse_words_text:
  assumes "\<forall>(tx, v) \<in> set xs. word_text tx v" "xs \<noteq> []" "command_word (fst (hd xs))"
  shows "\<exists>ws. map w_value ws = map (Some \<circ> snd) xs \<and> map w_raw ws = map fst xs \<and> w_start (hd ws) = 0
    \<and> parse (join '' '' (map fst xs)) = Ok [ws]"
proof -
  let ?s = "join '' '' (map fst xs)"
  obtain ws where ws: "map w_value ws = map (Some \<circ> snd) xs" "map w_raw ws = map fst xs" "w_start (hd ws) = 0"
    "list_loop (scan_fuel ?s) ?s 0 None None True False False ([], []) = Ok (length ?s, finish (Some ws) ([], []))"
    using list_loop_words [OF assms(1,2), of 0 ?s "scan_fuel ?s" None True "([], [])"] assms(3)
    by (auto simp: scan_fuel_def)
  moreover have "ws \<noteq> []" using ws(1) assms(2) by (cases xs) auto
  ultimately show ?thesis by (intro exI [of _ ws]) (simp add: parse_def)
qed

section \<open>Properties\<close>

text \<open>
  C28. A command written with \<open>shlex.quote\<close> is read back as the arguments it was made of: one
  simple command, every word with its value, unless its first word is a reserved word or an
  assignment.
\<close>

theorem quoted_command_read_back:
  assumes "argv \<noteq> []" "command_word (shlex_quote (hd argv))"
  shows "\<exists>ws. parse (join '' '' (map shlex_quote argv)) = Ok [ws] \<and> map w_value ws = map Some argv"
proof -
  let ?xs = "map (\<lambda>a. (shlex_quote a, a)) argv"
  have "\<forall>(tx, v) \<in> set ?xs. word_text tx v" using word_text_quoted by auto
  moreover have "command_word (fst (hd ?xs))" using assms by (simp add: hd_map)
  ultimately obtain ws where "map w_value ws = map (Some \<circ> snd) ?xs"
    "parse (join '' '' (map fst ?xs)) = Ok [ws]"
    using parse_words_text [of ?xs] assms(1) by blast
  then show ?thesis by (auto simp: comp_def)
qed

lemma quoted_command_read_back_witness:
  "\<exists>ws. parse (join '' '' (map shlex_quote [''/a b/x.py'', ''it'' @ [SQ] @ ''s'', ''$HOME; rm'', []])) = Ok [ws]
     \<and> map w_value ws = map Some [''/a b/x.py'', ''it'' @ [SQ] @ ''s'', ''$HOME; rm'', []]"
proof (rule quoted_command_read_back)
  show "command_word (shlex_quote (hd [''/a b/x.py'', ''it'' @ [SQ] @ ''s'', ''$HOME; rm'', []]))"
    by code_simp
qed simp

lemma escape_for_ctx_Cons: "escape_for_ctx w (q # ctx) = escape_level q (escape_for_ctx w ctx)"
  by (simp add: escape_for_ctx_def)

lemma word_text_spliced:
  assumes "q = SQ \<or> q = DQ" "maps (q # a @ b @ [q])"
  shows "word_text (q # a @ escape_level q w @ b @ [q]) (a @ w @ b)"
proof -
  have "inner (q # a @ b @ [q]) = a @ b"
    by (simp add: inner_def butlast_append)
  with assms have "q = SQ \<and> SQ \<notin> set (a @ b) \<or> q = DQ \<and> (\<forall>c \<in> set (a @ b). c \<notin> {DQ, BSL, DOL, BT})"
    unfolding maps_def by auto
  then have "reads (q # a @ escape_level q w @ b @ [q]) (a @ w @ b)"
    using reads_sq_escape [of a b w] reads_dq_escape [of a b w] by (auto simp: escape_level_def)
  with assms(1) show ?thesis by (auto simp: word_text_def META_def)
qed

text \<open>
  C20. The wrapper survives the quotes around it: spliced into the string of a \<open>bash -c\<close> that the
  matcher maps, and escaped for its nesting, it is read back by the shell of that level as the
  wrapper escaped for the levels inside, and nothing around it changes.
\<close>

theorem wrapper_survives_quotes:
  assumes "q = SQ \<or> q = DQ" "maps (q # a @ b @ [q])"
  shows "\<exists>ws. parse (''bash -c '' @ q # a @ escape_for_ctx w (q # ctx) @ b @ [q]) = Ok [ws]
    \<and> map w_value ws = [Some ''bash'', Some ''-c'', Some (a @ escape_for_ctx w ctx @ b)]"
proof -
  let ?e = "escape_for_ctx w ctx"
  let ?t = "q # a @ escape_level q ?e @ b @ [q]"
  let ?xs = "[(''bash'', ''bash''), (''-c'', ''-c''), (?t, a @ ?e @ b)]"
  have "shlex_quote ''bash'' = ''bash''" "shlex_quote ''-c'' = ''-c''" by code_simp+
  then have "word_text ''bash'' ''bash''" "word_text ''-c'' ''-c''"
    using word_text_quoted [of "''bash''"] word_text_quoted [of "''-c''"] by simp_all
  then have "\<forall>(tx, v) \<in> set ?xs. word_text tx v" using word_text_spliced [OF assms, of ?e] by simp
  moreover have "command_word (fst (hd ?xs))" by code_simp
  ultimately obtain ws where "map w_value ws = map (Some \<circ> snd) ?xs"
    "parse (join '' '' (map fst ?xs)) = Ok [ws]"
    using parse_words_text [of ?xs] by blast
  then show ?thesis by (intro exI [of _ ws]) (simp add: escape_for_ctx_Cons)
qed

lemma wrapper_survives_quotes_witness:
  "\<exists>ws. parse (''bash -c '' @ DQ # ''cd x && '' @ escape_for_ctx (''/a'' @ [SQ] @ ''$b'') (DQ # [SQ]) @ ''pytest'' @ [DQ]) = Ok [ws]
    \<and> map w_value ws = [Some ''bash'', Some ''-c'',
        Some (''cd x && '' @ escape_for_ctx (''/a'' @ [SQ] @ ''$b'') [SQ] @ ''pytest'')]"
proof (rule wrapper_survives_quotes)
  show "maps (DQ # ''cd x && '' @ ''pytest'' @ [DQ])" by code_simp
qed simp

text \<open>
  A single quoted command gets the wrapper exactly when the classifier knows it: it is put in
  front of the whole command, and a command that is no heavy job is left alone.
\<close>

theorem quoted_job_gated:
  assumes "argv \<noteq> []" "command_word (shlex_quote (hd argv))"
    and "hd argv \<notin> {''builtin'', ''command'', ''exec'', ''eval''}"
    and "after_last (CHR ''/'') (hd argv) \<notin> set SHELLS \<union> {''flock''}"
  shows "gate (join '' '' (map shlex_quote argv)) wrapper =
    (case classify_args (map (\<lambda>a. \<lparr>t_value = Some a, t_raw = shlex_quote a\<rparr>) argv) False True of
       None \<Rightarrow> Ok None
     | Some l \<Rightarrow> Ok (Some (wrapper @ '' '' @ join '' '' (map shlex_quote argv))))"
proof -
  let ?xs = "map (\<lambda>a. (shlex_quote a, a)) argv"
  let ?s = "join '' '' (map shlex_quote argv)"
  have "\<forall>(tx, v) \<in> set ?xs. word_text tx v" using word_text_quoted by auto
  moreover have "command_word (fst (hd ?xs))" using assms by (simp add: hd_map)
  ultimately obtain ws where "map w_value ws = map (Some \<circ> snd) ?xs" "map w_raw ws = map fst ?xs"
    and start: "w_start (hd ws) = 0" and "parse (join '' '' (map fst ?xs)) = Ok [ws]"
    using parse_words_text [of ?xs] assms(1) by blast
  then have v: "map w_value ws = map Some argv" and r: "map w_raw ws = map shlex_quote argv" and p: "parse ?s = Ok [ws]"
    by (simp_all add: comp_def)
  have ne: "ws \<noteq> []" using v assms(1) by auto
  have hd: "w_value (hd ws) = Some (hd argv)" using v ne assms(1) by (metis hd_map)
  have toks: "map tok_of ws = map (\<lambda>a. \<lparr>t_value = Some a, t_raw = shlex_quote a\<rparr>) argv"
  proof (rule nth_equalityI)
    show "length (map tok_of ws) = length (map (\<lambda>a. \<lparr>t_value = Some a, t_raw = shlex_quote a\<rparr>) argv)"
      using v by (metis length_map)
    fix k assume "k < length (map tok_of ws)"
    then have "k < length ws" "k < length argv" using v by (auto dest: map_eq_imp_length_eq)
    with v r show "map tok_of ws ! k = map (\<lambda>a. \<lparr>t_value = Some a, t_raw = shlex_quote a\<rparr>) argv ! k"
      by (simp add: tok_of_def) (metis nth_map)
  qed
  have "simple_points ins ?s 0 [] ws = (case classify_args (map tok_of ws) False True of None \<Rightarrow> Ok []
      | Some label \<Rightarrow> Ok [((0, []), label)])" for ins
    using assms(3,4) by (auto simp: simple_points_def lead_def hd start Let_def split: option.split)
  then show ?thesis
    by (simp add: gate_def labelled_def p toks escape_for_ctx_def split: option.split)
qed

lemma quoted_job_gated_witness:
  "gate (join '' '' (map shlex_quote [''npm'', ''ci'', ''a b''])) ''W run --'' =
    (case classify_args (map (\<lambda>a. \<lparr>t_value = Some a, t_raw = shlex_quote a\<rparr>) [''npm'', ''ci'', ''a b'']) False True of
       None \<Rightarrow> Ok None
     | Some l \<Rightarrow> Ok (Some (''W run --'' @ '' '' @ join '' '' (map shlex_quote [''npm'', ''ci'', ''a b'']))))"
proof (rule quoted_job_gated)
  show "command_word (shlex_quote (hd [''npm'', ''ci'', ''a b'']))" by code_simp
  show "after_last (CHR ''/'') (hd [''npm'', ''ci'', ''a b'']) \<notin> set SHELLS \<union> {''flock''}" by code_simp
qed simp_all

end
