(* ===== verification/Task_State.thy ===== *)
theory Task_State
  imports Json Py_Text
begin

text \<open>
  The fleet's task state (\<open>claudlobby/task_state.py\<close>): what closes a work item and an
  assignment, the reduction of the stored rows to tasks with their state and their issues
  (\<open>_reduce\<close>), and the selection of the rows a reading needs (\<open>read_tasks\<close>).

  A row of a table is a record, a table a list of rows, and an SQL selection a filter; the
  events table holds the rows of kind \<open>task\<close>. A dictionary keyed by an id is a map. Reading
  inside one transaction is what makes the tables one fixed value here.
\<close>

section \<open>Facts\<close>

record fact =
  f_seq :: int
  f_event_id :: string
  f_schema :: string
  f_host :: string
  f_fleet :: "string option"
  f_emitter :: string
  f_origin :: string
  f_source_ref :: "string option"
  f_occurred :: string
  f_ingested :: string

record task_event = fact +
  te_task :: string
  te_assignment :: "string option"
  te_event :: string
  te_actor :: "string option"
  te_detail :: "string option"
  te_deadline :: "string option"
  te_successor :: "string option"

text \<open>The rows of \<open>work_items\<close> and \<open>assignments\<close>.\<close>

record work_row = fact +
  wr_id :: string
  wr_title :: string
  wr_body :: "string option"
  wr_repo :: "string option"
  wr_project :: "string option"
  wr_workstream :: "string option"
  wr_created_by :: string

record assign_row = fact +
  ar_id :: string
  ar_task :: string
  ar_assignee :: string
  ar_assigned_by :: string
  ar_expected :: "string option"
  ar_dispatch :: "string option"

record issue =
  is_code :: string
  is_task :: string
  is_assignment :: "string option"
  is_event :: "string option"
  is_blocking :: bool

record assignment =
  as_row :: assign_row
  as_expected :: "string option"
  as_state :: string
  as_terminal :: "task_event option"
  as_history :: "task_event list"

record task =
  tk_row :: work_row
  tk_state :: "string option"
  tk_current :: "assignment option"
  tk_assignments :: "assignment list"
  tk_history :: "task_event list"
  tk_terminal :: "task_event option"
  tk_display :: "string list"
  tk_issues :: "issue list"

record snapshot =
  sn_version :: int
  sn_fleet :: string
  sn_tasks :: "task list"
  sn_issues :: "issue list"

definition TASK_EMITTER :: string where
  "TASK_EMITTER = ''claudlobby.tasks.v1''"

definition OPEN_STATES :: "string list" where
  "OPEN_STATES = [''queued'', ''assigned'', ''active'', ''blocked'']"

definition RELEASE :: "string list" where
  "RELEASE = [''returned_blocked'', ''rejected'', ''expired'', ''cancelled'', ''superseded'', ''reassigned'']"

definition activity :: "string \<Rightarrow> string option" where
  "activity e =
     (if e = ''accepted'' \<or> e = ''progress'' \<or> e = ''resumed'' then Some ''active''
      else if e = ''blocked_waiting'' then Some ''blocked'' else None)"

definition TERMINAL_TASK_EVENTS :: "string list" where
  "TERMINAL_TASK_EVENTS = [''completed'', ''failed'', ''cancelled'', ''returned_blocked'',
     ''superseded'', ''reassigned'', ''expired'']"

text \<open>Truth of an optional text.\<close>

definition given :: "string option \<Rightarrow> bool" where
  "given x \<longleftrightarrow> x \<noteq> None \<and> x \<noteq> Some []"

definition legacy_display_id :: "string option \<Rightarrow> string option" where
  "legacy_display_id source_ref =
     (case source_ref of None \<Rightarrow> None
      | Some r \<Rightarrow>
          if starts_with r ''dispatch-log:'' then
            (let value = drop 13 r in if value \<noteq> [] \<and> \<not> starts_with value ''sha:'' then Some value else None)
          else None)"

definition newest_deadline_fact :: "task_event list \<Rightarrow> task_event option" where
  "newest_deadline_fact history =
     (case filter (\<lambda>e. te_event e = ''deadline_changed'') history of [] \<Rightarrow> None
      | e # es \<Rightarrow> Some (foldl (\<lambda>m e. if f_seq m < f_seq e then e else m) e es))"

definition as_current :: "assignment \<Rightarrow> bool" where
  "as_current a \<longleftrightarrow> as_terminal a = None"

definition deadline_set_at :: "assignment \<Rightarrow> string option" where
  "deadline_set_at a = map_option f_occurred (newest_deadline_fact (as_history a))"

definition tk_blockers :: "task \<Rightarrow> issue list" where
  "tk_blockers t = filter is_blocking (tk_issues t)"

definition tk_open :: "task \<Rightarrow> bool" where
  "tk_open t = (case tk_state t of None \<Rightarrow> False | Some s \<Rightarrow> s \<in> set OPEN_STATES)"

text \<open>\<open>require_resolved\<close>: the task, or its blockers as the error.\<close>

definition require_resolved :: "task \<Rightarrow> issue list + task" where
  "require_resolved t = (if tk_blockers t \<noteq> [] then Inl (tk_blockers t) else Inr t)"

section \<open>What closes\<close>

definition known_task_producer :: "string \<Rightarrow> bool" where
  "known_task_producer emitter \<longleftrightarrow> \<not> starts_with emitter ''claudlobby.tasks.'' \<or> emitter = TASK_EMITTER"

definition event_scope_codes :: "task_event \<Rightarrow> string \<Rightarrow> string list" where
  "event_scope_codes e fleet =
     (if f_fleet e \<noteq> Some fleet
      then [if given (f_fleet e) then ''cross_fleet_task_event'' else ''unscoped_task_event''] else [])
     @ (if te_assignment e = None \<and> (activity (te_event e) \<noteq> None
           \<or> f_emitter e = TASK_EMITTER \<and> te_event e \<in> set RELEASE - {''cancelled''})
        then [''unlinked_assignment_event''] else [])"

definition assignment_terminal :: "task_event \<Rightarrow> bool" where
  "assignment_terminal e \<longleftrightarrow> known_task_producer (f_emitter e) \<and>
     te_event e \<in> (if f_emitter e = TASK_EMITTER then set RELEASE \<union> {''completed'', ''failed''}
                   else set TERMINAL_TASK_EVENTS)"

definition work_terminal :: "task_event \<Rightarrow> string set \<Rightarrow> bool" where
  "work_terminal e canonical \<longleftrightarrow>
     (if \<not> known_task_producer (f_emitter e) then False
      else if f_emitter e \<noteq> TASK_EMITTER \<and> te_task e \<notin> canonical then te_event e \<in> set TERMINAL_TASK_EVENTS
      else te_event e \<in> {''completed'', ''failed''} \<or> te_event e = ''cancelled'' \<and> te_assignment e = None)"

text \<open>\<open>d.setdefault(k, v)\<close>.\<close>

definition setdefault :: "'k \<Rightarrow> 'v \<Rightarrow> ('k \<rightharpoonup> 'v) \<Rightarrow> ('k \<rightharpoonup> 'v)" where
  "setdefault k v d = (case d k of None \<Rightarrow> d(k \<mapsto> v) | Some _ \<Rightarrow> d)"

type_synonym closures = "(string \<rightharpoonup> task_event) \<times> (string \<rightharpoonup> task_event)"

definition close_step :: "string set \<Rightarrow> task_event \<Rightarrow> closures \<Rightarrow> closures" where
  "close_step canonical e c =
     (if work_terminal e canonical then setdefault (te_task e) e (fst c) else fst c,
      if given (te_assignment e) \<and> assignment_terminal e then setdefault (the (te_assignment e)) e (snd c)
      else snd c)"

definition canonical_tasks :: "work_row list \<Rightarrow> string set" where
  "canonical_tasks work_rows = set (map wr_id (filter (\<lambda>r. f_emitter r = TASK_EMITTER) work_rows))"

text \<open>A task's cancellation by its owner closes the assignments made before it.\<close>

definition cancel_step :: "(string \<rightharpoonup> task_event) \<Rightarrow> assign_row \<Rightarrow> (string \<rightharpoonup> task_event) \<Rightarrow> (string \<rightharpoonup> task_event)" where
  "cancel_step tasks row assignments =
     (case tasks (ar_task row) of None \<Rightarrow> assignments
      | Some terminal \<Rightarrow>
          if f_emitter terminal = TASK_EMITTER \<and> te_event terminal = ''cancelled''
             \<and> te_assignment terminal = None \<and> f_seq row < f_seq terminal
             \<and> (case assignments (ar_id row) of None \<Rightarrow> True | Some prior \<Rightarrow> f_seq terminal < f_seq prior)
          then assignments(ar_id row \<mapsto> terminal) else assignments)"

definition task_closures :: "task_event list \<Rightarrow> assign_row list \<Rightarrow> work_row list \<Rightarrow> closures" where
  "task_closures events assignment_rows work_rows =
     (let (tasks, assignments) =
        fold (close_step (canonical_tasks work_rows)) (sort_key f_seq events) (\<lambda>_. None, \<lambda>_. None)
      in (tasks, fold (cancel_step tasks) assignment_rows assignments))"

section \<open>The reduction\<close>

text \<open>What \<open>_reduce\<close> computes before its loop over the tasks, and its arguments.\<close>

record reduction =
  rd_fleet :: string
  rd_known :: "string \<rightharpoonup> assign_row"
  rd_events :: "task_event list"
  rd_assigned :: "assign_row list"
  rd_closed :: closures

text \<open>\<open>by_task[tid]\<close>, \<open>by_assignment[aid]\<close>, \<open>assigned[tid]\<close>.\<close>

definition by_task :: "reduction \<Rightarrow> string \<Rightarrow> task_event list" where
  "by_task rd tid = filter (\<lambda>e. te_task e = tid) (rd_events rd)"

definition by_assignment :: "reduction \<Rightarrow> string \<Rightarrow> task_event list" where
  "by_assignment rd aid = filter (\<lambda>e. given (te_assignment e) \<and> te_assignment e = Some aid) (rd_events rd)"

definition assigned :: "reduction \<Rightarrow> string \<Rightarrow> assign_row list" where
  "assigned rd tid = filter (\<lambda>r. ar_task r = tid) (rd_assigned rd)"

definition target_of :: "reduction \<Rightarrow> task_event \<Rightarrow> assign_row option" where
  "target_of rd e = Option.bind (te_assignment e) (rd_known rd)"

definition unresolved_link_is_active :: "reduction \<Rightarrow> task_event \<Rightarrow> bool" where
  "unresolved_link_is_active rd e =
     ((if given (te_assignment e) then snd (rd_closed rd) (the (te_assignment e)) = None
       else fst (rd_closed rd) (te_task e) = None)
      \<or> (case target_of rd e of None \<Rightarrow> False
         | Some target \<Rightarrow> ar_task target \<noteq> te_task e \<and> fst (rd_closed rd) (ar_task target) = None))"

definition an_issue :: "string \<Rightarrow> string \<Rightarrow> string option \<Rightarrow> string option \<Rightarrow> bool \<Rightarrow> issue" where
  "an_issue why tid aid eid blocking =
     \<lparr>is_code = why, is_task = tid, is_assignment = aid, is_event = eid, is_blocking = blocking\<rparr>"

text \<open>The issues the code finds on one assignment, and the assignment it makes.\<close>

definition assignment_issues :: "reduction \<Rightarrow> string \<Rightarrow> assign_row \<Rightarrow> issue list" where
  "assignment_issues rd tid r =
     (let aid = ar_id r in
      (if f_fleet r \<noteq> Some (rd_fleet rd)
       then [an_issue (if given (f_fleet r) then ''cross_fleet_assignment'' else ''unscoped_assignment'') tid (Some aid)
               None (snd (rd_closed rd) aid = None)] else [])
      @ (if \<not> known_task_producer (f_emitter r)
         then [an_issue ''unknown_task_producer'' tid (Some aid) (Some (f_event_id r)) True] else [])
      @ [an_issue ''mismatched_task_event'' tid (Some aid) (Some (f_event_id e)) (unresolved_link_is_active rd e).
           e \<leftarrow> by_assignment rd aid, te_task e \<noteq> tid])"

definition assignment_state :: "task_event list \<Rightarrow> string" where
  "assignment_state ahistory =
     fold (\<lambda>e state. if known_task_producer (f_emitter e)
                     then (case activity (te_event e) of Some s \<Rightarrow> s | None \<Rightarrow> state) else state)
       ahistory ''assigned''"

definition the_assignment :: "reduction \<Rightarrow> assign_row \<Rightarrow> assignment" where
  "the_assignment rd r =
     (let ahistory = by_assignment rd (ar_id r); closing = snd (rd_closed rd) (ar_id r) in
      \<lparr>as_row = r,
       as_expected = (case newest_deadline_fact ahistory of Some moved \<Rightarrow> te_deadline moved | None \<Rightarrow> ar_expected r),
       as_state = (if closing \<noteq> None then ''closed'' else assignment_state ahistory),
       as_terminal = closing, as_history = ahistory\<rparr>)"

text \<open>\<open>{e.event_id: e for e in xs}.values()\<close>.\<close>

definition by_event_id :: "task_event list \<Rightarrow> task_event list" where
  "by_event_id xs = map snd (fold (\<lambda>e d. alist_set (f_event_id e) e d) xs [])"

definition event_issues :: "reduction \<Rightarrow> string \<Rightarrow> bool \<Rightarrow> task_event \<Rightarrow> issue list" where
  "event_issues rd tid blocks e =
     (let aid = te_assignment e; eid = Some (f_event_id e) in
      (if \<not> known_task_producer (f_emitter e) then [an_issue ''unknown_task_producer'' tid aid eid True] else [])
      @ map (\<lambda>why. an_issue why tid aid eid blocks) (event_scope_codes e (rd_fleet rd))
      @ (case target_of rd e of
           None \<Rightarrow> if given aid then [an_issue ''dangling_task_event'' tid aid eid (unresolved_link_is_active rd e)] else []
         | Some target \<Rightarrow>
             if ar_task target \<noteq> te_task e
             then [an_issue ''mismatched_task_event'' tid aid eid (unresolved_link_is_active rd e)] else []))"

text \<open>\<open>tuple(dict.fromkeys(xs))\<close>.\<close>

definition unique :: "'a list \<Rightarrow> 'a list" where
  "unique xs = rev (remdups (rev xs))"

definition task_issues :: "reduction \<Rightarrow> work_row \<Rightarrow> issue list" where
  "task_issues rd row =
     (let tid = wr_id row; terminal = fst (rd_closed rd) tid; rows = assigned rd tid;
          assignments = map (the_assignment rd) rows;
          current = filter as_current assignments in
      (if \<not> known_task_producer (f_emitter row)
       then [an_issue ''unknown_task_producer'' tid None (Some (f_event_id row)) True] else [])
      @ concat (map (assignment_issues rd tid) rows)
      @ concat (map (event_issues rd tid (terminal = None))
          (by_event_id (by_task rd tid @ concat (map as_history assignments))))
      @ (if 1 < length current then [an_issue ''multiple_current_assignments'' tid None None True] else [])
      @ (if terminal \<noteq> None
         then map (\<lambda>a. an_issue ''current_assignment_on_terminal_task'' tid (Some (ar_id (as_row a))) None True) current
         else []))"

definition work_state :: "task_event option \<Rightarrow> assignment list \<Rightarrow> string" where
  "work_state terminal current =
     (case terminal of
        Some e \<Rightarrow> if te_event e \<in> {''completed'', ''failed''} then te_event e else ''cancelled''
      | None \<Rightarrow> if length current = 1 then as_state (hd current) else ''queued'')"

definition display_ids :: "work_row \<Rightarrow> assign_row list \<Rightarrow> string list" where
  "display_ids row rows =
     sort (remdups [d. Some d \<leftarrow> legacy_display_id (f_source_ref row) # map (\<lambda>r. legacy_display_id (f_source_ref r)) rows])"

definition the_task :: "reduction \<Rightarrow> work_row \<Rightarrow> task" where
  "the_task rd row =
     (let tid = wr_id row; terminal = fst (rd_closed rd) tid; rows = assigned rd tid;
          assignments = map (the_assignment rd) rows;
          current = filter as_current assignments;
          issues = task_issues rd row; blocked = (\<exists>i \<in> set issues. is_blocking i) in
      \<lparr>tk_row = row,
       tk_state = (if terminal = None \<and> blocked then None else Some (work_state terminal current)),
       tk_current = (if length current = 1 \<and> terminal = None \<and> \<not> blocked then Some (hd current) else None),
       tk_assignments = assignments, tk_history = by_task rd tid, tk_terminal = terminal,
       tk_display = display_ids row rows, tk_issues = unique issues\<rparr>)"

text \<open>The second pass: a closed sibling, and a display id of two open tasks.\<close>

definition closed_groups :: "task list \<Rightarrow> (string \<times> string option) list" where
  "closed_groups tasks =
     [(ar_assignee (as_row a), f_source_ref (as_row a)).
        t \<leftarrow> tasks, a \<leftarrow> tk_assignments t,
        (case as_terminal a of None \<Rightarrow> False | Some e \<Rightarrow> f_emitter e \<noteq> TASK_EMITTER)
        \<and> legacy_display_id (f_source_ref (as_row a)) \<noteq> None]"

definition displays :: "task list \<Rightarrow> string \<Rightarrow> string list" where
  "displays tasks d =
     remdups [wr_id (tk_row t). t \<leftarrow> tasks, tk_terminal t = None \<and> d \<in> set (tk_display t)]"

definition extra_issues :: "task list \<Rightarrow> task \<Rightarrow> issue list" where
  "extra_issues tasks t =
     [an_issue ''legacy_display_closure_disagreement'' (wr_id (tk_row t)) (Some (ar_id (as_row a))) None True.
        a \<leftarrow> tk_assignments t,
        as_current a \<and> (ar_assignee (as_row a), f_source_ref (as_row a)) \<in> set (closed_groups tasks)]
     @ (if tk_terminal t = None \<and> (\<exists>d \<in> set (tk_display t). 1 < length (displays tasks d))
        then [an_issue ''ambiguous_active_display_id'' (wr_id (tk_row t)) None None True] else [])"

definition resolve :: "task list \<Rightarrow> task \<Rightarrow> task" where
  "resolve tasks t =
     (let extra = extra_issues tasks t in
      if extra = [] then t
      else t\<lparr>tk_issues := tk_issues t @ extra, tk_current := None,
             tk_state := (if tk_terminal t \<noteq> None then tk_state t else None)\<rparr>)"

definition reduction_of ::
    "string \<Rightarrow> work_row list \<Rightarrow> assign_row list \<Rightarrow> (string \<rightharpoonup> assign_row) \<Rightarrow> task_event list \<Rightarrow> reduction" where
  "reduction_of fleet rows assignment_rows known events =
     \<lparr>rd_fleet = fleet, rd_known = known, rd_events = events,
      rd_assigned = sort_key f_seq assignment_rows,
      rd_closed = task_closures events assignment_rows rows\<rparr>"

definition orphan_issues :: "assign_row list \<Rightarrow> task_event list \<Rightarrow> task_event list \<Rightarrow> issue list" where
  "orphan_issues orphan_assignments orphan_events orphan_history =
     (let (closed_work, closed_assignments) = task_closures (orphan_history @ orphan_events) orphan_assignments [] in
      map (\<lambda>r. an_issue ''dangling_assignment'' (ar_task r) (Some (ar_id r)) None (closed_assignments (ar_id r) = None))
        orphan_assignments
      @ map (\<lambda>e. an_issue ''dangling_task_event'' (te_task e) (te_assignment e) (Some (f_event_id e))
               (if given (te_assignment e) then closed_assignments (the (te_assignment e)) = None
                else closed_work (te_task e) = None)) orphan_events)"

definition reduce ::
    "int \<Rightarrow> string \<Rightarrow> work_row list \<Rightarrow> assign_row list \<Rightarrow> (string \<rightharpoonup> assign_row) \<Rightarrow> task_event list
       \<Rightarrow> assign_row list \<Rightarrow> task_event list \<Rightarrow> task_event list \<Rightarrow> snapshot" where
  "reduce version fleet rows assignment_rows known events orphan_assignments orphan_events orphan_history =
     (let rd = reduction_of fleet rows assignment_rows known events;
          tasks = map (the_task rd) rows;
          resolved = map (resolve tasks) tasks in
      \<lparr>sn_version = version, sn_fleet = fleet, sn_tasks = resolved,
       sn_issues = concat (map tk_issues resolved)
         @ orphan_issues orphan_assignments orphan_events orphan_history\<rparr>)"

section \<open>Reading\<close>

record tables =
  tb_version :: int
  tb_work :: "work_row list"
  tb_assignments :: "assign_row list"
  tb_events :: "task_event list"

datatype read_error = Value_Error string | Unsupported_Schema int

definition SQL_SCHEMA_VERSION :: int where
  "SQL_SCHEMA_VERSION = 14"

text \<open>\<open>_related\<close> on each table and column it is called with.\<close>

definition work_by_id :: "tables \<Rightarrow> string set \<Rightarrow> work_row list" where
  "work_by_id tb ids = filter (\<lambda>r. wr_id r \<in> ids) (tb_work tb)"

definition assignments_by_task :: "tables \<Rightarrow> string set \<Rightarrow> assign_row list" where
  "assignments_by_task tb ids = filter (\<lambda>r. ar_task r \<in> ids) (tb_assignments tb)"

definition assignments_by_id :: "tables \<Rightarrow> string set \<Rightarrow> assign_row list" where
  "assignments_by_id tb ids = filter (\<lambda>r. ar_id r \<in> ids) (tb_assignments tb)"

definition events_by_task :: "tables \<Rightarrow> string set \<Rightarrow> task_event list" where
  "events_by_task tb ids = filter (\<lambda>e. te_task e \<in> ids) (tb_events tb)"

definition events_by_assignment :: "tables \<Rightarrow> string set \<Rightarrow> task_event list" where
  "events_by_assignment tb ids = filter (\<lambda>e. \<exists>a \<in> ids. te_assignment e = Some a) (tb_events tb)"

definition legacy_companion_ids :: "tables \<Rightarrow> string set \<Rightarrow> string set" where
  "legacy_companion_ids tb refs =
     set (map wr_id (filter (\<lambda>r. \<exists>x \<in> refs. f_source_ref r = Some x) (tb_work tb)))
     \<union> set (map ar_task (filter (\<lambda>r. \<exists>x \<in> refs. f_source_ref r = Some x) (tb_assignments tb)))"

definition ids_of :: "work_row list \<Rightarrow> string set" where
  "ids_of rows = set (map wr_id rows)"

definition in_fleet :: "string \<Rightarrow> work_row list \<Rightarrow> work_row list" where
  "in_fleet fleet rows = filter (\<lambda>r. f_fleet r = Some fleet) rows"

text \<open>\<open>sorted({r["event_id"]: r for r in events}.values(), key=ingest_seq)\<close>.\<close>

definition in_order :: "task_event list \<Rightarrow> task_event list" where
  "in_order events = sort_key f_seq (by_event_id events)"

text \<open>The tasks of a selection, their legacy siblings included.\<close>

definition selected_rows :: "tables \<Rightarrow> string \<Rightarrow> string list \<Rightarrow> work_row list" where
  "selected_rows tb fleet selected =
     (let rows = sort_key f_seq (in_fleet fleet (work_by_id tb (set selected)));
          refs = set [r. Some r \<leftarrow> map f_source_ref rows @ map f_source_ref (assignments_by_task tb (ids_of rows)),
                         legacy_display_id (Some r) \<noteq> None];
          siblings = in_fleet fleet (work_by_id tb (legacy_companion_ids tb refs - ids_of rows))
      in if rows \<noteq> [] \<and> siblings \<noteq> [] then sort_key f_seq (rows @ siblings) else rows)"

text \<open>\<open>known_assignments\<close>: the tasks' own, and those their events name.\<close>

definition known_map :: "tables \<Rightarrow> assign_row list \<Rightarrow> task_event list \<Rightarrow> assign_row list" where
  "known_map tb assignments events =
     assignments
     @ assignments_by_id tb (set [a. Some a \<leftarrow> map te_assignment events, a \<noteq> []] - set (map ar_id assignments))"

definition read_selected :: "tables \<Rightarrow> string \<Rightarrow> string list \<Rightarrow> snapshot" where
  "read_selected tb fleet selected =
     (let requested = ids_of (in_fleet fleet (work_by_id tb (set selected)));
          rows = selected_rows tb fleet selected;
          own = assignments_by_task tb (ids_of rows);
          events = in_order (events_by_task tb (ids_of rows) @ events_by_assignment tb (set (map ar_id own)));
          known = known_map tb own events;
          targets = ids_of (in_fleet fleet (work_by_id tb (set (map ar_task known) - ids_of rows)));
          assignments = own @ filter (\<lambda>r. ar_task r \<in> targets) known;
          events' = in_order (events @ events_by_task tb targets);
          result = reduce (tb_version tb) fleet rows assignments (map_of (map (\<lambda>r. (ar_id r, r)) known)) events' [] [] []
      in result\<lparr>sn_tasks := filter (\<lambda>t. wr_id (tk_row t) \<in> requested) (sn_tasks result),
                sn_issues := filter (\<lambda>i. is_task i \<in> requested) (sn_issues result)\<rparr>)"

definition read_fleet :: "tables \<Rightarrow> string \<Rightarrow> snapshot" where
  "read_fleet tb fleet =
     (let rows = sort_key f_seq (in_fleet fleet (tb_work tb));
          own = assignments_by_task tb (ids_of rows);
          events = in_order (events_by_task tb (ids_of rows) @ events_by_assignment tb (set (map ar_id own)));
          known = known_map tb own events;
          orphan_assignments = filter (\<lambda>r. f_fleet r = Some fleet \<and> ar_task r \<notin> ids_of (tb_work tb)) (tb_assignments tb);
          orphan_events = filter (\<lambda>e. f_fleet e = Some fleet \<and> te_task e \<notin> ids_of (tb_work tb)) (tb_events tb);
          orphan_history = events_by_assignment tb (set (map ar_id orphan_assignments))
      in reduce (tb_version tb) fleet rows own (map_of (map (\<lambda>r. (ar_id r, r)) known)) events
           orphan_assignments orphan_events orphan_history)"

definition read_tasks :: "tables \<Rightarrow> string \<Rightarrow> string list option \<Rightarrow> read_error + snapshot" where
  "read_tasks tb fleet task_ids =
     (if fleet = [] then Inl (Value_Error ''fleet_uid is required'')
      else if (case task_ids of None \<Rightarrow> False | Some ids \<Rightarrow> [] \<in> set ids)
      then Inl (Value_Error ''task_ids must contain nonempty task IDs'')
      else if \<not> (1 \<le> tb_version tb \<and> tb_version tb \<le> SQL_SCHEMA_VERSION)
      then Inl (Unsupported_Schema (tb_version tb))
      else Inr (case task_ids of None \<Rightarrow> read_fleet tb fleet | Some ids \<Rightarrow> read_selected tb fleet ids))"

section \<open>Closure\<close>

lemma setdefault_apply:
  "setdefault k v d x = (case d x of Some w \<Rightarrow> Some w | None \<Rightarrow> if x = k then Some v else None)"
  by (auto simp: setdefault_def split: option.split)

lemma fold_close_tasks:
  "fst (fold (close_step can) es c) t =
     (case fst c t of Some e \<Rightarrow> Some e | None \<Rightarrow> List.find (\<lambda>e. te_task e = t \<and> work_terminal e can) es)"
  by (induction es arbitrary: c) (auto simp: close_step_def setdefault_apply split: option.splits)

lemma fold_close_assignments:
  "snd (fold (close_step can) es c) a =
     (case snd c a of Some e \<Rightarrow> Some e
      | None \<Rightarrow> List.find (\<lambda>e. given (te_assignment e) \<and> te_assignment e = Some a \<and> assignment_terminal e) es)"
  by (induction es arbitrary: c) (auto simp: close_step_def setdefault_apply given_def split: option.splits)

text \<open>The first terminal fact of a task and of an assignment, in ingest order.\<close>

definition first_closing :: "string set \<Rightarrow> task_event list \<Rightarrow> string \<Rightarrow> task_event option" where
  "first_closing can events t = List.find (\<lambda>e. te_task e = t \<and> work_terminal e can) (sort_key f_seq events)"

definition first_release :: "task_event list \<Rightarrow> string \<Rightarrow> task_event option" where
  "first_release events a =
     List.find (\<lambda>e. given (te_assignment e) \<and> te_assignment e = Some a \<and> assignment_terminal e) (sort_key f_seq events)"

lemma task_closures_eq:
  "task_closures events rows work =
     (first_closing (canonical_tasks work) events,
      fold (cancel_step (first_closing (canonical_tasks work) events)) rows (first_release events))"
proof -
  let ?c = "fold (close_step (canonical_tasks work)) (sort_key f_seq events) (\<lambda>_. None, \<lambda>_. None)"
  have "?c = (first_closing (canonical_tasks work) events, first_release events)"
    by (rule prod_eqI; rule ext)
       (simp_all add: fold_close_tasks fold_close_assignments first_closing_def first_release_def)
  then show ?thesis by (simp add: task_closures_def)
qed

lemma find_SomeD: "List.find P xs = Some x \<Longrightarrow> x \<in> set xs \<and> P x"
  by (induction xs) (auto split: if_splits)

lemma first_closing_Some:
  "first_closing can events t = Some e \<Longrightarrow> e \<in> set events \<and> te_task e = t \<and> work_terminal e can"
  by (auto simp: first_closing_def dest!: find_SomeD)

lemma first_release_Some:
  "first_release events a = Some e \<Longrightarrow> e \<in> set events \<and> te_assignment e = Some a \<and> assignment_terminal e"
  by (auto simp: first_release_def dest!: find_SomeD)

subsection \<open>Later facts\<close>

lemma sort_key_later:
  assumes "\<And>x y. x \<in> set xs \<Longrightarrow> y \<in> set ys \<Longrightarrow> f x < f y"
  shows "sort_key f (xs @ ys) = sort_key f xs @ sort_key f ys"
proof (rule properties_for_sort_key)
  fix k assume "k \<in> set (sort_key f xs @ sort_key f ys)"
  show "filter (\<lambda>x. f k = f x) (sort_key f xs @ sort_key f ys) = filter (\<lambda>x. f k = f x) (xs @ ys)"
    using sort_key_stable [of f "f k"] by (simp add: eq_commute [of "f k"])
qed (auto simp: sorted_append less_imp_le assms)

lemma find_append:
  "List.find P (xs @ ys) = (case List.find P xs of Some x \<Rightarrow> Some x | None \<Rightarrow> List.find P ys)"
  by (induction xs) auto

definition later :: "task_event list \<Rightarrow> task_event list \<Rightarrow> bool" where
  "later new old \<longleftrightarrow> (\<forall>x \<in> set old. \<forall>y \<in> set new. f_seq x < f_seq y)"

lemma sort_later: "later new old \<Longrightarrow> sort_key f_seq (old @ new) = sort_key f_seq old @ sort_key f_seq new"
  by (rule sort_key_later) (auto simp: later_def)

lemma first_closing_later:
  "later new old \<Longrightarrow> first_closing can (old @ new) t =
     (case first_closing can old t of Some e \<Rightarrow> Some e | None \<Rightarrow> first_closing can new t)"
  by (simp add: first_closing_def sort_later find_append split: option.split)

lemma first_release_later:
  "later new old \<Longrightarrow> first_release (old @ new) a =
     (case first_release old a of Some e \<Rightarrow> Some e | None \<Rightarrow> first_release new a)"
  by (simp add: first_release_def sort_later find_append split: option.split)

text \<open>
  \<open>m'\<close> knows what \<open>m\<close> knows, and what it knows besides is later than all \<open>m\<close> knows;
  \<open>old\<close> and \<open>new\<close> hold the facts of each kind.
\<close>

definition agrees :: "task_event set \<Rightarrow> task_event set \<Rightarrow> task_event option \<Rightarrow> task_event option \<Rightarrow> bool" where
  "agrees old new x y \<longleftrightarrow> (case x of Some e \<Rightarrow> y = Some e \<and> e \<in> old
     | None \<Rightarrow> (case y of None \<Rightarrow> True | Some e \<Rightarrow> e \<in> new))"

definition extends :: "task_event set \<Rightarrow> task_event set \<Rightarrow> (string \<rightharpoonup> task_event) \<Rightarrow> (string \<rightharpoonup> task_event) \<Rightarrow> bool" where
  "extends old new m m' \<longleftrightarrow> (\<forall>a. agrees old new (m a) (m' a))"

lemma cancel_step_extends:
  assumes l: "\<And>x y. x \<in> old \<Longrightarrow> y \<in> new \<Longrightarrow> f_seq x < f_seq y"
    and t: "extends old new t t'" and m: "extends old new m m'"
  shows "extends old new (cancel_step t row m) (cancel_step t' row m')"
proof -
  have "agrees old new (t (ar_task row)) (t' (ar_task row))" "agrees old new (m (ar_id row)) (m' (ar_id row))"
    using t m unfolding extends_def by blast+
  then have at: "agrees old new (cancel_step t row m (ar_id row)) (cancel_step t' row m' (ar_id row))"
    using l by (fastforce simp: cancel_step_def agrees_def split: option.splits)
  have other: "cancel_step t row m a = m a" "cancel_step t' row m' a = m' a" if "a \<noteq> ar_id row" for a
    using that by (auto simp: cancel_step_def split: option.split)
  show ?thesis unfolding extends_def
  proof
    fix a show "agrees old new (cancel_step t row m a) (cancel_step t' row m' a)"
      using at other m unfolding extends_def by (cases "a = ar_id row") simp_all
  qed
qed

lemma fold_cancel_extends:
  assumes l: "\<And>x y. x \<in> old \<Longrightarrow> y \<in> new \<Longrightarrow> f_seq x < f_seq y"
    and t: "extends old new t t'"
  shows "extends old new m m' \<Longrightarrow> extends old new (fold (cancel_step t) rows m) (fold (cancel_step t') rows m')"
  by (induction rows arbitrary: m m') (auto intro: cancel_step_extends [OF l t])

lemma closures_later:
  assumes "later new old"
  shows "extends (set old) (set new) (fst (task_closures old rows work)) (fst (task_closures (old @ new) rows work))"
    and "extends (set old) (set new) (snd (task_closures old rows work)) (snd (task_closures (old @ new) rows work))"
proof -
  let ?can = "canonical_tasks work"
  have t: "extends (set old) (set new) (first_closing ?can old) (first_closing ?can (old @ new))"
    using first_closing_Some by (fastforce simp: extends_def agrees_def first_closing_later [OF assms] split: option.splits)
  have a: "extends (set old) (set new) (first_release old) (first_release (old @ new))"
    using first_release_Some by (fastforce simp: extends_def agrees_def first_release_later [OF assms] split: option.splits)
  show "extends (set old) (set new) (fst (task_closures old rows work)) (fst (task_closures (old @ new) rows work))"
    using t by (simp add: task_closures_eq)
  show "extends (set old) (set new) (snd (task_closures old rows work)) (snd (task_closures (old @ new) rows work))"
    unfolding task_closures_eq snd_conv
    by (rule fold_cancel_extends [OF _ t a]) (use assms in \<open>auto simp: later_def\<close>)
qed

text \<open>The order the events come in does not matter, their ingest order does.\<close>

lemma task_closures_order:
  assumes "mset events = mset events'" "inj_on f_seq (set events)"
  shows "task_closures events rows work = task_closures events' rows work"
proof -
  have "sort_key f_seq events = sort_key f_seq events'"
    by (rule sort_key_inj_key_eq) (use assms in auto)
  then show ?thesis by (simp add: task_closures_def)
qed

section \<open>Tasks\<close>

lemma assignment_state_in: "assignment_state h \<in> {''assigned'', ''active'', ''blocked''}"
proof -
  have "fold (\<lambda>e state. if known_task_producer (f_emitter e)
                     then (case activity (te_event e) of Some s \<Rightarrow> s | None \<Rightarrow> state) else state) h s
     \<in> {''assigned'', ''active'', ''blocked''}" if "s \<in> {''assigned'', ''active'', ''blocked''}" for s
    using that by (induction h arbitrary: s) (auto simp: activity_def split: if_splits)
  then show ?thesis by (simp add: assignment_state_def)
qed

lemma set_unique [simp]: "set (unique xs) = set xs"
  by (simp add: unique_def)

text \<open>What holds of every task of a snapshot.\<close>

definition task_ok :: "task \<Rightarrow> bool" where
  "task_ok t \<longleftrightarrow>
     (\<forall>a. tk_current t = Some a \<longrightarrow> tk_terminal t = None \<and> filter as_current (tk_assignments t) = [a]
        \<and> tk_blockers t = [] \<and> tk_state t = Some (as_state a))
     \<and> (tk_state t = None \<longrightarrow> tk_terminal t = None \<and> tk_blockers t \<noteq> [])
     \<and> (tk_terminal t = None \<and> tk_blockers t \<noteq> [] \<longrightarrow> tk_state t = None)
     \<and> (case tk_state t of None \<Rightarrow> True
        | Some s \<Rightarrow> if tk_terminal t = None then s \<in> set OPEN_STATES else s \<in> {''completed'', ''failed'', ''cancelled''})"

lemma the_task_sel:
  "tk_terminal (the_task rd row) = fst (rd_closed rd) (wr_id row)"
  "tk_assignments (the_task rd row) = map (the_assignment rd) (assigned rd (wr_id row))"
  "tk_row (the_task rd row) = row"
  by (simp_all add: the_task_def Let_def)

lemma the_task_blockers: "tk_blockers (the_task rd row) \<noteq> [] \<longleftrightarrow> (\<exists>i \<in> set (task_issues rd row). is_blocking i)"
  by (simp add: the_task_def tk_blockers_def Let_def filter_empty_conv)

lemma multiple_blocks:
  "1 < length (filter as_current (map (the_assignment rd) (assigned rd (wr_id row))))
     \<Longrightarrow> \<exists>i \<in> set (task_issues rd row). is_blocking i"
  by (auto simp: task_issues_def Let_def an_issue_def)

lemma the_task_ok: "task_ok (the_task rd row)"
proof -
  let ?as = "map (the_assignment rd) (assigned rd (wr_id row))"
  let ?cur = "filter as_current ?as"
  let ?b = "\<exists>i \<in> set (task_issues rd row). is_blocking i"
  let ?T = "fst (rd_closed rd) (wr_id row)"
  have st: "as_state a \<in> {''assigned'', ''active'', ''blocked''}" if c: "a \<in> set ?cur" for a
  proof -
    obtain r where "a = the_assignment rd r" "as_terminal a = None" using c by (auto simp: as_current_def)
    then have "as_state a = assignment_state (by_assignment rd (ar_id r))"
      by (simp add: the_assignment_def Let_def)
    then show ?thesis using assignment_state_in by simp
  qed
  have cur: "tk_current (the_task rd row) = (if length ?cur = 1 \<and> ?T = None \<and> \<not> ?b then Some (hd ?cur) else None)"
    and state: "tk_state (the_task rd row) = (if ?T = None \<and> ?b then None else Some (work_state ?T ?cur))"
    by (simp_all add: the_task_def Let_def)
  have one: "length ?cur = 1 \<Longrightarrow> ?cur = [hd ?cur]" by (cases ?cur) auto
  have open_state: "work_state None ?cur \<in> set OPEN_STATES"
  proof (cases "length ?cur = 1")
    case True
    then have "hd ?cur \<in> set ?cur" by (metis length_0_conv list.set_sel(1) zero_neq_one)
    from st [OF this] True show ?thesis unfolding work_state_def OPEN_STATES_def by auto
  qed (simp add: work_state_def OPEN_STATES_def)
  have closed_state: "work_state (Some e) ?cur \<in> {''completed'', ''failed'', ''cancelled''}" for e
    by (simp add: work_state_def)
  show ?thesis
    unfolding task_ok_def the_task_blockers cur state the_task_sel
    using one open_state closed_state the_task_blockers [of rd row] by (cases ?T) (auto simp: work_state_def)
qed

lemma resolve_sel:
  "tk_terminal (resolve ts t) = tk_terminal t" "tk_assignments (resolve ts t) = tk_assignments t"
  "tk_row (resolve ts t) = tk_row t"
  by (simp_all add: resolve_def Let_def)

lemma extra_blocks: "i \<in> set (extra_issues ts t) \<Longrightarrow> is_blocking i"
  by (auto simp: extra_issues_def an_issue_def split: if_splits)

lemma resolve_ok:
  assumes "task_ok t"
  shows "task_ok (resolve ts t)"
proof (cases "extra_issues ts t = []")
  case True
  with assms show ?thesis by (simp add: resolve_def Let_def)
next
  case False
  then obtain i where "i \<in> set (extra_issues ts t)" by (metis list.set_intros(1) neq_Nil_conv)
  with extra_blocks have "tk_blockers (resolve ts t) \<noteq> []"
    using False by (auto simp: resolve_def tk_blockers_def filter_empty_conv)
  moreover have "tk_current (resolve ts t) = None"
    "tk_state (resolve ts t) = (if tk_terminal t \<noteq> None then tk_state t else None)"
    using False by (simp_all add: resolve_def Let_def)
  ultimately show ?thesis using assms unfolding task_ok_def resolve_sel
    by (cases "tk_terminal t"; cases "tk_state t") auto
qed

lemma reduce_tasks:
  "t \<in> set (sn_tasks (reduce v fleet rows as known es oa oe oh)) \<Longrightarrow>
     task_ok t \<and> tk_row t \<in> set rows
     \<and> tk_terminal t = fst (task_closures es as rows) (wr_id (tk_row t))"
  by (auto simp: reduce_def Let_def intro: resolve_ok the_task_ok)
     (simp_all add: resolve_sel the_task_sel reduction_of_def)


section \<open>Properties\<close>

text \<open>Rows for the instances below.\<close>

definition an_event :: "int \<Rightarrow> string \<Rightarrow> string \<Rightarrow> string option \<Rightarrow> string \<Rightarrow> task_event" where
  "an_event n emitter tid aid ev =
     \<lparr>f_seq = n, f_event_id = [char_of (nat n + 64)], f_schema = ''1'', f_host = ''h'', f_fleet = Some ''f'',
      f_emitter = emitter, f_origin = ''o'', f_source_ref = None, f_occurred = ''t'', f_ingested = ''t'',
      te_task = tid, te_assignment = aid, te_event = ev, te_actor = None, te_detail = None,
      te_deadline = None, te_successor = None\<rparr>"

definition a_work :: "int \<Rightarrow> string \<Rightarrow> string \<Rightarrow> string \<Rightarrow> work_row" where
  "a_work n fleet emitter tid =
     \<lparr>f_seq = n, f_event_id = ''w'' @ tid, f_schema = ''1'', f_host = ''h'', f_fleet = Some fleet,
      f_emitter = emitter, f_origin = ''o'', f_source_ref = None, f_occurred = ''t'', f_ingested = ''t'',
      wr_id = tid, wr_title = ''x'', wr_body = None, wr_repo = None, wr_project = None, wr_workstream = None,
      wr_created_by = ''m''\<rparr>"

definition an_assignment :: "int \<Rightarrow> string \<Rightarrow> string \<Rightarrow> string \<Rightarrow> string \<Rightarrow> assign_row" where
  "an_assignment n fleet emitter aid tid =
     \<lparr>f_seq = n, f_event_id = ''a'' @ aid, f_schema = ''1'', f_host = ''h'', f_fleet = Some fleet,
      f_emitter = emitter, f_origin = ''o'', f_source_ref = None, f_occurred = ''t'', f_ingested = ''t'',
      ar_id = aid, ar_task = tid, ar_assignee = ''b'', ar_assigned_by = ''m'', ar_expected = None,
      ar_dispatch = None\<rparr>"

text \<open>
  C18. Closure is permanent: once a task or an assignment is closed, facts ingested later, whatever
  they are and whoever sends them, do not reopen it or change the fact that closed it.
\<close>

theorem closure_permanent:
  assumes "later new old"
  shows "(fst (task_closures old rows work) t = Some e \<longrightarrow> fst (task_closures (old @ new) rows work) t = Some e)
    \<and> (snd (task_closures old rows work) a = Some c \<longrightarrow> snd (task_closures (old @ new) rows work) a = Some c)"
  using closures_later [OF assms, of rows work] by (auto simp: extends_def agrees_def split: option.splits)

lemma closure_permanent_witness:
  "later [an_event 5 ''x'' ''T'' None ''completed''] [an_event 2 ''x'' ''T'' None ''failed'']
   \<and> fst (task_closures ([an_event 2 ''x'' ''T'' None ''failed''] @ [an_event 5 ''x'' ''T'' None ''completed'']) [] []) ''T''
      = Some (an_event 2 ''x'' ''T'' None ''failed'')"
proof -
  have l: "later [an_event 5 ''x'' ''T'' None ''completed''] [an_event 2 ''x'' ''T'' None ''failed'']"
    by (simp add: later_def an_event_def)
  moreover have "fst (task_closures [an_event 2 ''x'' ''T'' None ''failed''] [] []) ''T''
      = Some (an_event 2 ''x'' ''T'' None ''failed'')" by code_simp
  ultimately show ?thesis
    using closure_permanent [OF l, of "[]" "[]" "''T''" "an_event 2 ''x'' ''T'' None ''failed''"] by blast
qed

text \<open>
  A task is closed by the first of its terminal facts in ingest order, and open exactly when it
  has none.
\<close>

theorem closed_by_first_terminal:
  "(case fst (task_closures events rows work) t of
      None \<Rightarrow> list_all (\<lambda>e. te_task e = t \<longrightarrow> \<not> work_terminal e (canonical_tasks work)) events
    | Some e \<Rightarrow> e \<in> set events \<and> te_task e = t \<and> work_terminal e (canonical_tasks work)
        \<and> list_all (\<lambda>e'. te_task e' = t \<and> work_terminal e' (canonical_tasks work) \<longrightarrow> f_seq e \<le> f_seq e') events)"
proof -
  let ?P = "\<lambda>e. te_task e = t \<and> work_terminal e (canonical_tasks work)"
  have first: "f_seq e \<le> f_seq e'" if "List.find P es = Some e" "sorted (map f_seq es)" "e' \<in> set es" "P e'"
    for P es and e e' :: task_event
    using that by (induction es) (auto split: if_splits)
  have "sorted (map f_seq (sort_key f_seq events))" by simp
  with first [of ?P "sort_key f_seq events"] show ?thesis
    by (auto simp: task_closures_eq first_closing_def list_all_iff find_None_iff
        dest: find_SomeD split: option.split)
qed

lemma closed_by_first_terminal_witness:
  "case fst (task_closures [an_event 5 ''x'' ''T'' None ''failed'', an_event 3 ''x'' ''T'' None ''completed''] [] []) ''T'' of
      None \<Rightarrow> False
    | Some e \<Rightarrow> te_event e = ''completed'' \<and> f_seq e \<le> 5"
  using closed_by_first_terminal [where t = "''T''" and rows = "[]" and work = "[]" and
      events = "[an_event 5 ''x'' ''T'' None ''failed'', an_event 3 ''x'' ''T'' None ''completed'']"]
  by (auto simp: an_event_def work_terminal_def canonical_tasks_def known_task_producer_def TASK_EMITTER_def
      TERMINAL_TASK_EVENTS_def starts_with_def split: option.splits)

text \<open>
  The state does not depend on the order the rows are fetched in: facts with different
  ingest numbers give the same closures in any order.
\<close>

theorem closures_order_free:
  "mset events = mset events' \<Longrightarrow> inj_on f_seq (set events)
     \<Longrightarrow> task_closures events rows work = task_closures events' rows work"
  by (rule task_closures_order)

lemma closures_order_free_witness:
  "task_closures [an_event 5 ''x'' ''T'' None ''failed'', an_event 3 ''x'' ''T'' None ''completed''] [] []
   = task_closures [an_event 3 ''x'' ''T'' None ''completed'', an_event 5 ''x'' ''T'' None ''failed''] [] []"
  by (rule closures_order_free) (auto simp: an_event_def)

text \<open>
  C30. Work that its owner admitted is closed only by its own completion or failure, or by a
  cancellation of the task itself: the expiry of an assignment, a release or a supersession,
  from any producer, leaves it open.
\<close>

theorem owned_work_survives_sweep:
  "t \<in> canonical_tasks work \<Longrightarrow> fst (task_closures events rows work) t = Some e \<Longrightarrow>
     te_event e = ''completed'' \<or> te_event e = ''failed'' \<or> te_event e = ''cancelled'' \<and> te_assignment e = None"
  using first_closing_Some [of "canonical_tasks work" events t e]
  by (auto simp: task_closures_eq work_terminal_def split: if_splits)

lemma owned_work_survives_sweep_witness:
  "te_event (an_event 7 TASK_EMITTER ''T'' None ''cancelled'') = ''completed''
   \<or> te_event (an_event 7 TASK_EMITTER ''T'' None ''cancelled'') = ''failed''
   \<or> te_event (an_event 7 TASK_EMITTER ''T'' None ''cancelled'') = ''cancelled''
      \<and> te_assignment (an_event 7 TASK_EMITTER ''T'' None ''cancelled'') = None"
proof (rule owned_work_survives_sweep)
  show "''T'' \<in> canonical_tasks [a_work 1 ''f'' TASK_EMITTER ''T'']" by code_simp
  show "fst (task_closures [an_event 4 ''sweep'' ''T'' (Some ''A'') ''expired'', an_event 7 TASK_EMITTER ''T'' None ''cancelled'']
      [] [a_work 1 ''f'' TASK_EMITTER ''T'']) ''T'' = Some (an_event 7 TASK_EMITTER ''T'' None ''cancelled'')" by code_simp
qed

text \<open>
  C29. A current assignment is safe to act on: where a reduced task shows one, the task is not
  closed, the assignment is its only open one, nothing blocks, and the task's state is the
  assignment's.
\<close>

theorem current_assignment_sound:
  "t \<in> set (sn_tasks (reduce v fleet rows as known es oa oe oh)) \<Longrightarrow> tk_current t = Some a \<Longrightarrow>
     tk_terminal t = None \<and> filter as_current (tk_assignments t) = [a] \<and> tk_blockers t = []
     \<and> tk_state t = Some (as_state a)"
  using reduce_tasks [of t v fleet rows as known es oa oe oh] by (simp add: task_ok_def)

definition sample_read :: "task" where
  "sample_read = hd (sn_tasks (reduce 14 ''f'' [a_work 1 ''f'' TASK_EMITTER ''T''] [an_assignment 2 ''f'' TASK_EMITTER ''A'' ''T'']
     (map_of [(''A'', an_assignment 2 ''f'' TASK_EMITTER ''A'' ''T'')]) [an_event 3 TASK_EMITTER ''T'' (Some ''A'') ''accepted''] [] [] []))"

lemma sample_read_in:
  "sample_read \<in> set (sn_tasks (reduce 14 ''f'' [a_work 1 ''f'' TASK_EMITTER ''T''] [an_assignment 2 ''f'' TASK_EMITTER ''A'' ''T'']
     (map_of [(''A'', an_assignment 2 ''f'' TASK_EMITTER ''A'' ''T'')]) [an_event 3 TASK_EMITTER ''T'' (Some ''A'') ''accepted''] [] [] []))"
  by (simp add: sample_read_def reduce_def Let_def)

lemma current_assignment_sound_witness:
  "tk_terminal sample_read = None \<and> filter as_current (tk_assignments sample_read) = [the (tk_current sample_read)]
   \<and> tk_blockers sample_read = [] \<and> tk_state sample_read = Some (as_state (the (tk_current sample_read)))"
proof (rule current_assignment_sound [OF sample_read_in])
  have "tk_current sample_read \<noteq> None" by code_simp
  then show "tk_current sample_read = Some (the (tk_current sample_read))" by simp
qed

text \<open>
  The admission guard: a task it passes has a state, which is one of the open states exactly
  when no fact has closed the task; and the guard refuses only a task with blockers.
\<close>

theorem resolved_task_has_state:
  assumes "t \<in> set (sn_tasks (reduce v fleet rows as known es oa oe oh))"
  shows "case require_resolved t of
      Inr t' \<Rightarrow> t' = t \<and> tk_state t \<noteq> None \<and> (tk_open t \<longleftrightarrow> tk_terminal t = None)
    | Inl blockers \<Rightarrow> blockers = tk_blockers t \<and> blockers \<noteq> [] \<and> (tk_terminal t = None \<longrightarrow> tk_state t = None)"
proof -
  have ok: "task_ok t" using reduce_tasks [OF assms] by simp
  have "\<not> tk_open t" if "tk_state t = Some s" "s \<in> {''completed'', ''failed'', ''cancelled''}" for s
    using that by (auto simp: tk_open_def OPEN_STATES_def)
  with ok show ?thesis
    by (cases "tk_state t"; cases "tk_blockers t = []"; cases "tk_terminal t")
       (auto simp: require_resolved_def task_ok_def tk_open_def)
qed

lemma resolved_task_has_state_witness:
  "case require_resolved sample_read of
      Inr t' \<Rightarrow> t' = sample_read \<and> tk_state sample_read \<noteq> None \<and> (tk_open sample_read \<longleftrightarrow> tk_terminal sample_read = None)
    | Inl blockers \<Rightarrow> blockers = tk_blockers sample_read \<and> blockers \<noteq> []
        \<and> (tk_terminal sample_read = None \<longrightarrow> tk_state sample_read = None)"
  by (rule resolved_task_has_state [OF sample_read_in])

text \<open>
  A selected reading is not always the fleet's reading of the same task: an event that wrongly
  links the task to another fleet's work is blocking in the selection, which does not load what
  closed that work, and not blocking in the whole-fleet reading, which meets it through another
  task.
\<close>

definition crossed_links :: tables where
  "crossed_links =
     \<lparr>tb_version = 14,
      tb_work = [a_work 1 ''f'' ''x'' ''T'', a_work 2 ''f'' ''x'' ''U'', a_work 3 ''g'' ''x'' ''X''],
      tb_assignments = [an_assignment 4 ''g'' ''x'' ''B'' ''X'', an_assignment 5 ''f'' ''x'' ''A'' ''U''],
      tb_events = [an_event 6 TASK_EMITTER ''T'' (Some ''B'') ''returned_blocked'',
                   an_event 7 ''x'' ''X'' (Some ''A'') ''completed'']\<rparr>"

theorem selection_blocks_where_fleet_does_not:
  "map tk_state (filter (\<lambda>t. wr_id (tk_row t) = ''T'') (sn_tasks (read_fleet crossed_links ''f''))) = [Some ''queued'']
   \<and> map tk_state (sn_tasks (read_selected crossed_links ''f'' [''T''])) = [None]"
  by (intro conjI; code_simp)

text \<open>
  What a reading returns: an unsupported schema, an empty fleet or an empty id is refused; a
  selection shows only the tasks asked for, each of the fleet asked for.
\<close>

theorem reading_stays_in_scope:
  assumes "read_tasks tb fleet ids = Inr snap"
  shows "1 \<le> tb_version tb \<and> tb_version tb \<le> SQL_SCHEMA_VERSION \<and> sn_fleet snap = fleet
    \<and> list_all (\<lambda>t. f_fleet (tk_row t) = Some fleet \<and> tk_row t \<in> set (tb_work tb)
         \<and> (case ids of None \<Rightarrow> True | Some xs \<Rightarrow> wr_id (tk_row t) \<in> set xs)) (sn_tasks snap)"
proof -
  have rows: "tk_row t \<in> set rows" if "t \<in> set (sn_tasks (reduce v f rows as known es oa oe oh))"
    for t v f rows as known es oa oe oh using reduce_tasks [OF that] by simp
  have sel: "f_fleet r = Some fleet \<and> r \<in> set (tb_work tb)" if "r \<in> set (selected_rows tb fleet xs)" for r xs
    using that by (auto simp: selected_rows_def Let_def in_fleet_def work_by_id_def split: if_splits)
  have fl: "sn_fleet (reduce v f rows as known es oa oe oh) = f" for v f rows as known es oa oe oh
    by (simp add: reduce_def Let_def)
  show ?thesis
  proof (cases ids)
    case None
    with assms show ?thesis
      by (auto simp: read_tasks_def read_fleet_def Let_def list_all_iff fl in_fleet_def split: if_splits dest!: rows)
  next
    case (Some xs)
    have "wr_id (tk_row t) \<in> set xs" if "t \<in> set (sn_tasks (read_selected tb fleet xs))" for t
      using that by (auto simp: read_selected_def Let_def ids_of_def in_fleet_def work_by_id_def)
    moreover have "tk_row t \<in> set (selected_rows tb fleet xs)" if "t \<in> set (sn_tasks (read_selected tb fleet xs))" for t
      using that by (auto simp: read_selected_def Let_def dest!: rows)
    moreover have "sn_fleet (read_selected tb fleet xs) = fleet" by (simp add: read_selected_def Let_def fl)
    moreover have "snap = read_selected tb fleet xs" "1 \<le> tb_version tb" "tb_version tb \<le> SQL_SCHEMA_VERSION"
      using assms by (auto simp: read_tasks_def Some split: if_splits)
    ultimately show ?thesis using sel by (auto simp: Some list_all_iff)
  qed
qed

lemma reading_stays_in_scope_witness:
  "sn_fleet (read_selected crossed_links ''f'' [''T'']) = ''f''
   \<and> list_all (\<lambda>t. f_fleet (tk_row t) = Some ''f'') (sn_tasks (read_selected crossed_links ''f'' [''T'']))"
proof -
  have r: "read_tasks crossed_links ''f'' (Some [''T'']) = Inr (read_selected crossed_links ''f'' [''T''])"
    by (simp add: read_tasks_def crossed_links_def SQL_SCHEMA_VERSION_def)
  from reading_stays_in_scope [OF r] show ?thesis by (simp add: list_all_iff)
qed

end
