(* ===== verification/Plane_Ids.thy ===== *)
theory Plane_Ids
  imports Py_Text Json
begin

text \<open>
  The plane's identifiers (\<open>claudlobby/plane/ids.py\<close>): their prefixes and patterns, the ids
  derived from content, the alias of a session, and the installation's own id, which is minted
  once and never replaced. SHA-256 is the argument \<open>sha\<close> (of a text's UTF-8 bytes, in
  hexadecimal), and the random 32 digits of \<open>uuid4\<close> are an argument \<open>hex\<close>.
\<close>

section \<open>Patterns\<close>

definition UID_PREFIX :: "(string \<times> string) list" where
  "UID_PREFIX =
    [(''host'', ''host_''), (''fleet'', ''fleet_''), (''actor'', ''actor_''),
     (''bot_instance'', ''boti_''), (''session'', ''sess_''), (''vault'', ''vault_''),
     (''project'', ''proj_''), (''library_item'', ''lib_''), (''process'', ''proc_'')]"

definition ID_PATTERNS :: "(string \<times> string) list" where
  "ID_PATTERNS =
    [(''event'', ''ev_''), (''msg'', ''msg_''), (''work_item'', ''wi_''), (''assignment'', ''asg_'')]
    @ UID_PREFIX"

text \<open>A text of the pattern of a kind: the prefix and 32 hexadecimal digits, nothing else.\<close>

definition id_of :: "string \<Rightarrow> string \<Rightarrow> bool" where
  "id_of kind s =
     (case map_of ID_PATTERNS kind of None \<Rightarrow> False
      | Some p \<Rightarrow> starts_with s p \<and> hex32 (drop (length p) s))"

definition mint :: "string \<Rightarrow> string \<Rightarrow> string" where
  "mint prefix hex = prefix @ hex"

definition mint_uid :: "string \<Rightarrow> string \<Rightarrow> string option" where
  "mint_uid kind hex = map_option (\<lambda>p. mint p hex) (map_of UID_PREFIX kind)"

definition derive_hex :: "(string \<Rightarrow> string) \<Rightarrow> string \<Rightarrow> string" where
  "derive_hex sha material = take 32 (sha material)"

definition derive_uid :: "(string \<Rightarrow> string) \<Rightarrow> string \<Rightarrow> string \<Rightarrow> string" where
  "derive_uid sha prefix material = prefix @ ''_'' @ derive_hex sha material"

section \<open>Sessions\<close>

definition session_alias :: "string \<Rightarrow> string \<Rightarrow> string option" where
  "session_alias platform_session_id agent_cli =
     (if strip platform_session_id = [] \<or> strip agent_cli = [] then None
      else Some (if agent_cli = ''claude'' then platform_session_id
                 else agent_cli @ '':'' @ platform_session_id))"

definition derive_session_uid :: "(string \<Rightarrow> string) \<Rightarrow> string \<Rightarrow> string \<Rightarrow> string option" where
  "derive_session_uid sha platform_session_id agent_cli =
     map_option (derive_uid sha ''sess'') (session_alias platform_session_id agent_cli)"

section \<open>The installation's id\<close>

text \<open>
  The file \<open>host-uid\<close> as it is found: what it holds and whether it is an owned private file.
  \<open>read_host_uid\<close> refuses what is not; \<open>ensure_host_uid\<close> accepts it and makes it private.
\<close>

record host_file =
  hf_text :: string
  hf_private :: bool

datatype state_dir = Redirected | Unreadable_Dir | Dir "host_file option"

definition read_host_uid :: "state_dir \<Rightarrow> string option" where
  "read_host_uid d =
     (case d of
        Dir (Some f) \<Rightarrow>
          if hf_private f \<and> id_of ''host'' (strip (hf_text f)) then Some (strip (hf_text f)) else None
      | _ \<Rightarrow> None)"

text \<open>
  \<open>ensure_host_uid\<close>: an existing file is validated and never re-minted. Otherwise a complete
  file is published by a link that fails when another process got there first: \<open>winner\<close> is the
  file that process published in between. The answer is always what the published file says.
\<close>

definition ensure_existing :: "host_file \<Rightarrow> string option \<times> host_file" where
  "ensure_existing f =
     (let v = strip (hf_text f) in
      if id_of ''host'' v then (Some v, f\<lparr>hf_private := True\<rparr>) else (None, f))"

definition ensure_host_uid :: "string \<Rightarrow> host_file option \<Rightarrow> host_file option \<Rightarrow> string option \<times> host_file" where
  "ensure_host_uid hex winner file =
     (case file of Some f \<Rightarrow> ensure_existing f
      | None \<Rightarrow>
          (case winner of Some w \<Rightarrow> ensure_existing w
           | None \<Rightarrow> ensure_existing \<lparr>hf_text = mint ''host_'' hex @ [CHR 0x0A], hf_private = True\<rparr>))"

section \<open>Facts\<close>

lemma id_of_simps:
  "id_of ''event'' s \<longleftrightarrow> starts_with s ''ev_'' \<and> hex32 (drop 3 s)"
  "id_of ''msg'' s \<longleftrightarrow> starts_with s ''msg_'' \<and> hex32 (drop 4 s)"
  "id_of ''host'' s \<longleftrightarrow> starts_with s ''host_'' \<and> hex32 (drop 5 s)"
  by (simp_all add: id_of_def ID_PATTERNS_def UID_PREFIX_def numeral_eq_Suc)

lemma hex_no_space: "is_hex c \<Longrightarrow> \<not> is_space c"
  by (auto simp: is_hex_def is_digit_def is_space_def)

lemma strip_minted: "hex32 h \<Longrightarrow> strip (mint ''host_'' h @ [CHR 0x0A]) = mint ''host_'' h"
proof -
  assume h: "hex32 h"
  then have "h \<noteq> []" by (auto simp: hex32_def)
  then obtain h' c where hc: "h = h' @ [c]" by (metis rev_exhaust)
  with h have c: "\<not> is_space c" by (auto simp: hex32_def dest: hex_no_space)
  have "\<not> is_space CHR ''h''" "is_space CHR 0x0A" by (simp_all add: is_space_def code_def)
  with c show ?thesis by (simp add: strip_def mint_def hc)
qed

lemma id_of_host_minted: "hex32 h \<Longrightarrow> id_of ''host'' (mint ''host_'' h)"
  by (simp add: id_of_simps mint_def starts_with_def)

section \<open>Properties\<close>


definition sample_hex :: string where
  "sample_hex = ''0123456789abcdef0123456789abcdef''"

abbreviation sample_host_file :: "bool \<Rightarrow> host_file" where
  "sample_host_file priv \<equiv> \<lparr>hf_text = ''host_'' @ sample_hex, hf_private = priv\<rparr>"


text \<open>
  Two sessions of different agents never share an id's material: sessions with one alias, of
  agents whose names have no colon and none of whose claude sessions starts with another agent's
  name and a colon, are the same session of the same agent.
\<close>

lemma colon_split:
  "CHR '':'' \<notin> set a \<Longrightarrow> CHR '':'' \<notin> set b \<Longrightarrow> a @ '':'' @ x = b @ '':'' @ y \<Longrightarrow> a = b \<and> x = y"
proof (induction a arbitrary: b)
  case Nil
  then show ?case by (cases b) auto
next
  case (Cons c a)
  then show ?case by (cases b) auto
qed

theorem session_alias_injective:
  assumes "session_alias s1 a1 = Some n" "session_alias s2 a2 = Some n"
    and "CHR '':'' \<notin> set a1" "CHR '':'' \<notin> set a2"
    and "a1 = ''claude'' \<Longrightarrow> CHR '':'' \<notin> set s1" "a2 = ''claude'' \<Longrightarrow> CHR '':'' \<notin> set s2"
  shows "s1 = s2 \<and> a1 = a2"
proof -
  have n: "n = (if a = ''claude'' then s else a @ '':'' @ s)" if "session_alias s a = Some n" for s a
    using that by (simp add: session_alias_def split: if_splits)
  have e: "(if a1 = ''claude'' then s1 else a1 @ '':'' @ s1) = (if a2 = ''claude'' then s2 else a2 @ '':'' @ s2)"
    by (rule trans [OF n [OF assms(1), symmetric] n [OF assms(2)]])
  have colon: "CHR '':'' \<in> set (a @ '':'' @ s)" for a s :: string by simp
  show ?thesis
  proof (cases "a1 = ''claude''"; cases "a2 = ''claude''")
    assume c: "a1 \<noteq> ''claude''" "a2 \<noteq> ''claude''"
    with e have "a1 @ '':'' @ s1 = a2 @ '':'' @ s2" by (simp only: if_False)
    from colon_split [OF assms(3,4) this] show ?thesis by (rule conj_commute [THEN iffD1])
  next
    assume c: "a1 \<noteq> ''claude''" "a2 = ''claude''"
    then have "s2 = a1 @ '':'' @ s1" using e by (simp only: if_False if_True refl)
    with colon assms(6) [OF c(2)] show ?thesis by (metis c(2))
  next
    assume c: "a1 = ''claude''" "a2 \<noteq> ''claude''"
    then have "s1 = a2 @ '':'' @ s2" using e by (simp only: if_False if_True refl)
    with colon assms(5) [OF c(1)] show ?thesis by (metis c(1))
  next
    assume "a1 = ''claude''" "a2 = ''claude''"
    then show ?thesis using e by (simp only: if_True refl)
  qed
qed

lemma session_alias_injective_witness: "''a1'' = ''a1'' \<and> ''codex'' = ''codex''"
proof (rule session_alias_injective)
  show "session_alias ''a1'' ''codex'' = Some ''codex:a1''" by code_simp
  show "session_alias ''a1'' ''codex'' = Some ''codex:a1''" by code_simp
qed simp_all

end
