(* ===== verification/Registries.thy ===== *)
theory Registries
  imports Json Py_Text
begin

text \<open>
  The package's registries (\<open>claudlobby/plane/registries.py\<close>): the class and the byte cap of
  each content field, the severity of each system event, the metric names. A dictionary is an
  association list; the severity table is kept as its two lists of event types.
\<close>

definition PR_ROLES :: "string list" where
  "PR_ROLES = [''authored'', ''reviewed'']"

datatype field_class = CONTENT | SENSITIVE | DIAGNOSTIC | METADATA

record policy =
  p_class :: field_class
  p_cap :: "int option"
  p_proof :: bool

definition FIELD_POLICY :: "((string \<times> string) \<times> policy) list" where
  "FIELD_POLICY =
    [
     ((''communication'', ''body''), \<lparr>p_class = CONTENT, p_cap = Some 16384, p_proof = True\<rparr>),
     ((''communication'', ''recipient_raw''), \<lparr>p_class = SENSITIVE, p_cap = None, p_proof = False\<rparr>),
     ((''work_item'', ''body''), \<lparr>p_class = CONTENT, p_cap = Some 16384, p_proof = False\<rparr>),
     ((''task'', ''summary''), \<lparr>p_class = CONTENT, p_cap = Some 4096, p_proof = False\<rparr>),
     ((''task'', ''reason''), \<lparr>p_class = CONTENT, p_cap = Some 4096, p_proof = False\<rparr>),
     ((''task'', ''question''), \<lparr>p_class = CONTENT, p_cap = Some 4096, p_proof = False\<rparr>),
     ((''task'', ''by''), \<lparr>p_class = METADATA, p_cap = Some 128, p_proof = False\<rparr>),
     ((''task'', ''pr_role''), \<lparr>p_class = METADATA, p_cap = None, p_proof = False\<rparr>),
     ((''task'', ''link_source''), \<lparr>p_class = METADATA, p_cap = None, p_proof = False\<rparr>),
     ((''task'', ''pr_attribution_withheld''), \<lparr>p_class = METADATA, p_cap = None, p_proof = False\<rparr>),
     ((''workstream_event'', ''note''), \<lparr>p_class = CONTENT, p_cap = Some 4096, p_proof = False\<rparr>),
     ((''workstream_event'', ''waiting_on''), \<lparr>p_class = METADATA, p_cap = None, p_proof = False\<rparr>),
     ((''workstream_event'', ''next_step''), \<lparr>p_class = CONTENT, p_cap = Some 4096, p_proof = False\<rparr>),
     ((''transmission'', ''destination''), \<lparr>p_class = SENSITIVE, p_cap = None, p_proof = False\<rparr>),
     ((''system'', ''data''), \<lparr>p_class = DIAGNOSTIC, p_cap = Some 16384, p_proof = False\<rparr>)]"

text \<open>\<open>CONTENT_FIELDS[family]\<close>, empty for a family that has none.\<close>

definition CONTENT_FIELDS :: "string \<Rightarrow> string list" where
  "CONTENT_FIELDS family = [f. ((fam, f), p) \<leftarrow> FIELD_POLICY, fam = family \<and> p_class p = CONTENT]"

definition cap_for :: "string \<Rightarrow> string \<Rightarrow> int option" where
  "cap_for family field = Option.bind (map_of FIELD_POLICY (family, field)) p_cap"

definition CRITICAL_EVENTS :: "string list" where
  "CRITICAL_EVENTS =
    [''fleet_alert'', ''shadow_parity_diverged'', ''session_missing'', ''service_down'',
     ''activity_stuck'', ''script_error'', ''overdue_dispatch'', ''bridge_down'',
     ''reload_failed'', ''restart_failed'', ''rc_timeout'', ''channel_refused'', ''crash_loop'',
     ''unit_missing'', ''input_held'', ''usage_limit_held'', ''pane_unknown'', ''unit_failed'',
     ''public_write_guard_unarmed'', ''disk_high'', ''memory_high'', ''undervoltage'',
     ''storage_stall'', ''host_health'', ''binary_update_failed'', ''binary_unrunnable'',
     ''vault_sync_failed'', ''keepalive_failed'', ''rolling_restart_stalled'',
     ''alert_target_refused'', ''alert_pair_unreachable'']"

definition NOTICE_EVENTS :: "string list" where
  "NOTICE_EVENTS =
    [''fleet_notice'', ''daemon_started'', ''daemon_stopping'', ''spool_drain_completed'',
     ''shadow_parity_clean'', ''cutover_declared'', ''legacy_write_retired'', ''report_status'',
     ''usage_limit_hit'', ''keepalive_limit_resume'', ''bot_stopped'', ''bot_started'',
     ''job_reenroll_deferred'', ''alert_delivery_failed'', ''dispatch_orphaned'',
     ''worker_unassigned'', ''pane_stuck'', ''wip_uncommitted'', ''browser_outside_render'',
     ''send_miss'', ''send_retry'', ''send_blind'', ''send_blind_recovered'',
     ''send_unsubmitted'', ''delivery_enter_repaired'', ''send_unlocked'', ''resume_skipped'',
     ''plugin_marketplace_failed'', ''bot_subreaper_unavailable'', ''briefing_deferred'',
     ''briefing_dispatched'', ''briefing_failed'', ''briefing_missed'', ''checkin_triggered'',
     ''checkin_skipped'', ''audit_selected'', ''audit_dispatched'', ''audit_deferred'',
     ''audit_failed'', ''sweep_repo_unreachable'', ''bot_teardown_started'',
     ''handoff_skipped'', ''fleet_rescue'', ''keepalive_restart'', ''bridge_heal'',
     ''keepalive_skip'', ''keepalive_reload'', ''tool_call'', ''reports_acked'',
     ''session_digest'', ''session_summary'', ''export_stalled'', ''compaction'',
     ''checkin_decision'', ''checkin_dispatch'', ''heavy_slot_acquired'',
     ''heavy_slot_released'', ''heavy_slot_refused'', ''heavy_slot_unreleased'',
     ''heavy_slot_unparsed'', ''heavy_slot_ticket_dropped'', ''heavy_slot_stopped'',
     ''heavy_slot_hold_lifted'', ''public_write_refused'', ''credential_echo_refused'',
     ''credential_echo_unparsed'', ''signal_guard_refused'', ''orphan_browser_reaped'',
     ''binary_update_skipped'', ''binary_prune_skipped'', ''binary_repaired'',
     ''vault_sync_recovered'', ''source_behind'', ''source_release_gap'', ''source_unknown'',
     ''sibling_update_blocked'', ''sibling_update_failed'', ''sibling_updated'',
     ''alert_recipient_resolved'', ''auth_mint_failed'', ''boot_capture'',
     ''boot_capture_summary'', ''vault_guard_denied'', ''vault_guard_unresolved'',
     ''vault_sync'', ''audit_completed'', ''operator_first_seen'', ''task_recheck'',
     ''task_recheck_noop'', ''workstream_prune_noop'']"

definition SYSTEM_EVENT_SEVERITY :: "string \<Rightarrow> string option" where
  "SYSTEM_EVENT_SEVERITY e =
     (if e \<in> set CRITICAL_EVENTS then Some ''critical''
      else if e \<in> set NOTICE_EVENTS then Some ''notice'' else None)"

definition METRIC_NAMES :: "string list" where
  "METRIC_NAMES =
    [''host.load'', ''host.mem_available_mb'', ''host.disk_free_gb'', ''host.thermal_flags'',
     ''host.undervoltage'', ''host.boot_time'', ''host.job_ran'', ''host.plane_wal_bytes'',
     ''host.swap_used_mb'', ''host.swap_pages'', ''host.procs'', ''host.cpu_ticks'',
     ''vault.behind'', ''vault.ahead'', ''vault.last_fetch_age_s'', ''vault.fetch_failed'',
     ''bot.session_up'', ''bot.bridge_up'', ''bot.rc_ok'', ''bot.pane_last_change_age_s'',
     ''bot.heartbeat'', ''bot.rss_mb'', ''env.key_state'']"

text \<open>UTF-8: a code point up to U+007F is one byte, the others modelled here are two.\<close>

definition utf8_len :: "string \<Rightarrow> int" where
  "utf8_len s = sum_list (map (\<lambda>c. if code c < 128 then 1 else 2) s)"

text \<open>\<open>raw[:cap].decode("utf-8", errors="ignore")\<close>: a character cut in the middle is dropped.\<close>

fun utf8_prefix :: "int \<Rightarrow> string \<Rightarrow> string" where
  "utf8_prefix cap [] = []"
| "utf8_prefix cap (c # cs) =
     (let w = (if code c < 128 then 1 else 2) in
      if w \<le> cap then c # utf8_prefix (cap - w) cs else [])"

lemma utf8_len_Nil [simp]: "utf8_len [] = 0"
  by (simp add: utf8_len_def)

lemma utf8_len_Cons: "utf8_len (c # s) = (if code c < 128 then 1 else 2) + utf8_len s"
  by (simp add: utf8_len_def)

lemma utf8_prefix_fits: "0 \<le> cap \<Longrightarrow> utf8_len (utf8_prefix cap s) \<le> cap"
  by (induction cap s rule: utf8_prefix.induct) (auto simp: utf8_len_Cons Let_def)

lemma utf8_prefix_take: "\<exists>k. utf8_prefix cap s = take k s"
proof (induction cap s rule: utf8_prefix.induct)
  case (2 cap c cs)
  let ?w = "if code c < 128 then 1 else 2 :: int"
  show ?case
  proof (cases "?w \<le> cap")
    case True
    with 2 [OF refl True] obtain k where "utf8_prefix (cap - ?w) cs = take k cs" by blast
    with True show ?thesis by (intro exI [of _ "Suc k"]) (simp add: Let_def)
  next
    case False
    then show ?thesis by (intro exI [of _ 0]) (simp add: Let_def)
  qed
qed simp

lemma utf8_len_nonneg: "0 \<le> utf8_len s"
  by (induction s) (simp_all add: utf8_len_Cons)

lemma utf8_prefix_id: "utf8_len s \<le> cap \<Longrightarrow> utf8_prefix cap s = s"
proof (induction cap s rule: utf8_prefix.induct)
  case (2 cap c cs)
  then show ?case using utf8_len_nonneg [of cs] by (auto simp: utf8_len_Cons Let_def)
qed simp

end
