(* ===== verification/Capture_Policy.thy ===== *)
theory Capture_Policy
  imports Registries
begin

text \<open>
  The capture policy (\<open>claudlobby/plane/capture_policy.py\<close>): what of an event's authored
  content is kept, by the fleet's mode, before the event is ingested, spooled or staged.

  An event is a JSON object, an association list. \<open>apply_capture\<close> answers \<open>None\<close> for "the
  input object itself" and \<open>Some\<close> for a new one: the code's callers test the identity. SHA-256
  is the argument \<open>sha\<close>. A payload that is a list is taken as an error (Python's \<open>dict\<close>
  could read one of pairs).
\<close>

section \<open>The configuration\<close>

definition DEFAULT_CAPTURE :: string where
  "DEFAULT_CAPTURE = ''full''"

datatype capture_error = Config_Invalid string | Value_Error string | Type_Error string

text \<open>The file as it is found: absent, unreadable, or text with what it parses to.\<close>

datatype config_file = Absent | Unreadable | Text "json option"

type_synonym modes = "(string \<times> string) list"

definition as_mode :: "json \<Rightarrow> string option" where
  "as_mode v = (case v of JStr s \<Rightarrow> if s \<in> {''full'', ''metadata''} then Some s else None | _ \<Rightarrow> None)"

fun modes_of :: "(string \<times> json) list \<Rightarrow> modes option" where
  "modes_of [] = Some []"
| "modes_of ((k, v) # kvs) =
     (case (as_mode v, modes_of kvs) of (Some m, Some ms) \<Rightarrow> Some ((k, m) # ms) | _ \<Rightarrow> None)"

definition load_capture_config :: "config_file \<Rightarrow> capture_error + modes" where
  "load_capture_config f =
     (case f of Absent \<Rightarrow> Inr []
      | Unreadable \<Rightarrow> Inl (Config_Invalid ''unreadable'')
      | Text None \<Rightarrow> Inl (Config_Invalid ''invalid JSON'')
      | Text (Some (JObj kvs)) \<Rightarrow>
          (case modes_of kvs of Some ms \<Rightarrow> Inr ms
           | None \<Rightarrow> Inl (Config_Invalid ''must map fleet (or *) to full | metadata''))
      | Text (Some _) \<Rightarrow> Inl (Config_Invalid ''must map fleet (or *) to full | metadata''))"

text \<open>\<open>modes.get(fleet or "", modes.get("*", DEFAULT_CAPTURE))\<close>.\<close>

definition capture_mode :: "modes \<Rightarrow> json \<Rightarrow> string" where
  "capture_mode modes fleet =
     (let found = (case fleet of JStr s \<Rightarrow> map_of modes s | _ \<Rightarrow> if truthy fleet then None else map_of modes []) in
      case found of Some m \<Rightarrow> m
      | None \<Rightarrow> (case map_of modes ''*'' of Some m \<Rightarrow> m | None \<Rightarrow> DEFAULT_CAPTURE))"

section \<open>The proof of a body\<close>

text \<open>\<open>_ANSI_RE.sub("", text)\<close>: an escape sequence is \<open>ESC [\<close>, parameters, intermediates, a final.\<close>

definition ansi_param :: "char \<Rightarrow> bool" where
  "ansi_param c \<longleftrightarrow> is_digit c \<or> c = CHR '';'' \<or> c = CHR ''?''"

definition ansi_inter :: "char \<Rightarrow> bool" where
  "ansi_inter c \<longleftrightarrow> 32 \<le> code c \<and> code c \<le> 47"

definition ansi_final :: "char \<Rightarrow> bool" where
  "ansi_final c \<longleftrightarrow> 64 \<le> code c \<and> code c \<le> 126"

definition ansi_rest :: "string \<Rightarrow> string option" where
  "ansi_rest s =
     (if starts_with s [CHR 0x1B, CHR ''['']
      then (case dropWhile ansi_inter (dropWhile ansi_param (drop 2 s)) of
              [] \<Rightarrow> None | c # r \<Rightarrow> if ansi_final c then Some r else None)
      else None)"

lemma ansi_rest_shorter: "ansi_rest s = Some r \<Longrightarrow> length r < length s"
proof -
  assume "ansi_rest s = Some r"
  then obtain c where "dropWhile ansi_inter (dropWhile ansi_param (drop 2 s)) = c # r"
    by (auto simp: ansi_rest_def split: if_splits list.splits)
  then have "Suc (length r) \<le> length s"
    by (metis diff_le_self dual_order.trans length_Cons length_drop length_dropWhile_le)
  then show ?thesis by simp
qed

function ansi_strip :: "string \<Rightarrow> string" where
  "ansi_strip s =
     (case s of [] \<Rightarrow> []
      | c # cs \<Rightarrow> (case ansi_rest s of Some r \<Rightarrow> ansi_strip r | None \<Rightarrow> c # ansi_strip cs))"
  by pat_completeness auto
termination by (relation "measure length") (auto dest: ansi_rest_shorter)

declare ansi_strip.simps [simp del]

definition body_cap :: int where
  "body_cap = (case cap_for ''communication'' ''body'' of Some n \<Rightarrow> n | None \<Rightarrow> 0)"

definition body_proof :: "(string \<Rightarrow> string) \<Rightarrow> string \<Rightarrow> string \<times> int \<times> string \<times> bool" where
  "body_proof sha text =
     (let stripped = ansi_strip text; nbytes = utf8_len stripped; digest = ''sha256:'' @ sha stripped in
      if nbytes \<le> body_cap then (stripped, nbytes, digest, False)
      else (utf8_prefix body_cap stripped, nbytes, digest, True))"

section \<open>Applying the policy\<close>

type_synonym obj = "(string \<times> json) list"

definition event_type :: "obj \<Rightarrow> string" where
  "event_type raw = (case jget (JObj raw) ''event_type'' of JStr s \<Rightarrow> s | _ \<Rightarrow> [])"

definition needs_config :: "obj \<Rightarrow> bool" where
  "needs_config raw \<longleftrightarrow> CONTENT_FIELDS (event_type raw) \<noteq> []"

text \<open>\<open>dict(raw.get("payload") or {})\<close>.\<close>

definition payload_of :: "obj \<Rightarrow> capture_error + obj" where
  "payload_of raw =
     (let p = jget (JObj raw) ''payload'' in
      case p of JObj kvs \<Rightarrow> Inr kvs
      | _ \<Rightarrow> if truthy p then Inl (Type_Error ''payload'') else Inr [])"

definition with_payload :: "obj \<Rightarrow> obj \<Rightarrow> obj" where
  "with_payload raw payload = alist_set ''payload'' (JObj payload) raw"

text \<open>A communication's payload under \<open>full\<close> and under the stricter rule.\<close>

definition withheld :: "obj \<Rightarrow> bool" where
  "withheld payload \<longleftrightarrow> jget (JObj payload) ''body'' = JNull \<and> truthy (jget (JObj payload) ''body_sha256'')"

definition strip_body :: "(string \<Rightarrow> string) \<Rightarrow> obj \<Rightarrow> capture_error + obj" where
  "strip_body sha payload =
     (let payload' = alist_set ''privacy'' (JStr ''metadata'') payload in
      case jget (JObj payload) ''body'' of
        JNull \<Rightarrow> Inr payload'
      | JStr body \<Rightarrow>
          (case body_proof sha body of (_, nbytes, digest, truncated) \<Rightarrow>
             Inr (alist_set ''truncated'' (JBool truncated) (alist_set ''body_sha256'' (JStr digest)
                   (alist_set ''body_bytes'' (JInt nbytes) (alist_set ''body'' JNull payload')))))
      | _ \<Rightarrow> Inl (Type_Error ''body''))"

definition capture_communication :: "(string \<Rightarrow> string) \<Rightarrow> string \<Rightarrow> obj \<Rightarrow> capture_error + obj" where
  "capture_communication sha mode payload =
     (if mode = ''full'' \<and> \<not> withheld payload then Inr (alist_set ''privacy'' (JStr ''full'') payload)
      else strip_body sha payload)"

definition drop_fields :: "string list \<Rightarrow> obj \<Rightarrow> obj" where
  "drop_fields flds payload = filter (\<lambda>(k, _). k \<notin> set flds) payload"

definition apply_capture :: "(string \<Rightarrow> string) \<Rightarrow> obj \<Rightarrow> modes \<Rightarrow> capture_error + obj option" where
  "apply_capture sha raw modes =
     (let flds = CONTENT_FIELDS (event_type raw); mode = capture_mode modes (jget (JObj raw) ''fleet'') in
      if flds = [] then Inr None
      else if event_type raw = ''communication'' then
        (case payload_of raw of Inl e \<Rightarrow> Inl e
         | Inr payload \<Rightarrow>
             (case capture_communication sha mode payload of Inl e \<Rightarrow> Inl e
              | Inr payload' \<Rightarrow> Inr (Some (with_payload raw payload'))))
      else if mode = ''full'' then Inr None
      else (case payload_of raw of Inl e \<Rightarrow> Inl e
            | Inr payload \<Rightarrow>
                if \<exists>f \<in> set flds. f \<in> fst ` set payload
                then Inr (Some (with_payload raw (drop_fields flds payload)))
                else Inr None))"

definition captured_of :: "obj \<Rightarrow> obj option \<Rightarrow> obj" where
  "captured_of raw c = (case c of None \<Rightarrow> raw | Some r \<Rightarrow> r)"

definition PRIVACY_VALUES :: "string list" where
  "PRIVACY_VALUES = [''metadata'', ''preview'', ''full'']"

text \<open>The field that may not be stripped before a replay could refuse it, if any.\<close>

definition over_cap :: "string \<Rightarrow> string \<Rightarrow> json \<Rightarrow> bool" where
  "over_cap family field v =
     (case v of JStr s \<Rightarrow> (case cap_for family field of None \<Rightarrow> False | Some cap \<Rightarrow> cap < utf8_len s)
      | _ \<Rightarrow> True)"

definition refuse_before_strip :: "obj \<Rightarrow> obj \<Rightarrow> capture_error option" where
  "refuse_before_strip raw captured =
     (case jget (JObj raw) ''payload'' of
        JObj before \<Rightarrow>
          (let family = event_type raw; after = jget (JObj captured) ''payload'' in
           if family = ''communication'' then
             (if ''privacy'' \<in> fst ` set before
                 \<and> jget (JObj before) ''privacy'' \<notin> JStr ` set PRIVACY_VALUES
              then Some (Value_Error ''communication.privacy'') else None)
           else
             (case filter (\<lambda>f. \<not> jhas after f \<and> jget (JObj before) f \<noteq> JNull
                                 \<and> over_cap family f (jget (JObj before) f)) (CONTENT_FIELDS family) of
                [] \<Rightarrow> None | f # _ \<Rightarrow> Some (Value_Error (family @ ''.'' @ f))))
      | _ \<Rightarrow> Some (Value_Error ''payload must be an object''))"

text \<open>One event of a batch, with the configuration it would read; then the batch.\<close>

definition unhashable :: "json \<Rightarrow> bool" where
  "unhashable v = (case v of JArr vs \<Rightarrow> True | JObj kvs \<Rightarrow> True | _ \<Rightarrow> False)"

definition stage_event :: "(string \<Rightarrow> string) \<Rightarrow> config_file \<Rightarrow> obj \<Rightarrow> capture_error + obj" where
  "stage_event sha cfg e =
     (if unhashable (jget (JObj e) ''event_type'') then Inl (Type_Error ''unhashable type'')
      else if \<not> needs_config e then Inr e
      else case load_capture_config cfg of Inl err \<Rightarrow> Inl err
        | Inr modes \<Rightarrow>
            if unhashable (jget (JObj e) ''fleet'') \<and> truthy (jget (JObj e) ''fleet'') then Inl (Type_Error ''unhashable type'')
            else if capture_mode modes (jget (JObj e) ''fleet'') = ''full'' then Inr e
            else (case apply_capture sha e modes of Inl err \<Rightarrow> Inl err
                  | Inr None \<Rightarrow> Inr e
                  | Inr (Some captured) \<Rightarrow>
                      (case refuse_before_strip e captured of Some err \<Rightarrow> Inl err | None \<Rightarrow> Inr captured)))"

fun apply_to_batch :: "(string \<Rightarrow> string) \<Rightarrow> config_file \<Rightarrow> obj list \<Rightarrow> capture_error + obj list" where
  "apply_to_batch sha cfg [] = Inr []"
| "apply_to_batch sha cfg (e # es) =
     (case stage_event sha cfg e of Inl err \<Rightarrow> Inl err
      | Inr e' \<Rightarrow> (case apply_to_batch sha cfg es of Inl err \<Rightarrow> Inl err | Inr es' \<Rightarrow> Inr (e' # es')))"

section \<open>What a capture keeps\<close>

lemma CONTENT_FIELDS_simps [simp]:
  "CONTENT_FIELDS ''communication'' = [''body'']"
  "CONTENT_FIELDS ''task'' = [''summary'', ''reason'', ''question'']"
  "CONTENT_FIELDS ''work_item'' = [''body'']"
  "CONTENT_FIELDS ''workstream_event'' = [''note'', ''next_step'']"
  by (simp_all add: CONTENT_FIELDS_def FIELD_POLICY_def)

text \<open>A payload holds no authored content: every content field is absent or null.\<close>

definition no_content :: "string \<Rightarrow> json \<Rightarrow> bool" where
  "no_content family payload \<longleftrightarrow> list_all (\<lambda>f. jget payload f = JNull) (CONTENT_FIELDS family)"

lemma map_of_drop_fields: "map_of (drop_fields fs kvs) k = (if k \<in> set fs then None else map_of kvs k)"
  by (induction kvs) (auto simp: drop_fields_def)

lemma jget_drop_fields: "jget (JObj (drop_fields fs kvs)) k = (if k \<in> set fs then JNull else jget (JObj kvs) k)"
  by (simp add: map_of_drop_fields)

lemma keys_drop_fields: "fst ` set (drop_fields fs kvs) = fst ` set kvs - set fs"
  by (force simp: drop_fields_def)

lemma jget_with_payload [simp]:
  "jget (JObj (with_payload raw p)) k = (if k = ''payload'' then JObj p else jget (JObj raw) k)"
  by (simp add: with_payload_def)

lemma event_type_with_payload [simp]: "event_type (with_payload raw p) = event_type raw"
  unfolding event_type_def jget_with_payload by simp

declare jget.simps [simp del]

lemma jget_set' [simp]: "jget (JObj (alist_set k v kvs)) k' = (if k' = k then v else jget (JObj kvs) k')"
  by (simp add: jget.simps)

lemma strip_body_result:
  "strip_body sha payload = Inr p \<Longrightarrow>
     jget (JObj p) ''body'' = JNull \<and> jget (JObj p) ''privacy'' = JStr ''metadata''
     \<and> (case jget (JObj payload) ''body'' of
          JStr body \<Rightarrow> jget (JObj p) ''body_bytes'' = JInt (utf8_len (ansi_strip body))
            \<and> jget (JObj p) ''body_sha256'' = JStr (''sha256:'' @ sha (ansi_strip body))
        | _ \<Rightarrow> jget (JObj p) ''body_bytes'' = jget (JObj payload) ''body_bytes''
            \<and> jget (JObj p) ''body_sha256'' = jget (JObj payload) ''body_sha256'')"
  by (auto simp: strip_body_def Let_def body_proof_def split: json.splits if_splits)

lemma missing_fields:
  "\<not> (\<exists>f \<in> set fs. f \<in> fst ` set kvs) \<Longrightarrow> f \<in> set fs \<Longrightarrow> jget (JObj kvs) f = JNull"
  by (auto simp: jget.simps split: option.split dest!: map_of_SomeD)

text \<open>Under a metadata policy nothing authored passes, whatever the family.\<close>

lemma metadata_no_content:
  assumes mode: "capture_mode modes (jget (JObj raw) ''fleet'') = ''metadata''"
    and c: "apply_capture sha raw modes = Inr c"
    and p: "is_obj (jget (JObj raw) ''payload'')"
  shows "no_content (event_type raw) (jget (JObj (captured_of raw c)) ''payload'')"
proof -
  obtain kvs where kvs: "jget (JObj raw) ''payload'' = JObj kvs"
    using p by (cases "jget (JObj raw) ''payload''") auto
  then have pl: "payload_of raw = Inr kvs" by (simp add: payload_of_def)
  show ?thesis
  proof (cases "event_type raw = ''communication''")
    case True
    with c mode pl obtain q where "strip_body sha kvs = Inr q" "c = Some (with_payload raw q)"
      by (auto simp: apply_capture_def Let_def capture_communication_def split: sum.splits)
    with strip_body_result [of sha kvs q] True show ?thesis
      by (simp add: no_content_def captured_of_def)
  next
    case False
    show ?thesis
    proof (cases "c = None")
      case True
      then have "CONTENT_FIELDS (event_type raw) = []
          \<or> \<not> (\<exists>f \<in> set (CONTENT_FIELDS (event_type raw)). f \<in> fst ` set kvs)"
        using c mode False pl by (auto simp: apply_capture_def Let_def split: if_splits)
      with True kvs show ?thesis
        by (auto simp: no_content_def captured_of_def list_all_iff intro: missing_fields)
    next
      case some: False
      with c mode False pl have "c = Some (with_payload raw (drop_fields (CONTENT_FIELDS (event_type raw)) kvs))"
        by (auto simp: apply_capture_def Let_def split: if_splits)
      then show ?thesis
        by (simp add: no_content_def captured_of_def list_all_iff jget.simps map_of_drop_fields with_payload_def)
    qed
  qed
qed

lemma apply_to_batch_nth:
  "apply_to_batch sha cfg es = Inr es' \<Longrightarrow> length es' = length es \<and> (\<forall>i < length es. stage_event sha cfg (es ! i) = Inr (es' ! i))"
proof (induction es arbitrary: es')
  case (Cons e es)
  then obtain e' r where "stage_event sha cfg e = Inr e'" "apply_to_batch sha cfg es = Inr r" "es' = e' # r"
    by (auto split: sum.splits)
  with Cons.IH show ?case by (auto simp: nth_Cons split: nat.split)
qed simp

section \<open>Properties\<close>

definition no_sha :: "string \<Rightarrow> string" where
  "no_sha s = ''00''"

text \<open>
  A staged batch holds nothing the policy withholds: where the configuration gives a fleet
  the mode \<open>metadata\<close>, the event staged for it has no authored content left, whatever its family
  and its place in the batch.
\<close>

theorem staged_batch_holds_no_content:
  assumes "apply_to_batch sha cfg es = Inr es'" "i < length es" "load_capture_config cfg = Inr modes"
    and "capture_mode modes (jget (JObj (es ! i)) ''fleet'') = ''metadata''"
    and "is_obj (jget (JObj (es ! i)) ''payload'')"
  shows "no_content (event_type (es ! i)) (jget (JObj (es' ! i)) ''payload'')"
proof -
  let ?e = "es ! i"
  have st: "stage_event sha cfg ?e = Inr (es' ! i)" using apply_to_batch_nth [OF assms(1)] assms(2) by blast
  show ?thesis
  proof (cases "needs_config ?e")
    case False
    then show ?thesis by (simp add: no_content_def needs_config_def)
  next
    case True
    with st assms(3,4) obtain c where c: "apply_capture sha ?e modes = Inr c" "es' ! i = captured_of ?e c"
      by (auto simp: stage_event_def captured_of_def split: sum.splits option.splits if_splits)
    show ?thesis unfolding c(2) by (rule metadata_no_content [OF assms(4) c(1) assms(5)])
  qed
qed

definition sample_task :: obj where
  "sample_task = [(''event_type'', JStr ''task''), (''fleet'', JStr ''f''),
     (''payload'', JObj [(''event'', JStr ''completed''), (''summary'', JStr ''done''), (''by'', JStr ''ann'')])]"

lemma staged_batch_holds_no_content_witness:
  "no_content (event_type ([sample_task] ! 0))
     (jget (JObj ([[(''event_type'', JStr ''task''), (''fleet'', JStr ''f''),
       (''payload'', JObj [(''event'', JStr ''completed''), (''by'', JStr ''ann'')])]] ! 0)) ''payload'')"
proof (rule staged_batch_holds_no_content)
  show "apply_to_batch no_sha (Text (Some (JObj [(''f'', JStr ''metadata'')]))) [sample_task]
    = Inr [[(''event_type'', JStr ''task''), (''fleet'', JStr ''f''),
       (''payload'', JObj [(''event'', JStr ''completed''), (''by'', JStr ''ann'')])]]" by code_simp
  show "load_capture_config (Text (Some (JObj [(''f'', JStr ''metadata'')]))) = Inr [(''f'', ''metadata'')]" by code_simp
  show "capture_mode [(''f'', ''metadata'')] (jget (JObj ([sample_task] ! 0)) ''fleet'') = ''metadata''" by code_simp
  show "is_obj (jget (JObj ([sample_task] ! 0)) ''payload'')" by code_simp
qed simp

text \<open>
  C23. Words once withheld are never said to be kept: a communication captured as metadata stays
  metadata, without a body and with the proof of the full one, under any policy a later replay
  applies.
\<close>

theorem withheld_stays_withheld:
  assumes "event_type raw = ''communication''" "jget (JObj raw) ''payload'' = JObj kvs"
    and "jget (JObj kvs) ''body'' = JStr body"
    and "capture_mode modes (jget (JObj raw) ''fleet'') = ''metadata''"
    and "apply_capture sha raw modes = Inr (Some r)"
  shows "\<exists>r' p. apply_capture sha r later = Inr (Some r') \<and> jget (JObj r') ''payload'' = JObj p
    \<and> jget (JObj p) ''body'' = JNull \<and> jget (JObj p) ''privacy'' = JStr ''metadata''
    \<and> jget (JObj p) ''body_bytes'' = JInt (utf8_len (ansi_strip body))
    \<and> jget (JObj p) ''body_sha256'' = JStr (''sha256:'' @ sha (ansi_strip body))"
proof -
  from assms obtain q where q: "strip_body sha kvs = Inr q" "r = with_payload raw q"
    by (auto simp: apply_capture_def Let_def capture_communication_def payload_of_def split: sum.splits)
  note first = strip_body_result [OF q(1)]
  have w: "withheld q" using first assms(3) by (simp add: withheld_def)
  then have "strip_body sha q = Inr (alist_set ''privacy'' (JStr ''metadata'') q)"
    by (simp add: withheld_def strip_body_def)
  with w q(2) assms(1) have "apply_capture sha r later = Inr (Some (with_payload r (alist_set ''privacy'' (JStr ''metadata'') q)))"
    by (simp add: apply_capture_def Let_def payload_of_def capture_communication_def)
  with first assms(3) show ?thesis by (intro exI conjI) auto
qed

definition sample_message :: obj where
  "sample_message = [(''event_type'', JStr ''communication''), (''payload'', JObj [(''body'', JStr ''hi'')])]"

lemma withheld_stays_withheld_witness:
  "\<exists>r' p. apply_capture no_sha (captured_of [] (projr (apply_capture no_sha sample_message [(''*'', ''metadata'')]))) [] = Inr (Some r')
    \<and> jget (JObj r') ''payload'' = JObj p
    \<and> jget (JObj p) ''body'' = JNull \<and> jget (JObj p) ''privacy'' = JStr ''metadata''
    \<and> jget (JObj p) ''body_bytes'' = JInt (utf8_len (ansi_strip ''hi''))
    \<and> jget (JObj p) ''body_sha256'' = JStr (''sha256:'' @ no_sha (ansi_strip ''hi''))"
proof (rule withheld_stays_withheld)
  show "event_type sample_message = ''communication''" by code_simp
  show "jget (JObj sample_message) ''payload'' = JObj [(''body'', JStr ''hi'')]" by code_simp
  show "jget (JObj [(''body'', JStr ''hi'')]) ''body'' = JStr ''hi''" by code_simp
  show "capture_mode [(''*'', ''metadata'')] (jget (JObj sample_message) ''fleet'') = ''metadata''" by code_simp
  show "apply_capture no_sha sample_message [(''*'', ''metadata'')]
    = Inr (Some (captured_of [] (projr (apply_capture no_sha sample_message [(''*'', ''metadata'')]))))" by code_simp
qed

text \<open>
  Stripping never launders what a replay would refuse: an event staged under a metadata policy
  had, in every content field it carried, text within the field's byte cap.
\<close>

theorem staged_within_caps:
  assumes "stage_event sha cfg e = Inr e'" "load_capture_config cfg = Inr modes"
    and "capture_mode modes (jget (JObj e) ''fleet'') = ''metadata''"
    and "event_type e \<noteq> ''communication''" "jget (JObj e) ''payload'' = JObj before"
    and "f \<in> set (CONTENT_FIELDS (event_type e))" "jget (JObj before) f \<noteq> JNull"
  shows "\<not> over_cap (event_type e) f (jget (JObj before) f)"
proof
  let ?fs = "CONTENT_FIELDS (event_type e)"
  assume over: "over_cap (event_type e) f (jget (JObj before) f)"
  have "f \<in> fst ` set before"
    using assms(7) by (auto simp: jget.simps split: option.splits dest!: map_of_SomeD) force
  with assms(6) have k: "\<exists>f \<in> set ?fs. f \<in> fst ` set before" by blast
  then have n: "needs_config e" by (auto simp: needs_config_def)
  have a: "apply_capture sha e modes = Inr (Some (with_payload e (drop_fields ?fs before)))"
    using k assms(3,4,5) by (auto simp: apply_capture_def Let_def payload_of_def)
  have "filter (\<lambda>f. \<not> jhas (JObj (drop_fields ?fs before)) f \<and> jget (JObj before) f \<noteq> JNull
      \<and> over_cap (event_type e) f (jget (JObj before) f)) ?fs \<noteq> []"
    using assms(6,7) over by (auto simp: keys_drop_fields filter_empty_conv)
  then have "refuse_before_strip e (with_payload e (drop_fields ?fs before)) \<noteq> None"
    using assms(4,5) by (auto simp: refuse_before_strip_def Let_def split: list.split)
  with assms(1,2,3) n a show False
    by (auto simp: stage_event_def split: option.splits if_splits)
qed

lemma staged_within_caps_witness: "\<not> over_cap (event_type sample_task) ''summary'' (jget (JObj
    [(''event'', JStr ''completed''), (''summary'', JStr ''done''), (''by'', JStr ''ann'')]) ''summary'')"
proof (rule staged_within_caps)
  show "stage_event no_sha (Text (Some (JObj [(''f'', JStr ''metadata'')]))) sample_task
    = Inr [(''event_type'', JStr ''task''), (''fleet'', JStr ''f''),
       (''payload'', JObj [(''event'', JStr ''completed''), (''by'', JStr ''ann'')])]" by code_simp
  show "load_capture_config (Text (Some (JObj [(''f'', JStr ''metadata'')]))) = Inr [(''f'', ''metadata'')]" by code_simp
  show "capture_mode [(''f'', ''metadata'')] (jget (JObj sample_task) ''fleet'') = ''metadata''" by code_simp
  show "event_type sample_task \<noteq> ''communication''" by code_simp
  show "jget (JObj sample_task) ''payload'' =
    JObj [(''event'', JStr ''completed''), (''summary'', JStr ''done''), (''by'', JStr ''ann'')]" by code_simp
  show "''summary'' \<in> set (CONTENT_FIELDS (event_type sample_task))" by code_simp
  show "jget (JObj [(''event'', JStr ''completed''), (''summary'', JStr ''done''), (''by'', JStr ''ann'')]) ''summary'' \<noteq> JNull"
    by code_simp
qed

text \<open>
  The proof of a body is of the whole of it: the size and digest are those of the full
  stripped text, the kept body is a prefix of it within the byte cap, cut exactly when the text
  is over the cap.
\<close>

theorem body_proof_whole:
  "body_proof sha text = (body, nbytes, digest, truncated) \<Longrightarrow>
     nbytes = utf8_len (ansi_strip text) \<and> digest = ''sha256:'' @ sha (ansi_strip text)
     \<and> utf8_len body \<le> body_cap \<and> (\<exists>k. body = take k (ansi_strip text))
     \<and> (truncated \<longleftrightarrow> body_cap < nbytes)
     \<and> body = (if truncated then utf8_prefix body_cap (ansi_strip text) else ansi_strip text)"
proof -
  assume p: "body_proof sha text = (body, nbytes, digest, truncated)"
  let ?s = "ansi_strip text"
  have "0 \<le> body_cap" by (simp add: body_cap_def cap_for_def FIELD_POLICY_def)
  then have fits: "utf8_len (utf8_prefix body_cap ?s) \<le> body_cap" by (rule utf8_prefix_fits)
  obtain k where k: "utf8_prefix body_cap ?s = take k ?s" using utf8_prefix_take by blast
  have "body = take (length ?s) ?s \<or> body = take k ?s"
    using p k by (auto simp: body_proof_def Let_def split: if_splits)
  then have "\<exists>k. body = take k ?s" by blast
  with p fits show ?thesis by (auto simp: body_proof_def Let_def split: if_splits)
qed

lemma body_proof_whole_witness:
  "(5::int) = utf8_len (ansi_strip ([CHR 0x1B] @ ''[1mab'' @ [CHR 0xE9, CHR ''c''])) \<and> ''sha256:00'' = ''sha256:'' @ no_sha (ansi_strip ([CHR 0x1B] @ ''[1mab'' @ [CHR 0xE9, CHR ''c'']))
     \<and> utf8_len (''ab'' @ [CHR 0xE9, CHR ''c'']) \<le> body_cap
     \<and> (\<exists>k. ''ab'' @ [CHR 0xE9, CHR ''c''] = take k (ansi_strip ([CHR 0x1B] @ ''[1mab'' @ [CHR 0xE9, CHR ''c''])))
     \<and> (False \<longleftrightarrow> body_cap < (5::int))
     \<and> ''ab'' @ [CHR 0xE9, CHR ''c''] = (if False then utf8_prefix body_cap (ansi_strip ([CHR 0x1B] @ ''[1mab'' @ [CHR 0xE9, CHR ''c'']))
         else ansi_strip ([CHR 0x1B] @ ''[1mab'' @ [CHR 0xE9, CHR ''c'']))"
proof (rule body_proof_whole)
  show "body_proof no_sha ([CHR 0x1B] @ ''[1mab'' @ [CHR 0xE9, CHR ''c''])
    = (''ab'' @ [CHR 0xE9, CHR ''c''], 5, ''sha256:00'', False)" by code_simp
qed

end
