(* ===== verification/Wire_Models.thy ===== *)
theory Wire_Models
  imports Plane_Ids Capture_Policy
begin

text \<open>
  How a wire model reads a JSON object (\<open>claudlobby/plane/contracts.py\<close>, class
  \<open>_Strict\<close>): a class declares its fields in order, each with a type, its constraints and
  perhaps a default; an unknown key is refused (\<open>extra="forbid"\<close>), an absent field takes its
  default and a value that does not fit its field refuses the object. A read object has a value
  for every field, in the order of the declaration.

  Pydantic's lax coercions, of values to integers, booleans and instants with a time zone, are
  the argument \<open>x\<close>: an instant is kept as its ISO text. A text is only read from a text.
\<close>

section \<open>Field types\<close>

record lax =
  lax_int :: "json \<Rightarrow> int option"
  lax_bool :: "json \<Rightarrow> bool option"
  lax_time :: "json \<Rightarrow> string option"

datatype ftype =
    FStr
  | FMin nat
  | FMax nat
  | FMatch "string \<Rightarrow> bool"
  | FOneOf "string list"
  | FCapped string string
  | FInt "int option" "int option"
  | FBool
  | FTime
  | FDict
  | FDictOf ftype
  | FList ftype
  | FAny
  | FNotNull
  | FOpt ftype
  | FModel "(string \<times> ftype \<times> json option) list" "obj \<Rightarrow> bool"

type_synonym field = "string \<times> ftype \<times> json option"

text \<open>\<open>_reject_over_cap\<close>: authored content over its cap in UTF-8 bytes is refused.\<close>

definition reject_over_cap :: "string \<Rightarrow> string \<Rightarrow> string \<Rightarrow> string option" where
  "reject_over_cap family field v =
     (case cap_for family field of None \<Rightarrow> None
      | Some cap \<Rightarrow> if cap < utf8_len v then None else Some v)"

definition in_bounds :: "int option \<Rightarrow> int option \<Rightarrow> int \<Rightarrow> bool" where
  "in_bounds ge le i \<longleftrightarrow> (case ge of None \<Rightarrow> True | Some a \<Rightarrow> a \<le> i) \<and> (case le of None \<Rightarrow> True | Some b \<Rightarrow> i \<le> b)"

definition text_if :: "(string \<Rightarrow> bool) \<Rightarrow> json \<Rightarrow> json option" where
  "text_if P v = (case v of JStr s \<Rightarrow> if P s then Some v else None | _ \<Rightarrow> None)"

fun all_some :: "'a option list \<Rightarrow> 'a list option" where
  "all_some [] = Some []"
| "all_some (x # xs) = (case x of None \<Rightarrow> None | Some y \<Rightarrow> map_option ((#) y) (all_some xs))"

definition field_names :: "field list \<Rightarrow> string list" where
  "field_names fs = map fst fs"

definition no_extra :: "string list \<Rightarrow> obj \<Rightarrow> bool" where
  "no_extra names kvs \<longleftrightarrow> (\<forall>kv \<in> set kvs. fst kv \<in> set names)"

fun read_value :: "lax \<Rightarrow> ftype \<Rightarrow> json \<Rightarrow> json option"
  and read_fields :: "lax \<Rightarrow> field list \<Rightarrow> obj \<Rightarrow> obj option" where
  "read_value x FStr v = text_if (\<lambda>_. True) v"
| "read_value x (FMin n) v = text_if (\<lambda>s. n \<le> length s) v"
| "read_value x (FMax n) v = text_if (\<lambda>s. length s \<le> n) v"
| "read_value x (FMatch P) v = text_if P v"
| "read_value x (FOneOf vs) v = text_if (\<lambda>s. s \<in> set vs) v"
| "read_value x (FCapped family field) v = text_if (\<lambda>s. reject_over_cap family field s \<noteq> None) v"
| "read_value x (FInt ge le) v =
     (case lax_int x v of None \<Rightarrow> None | Some i \<Rightarrow> if in_bounds ge le i then Some (JInt i) else None)"
| "read_value x FBool v = map_option JBool (lax_bool x v)"
| "read_value x FTime v = map_option JStr (lax_time x v)"
| "read_value x FDict v = (if is_obj v then Some v else None)"
| "read_value x (FDictOf t) v =
     (case v of JObj kvs \<Rightarrow> map_option (\<lambda>vs. JObj (zip (map fst kvs) vs)) (all_some (map (\<lambda>kv. read_value x t (snd kv)) kvs))
      | _ \<Rightarrow> None)"
| "read_value x (FList t) v =
     (case v of JArr vs \<Rightarrow> map_option JArr (all_some (map (read_value x t) vs)) | _ \<Rightarrow> None)"
| "read_value x FAny v = Some v"
| "read_value x FNotNull v = (if v = JNull then None else Some v)"
| "read_value x (FOpt t) v = (if v = JNull then Some JNull else read_value x t v)"
| "read_value x (FModel fs ok) v =
     (case v of JObj kvs \<Rightarrow>
          if no_extra (field_names fs) kvs
          then (case read_fields x fs kvs of None \<Rightarrow> None | Some kvs' \<Rightarrow> if ok kvs' then Some (JObj kvs') else None)
          else None
      | _ \<Rightarrow> None)"
| "read_fields x [] kvs = Some []"
| "read_fields x ((n, t, d) # fs) kvs =
     (case (case map_of kvs n of Some v \<Rightarrow> read_value x t v | None \<Rightarrow> d) of None \<Rightarrow> None
      | Some v \<Rightarrow> map_option ((#) (n, v)) (read_fields x fs kvs))"

section \<open>Models\<close>

text \<open>A model: its fields, and what runs on the object read (\<open>model_post_init\<close> or a validator
  with \<open>mode="after"\<close>).\<close>

record model =
  m_fields :: "field list"
  m_after :: "(string \<Rightarrow> string) \<Rightarrow> obj \<Rightarrow> obj option"

definition model_validate :: "(string \<Rightarrow> string) \<Rightarrow> lax \<Rightarrow> model \<Rightarrow> json \<Rightarrow> obj option" where
  "model_validate sha x m v =
     (case v of JObj kvs \<Rightarrow>
          if no_extra (field_names (m_fields m)) kvs
          then Option.bind (read_fields x (m_fields m) kvs) (m_after m sha) else None
      | _ \<Rightarrow> None)"

text \<open>The value of a field: \<open>payload.name\<close>.\<close>

abbreviation fld :: "obj \<Rightarrow> string \<Rightarrow> json" where
  "fld o' n \<equiv> jget (JObj o') n"

section \<open>Facts\<close>

declare jget.simps [simp del]

lemma all_some_length: "all_some xs = Some ys \<Longrightarrow> length ys = length xs"
  by (induction xs arbitrary: ys) (auto split: option.splits)

lemma read_fields_names: "read_fields x fs kvs = Some o' \<Longrightarrow> map fst o' = field_names fs"
  by (induction fs arbitrary: o') (auto simp: field_names_def split: option.splits)

text \<open>What a field holds after reading: the value read of the key's, or the default.\<close>

definition field_value :: "lax \<Rightarrow> ftype \<Rightarrow> json option \<Rightarrow> obj \<Rightarrow> string \<Rightarrow> json option" where
  "field_value x t d kvs n = (case map_of kvs n of Some v \<Rightarrow> read_value x t v | None \<Rightarrow> d)"

lemma read_fields_value:
  "read_fields x fs kvs = Some o' \<Longrightarrow> distinct (field_names fs) \<Longrightarrow> (n, t, d) \<in> set fs
     \<Longrightarrow> field_value x t d kvs n = Some (fld o' n)"
proof (induction fs arbitrary: o')
  case (Cons f fs)
  obtain m u e where f: "f = (m, u, e)" by (metis prod_cases3)
  from Cons.prems(1) obtain v o1 where v: "field_value x u e kvs m = Some v" and r: "read_fields x fs kvs = Some o1"
    and o': "o' = (m, v) # o1" by (auto simp: f field_value_def split: option.splits)
  show ?case
  proof (cases "(n, t, d) = f")
    case True
    with v f show ?thesis by (simp add: o' jget.simps)
  next
    case False
    with Cons.prems(2,3) have "n \<noteq> m" by (auto simp: f field_names_def image_iff)
    with Cons.IH [OF r] Cons.prems(2,3) False show ?thesis by (simp add: o' f field_names_def jget.simps)
  qed
qed simp

text \<open>The shapes of values that a type lets through, whatever pydantic coerces.\<close>

lemma text_if_Some: "text_if P v = Some w \<longleftrightarrow> (\<exists>s. v = JStr s \<and> w = JStr s \<and> P s)"
  by (auto simp: text_if_def split: json.splits if_splits)

text \<open>What a field's type promises of its value, whatever pydantic coerces.\<close>

fun shape :: "ftype \<Rightarrow> json \<Rightarrow> bool" where
  "shape (FMin n) v = (case v of JStr s \<Rightarrow> n \<le> length s | _ \<Rightarrow> False)"
| "shape (FMax n) v = (case v of JStr s \<Rightarrow> length s \<le> n | _ \<Rightarrow> False)"
| "shape (FMatch P) v = (case v of JStr s \<Rightarrow> P s | _ \<Rightarrow> False)"
| "shape (FOneOf vs) v = (case v of JStr s \<Rightarrow> s \<in> set vs | _ \<Rightarrow> False)"
| "shape (FInt ge le) v = (case v of JInt i \<Rightarrow> in_bounds ge le i | _ \<Rightarrow> False)"
| "shape FBool v = (case v of JBool b \<Rightarrow> True | _ \<Rightarrow> False)"
| "shape FStr v = is_str v"
| "shape FTime v = is_str v"
| "shape (FCapped family field) v =
     (case v of JStr s \<Rightarrow> (case cap_for family field of None \<Rightarrow> False | Some cap \<Rightarrow> utf8_len s \<le> cap) | _ \<Rightarrow> False)"
| "shape (FOpt t) v = (v = JNull \<or> shape t v)"
| "shape FNotNull v = (v \<noteq> JNull)"
| "shape FDict v = is_obj v"
| "shape _ v = True"

lemma read_value_shape: "read_value x t v = Some w \<Longrightarrow> shape t w"
  by (induction t arbitrary: v w)
    (auto simp: text_if_Some reject_over_cap_def split: option.splits if_splits json.splits)

definition defaults_fit :: "field list \<Rightarrow> bool" where
  "defaults_fit fs = list_all (\<lambda>(n, t, d). case d of None \<Rightarrow> True | Some v \<Rightarrow> shape t v) fs"

text \<open>Every field of a read object has its shape.\<close>

definition fits :: "field list \<Rightarrow> obj \<Rightarrow> bool" where
  "fits fs p = list_all (\<lambda>(n, t, d). shape t (fld p n)) fs"

lemma read_fields_fit:
  assumes r: "read_fields x fs kvs = Some p" and d: "distinct (field_names fs)" and df: "defaults_fit fs"
  shows "fits fs p"
proof -
  have "shape t (fld p n)" if f: "(n, t, e) \<in> set fs" for n t e
  proof -
    from read_fields_value [OF r d f] have v: "field_value x t e kvs n = Some (fld p n)" .
    show ?thesis
    proof (cases "map_of kvs n")
      case None
      with v have "e = Some (fld p n)" by (simp add: field_value_def)
      with df f show ?thesis by (auto simp: defaults_fit_def list_all_iff)
    next
      case (Some u)
      with v have "read_value x t u = Some (fld p n)" by (simp add: field_value_def)
      then show ?thesis by (rule read_value_shape)
    qed
  qed
  then show ?thesis by (auto simp: fits_def list_all_iff)
qed

text \<open>A declaration whose names are distinct and whose defaults fit their own types.\<close>

definition well_declared :: "field list \<Rightarrow> bool" where
  "well_declared fs \<longleftrightarrow> distinct (field_names fs) \<and> defaults_fit fs"

lemma model_validate_plain:
  assumes "model_validate sha x m v = Some p" "well_declared (m_fields m)"
  obtains kvs q where "v = JObj kvs" "no_extra (field_names (m_fields m)) kvs"
    "read_fields x (m_fields m) kvs = Some q" "m_after m sha q = Some p" "fits (m_fields m) q"
    "map fst q = field_names (m_fields m)"
  using assms
  by (auto simp: model_validate_def well_declared_def dest: read_fields_fit read_fields_names
      split: json.splits if_splits bind_splits)

lemma fits_field: "fits fs p \<Longrightarrow> (n, t, d) \<in> set fs \<Longrightarrow> shape t (fld p n)"
  by (auto simp: fits_def list_all_iff)

lemma fits_alist_set:
  "fits fs p \<Longrightarrow> list_all (\<lambda>(n, t, d). n = k \<longrightarrow> shape t v) fs \<Longrightarrow> fits fs (alist_set k v p)"
  by (auto simp: fits_def list_all_iff)

end
