(* ===== verification/Contracts.thy ===== *)
theory Contracts
  imports Wire_Models
begin

text \<open>
  The wire contracts (\<open>claudlobby/plane/contracts.py\<close>): the closed vocabularies, the kind
  manifest of the event stream, one model per family of events with what it checks after
  reading, the models of the registry's entities, and \<open>validate_request\<close>, the door that
  every event passes. A refusal names where it was found; pydantic's list of messages is not
  modelled. A snapshot's payload is validated against its entity's model and kept as it came.
\<close>

section \<open>Vocabularies\<close>

definition MESSAGE_CLASSES :: "string list" where
  "MESSAGE_CLASSES =
    [''task_request'', ''report'', ''question'', ''answer'', ''alert'', ''notice'',
     ''briefing'', ''nudge'', ''acknowledgement'', ''chat'', ''config_change'',
     ''raw_control'']"

definition COMMAND_TYPES :: "string list" where
  "COMMAND_TYPES =
    [''task'', ''cancel'', ''compact'', ''restart'', ''query'']"

definition ATTEMPT_STATES :: "string list" where
  "ATTEMPT_STATES =
    [''send_attempted'', ''carrier_accepted'', ''carrier_queued'', ''pane_submitted'',
     ''failed'', ''unknown'', ''recipient_acknowledged'', ''duplicate_suppressed'',
     ''received'']"

definition LINK_SOURCES :: "string list" where
  "LINK_SOURCES =
    [''named'', ''auto-resolved'']"

definition PR_WITHHELD_REASONS :: "string list" where
  "PR_WITHHELD_REASONS =
    [''guessed_link'']"

definition TASK_EVENTS :: "string list" where
  "TASK_EVENTS =
    [''dispatch_intended'', ''transmission_failed'', ''dispatch_submitted'', ''accepted'',
     ''rejected'', ''progress'', ''blocked_waiting'', ''returned_blocked'', ''resumed'',
     ''completed'', ''failed'', ''cancelled'', ''deadline_changed'', ''superseded'',
     ''reassigned'', ''retry_created'', ''orphaned_by_session_loss'',
     ''recovered_after_restart'', ''expired'', ''supplied_id_not_open'', ''escalated'',
     ''nudged'']"

definition DECLARATION_EVENTS :: "string list" where
  "DECLARATION_EVENTS =
    [''revision_seen'', ''scan_completed'']"

definition SYSTEM_SUBJECT_KINDS :: "string list" where
  "SYSTEM_SUBJECT_KINDS =
    [''host'', ''vault'', ''fleet'', ''actor'', ''bot_instance'', ''session'']"

definition WORKSTREAM_EVENTS :: "string list" where
  "WORKSTREAM_EVENTS =
    [''progressed'', ''renewed'', ''blocked'', ''unblocked'', ''closed'', ''archived'',
     ''plan_linked'', ''plan_unlinked'']"

definition CARRIERS :: "string list" where
  "CARRIERS =
    [''tmux'', ''telegram-tgpost'', ''telegram-bridge'']"


section \<open>The kind manifest\<close>

definition STREAM_COLS :: "string list" where
  "STREAM_COLS =
    [''event'', ''carrier'', ''attempt_no'', ''carrier_ref'', ''msg_id'', ''work_item_id'',
     ''assignment_id'', ''workstream_id'', ''subject_kind'', ''subject_uid'', ''subject_alias'',
     ''actor_uid'', ''session_uid'', ''severity'', ''deadline'', ''successor_id'', ''renewed_until'']"

text \<open>A group: an anchor whose columns come together or not at all, and what may come only with it.\<close>

record kind_rule =
  k_vocab :: "string list option"
  k_require :: "string list"
  k_allowed :: "string list"
  k_groups :: "(string list \<times> string list) list"

definition KIND_MANIFEST :: "(string \<times> kind_rule) list" where
  "KIND_MANIFEST =
    [(''transmission'', \<lparr>k_vocab = Some ATTEMPT_STATES,
        k_require = [''event'', ''msg_id'', ''carrier'', ''attempt_no''], k_allowed = [''carrier_ref''], k_groups = []\<rparr>),
     (''task'', \<lparr>k_vocab = Some TASK_EVENTS, k_require = [''event'', ''work_item_id''],
        k_allowed = [''assignment_id'', ''actor_uid'', ''session_uid'', ''deadline'', ''successor_id''], k_groups = []\<rparr>),
     (''workstream'', \<lparr>k_vocab = Some WORKSTREAM_EVENTS, k_require = [''event'', ''workstream_id''],
        k_allowed = [''actor_uid'', ''renewed_until''], k_groups = []\<rparr>),
     (''system'', \<lparr>k_vocab = None, k_require = [''event''], k_allowed = [''severity''],
        k_groups = [([''subject_kind'', ''subject_uid''], [''subject_alias''])]\<rparr>),
     (''declaration'', \<lparr>k_vocab = Some DECLARATION_EVENTS,
        k_require = [''event'', ''subject_kind'', ''subject_uid''], k_allowed = [''subject_alias''], k_groups = []\<rparr>)]"

definition kind_forbidden :: "kind_rule \<Rightarrow> string list" where
  "kind_forbidden k =
     filter (\<lambda>c. c \<notin> set (k_require k) \<union> set (k_allowed k) \<union> (\<Union>g \<in> set (k_groups k). set (fst g) \<union> set (snd g)))
       STREAM_COLS"

definition FLEET_REQUIRED :: "string list" where
  "FLEET_REQUIRED =
    [''communication'', ''work_item'', ''assignment'', ''transmission'', ''task'', ''workstream'', ''workstream_event'']"

section \<open>Patterns\<close>

definition is_lower :: "char \<Rightarrow> bool" where
  "is_lower c \<longleftrightarrow> 97 \<le> code c \<and> code c \<le> 122"

text \<open>\<open>^[0-9]+\\.[0-9]+\\.[0-9]+$\<close>.\<close>

definition version_text :: "string \<Rightarrow> bool" where
  "version_text s =
     (let r1 = dropWhile is_digit s; r2 = dropWhile is_digit (drop 1 r1); r3 = dropWhile is_digit (drop 1 r2) in
      takeWhile is_digit s \<noteq> [] \<and> take 1 r1 = ''.'' \<and> takeWhile is_digit (drop 1 r1) \<noteq> []
      \<and> take 1 r2 = ''.'' \<and> takeWhile is_digit (drop 1 r2) \<noteq> [] \<and> r3 = [])"

text \<open>\<open>^[a-z][a-z0-9-]*$\<close> and \<open>^[a-z][a-z0-9_]{0,63}$\<close>.\<close>

definition project_slug :: "string \<Rightarrow> bool" where
  "project_slug s = (case s of [] \<Rightarrow> False
     | c # cs \<Rightarrow> is_lower c \<and> (\<forall>d \<in> set cs. is_lower d \<or> is_digit d \<or> d = CHR ''-''))"

definition event_token :: "string \<Rightarrow> bool" where
  "event_token s = (case s of [] \<Rightarrow> False
     | c # cs \<Rightarrow> is_lower c \<and> length cs \<le> 63 \<and> (\<forall>d \<in> set cs. is_lower d \<or> is_digit d \<or> d = CHR ''_''))"

text \<open>
  \<open>[^/\\s]+/[^/\\s]+\<close>, which is searched for: somewhere a slash between two characters that are
  neither slashes nor blanks (Unicode's \<open>White_Space\<close>, the regular expression engine's \<open>\\s\<close>).
\<close>

definition repo_char :: "char \<Rightarrow> bool" where
  "repo_char c \<longleftrightarrow> c \<noteq> CHR ''/'' \<and> code c \<notin> {9, 10, 11, 12, 13, 32, 133, 160}"

fun repo_text :: "string \<Rightarrow> bool" where
  "repo_text (a # b # c # s) = (repo_char a \<and> b = CHR ''/'' \<and> repo_char c \<or> repo_text (b # c # s))"
| "repo_text _ = False"

section \<open>The entities of the registry\<close>

text \<open>\<open>_a_version_or_the_reason_there_is_none\<close>.\<close>

definition HostSystem_check :: "obj \<Rightarrow> bool" where
  "HostSystem_check p \<longleftrightarrow> (fld p ''claude_version'' = JNull) \<noteq> (fld p ''claude_version_unmeasured'' = JNull)"

definition HostSystem_fields :: "field list" where
  "HostSystem_fields =
    [(''claudlobby_version'', FStr, None),
     (''claude_version'', FOpt (FMatch version_text), None),
     (''claude_version_unmeasured'', FOpt FStr, Some JNull),
     (''node_version'', FOpt FStr, Some JNull),
     (''python_version'', FStr, None),
     (''host_jobs'', FList FDict, Some (JArr [])),
     (''plugins'', FList FDict, Some (JArr [])),
     (''emitters'', FList FDict, Some (JArr [])),
     (''defaults_tier_hash'', FStr, None)]"

definition HostPayload_fields :: "field list" where
  "HostPayload_fields =
    [(''host_uid'', FOpt FStr, Some JNull),
     (''aliases'', FDict, None),
     (''os'', FOneOf [''linux'', ''darwin''], None),
     (''arch'', FStr, None),
     (''kernel'', FStr, None),
     (''ram_total_mb'', FInt None None, None),
     (''disk_total_gb'', FInt None None, None),
     (''system'', FModel HostSystem_fields HostSystem_check, None),
     (''declared_fleets'', FList FStr, None),
     (''schema_version'', FStr, None)]"

definition VaultCompat_fields :: "field list" where
  "VaultCompat_fields =
    [(''floor'', FStr, None),
     (''cli_version'', FOpt FStr, Some JNull),
     (''ok'', FOpt FBool, Some JNull)]"

definition VaultPayload_fields :: "field list" where
  "VaultPayload_fields =
    [(''vault_uid'', FOpt FStr, Some JNull),
     (''alias'', FStr, None),
     (''role'', FOneOf [''primary'', ''mounted''], None),
     (''mount_path'', FStr, None),
     (''remote'', FStr, None),
     (''compat'', FModel VaultCompat_fields (\<lambda>_. True), None),
     (''carries_fleets'', FBool, None),
     (''gitignore_safe'', FBool, None),
     (''schema_version'', FStr, None)]"

definition FleetGroup_fields :: "field list" where
  "FleetGroup_fields =
    [(''name'', FStr, None),
     (''manager'', FStr, None),
     (''members'', FList FStr, None),
     (''mission'', FOpt FStr, Some JNull)]"

definition FleetDefaults_fields :: "field list" where
  "FleetDefaults_fields =
    [(''model'', FStr, None),
     (''effort'', FOpt FStr, Some JNull),
     (''account'', FStr, None),
     (''list_tier_hashes'', FDictOf FStr, None)]"

definition FleetPayload_fields :: "field list" where
  "FleetPayload_fields =
    [(''fleet_uid'', FOpt FStr, Some JNull),
     (''alias'', FStr, None),
     (''service_prefix'', FStr, None),
     (''mission'', FOpt FStr, Some JNull),
     (''mission_file'', FOpt FDict, Some JNull),
     (''manager'', FAny, None),
     (''groups'', FList (FModel FleetGroup_fields (\<lambda>_. True)), Some (JArr [])),
     (''org_edges'', FList FDict, Some (JArr [])),
     (''roster'', FList FStr, None),
     (''defaults_summary'', FModel FleetDefaults_fields (\<lambda>_. True), None),
     (''env_keys'', FList FStr, Some (JArr [])),
     (''jobs'', FList FDict, Some (JArr [])),
     (''plugins_additional'', FList FStr, Some (JArr [])),
     (''vault_binding'', FDict, None),
     (''telegram'', FOpt FDict, Some JNull),
     (''declared_hash'', FStr, None),
     (''vault_rev'', FOpt FStr, Some JNull),
     (''schema_version'', FStr, None)]"

definition ProjectPayload_fields :: "field list" where
  "ProjectPayload_fields =
    [(''project_uid'', FOpt FStr, Some JNull),
     (''key'', FStr, None),
     (''fleet_uid'', FOpt FStr, Some JNull),
     (''title'', FStr, None),
     (''repos'', FList FStr, None),
     (''tier'', FOneOf [''auto'', ''review'', ''preview'', ''human''], None),
     (''validation_hash'', FStr, None),
     (''mission_file'', FOpt FDict, Some JNull),
     (''declared_hash'', FStr, None),
     (''vault_rev'', FOpt FStr, Some JNull),
     (''schema_version'', FStr, None)]"

definition LibraryItemPayload_fields :: "field list" where
  "LibraryItemPayload_fields =
    [(''library_item_uid'', FOpt FStr, Some JNull),
     (''category'', FStr, None),
     (''name'', FStr, None),
     (''source_tier'', FOneOf [''shared'', ''fleet-overlay''], None),
     (''fleet_uid'', FOpt FStr, Some JNull),
     (''content_hash'', FStr, None),
     (''title'', FOpt FStr, Some JNull),
     (''description'', FOpt FStr, Some JNull),
     (''declared_hash'', FStr, None),
     (''vault_rev'', FOpt FStr, Some JNull),
     (''schema_version'', FStr, None)]"

definition BotPosture_fields :: "field list" where
  "BotPosture_fields =
    [(''permissions_mode'', FStr, None),
     (''tool_allow'', FList FStr, Some (JArr [])),
     (''tool_deny'', FList FStr, Some (JArr [])),
     (''sandbox'', FDict, Some (JObj [])),
     (''permissions_grants'', FDict, Some (JObj [])),
     (''hooks'', FList FDict, Some (JArr [])),
     (''env_keys'', FList FStr, Some (JArr [])),
     (''rc_enabled'', FBool, Some (JBool False)),
     (''telegram'', FDict, Some (JObj [])),
     (''git_credentials_profile'', FOpt FStr, Some JNull)]"

definition BotPayload_fields :: "field list" where
  "BotPayload_fields =
    [(''actor_uid'', FOpt FStr, Some JNull),
     (''bot_instance_uid'', FOpt FStr, Some JNull),
     (''alias'', FStr, None),
     (''display_name'', FOpt FStr, Some JNull),
     (''fleet_uid'', FOpt FStr, Some JNull),
     (''account'', FStr, None),
     (''service'', FStr, None),
     (''model'', FStr, None),
     (''effort'', FOpt FStr, Some JNull),
     (''agent_cli'', FOpt (FOneOf [''claude'', ''codex'']), Some JNull),
     (''org'', FDict, Some (JObj [])),
     (''equipment'', FDict, Some (JObj [])),
     (''posture'', FModel BotPosture_fields (\<lambda>_. True), None),
     (''schedule'', FDict, Some (JObj [])),
     (''vault_binding'', FOpt FDict, Some JNull),
     (''composed_hashes'', FDict, None),
     (''declared_hash'', FStr, None),
     (''vault_rev'', FOpt FStr, Some JNull),
     (''schema_version'', FStr, None)]"

section \<open>The payloads of the families\<close>

definition Communication_fields :: "field list" where
  "Communication_fields =
    [(''msg_id'', FMatch (id_of ''msg''), None),
     (''sender'', FMin 1, None),
     (''sender_session_uid'', FOpt (FMatch (id_of ''session'')), Some JNull),
     (''recipient'', FOpt FStr, Some JNull),
     (''recipient_raw'', FOpt FStr, Some JNull),
     (''message_class'', FOneOf MESSAGE_CLASSES, None),
     (''command_type'', FOpt (FOneOf COMMAND_TYPES), Some JNull),
     (''work_item_id'', FOpt (FMatch (id_of ''work_item'')), Some JNull),
     (''assignment_id'', FOpt (FMatch (id_of ''assignment'')), Some JNull),
     (''workstream_id'', FOpt FStr, Some JNull),
     (''deliberation_id'', FOpt FStr, Some JNull),
     (''reply_to_msg_id'', FOpt (FMatch (id_of ''msg'')), Some JNull),
     (''supersedes_msg_id'', FOpt (FMatch (id_of ''msg'')), Some JNull),
     (''body'', FOpt FStr, Some JNull),
     (''privacy'', FOneOf [''metadata'', ''preview'', ''full''], Some (JStr ''metadata'')),
     (''idempotency_key'', FOpt FStr, Some JNull),
     (''body_bytes'', FInt None None, Some (JInt 0)),
     (''body_sha256'', FOpt FStr, Some JNull),
     (''truncated'', FBool, Some (JBool False))]"

definition Transmission_fields :: "field list" where
  "Transmission_fields =
    [(''msg_id'', FMatch (id_of ''msg''), None),
     (''attempt_no'', FInt (Some 1) None, None),
     (''carrier'', FOneOf CARRIERS, None),
     (''destination'', FStr, None),
     (''state'', FOneOf ATTEMPT_STATES, None),
     (''carrier_ref'', FOpt FStr, Some JNull),
     (''error'', FOpt FStr, Some JNull),
     (''part_no'', FOpt (FInt (Some 1) None), Some JNull),
     (''part_count'', FOpt (FInt (Some 1) None), Some JNull),
     (''received_bytes'', FOpt (FInt (Some 0) None), Some JNull),
     (''received_sha256'', FOpt FStr, Some JNull),
     (''wire_bytes'', FOpt (FInt (Some 0) None), Some JNull),
     (''wire_sha256'', FOpt FStr, Some JNull)]"

definition WorkItem_fields :: "field list" where
  "WorkItem_fields =
    [(''work_item_id'', FMatch (id_of ''work_item''), None),
     (''title'', FMin 1, None),
     (''created_by'', FStr, None),
     (''workstream_id'', FOpt FStr, Some JNull),
     (''repo'', FOpt (FMatch repo_text), Some JNull),
     (''project_key'', FOpt (FMatch project_slug), Some JNull),
     (''body'', FOpt (FCapped ''work_item'' ''body''), Some JNull)]"

definition Assignment_fields :: "field list" where
  "Assignment_fields =
    [(''assignment_id'', FMatch (id_of ''assignment''), None),
     (''work_item_id'', FMatch (id_of ''work_item''), None),
     (''assignee'', FStr, None),
     (''assigned_by'', FStr, None),
     (''expected_by'', FOpt FTime, Some JNull),
     (''dispatch_msg_id'', FOpt (FMatch (id_of ''msg'')), Some JNull)]"

definition TaskEvent_fields :: "field list" where
  "TaskEvent_fields =
    [(''work_item_id'', FMatch (id_of ''work_item''), None),
     (''assignment_id'', FOpt (FMatch (id_of ''assignment'')), Some JNull),
     (''event'', FOneOf TASK_EVENTS, None),
     (''actor'', FOpt FStr, Some JNull),
     (''session_uid'', FOpt (FMatch (id_of ''session'')), Some JNull),
     (''progress'', FOpt (FInt (Some 0) (Some 100)), Some JNull),
     (''summary'', FOpt (FCapped ''task'' ''summary''), Some JNull),
     (''reason'', FOpt (FCapped ''task'' ''reason''), Some JNull),
     (''question'', FOpt (FCapped ''task'' ''question''), Some JNull),
     (''by'', FOpt (FCapped ''task'' ''by''), Some JNull),
     (''pr_url'', FOpt FStr, Some JNull),
     (''pr_role'', FOpt (FOneOf PR_ROLES), Some JNull),
     (''link_source'', FOpt (FOneOf LINK_SOURCES), Some JNull),
     (''pr_attribution_withheld'', FOpt (FOneOf PR_WITHHELD_REASONS), Some JNull),
     (''deadline'', FOpt FTime, Some JNull),
     (''successor_id'', FOpt FStr, Some JNull)]"

definition SystemEvent_fields :: "field list" where
  "SystemEvent_fields =
    [(''event'', FMatch event_token, None),
     (''subject_kind'', FOpt (FOneOf SYSTEM_SUBJECT_KINDS), Some JNull),
     (''subject_uid'', FOpt (FMin 1), Some JNull),
     (''subject_alias'', FOpt FStr, Some JNull),
     (''subject'', FOpt (FMin 1), Some JNull),
     (''data'', FOpt FDict, Some JNull)]"

definition Workstream_fields :: "field list" where
  "Workstream_fields =
    [(''workstream_id'', FMin 1, None),
     (''title'', FMin 1, None),
     (''goal'', FOpt FStr, Some JNull),
     (''owner'', FOpt FStr, Some JNull),
     (''opened_by'', FMin 1, None),
     (''project_key'', FOpt (FMatch project_slug), Some JNull)]"

definition WorkstreamEvent_fields :: "field list" where
  "WorkstreamEvent_fields =
    [(''workstream_id'', FMin 1, None),
     (''event'', FOneOf WORKSTREAM_EVENTS, None),
     (''actor'', FOpt FStr, Some JNull),
     (''renewed_until'', FOpt FTime, Some JNull),
     (''note'', FOpt (FCapped ''workstream_event'' ''note''), Some JNull),
     (''waiting_on'', FOpt (FMax 256), Some JNull),
     (''next_step'', FOpt (FCapped ''workstream_event'' ''next_step''), Some JNull),
     (''disposition'', FOpt (FOneOf [''done'', ''abandoned'']), Some JNull),
     (''plan_ref'', FOpt FStr, Some JNull)]"

definition RegistrySnapshot_fields :: "field list" where
  "RegistrySnapshot_fields =
    [(''entity_type'', FOneOf [''host'', ''vault'', ''fleet'', ''bot'', ''project'', ''library_item''], None),
     (''entity_alias'', FMin 1, None),
     (''tombstone'', FBool, Some (JBool False)),
     (''payload'', FOpt FDict, Some JNull),
     (''cause'', FOneOf [''generate'', ''probe'', ''equip'', ''migration''], None),
     (''scan_id'', FMin 1, None),
     (''vault_rev'', FOpt FStr, Some JNull)]"

definition MetricSample_fields :: "field list" where
  "MetricSample_fields =
    [(''subject_kind'', FOneOf [''host'', ''vault'', ''fleet'', ''actor'', ''bot_instance'', ''session''], None),
     (''subject'', FMin 1, None),
     (''metric'', FMin 1, None),
     (''value'', FNotNull, None),
     (''status'', FOpt (FOneOf [''ok'', ''warn'', ''alert'']), Some JNull)]"

definition Declaration_fields :: "field list" where
  "Declaration_fields =
    [(''event'', FOneOf [''revision_seen'', ''scan_completed''], None),
     (''subject_kind'', FOneOf [''vault'', ''host''], None),
     (''subject'', FMin 1, None),
     (''vault_rev'', FOpt FStr, Some JNull),
     (''scan_id'', FOpt FStr, Some JNull),
     (''scope'', FOpt FStr, Some JNull),
     (''counts'', FOpt FDict, Some JNull),
     (''complete'', FOpt FBool, Some JNull),
     (''source_rev'', FOpt FStr, Some JNull)]"

definition EmitRequest_fields :: "field list" where
  "EmitRequest_fields =
    [(''event_type'', FStr, None),
     (''schema_version'', FOpt FStr, Some JNull),
     (''occurred_at'', FOpt FTime, Some JNull),
     (''observed_at'', FOpt FTime, Some JNull),
     (''emitter'', FMin 1, None),
     (''source_ref'', FOpt FStr, Some JNull),
     (''fleet'', FOpt FStr, Some JNull),
     (''event_id'', FOpt (FMatch (id_of ''event'')), Some JNull),
     (''correlation_id'', FOpt FStr, Some JNull),
     (''causation_id'', FOpt FStr, Some JNull),
     (''trace_id'', FOpt FStr, Some JNull),
     (''span_id'', FOpt FStr, Some JNull),
     (''origin'', FOneOf [''live'', ''legacy''], Some (JStr ''live'')),
     (''import_batch'', FOpt FStr, Some JNull),
     (''confidence'', FOpt FStr, Some JNull),
     (''payload'', FDict, None)]"


section \<open>What a model checks after reading\<close>

definition no_after :: "(string \<Rightarrow> string) \<Rightarrow> obj \<Rightarrow> obj option" where
  "no_after sha p = Some p"

definition cap_body :: "(string \<Rightarrow> string) \<Rightarrow> string \<Rightarrow> obj" where
  "cap_body sha text =
     (case body_proof sha text of (body, nbytes, digest, truncated) \<Rightarrow>
        [(''body'', JStr body), (''body_bytes'', JInt nbytes), (''body_sha256'', JStr digest),
         (''truncated'', JBool truncated)])"

definition Communication_after :: "(string \<Rightarrow> string) \<Rightarrow> obj \<Rightarrow> obj option" where
  "Communication_after sha p =
     (case fld p ''body'' of
        JStr body \<Rightarrow> (let flds = cap_body sha body in
          Some (alist_set ''truncated'' (fld flds ''truncated'') (alist_set ''body_sha256'' (fld flds ''body_sha256'')
            (alist_set ''body_bytes'' (fld flds ''body_bytes'') (alist_set ''body'' (fld flds ''body'') p)))))
      | _ \<Rightarrow> Some p)"

definition CARRIER_ONLY_STATES :: "(string \<times> string list) list" where
  "CARRIER_ONLY_STATES =
    [(''pane_submitted'', [''tmux'']), (''carrier_queued'', [''tmux'']),
     (''carrier_accepted'', [''telegram-tgpost'', ''telegram-bridge'']), (''received'', [''tmux''])]"

definition text_of :: "json \<Rightarrow> string" where
  "text_of v = (case v of JStr s \<Rightarrow> s | _ \<Rightarrow> [])"

definition Transmission_after :: "(string \<Rightarrow> string) \<Rightarrow> obj \<Rightarrow> obj option" where
  "Transmission_after sha p =
     (let state = text_of (fld p ''state''); carrier = text_of (fld p ''carrier'');
          has_proof = (fld p ''received_bytes'' \<noteq> JNull \<or> fld p ''received_sha256'' \<noteq> JNull);
          has_wire = (fld p ''wire_bytes'' \<noteq> JNull \<or> fld p ''wire_sha256'' \<noteq> JNull) in
      if (case map_of CARRIER_ONLY_STATES state of Some allowed \<Rightarrow> carrier \<notin> set allowed | None \<Rightarrow> False) then None
      else if state = ''received'' \<and> (fld p ''received_bytes'' = JNull \<or> fld p ''received_sha256'' = JNull) then None
      else if state \<noteq> ''received'' \<and> has_proof then None
      else if has_wire \<and> state \<notin> {''pane_submitted'', ''carrier_queued''} then None
      else if has_wire \<and> (fld p ''wire_bytes'' = JNull \<or> fld p ''wire_sha256'' = JNull) then None
      else Some p)"

definition SystemEvent_after :: "(string \<Rightarrow> string) \<Rightarrow> obj \<Rightarrow> obj option" where
  "SystemEvent_after sha p =
     (let subject = fld p ''subject''; kind = fld p ''subject_kind''; uid = fld p ''subject_uid'';
          alias = fld p ''subject_alias'' in
      if subject \<noteq> JNull then
        (if kind = JNull then None else if uid \<noteq> JNull \<or> alias \<noteq> JNull then None else Some p)
      else if (uid = JNull) \<noteq> (kind = JNull) then None
      else if alias \<noteq> JNull \<and> uid = JNull then None
      else Some p)"

definition RegistrySnapshot_after :: "(string \<Rightarrow> string) \<Rightarrow> obj \<Rightarrow> obj option" where
  "RegistrySnapshot_after sha p =
     (let tombstone = truthy (fld p ''tombstone'') in
      if tombstone \<and> fld p ''payload'' \<noteq> JNull then None
      else if \<not> tombstone \<and> fld p ''payload'' = JNull then None
      else Some p)"

definition Declaration_after :: "(string \<Rightarrow> string) \<Rightarrow> obj \<Rightarrow> obj option" where
  "Declaration_after sha p =
     (let event = fld p ''event'' in
      if event = JStr ''scan_completed'' \<and> \<not> truthy (fld p ''scan_id'') then None
      else if event = JStr ''scan_completed'' \<and>
          (fld p ''complete'' = JNull \<or> fld p ''counts'' = JNull \<or> fld p ''scope'' = JNull) then None
      else if event = JStr ''revision_seen'' \<and> \<not> truthy (fld p ''vault_rev'') then None
      else Some p)"

section \<open>The families\<close>

definition plain_model :: "field list \<Rightarrow> model" where
  "plain_model fs = \<lparr>m_fields = fs, m_after = no_after\<rparr>"

definition ENTITY_PAYLOADS :: "(string \<times> model) list" where
  "ENTITY_PAYLOADS =
    [(''host'', plain_model HostPayload_fields), (''vault'', plain_model VaultPayload_fields),
     (''fleet'', plain_model FleetPayload_fields), (''project'', plain_model ProjectPayload_fields),
     (''library_item'', plain_model LibraryItemPayload_fields), (''bot'', plain_model BotPayload_fields)]"

definition ENTITY_IDENTITY_KIND :: "(string \<times> string) list" where
  "ENTITY_IDENTITY_KIND =
    [(''host'', ''host''), (''vault'', ''vault''), (''fleet'', ''fleet''), (''bot'', ''bot_instance''),
     (''project'', ''project''), (''library_item'', ''library_item'')]"

definition FAMILIES :: "(string \<times> model) list" where
  "FAMILIES =
    [(''communication'', \<lparr>m_fields = Communication_fields, m_after = Communication_after\<rparr>),
     (''transmission'', \<lparr>m_fields = Transmission_fields, m_after = Transmission_after\<rparr>),
     (''work_item'', plain_model WorkItem_fields),
     (''assignment'', plain_model Assignment_fields),
     (''task'', plain_model TaskEvent_fields),
     (''system'', \<lparr>m_fields = SystemEvent_fields, m_after = SystemEvent_after\<rparr>),
     (''workstream'', plain_model Workstream_fields),
     (''workstream_event'', plain_model WorkstreamEvent_fields),
     (''registry_snapshot'', \<lparr>m_fields = RegistrySnapshot_fields, m_after = RegistrySnapshot_after\<rparr>),
     (''metric_sample'', plain_model MetricSample_fields),
     (''declaration'', \<lparr>m_fields = Declaration_fields, m_after = Declaration_after\<rparr>)]"

definition WIRE_TO_KIND :: "(string \<times> string) list" where
  "WIRE_TO_KIND = [(''workstream_event'', ''workstream'')]"

section \<open>The door\<close>

definition PLANE_SCHEMA_VERSION :: string where
  "PLANE_SCHEMA_VERSION = ''1.0.0''"

definition SUPPORTED_SCHEMA_VERSIONS :: "string list" where
  "SUPPORTED_SCHEMA_VERSIONS = [PLANE_SCHEMA_VERSION]"

text \<open>What a validated payload is: its class, which is its family's, and its fields.\<close>

type_synonym item = "obj \<times> string \<times> obj"

datatype contract_violation = Contract_Violation string

definition validate_request :: "(string \<Rightarrow> string) \<Rightarrow> lax \<Rightarrow> json \<Rightarrow> contract_violation + item" where
  "validate_request sha x raw =
     (case model_validate sha x (plain_model EmitRequest_fields) raw of
        None \<Rightarrow> Inl (Contract_Violation ''envelope'')
      | Some env \<Rightarrow>
          (let event_type = text_of (fld env ''event_type'') in
           if fld env ''schema_version'' \<noteq> JNull \<and> fld env ''schema_version'' \<notin> JStr ` set SUPPORTED_SCHEMA_VERSIONS
           then Inl (Contract_Violation ''schema_version'')
           else case map_of FAMILIES event_type of None \<Rightarrow> Inl (Contract_Violation ''event_type'')
             | Some m \<Rightarrow>
                 if event_type \<in> set FLEET_REQUIRED \<and> \<not> truthy (fld env ''fleet'')
                 then Inl (Contract_Violation ''fleet'')
                 else (case model_validate sha x m (fld env ''payload'') of
                         None \<Rightarrow> Inl (Contract_Violation ''payload'')
                       | Some payload \<Rightarrow>
                           if event_type = ''registry_snapshot'' \<and> fld payload ''payload'' \<noteq> JNull then
                             (case map_of ENTITY_PAYLOADS (text_of (fld payload ''entity_type'')) of
                                None \<Rightarrow> Inl (Contract_Violation ''entity_type'')
                              | Some em \<Rightarrow>
                                  (case model_validate sha x em (fld payload ''payload'') of
                                     None \<Rightarrow> Inl (Contract_Violation ''entity payload'')
                                   | Some _ \<Rightarrow> Inr (env, event_type, payload)))
                           else Inr (env, event_type, payload))))"

section \<open>What the door lets through\<close>

lemmas payload_fields =
  Communication_fields_def Transmission_fields_def WorkItem_fields_def Assignment_fields_def
  TaskEvent_fields_def SystemEvent_fields_def Workstream_fields_def WorkstreamEvent_fields_def
  RegistrySnapshot_fields_def MetricSample_fields_def Declaration_fields_def

lemma families_well_declared:
  "map_of FAMILIES fam = Some m \<Longrightarrow> well_declared (m_fields m)"
  by (auto simp: FAMILIES_def plain_model_def payload_fields well_declared_def defaults_fit_def
      field_names_def in_bounds_def split: if_splits)

lemma envelope_well_declared: "well_declared EmitRequest_fields"
  by (simp add: EmitRequest_fields_def well_declared_def defaults_fit_def field_names_def)

lemma no_after_fits: "no_after sha q = Some p \<Longrightarrow> fits fs q \<Longrightarrow> fits fs p \<and> map fst p = map fst q"
  by (simp add: no_after_def)

lemma keys_alist_set_present: "k \<in> set (map fst p) \<Longrightarrow> map fst (alist_set k v p) = map fst p"
  by (induction k v p rule: alist_set.induct) auto

lemma Communication_after_fits:
  assumes "Communication_after sha q = Some p" "fits Communication_fields q" "map fst q = field_names Communication_fields"
  shows "fits Communication_fields p \<and> map fst p = map fst q"
proof -
  have "set (map fst q) = set (field_names Communication_fields)" using assms(3) by simp
  then have k: "''body'' \<in> set (map fst q)" "''body_bytes'' \<in> set (map fst q)" "''body_sha256'' \<in> set (map fst q)"
    "''truncated'' \<in> set (map fst q)" by (simp_all add: field_names_def Communication_fields_def)
  show ?thesis using assms k
    by (auto simp: Communication_after_def cap_body_def Let_def jget.simps keys_alist_set_present in_bounds_def
        split: json.splits prod.splits intro!: fits_alist_set) (auto simp: Communication_fields_def in_bounds_def)
qed

lemma after_unchanged:
  "Transmission_after sha q = Some p \<Longrightarrow> p = q"
  "SystemEvent_after sha q = Some p \<Longrightarrow> p = q"
  "RegistrySnapshot_after sha q = Some p \<Longrightarrow> p = q"
  "Declaration_after sha q = Some p \<Longrightarrow> p = q"
  by (auto simp: Transmission_after_def SystemEvent_after_def RegistrySnapshot_after_def Declaration_after_def
      Let_def split: if_splits)

lemma family_after:
  assumes "map_of FAMILIES fam = Some m" "m_after m sha q = Some p"
    "fits (m_fields m) q" "map fst q = field_names (m_fields m)"
  shows "fits (m_fields m) p \<and> map fst p = field_names (m_fields m)"
proof (cases "fam = ''communication''")
  case True
  then have m: "m = \<lparr>m_fields = Communication_fields, m_after = Communication_after\<rparr>"
    using assms(1) by (simp add: FAMILIES_def)
  show ?thesis using Communication_after_fits [of sha q p] assms(2-4) by (simp add: m)
next
  case False
  with assms(1,2) have "p = q"
    by (auto simp: FAMILIES_def plain_model_def no_after_def split: if_splits dest: after_unchanged)
  with assms(3,4) show ?thesis by simp
qed

text \<open>A request the door lets through.\<close>

definition accepted :: "item \<Rightarrow> bool" where
  "accepted it =
     (case it of (env, fam, payload) \<Rightarrow>
        fits EmitRequest_fields env \<and> fld env ''event_type'' = JStr fam
        \<and> (fld env ''schema_version'' = JNull \<or> fld env ''schema_version'' = JStr PLANE_SCHEMA_VERSION)
        \<and> (fam \<in> set FLEET_REQUIRED \<longrightarrow> truthy (fld env ''fleet''))
        \<and> (case map_of FAMILIES fam of None \<Rightarrow> False
           | Some m \<Rightarrow> fits (m_fields m) payload \<and> map fst payload = field_names (m_fields m)))"

lemma validate_request_cases:
  assumes "validate_request sha x raw = Inr (env, fam, payload)"
  obtains m kvs pkvs q where "raw = JObj kvs" "no_extra (field_names EmitRequest_fields) kvs"
    "read_fields x EmitRequest_fields kvs = Some env" "fits EmitRequest_fields env"
    "fam = text_of (fld env ''event_type'')"
    "fld env ''schema_version'' = JNull \<or> fld env ''schema_version'' \<in> JStr ` set SUPPORTED_SCHEMA_VERSIONS"
    "map_of FAMILIES fam = Some m" "fam \<notin> set FLEET_REQUIRED \<or> truthy (fld env ''fleet'')"
    "fld env ''payload'' = JObj pkvs" "no_extra (field_names (m_fields m)) pkvs"
    "m_after m sha q = Some payload" "fits (m_fields m) q" "map fst q = field_names (m_fields m)"
proof -
  obtain env' m where m': "model_validate sha x (plain_model EmitRequest_fields) raw = Some env'"
    "\<not> (fld env' ''schema_version'' \<noteq> JNull \<and> fld env' ''schema_version'' \<notin> JStr ` set SUPPORTED_SCHEMA_VERSIONS)"
    "map_of FAMILIES (text_of (fld env' ''event_type'')) = Some m"
    "\<not> (text_of (fld env' ''event_type'') \<in> set FLEET_REQUIRED \<and> \<not> truthy (fld env' ''fleet''))"
    "\<exists>p. model_validate sha x m (fld env' ''payload'') = Some p \<and>
       (env', text_of (fld env' ''event_type''), p) = (env, fam, payload)"
    using assms unfolding validate_request_def Let_def answers either_Inr sum.inject by (elim exE conjE) blast
  from m'(5) have eqs: "env' = env" "fam = text_of (fld env ''event_type'')"
    "model_validate sha x m (fld env ''payload'') = Some payload" by auto
  note e = m'(1)
  have m: "env' = env" "fam = text_of (fld env ''event_type'')" "map_of FAMILIES fam = Some m"
    "fld env ''schema_version'' = JNull \<or> fld env ''schema_version'' \<in> JStr ` set SUPPORTED_SCHEMA_VERSIONS"
    "fam \<notin> set FLEET_REQUIRED \<or> truthy (fld env ''fleet'')"
    "model_validate sha x m (fld env ''payload'') = Some payload"
    using m'(2-4) eqs by auto
  have w: "well_declared (m_fields (plain_model EmitRequest_fields))"
    by (simp add: plain_model_def envelope_well_declared)
  have pm: "m_fields (plain_model EmitRequest_fields) = EmitRequest_fields"
    "m_after (plain_model EmitRequest_fields) = no_after" by (simp_all add: plain_model_def)
  obtain kvs q0 where k: "raw = JObj kvs" "no_extra (field_names EmitRequest_fields) kvs"
    "read_fields x EmitRequest_fields kvs = Some q0" "no_after sha q0 = Some env'" "fits EmitRequest_fields q0"
    by (rule model_validate_plain [OF e w, unfolded pm])
  obtain pkvs q
    where q: "fld env ''payload'' = JObj pkvs" "no_extra (field_names (m_fields m)) pkvs"
    "m_after m sha q = Some payload" "fits (m_fields m) q" "map fst q = field_names (m_fields m)" by (rule model_validate_plain [OF m(6) families_well_declared [OF m(3)]])
  have "q0 = env" using k(4) m(1) by (simp add: no_after_def)
  with k have k': "read_fields x EmitRequest_fields kvs = Some env" "fits EmitRequest_fields env" by simp_all
  show thesis by (rule that [OF k(1,2) k' m(2,4,3,5) q])
qed

lemma validate_request_class:
  assumes "validate_request sha x raw = Inr (env, fam, payload)"
  shows "fld env ''event_type'' = JStr fam"
proof -
  from assms obtain m q where e: "fits EmitRequest_fields env" "fam = text_of (fld env ''event_type'')"
    by (rule validate_request_cases)
  have "is_str (fld env ''event_type'')"
    using fits_field [OF e(1), of "''event_type''" FStr None] by (simp add: EmitRequest_fields_def)
  with e(2) show ?thesis by (cases "fld env ''event_type''") (auto simp: text_of_def)
qed

section \<open>Properties\<close>


definition strict_lax :: lax where
  "strict_lax = \<lparr>lax_int = as_int, lax_bool = (\<lambda>v. case v of JBool b \<Rightarrow> Some b | _ \<Rightarrow> None), lax_time = as_str\<rparr>"

definition sample_request :: "string \<Rightarrow> obj \<Rightarrow> json" where
  "sample_request family payload =
     JObj [(''event_type'', JStr family), (''emitter'', JStr ''report-back''), (''fleet'', JStr ''studio''),
           (''payload'', JObj payload)]"

definition sample_transmission :: obj where
  "sample_transmission =
     [(''msg_id'', JStr (''msg_'' @ sample_hex)), (''attempt_no'', JInt 1), (''carrier'', JStr ''tmux''),
      (''destination'', JStr ''pane''), (''state'', JStr ''received''), (''received_bytes'', JInt 5),
      (''received_sha256'', JStr ''sha256:00'')]"

definition sample_item :: "string \<Rightarrow> obj \<Rightarrow> item" where
  "sample_item family payload =
     (case validate_request no_sha strict_lax (sample_request family payload) of Inr it \<Rightarrow> it | Inl e \<Rightarrow> ([], [], []))"


text \<open>
  No impossible evidence of a delivery is recorded: a transmission the door lets through was
  carried by a carrier that can have its state, it has the receiver's proof, both parts of it,
  exactly when it says the message was received, and it has the sender's wire proof either whole
  or not at all, and only where a pane was given the bytes.
\<close>

theorem transmission_evidence_possible:
  assumes "validate_request sha x raw = Inr (env, ''transmission'', p)"
  shows "(case map_of CARRIER_ONLY_STATES (text_of (fld p ''state'')) of None \<Rightarrow> True
      | Some allowed \<Rightarrow> text_of (fld p ''carrier'') \<in> set allowed)
    \<and> (fld p ''received_bytes'' \<noteq> JNull \<longleftrightarrow> fld p ''state'' = JStr ''received'')
    \<and> (fld p ''received_sha256'' \<noteq> JNull \<longleftrightarrow> fld p ''state'' = JStr ''received'')
    \<and> (fld p ''wire_bytes'' = JNull \<longleftrightarrow> fld p ''wire_sha256'' = JNull)
    \<and> (fld p ''wire_bytes'' = JNull \<or> fld p ''carrier'' = JStr ''tmux'')"
proof -
  from assms obtain m q where m: "map_of FAMILIES ''transmission'' = Some m" "m_after m sha q = Some p" "fits (m_fields m) q"
    by (rule validate_request_cases)
  then have q: "Transmission_after sha q = Some p" "fits Transmission_fields q" by (auto simp: FAMILIES_def)
  from after_unchanged(1) [OF q(1)] q have p: "Transmission_after sha p = Some p" "fits Transmission_fields p" by simp_all
  have "is_str (fld p ''state'')" "is_str (fld p ''carrier'')"
    using fits_field [OF p(2), of "''state''" "FOneOf ATTEMPT_STATES" None]
      fits_field [OF p(2), of "''carrier''" "FOneOf CARRIERS" None]
    by (auto simp: Transmission_fields_def split: json.splits)
  then obtain st ca where s: "fld p ''state'' = JStr st" "fld p ''carrier'' = JStr ca"
    by (metis is_str.elims(2))
  show ?thesis using p(1)
    by (auto simp: Transmission_after_def Let_def s text_of_def CARRIER_ONLY_STATES_def split: if_splits)
qed

lemma transmission_evidence_possible_witness:
  "(let p = snd (snd (sample_item ''transmission'' sample_transmission)) in
      (case map_of CARRIER_ONLY_STATES (text_of (fld p ''state'')) of None \<Rightarrow> True
        | Some allowed \<Rightarrow> text_of (fld p ''carrier'') \<in> set allowed)
      \<and> (fld p ''received_bytes'' \<noteq> JNull \<longleftrightarrow> fld p ''state'' = JStr ''received'')
      \<and> (fld p ''received_sha256'' \<noteq> JNull \<longleftrightarrow> fld p ''state'' = JStr ''received'')
      \<and> (fld p ''wire_bytes'' = JNull \<longleftrightarrow> fld p ''wire_sha256'' = JNull)
      \<and> (fld p ''wire_bytes'' = JNull \<or> fld p ''carrier'' = JStr ''tmux''))"
  unfolding Let_def
proof (rule transmission_evidence_possible)
  show "validate_request no_sha strict_lax (sample_request ''transmission'' sample_transmission)
    = Inr (fst (sample_item ''transmission'' sample_transmission), ''transmission'',
        snd (snd (sample_item ''transmission'' sample_transmission)))"
    by code_simp
qed

text \<open>
  A work item's repository is not held to the form owner/name: the pattern has no anchors and
  is searched for, so a text that only contains such a form somewhere is let through as it is.
\<close>

definition sample_work_item :: obj where
  "sample_work_item =
     [(''work_item_id'', JStr (''wi_'' @ sample_hex)), (''title'', JStr ''t''), (''created_by'', JStr ''bot:studio/a''),
      (''repo'', JStr ''see https://host/owner for the code'')]"

theorem repo_is_not_anchored:
  "case sample_item ''work_item'' sample_work_item of (env, fam, p) \<Rightarrow>
     fam = ''work_item'' \<and> fld p ''repo'' = JStr ''see https://host/owner for the code''"
  by code_simp

end
