(* ===== verification/Plane_Schema.thy ===== *)
theory Plane_Schema
  imports Contracts
begin

text \<open>
  The plane's tables as its migrations leave them (\<open>claudlobby/plane/migrations/\<close>: 0001, 0006
  and 0011): which columns may not be null, the CHECK of each table and the columns that are
  unique. A row is an association list of its columns; an absent column is NULL. A column with
  a default (\<open>origin\<close>, \<open>privacy\<close>'s neighbours, \<open>detail_truncated\<close>) is always given by the one
  writer, so defaults are not modelled, nor are the generated column and the indexes for speed.
\<close>

type_synonym row = obj

definition not_null :: "string list \<Rightarrow> row \<Rightarrow> bool" where
  "not_null cols r \<longleftrightarrow> list_all (\<lambda>c. jget (JObj r) c \<noteq> JNull) cols"

definition null_all :: "string list \<Rightarrow> row \<Rightarrow> bool" where
  "null_all cols r \<longleftrightarrow> list_all (\<lambda>c. jget (JObj r) c = JNull) cols"

text \<open>\<open>c IN (...)\<close> of a column that is not null, and the CHECK of one that may be.\<close>

definition among :: "string \<Rightarrow> string list \<Rightarrow> row \<Rightarrow> bool" where
  "among c vs r \<longleftrightarrow> jget (JObj r) c \<in> JStr ` set vs"

definition null_or_among :: "string \<Rightarrow> string list \<Rightarrow> row \<Rightarrow> bool" where
  "null_or_among c vs r \<longleftrightarrow> jget (JObj r) c = JNull \<or> among c vs r"

definition envelope_not_null :: "string list" where
  "envelope_not_null =
     [''ingest_seq'', ''event_id'', ''schema_version'', ''occurred_at'', ''ingested_at'', ''host_uid'',
      ''emitter'', ''origin'']"

definition envelope_check :: "row \<Rightarrow> bool" where
  "envelope_check r \<longleftrightarrow> not_null envelope_not_null r \<and> among ''origin'' [''live'', ''legacy''] r"

text \<open>The columns of the tables that hold the facts of a request, as a SELECT names them.\<close>

definition envelope_columns :: "string list" where
  "envelope_columns =
     [''ingest_seq'', ''event_id'', ''schema_version'', ''occurred_at'', ''observed_at'', ''ingested_at'', ''host_uid'',
      ''fleet_uid'', ''emitter'', ''source_ref'', ''correlation_id'', ''causation_id'', ''trace_id'', ''span_id'',
      ''origin'', ''import_batch'', ''confidence'']"

definition table_columns :: "string \<Rightarrow> string list" where
  "table_columns table = envelope_columns @
     (if table = ''communications'' then
        [''msg_id'', ''sender_uid'', ''sender_alias'', ''sender_session_uid'', ''recipient_uid'', ''recipient_alias'',
         ''recipient_raw'', ''message_class'', ''command_type'', ''work_item_id'', ''assignment_id'', ''workstream_id'',
         ''deliberation_id'', ''reply_to_msg_id'', ''supersedes_msg_id'', ''body'', ''body_bytes'', ''body_sha256'',
         ''truncated'', ''privacy'', ''idempotency_key'']
      else if table = ''work_items'' then
        [''work_item_id'', ''title'', ''created_by_uid'', ''workstream_id'', ''repo'', ''project_key'', ''body'']
      else if table = ''assignments'' then
        [''assignment_id'', ''work_item_id'', ''assignee_uid'', ''assigned_by_uid'', ''expected_by'', ''dispatch_msg_id'']
      else if table = ''workstreams'' then
        [''workstream_id'', ''title'', ''goal'', ''owner_uid'', ''opened_by_uid'', ''project_key'']
      else if table = ''events'' then
        [''kind'', ''event'', ''carrier'', ''attempt_no'', ''carrier_ref'', ''msg_id'', ''work_item_id'',
         ''assignment_id'', ''workstream_id'', ''subject_kind'', ''subject_uid'', ''subject_alias'', ''actor_uid'',
         ''session_uid'', ''severity'', ''deadline'', ''successor_id'', ''renewed_until'', ''detail'',
         ''detail_truncated'']
      else [])"

section \<open>The event stream\<close>

definition events_check :: "row \<Rightarrow> bool" where
  "events_check r =
     (if among ''kind'' [''transmission''] r then
        among ''event'' [''send_attempted'', ''carrier_accepted'', ''carrier_queued'', ''pane_submitted'', ''failed'',
            ''unknown'', ''recipient_acknowledged'', ''duplicate_suppressed'', ''received''] r
        \<and> not_null [''msg_id'', ''carrier''] r
        \<and> among ''carrier'' [''tmux'', ''telegram-tgpost'', ''telegram-bridge''] r
        \<and> (\<not> among ''event'' [''pane_submitted'', ''carrier_queued'', ''received''] r \<or> among ''carrier'' [''tmux''] r)
        \<and> (\<not> among ''event'' [''carrier_accepted''] r \<or> among ''carrier'' [''telegram-tgpost'', ''telegram-bridge''] r)
        \<and> not_null [''attempt_no''] r
        \<and> null_all [''work_item_id'', ''assignment_id'', ''workstream_id'', ''subject_kind'', ''subject_uid'',
            ''subject_alias'', ''severity'', ''deadline'', ''successor_id'', ''renewed_until'', ''actor_uid'',
            ''session_uid''] r
      else if among ''kind'' [''task''] r then
        among ''event'' [''dispatch_intended'', ''transmission_failed'', ''dispatch_submitted'', ''accepted'',
            ''rejected'', ''progress'', ''blocked_waiting'', ''returned_blocked'', ''resumed'', ''completed'',
            ''failed'', ''cancelled'', ''deadline_changed'', ''superseded'', ''reassigned'', ''retry_created'',
            ''orphaned_by_session_loss'', ''recovered_after_restart'', ''expired'', ''supplied_id_not_open'',
            ''escalated'', ''nudged''] r
        \<and> not_null [''work_item_id''] r
        \<and> null_all [''msg_id'', ''carrier'', ''attempt_no'', ''carrier_ref'', ''workstream_id'', ''subject_kind'',
            ''subject_uid'', ''subject_alias'', ''severity'', ''renewed_until''] r
      else if among ''kind'' [''workstream''] r then
        among ''event'' [''progressed'', ''renewed'', ''blocked'', ''unblocked'', ''closed'', ''archived'',
            ''plan_linked'', ''plan_unlinked''] r
        \<and> not_null [''workstream_id''] r
        \<and> null_all [''msg_id'', ''carrier'', ''attempt_no'', ''carrier_ref'', ''work_item_id'', ''assignment_id'',
            ''subject_kind'', ''subject_uid'', ''subject_alias'', ''severity'', ''deadline'', ''successor_id'',
            ''session_uid''] r
      else if among ''kind'' [''system''] r then
        not_null [''event''] r
        \<and> null_all [''msg_id'', ''carrier'', ''attempt_no'', ''carrier_ref'', ''work_item_id'', ''assignment_id'',
            ''workstream_id'', ''deadline'', ''successor_id'', ''renewed_until'', ''actor_uid'', ''session_uid''] r
        \<and> null_or_among ''severity'' [''critical'', ''notice''] r
        \<and> (null_all [''subject_uid'', ''subject_kind'', ''subject_alias''] r
           \<or> not_null [''subject_uid'', ''subject_kind''] r
             \<and> among ''subject_kind'' [''host'', ''vault'', ''fleet'', ''actor'', ''bot_instance'', ''session''] r)
      else if among ''kind'' [''declaration''] r then
        among ''event'' [''revision_seen'', ''scan_completed''] r
        \<and> among ''subject_kind'' [''vault'', ''host''] r \<and> not_null [''subject_uid''] r
        \<and> null_all [''msg_id'', ''carrier'', ''attempt_no'', ''carrier_ref'', ''work_item_id'', ''assignment_id'',
            ''workstream_id'', ''severity'', ''deadline'', ''successor_id'', ''renewed_until'', ''actor_uid'',
            ''session_uid''] r
      else False)"

section \<open>The other tables\<close>

definition communications_check :: "row \<Rightarrow> bool" where
  "communications_check r \<longleftrightarrow>
     not_null [''msg_id'', ''sender_uid'', ''sender_alias'', ''message_class'', ''body_bytes'', ''truncated'', ''privacy''] r
     \<and> among ''message_class'' [''task_request'', ''report'', ''question'', ''answer'', ''alert'', ''notice'',
          ''briefing'', ''nudge'', ''acknowledgement'', ''chat'', ''config_change'', ''raw_control''] r
     \<and> null_or_among ''command_type'' [''task'', ''cancel'', ''compact'', ''restart'', ''query''] r
     \<and> among ''privacy'' [''metadata'', ''preview'', ''full''] r"

definition registry_snapshots_check :: "row \<Rightarrow> bool" where
  "registry_snapshots_check r \<longleftrightarrow>
     not_null [''entity_type'', ''entity_uid'', ''entity_alias'', ''tombstone'', ''cause'', ''scan_id''] r
     \<and> among ''entity_type'' [''host'', ''vault'', ''fleet'', ''bot'', ''project'', ''library_item''] r
     \<and> among ''cause'' [''generate'', ''probe'', ''equip'', ''migration''] r
     \<and> (jget (JObj r) ''tombstone'' = JInt 1 \<and> null_all [''payload'', ''payload_hash''] r
        \<or> jget (JObj r) ''tombstone'' = JInt 0 \<and> not_null [''payload'', ''payload_hash''] r)"

definition metric_samples_check :: "row \<Rightarrow> bool" where
  "metric_samples_check r \<longleftrightarrow>
     not_null [''subject_kind'', ''subject_uid'', ''metric'', ''value''] r
     \<and> among ''subject_kind'' [''host'', ''vault'', ''fleet'', ''actor'', ''bot_instance'', ''session''] r
     \<and> null_or_among ''status'' [''ok'', ''warn'', ''alert''] r"

definition table_check :: "string \<Rightarrow> row \<Rightarrow> bool" where
  "table_check table r \<longleftrightarrow> envelope_check r \<and>
     (if table = ''communications'' then communications_check r
      else if table = ''work_items'' then not_null [''work_item_id'', ''title'', ''created_by_uid''] r
      else if table = ''assignments'' then
        not_null [''assignment_id'', ''work_item_id'', ''assignee_uid'', ''assigned_by_uid''] r
      else if table = ''workstreams'' then not_null [''workstream_id'', ''title'', ''opened_by_uid''] r
      else if table = ''registry_snapshots'' then registry_snapshots_check r
      else if table = ''metric_samples'' then metric_samples_check r
      else if table = ''events'' then
        among ''kind'' [''transmission'', ''task'', ''workstream'', ''system'', ''declaration''] r
        \<and> events_check r \<and> not_null [''detail_truncated''] r
      else False)"

definition unique_columns :: "string \<Rightarrow> string list" where
  "unique_columns table =
     [''ingest_seq'', ''event_id''] @
     (if table = ''communications'' then [''msg_id'']
      else if table = ''work_items'' then [''work_item_id'']
      else if table = ''assignments'' then [''assignment_id'', ''dispatch_msg_id'']
      else if table = ''workstreams'' then [''workstream_id''] else [])"

text \<open>The first unique column a new row would repeat; a null repeats nothing.\<close>

definition clash :: "string \<Rightarrow> row list \<Rightarrow> row \<Rightarrow> string option" where
  "clash table rows r =
     find (\<lambda>c. jget (JObj r) c \<noteq> JNull \<and> (\<exists>r' \<in> set rows. jget (JObj r') c = jget (JObj r) c))
       (unique_columns table)"

section \<open>The manifest's side\<close>

text \<open>
  The rule a kind's manifest entry states (\<open>contracts.KIND_MANIFEST\<close>, \<open>kind_forbidden\<close>): the
  event is of the vocabulary, what is required is there, what is forbidden is not, and each
  group comes whole or not at all.
\<close>

definition group_ok :: "row \<Rightarrow> string list \<times> string list \<Rightarrow> bool" where
  "group_ok r g \<longleftrightarrow> (case g of (anchor, others) \<Rightarrow>
     not_null anchor r \<or> null_all anchor r \<and> null_all others r)"

definition manifest_ok :: "row \<Rightarrow> bool" where
  "manifest_ok r =
     (case jget (JObj r) ''kind'' of
        JStr kind \<Rightarrow> (case map_of KIND_MANIFEST kind of None \<Rightarrow> False
          | Some k \<Rightarrow>
              (case k_vocab k of None \<Rightarrow> True | Some vs \<Rightarrow> among ''event'' vs r)
              \<and> not_null (k_require k) r \<and> null_all (kind_forbidden k) r \<and> list_all (group_ok r) (k_groups k))
      | _ \<Rightarrow> False)"

text \<open>What the CHECK adds to the manifest: the carriers, what each can do, and three vocabularies.\<close>

definition carriers_ok :: "row \<Rightarrow> bool" where
  "carriers_ok r \<longleftrightarrow> among ''carrier'' CARRIERS r \<and>
     list_all (\<lambda>(state, allowed). \<not> among ''event'' [state] r \<or> among ''carrier'' allowed r) CARRIER_ONLY_STATES"

definition beyond_manifest :: "row \<Rightarrow> bool" where
  "beyond_manifest r \<longleftrightarrow>
     (among ''kind'' [''transmission''] r \<longrightarrow> carriers_ok r)
     \<and> (among ''kind'' [''system''] r \<longrightarrow> null_or_among ''severity'' [''critical'', ''notice''] r
          \<and> null_or_among ''subject_kind'' SYSTEM_SUBJECT_KINDS r)
     \<and> (among ''kind'' [''declaration''] r \<longrightarrow> among ''subject_kind'' [''vault'', ''host''] r)"

lemma among_simps [simp]:
  "among c [] r \<longleftrightarrow> False" "among c (v # vs) r \<longleftrightarrow> jget (JObj r) c = JStr v \<or> among c vs r"
  by (auto simp: among_def)

lemma not_null_simps [simp]:
  "not_null [] r" "not_null (c # cs) r \<longleftrightarrow> jget (JObj r) c \<noteq> JNull \<and> not_null cs r"
  by (simp_all add: not_null_def)

lemma null_all_simps [simp]:
  "null_all [] r" "null_all (c # cs) r \<longleftrightarrow> jget (JObj r) c = JNull \<and> null_all cs r"
  by (simp_all add: null_all_def)

lemma forbidden_simps:
  "map_of KIND_MANIFEST ''transmission'' = Some \<lparr>k_vocab = Some ATTEMPT_STATES,
      k_require = [''event'', ''msg_id'', ''carrier'', ''attempt_no''], k_allowed = [''carrier_ref''], k_groups = []\<rparr>"
  "map_of KIND_MANIFEST ''task'' = Some \<lparr>k_vocab = Some TASK_EVENTS, k_require = [''event'', ''work_item_id''],
      k_allowed = [''assignment_id'', ''actor_uid'', ''session_uid'', ''deadline'', ''successor_id''], k_groups = []\<rparr>"
  "map_of KIND_MANIFEST ''workstream'' = Some \<lparr>k_vocab = Some WORKSTREAM_EVENTS, k_require = [''event'', ''workstream_id''],
      k_allowed = [''actor_uid'', ''renewed_until''], k_groups = []\<rparr>"
  "map_of KIND_MANIFEST ''system'' = Some \<lparr>k_vocab = None, k_require = [''event''], k_allowed = [''severity''],
      k_groups = [([''subject_kind'', ''subject_uid''], [''subject_alias''])]\<rparr>"
  "map_of KIND_MANIFEST ''declaration'' = Some \<lparr>k_vocab = Some DECLARATION_EVENTS,
      k_require = [''event'', ''subject_kind'', ''subject_uid''], k_allowed = [''subject_alias''], k_groups = []\<rparr>"
  by (simp_all add: KIND_MANIFEST_def)

lemmas vocabularies = ATTEMPT_STATES_def TASK_EVENTS_def WORKSTREAM_EVENTS_def DECLARATION_EVENTS_def
  CARRIERS_def SYSTEM_SUBJECT_KINDS_def CARRIER_ONLY_STATES_def

lemma forbidden:
  "kind_forbidden \<lparr>k_vocab = v, k_require = [''event'', ''msg_id'', ''carrier'', ''attempt_no''],
      k_allowed = [''carrier_ref''], k_groups = []\<rparr> =
    [''work_item_id'', ''assignment_id'', ''workstream_id'', ''subject_kind'', ''subject_uid'', ''subject_alias'',
     ''actor_uid'', ''session_uid'', ''severity'', ''deadline'', ''successor_id'', ''renewed_until'']"
  "kind_forbidden \<lparr>k_vocab = v, k_require = [''event'', ''work_item_id''],
      k_allowed = [''assignment_id'', ''actor_uid'', ''session_uid'', ''deadline'', ''successor_id''], k_groups = []\<rparr> =
    [''carrier'', ''attempt_no'', ''carrier_ref'', ''msg_id'', ''workstream_id'', ''subject_kind'', ''subject_uid'',
     ''subject_alias'', ''severity'', ''renewed_until'']"
  "kind_forbidden \<lparr>k_vocab = v, k_require = [''event'', ''workstream_id''],
      k_allowed = [''actor_uid'', ''renewed_until''], k_groups = []\<rparr> =
    [''carrier'', ''attempt_no'', ''carrier_ref'', ''msg_id'', ''work_item_id'', ''assignment_id'', ''subject_kind'',
     ''subject_uid'', ''subject_alias'', ''session_uid'', ''severity'', ''deadline'', ''successor_id'']"
  "kind_forbidden \<lparr>k_vocab = v, k_require = [''event''], k_allowed = [''severity''],
      k_groups = [([''subject_kind'', ''subject_uid''], [''subject_alias''])]\<rparr> =
    [''carrier'', ''attempt_no'', ''carrier_ref'', ''msg_id'', ''work_item_id'', ''assignment_id'', ''workstream_id'',
     ''actor_uid'', ''session_uid'', ''deadline'', ''successor_id'', ''renewed_until'']"
  "kind_forbidden \<lparr>k_vocab = v, k_require = [''event'', ''subject_kind'', ''subject_uid''],
      k_allowed = [''subject_alias''], k_groups = []\<rparr> =
    [''carrier'', ''attempt_no'', ''carrier_ref'', ''msg_id'', ''work_item_id'', ''assignment_id'', ''workstream_id'',
     ''actor_uid'', ''session_uid'', ''severity'', ''deadline'', ''successor_id'', ''renewed_until'']"
  by (simp_all add: kind_forbidden_def STREAM_COLS_def)

text \<open>One kind at a time.\<close>

lemma among_not_null: "among c vs r \<Longrightarrow> jget (JObj r) c \<noteq> JNull"
  by (auto simp: among_def)

lemma transmission_agrees:
  assumes kind: "jget (JObj r) ''kind'' = JStr ''transmission''"
  shows "events_check r \<longleftrightarrow> manifest_ok r \<and> beyond_manifest r"
proof -
  have e: "among ''event'' ATTEMPT_STATES r \<Longrightarrow> jget (JObj r) ''event'' \<noteq> JNull"
    "among ''carrier'' CARRIERS r \<Longrightarrow> jget (JObj r) ''carrier'' \<noteq> JNull" by (erule among_not_null)+
  have three: "among ''event'' [''pane_submitted'', ''carrier_queued'', ''received''] r \<longleftrightarrow>
    among ''event'' [''pane_submitted''] r \<or> among ''event'' [''carrier_queued''] r \<or> among ''event'' [''received''] r"
    by simp
  have k: "among ''kind'' [''transmission''] r" "\<not> among ''kind'' [''system''] r" "\<not> among ''kind'' [''declaration''] r"
    using kind by simp_all
  show ?thesis
    unfolding events_check_def manifest_ok_def kind beyond_manifest_def carriers_ok_def
      CARRIER_ONLY_STATES_def ATTEMPT_STATES_def [symmetric] CARRIERS_def [symmetric] three
    using k e by (simp del: among_simps add: forbidden_simps forbidden) blast
qed

lemma task_agrees:
  "jget (JObj r) ''kind'' = JStr ''task'' \<Longrightarrow> events_check r \<longleftrightarrow> manifest_ok r \<and> beyond_manifest r"
  by (simp add: events_check_def manifest_ok_def forbidden_simps forbidden beyond_manifest_def vocabularies) auto

lemma workstream_agrees:
  "jget (JObj r) ''kind'' = JStr ''workstream'' \<Longrightarrow> events_check r \<longleftrightarrow> manifest_ok r \<and> beyond_manifest r"
  by (simp add: events_check_def manifest_ok_def forbidden_simps forbidden beyond_manifest_def vocabularies) auto

lemma system_agrees:
  "jget (JObj r) ''kind'' = JStr ''system'' \<Longrightarrow> events_check r \<longleftrightarrow> manifest_ok r \<and> beyond_manifest r"
  by (simp add: events_check_def manifest_ok_def forbidden_simps forbidden beyond_manifest_def null_or_among_def
      group_ok_def vocabularies) auto

lemma declaration_agrees:
  "jget (JObj r) ''kind'' = JStr ''declaration'' \<Longrightarrow> events_check r \<longleftrightarrow> manifest_ok r \<and> beyond_manifest r"
  by (simp add: events_check_def manifest_ok_def forbidden_simps forbidden beyond_manifest_def vocabularies) auto

lemma unknown_kind_agrees:
  "\<not> among ''kind'' [''transmission'', ''task'', ''workstream'', ''system'', ''declaration''] r
     \<Longrightarrow> \<not> events_check r \<and> \<not> manifest_ok r"
  by (auto simp: events_check_def manifest_ok_def KIND_MANIFEST_def split: json.splits if_splits)

section \<open>Properties\<close>


end
