(* ===== verification/Canonical.thy ===== *)
theory Canonical
  imports Json Py_Text
begin

text \<open>
  JSON text as Python's \<open>json.dumps(..., ensure_ascii=False)\<close> writes it, and the canonical
  bytes of \<open>claudlobby/plane/canonical.py\<close>: every text NFC-normalized, keys sorted, no
  whitespace, no floats. Unicode's NFC is the argument \<open>nfc\<close>, SHA-256 the argument \<open>sha\<close>, and
  \<open>repr\<close> of a float the argument \<open>fl\<close> (canonical bytes have none). The argument \<open>seps\<close> is the
  pair of separators.
\<close>

section \<open>Text of values\<close>

definition digit_char :: "nat \<Rightarrow> char" where
  "digit_char n = char_of (if n < 10 then 48 + n else 87 + n)"

fun nat_text :: "nat \<Rightarrow> string" where
  "nat_text n = (if n < 10 then [digit_char n] else nat_text (n div 10) @ [digit_char (n mod 10)])"

declare nat_text.simps [simp del]

definition int_text :: "int \<Rightarrow> string" where
  "int_text i = (if i < 0 then CHR ''-'' # nat_text (nat (- i)) else nat_text (nat i))"

definition esc :: "char \<Rightarrow> string" where
  "esc c =
     (let n = code c in
      if n = 34 then [CHR 0x5C, CHR 0x22] else if n = 92 then [CHR 0x5C, CHR 0x5C]
      else if n = 10 then [CHR 0x5C, CHR ''n''] else if n = 13 then [CHR 0x5C, CHR ''r'']
      else if n = 9 then [CHR 0x5C, CHR ''t''] else if n = 12 then [CHR 0x5C, CHR ''f'']
      else if n = 8 then [CHR 0x5C, CHR ''b'']
      else if n < 32 then [CHR 0x5C, CHR ''u'', CHR ''0'', CHR ''0'', digit_char (n div 16), digit_char (n mod 16)]
      else [c])"

definition str_text :: "string \<Rightarrow> string" where
  "str_text s = CHR 0x22 # concat (map esc s) @ [CHR 0x22]"

fun dump :: "(rat \<Rightarrow> string) \<Rightarrow> string \<times> string \<Rightarrow> json \<Rightarrow> string"
  and dump_items :: "(rat \<Rightarrow> string) \<Rightarrow> string \<times> string \<Rightarrow> json list \<Rightarrow> string"
  and dump_members :: "(rat \<Rightarrow> string) \<Rightarrow> string \<times> string \<Rightarrow> (string \<times> json) list \<Rightarrow> string" where
  "dump fl seps JNull = ''null''"
| "dump fl seps (JBool b) = (if b then ''true'' else ''false'')"
| "dump fl seps (JInt i) = int_text i"
| "dump fl seps (JFloat x) = fl x"
| "dump fl seps (JStr s) = str_text s"
| "dump fl seps (JArr vs) = ''['' @ dump_items fl seps vs @ '']''"
| "dump fl seps (JObj kvs) = ''{'' @ dump_members fl seps kvs @ ''}''"
| "dump_items fl seps [] = []"
| "dump_items fl seps (v # vs) = dump fl seps v @ (if vs = [] then [] else fst seps @ dump_items fl seps vs)"
| "dump_members fl seps [] = []"
| "dump_members fl seps ((k, v) # kvs) =
     str_text k @ snd seps @ dump fl seps v @ (if kvs = [] then [] else fst seps @ dump_members fl seps kvs)"

definition json_dumps :: "(rat \<Rightarrow> string) \<Rightarrow> json \<Rightarrow> string" where
  "json_dumps fl v = dump fl ('', '', '': '') v"

section \<open>Canonical bytes\<close>

datatype canon_error = Has_Float | Key_Collision

fun normalize :: "(string \<Rightarrow> string) \<Rightarrow> json \<Rightarrow> canon_error + json"
  and normalize_items :: "(string \<Rightarrow> string) \<Rightarrow> json list \<Rightarrow> canon_error + json list"
  and normalize_members :: "(string \<Rightarrow> string) \<Rightarrow> string list \<Rightarrow> (string \<times> json) list \<Rightarrow> canon_error + (string \<times> json) list" where
  "normalize nfc (JStr s) = Inr (JStr (nfc s))"
| "normalize nfc (JFloat x) = Inl Has_Float"
| "normalize nfc (JArr vs) = (case normalize_items nfc vs of Inl e \<Rightarrow> Inl e | Inr vs' \<Rightarrow> Inr (JArr vs'))"
| "normalize nfc (JObj kvs) = (case normalize_members nfc [] kvs of Inl e \<Rightarrow> Inl e | Inr kvs' \<Rightarrow> Inr (JObj kvs'))"
| "normalize nfc v = Inr v"
| "normalize_items nfc [] = Inr []"
| "normalize_items nfc (v # vs) =
     (case normalize nfc v of Inl e \<Rightarrow> Inl e
      | Inr v' \<Rightarrow> (case normalize_items nfc vs of Inl e \<Rightarrow> Inl e | Inr vs' \<Rightarrow> Inr (v' # vs')))"
| "normalize_members nfc seen [] = Inr []"
| "normalize_members nfc seen ((k, v) # kvs) =
     (if nfc k \<in> set seen then Inl Key_Collision
      else case normalize nfc v of Inl e \<Rightarrow> Inl e
        | Inr v' \<Rightarrow> (case normalize_members nfc (nfc k # seen) kvs of Inl e \<Rightarrow> Inl e
            | Inr kvs' \<Rightarrow> Inr ((nfc k, v') # kvs')))"

text \<open>\<open>sort_keys=True\<close>, at every depth.\<close>

fun sort_keys :: "json \<Rightarrow> json" where
  "sort_keys (JArr vs) = JArr (map sort_keys vs)"
| "sort_keys (JObj kvs) = JObj (sort_key fst (map (\<lambda>(k, v). (k, sort_keys v)) kvs))"
| "sort_keys v = v"

definition no_fl :: "rat \<Rightarrow> string" where
  "no_fl x = []"

definition canonical_bytes :: "(string \<Rightarrow> string) \<Rightarrow> json \<Rightarrow> canon_error + string" where
  "canonical_bytes nfc v =
     (case normalize nfc v of Inl e \<Rightarrow> Inl e | Inr v' \<Rightarrow> Inr (dump no_fl ('','', '':'') (sort_keys v')))"

definition canonical_hash :: "(string \<Rightarrow> string) \<Rightarrow> (string \<Rightarrow> string) \<Rightarrow> json \<Rightarrow> canon_error + string" where
  "canonical_hash nfc sha v =
     (case canonical_bytes nfc v of Inl e \<Rightarrow> Inl e | Inr b \<Rightarrow> Inr (''sha256:'' @ sha b))"

section \<open>The text says which value it is\<close>

lemma code_digit_char: "n < 16 \<Longrightarrow> code (digit_char n) = (if n < 10 then 48 + n else 87 + n)"
  by (simp add: digit_char_def code_def)

lemma digit_char_inj: "n < 16 \<Longrightarrow> m < 16 \<Longrightarrow> digit_char n = digit_char m \<Longrightarrow> n = m"
proof -
  assume a: "n < 16" "m < 16" "digit_char n = digit_char m"
  have "(if n < 10 then 48 + n else 87 + n) = (if m < 10 then 48 + m else 87 + m)"
    using code_digit_char [OF a(1)] code_digit_char [OF a(2)] a(3) by metis
  then show ?thesis by (simp split: if_splits)
qed

lemma code_inj: "code c = code d \<Longrightarrow> c = d"
  by (simp add: code_def)

lemma is_digit_digit_char: "n < 10 \<Longrightarrow> is_digit (digit_char n)"
  by (simp add: is_digit_def code_digit_char)

lemma nat_text_digits: "\<forall>c \<in> set (nat_text n). is_digit c"
proof (induction n rule: nat_text.induct)
  case (1 n)
  show ?case
  proof (cases "n < 10")
    case True
    then show ?thesis by (simp add: nat_text.simps [of n] is_digit_digit_char)
  next
    case False
    with 1 show ?thesis by (simp add: nat_text.simps [of n] is_digit_digit_char)
  qed
qed

lemma nat_text_Nil [simp]: "nat_text n \<noteq> []"
  by (simp add: nat_text.simps [of n])

lemma nat_text_inj: "nat_text n = nat_text m \<Longrightarrow> n = m"
proof (induction n arbitrary: m rule: nat_text.induct)
  case (1 n)
  have one: "length (nat_text k) = 1 \<longleftrightarrow> k < 10" for k
    by (cases "k < 10") (simp_all add: nat_text.simps [of k])
  have "n < 10 \<longleftrightarrow> m < 10" using one [of n] one [of m] 1(2) by simp
  then consider "n < 10" "m < 10" | "\<not> n < 10" "\<not> m < 10" by auto
  then show ?case
  proof cases
    case 1
    with \<open>nat_text n = nat_text m\<close> show ?thesis
      by (auto simp: nat_text.simps [of n] nat_text.simps [of m] intro: digit_char_inj)
  next
    case 2
    with \<open>nat_text n = nat_text m\<close> have e: "nat_text (n div 10) = nat_text (m div 10)"
      "digit_char (n mod 10) = digit_char (m mod 10)"
      by (simp_all add: nat_text.simps [of n] nat_text.simps [of m])
    have "n mod 10 = m mod 10" by (rule digit_char_inj [OF _ _ e(2)]) simp_all
    moreover have "n div 10 = m div 10" using 1(1) [OF 2(1) e(1)] .
    ultimately show ?thesis by (metis div_mult_mod_eq)
  qed
qed

text \<open>What may come after a value: nothing, or a character that ends it.\<close>

definition ends_value :: "string \<Rightarrow> bool" where
  "ends_value r \<longleftrightarrow> (case r of [] \<Rightarrow> True | c # _ \<Rightarrow> c \<in> {CHR '','', CHR ''}'', CHR '']''})"

lemma ends_not_digit: "ends_value (c # r) \<Longrightarrow> \<not> is_digit c"
  by (auto simp: ends_value_def is_digit_def code_def)

lemma digits_prefix:
  assumes "\<forall>c \<in> set a. is_digit c" "\<forall>c \<in> set b. is_digit c" "ends_value r" "ends_value r'" "a @ r = b @ r'"
  shows "a = b \<and> r = r'"
proof -
  have t: "takeWhile is_digit (x @ y) = x" if "\<forall>c \<in> set x. is_digit c" "ends_value y" for x y
    using that by (cases y) (simp_all add: takeWhile_append2 takeWhile_tail ends_not_digit)
  have "a = b" using t [OF assms(1,3)] t [OF assms(2,4)] assms(5) by simp
  with assms(5) show ?thesis by simp
qed

lemma int_text_prefix:
  assumes "int_text i @ r = int_text j @ r'" "ends_value r" "ends_value r'"
  shows "i = j \<and> r = r'"
proof -
  have minus: "\<not> is_digit CHR ''-''" by (simp add: is_digit_def code_def)
  have hd: "nat_text n @ x \<noteq> CHR ''-'' # y" for n x y
    using nat_text_digits [of n] minus by (cases "nat_text n") auto
  have "(i < 0) = (j < 0)" using assms(1) hd by (auto simp: int_text_def split: if_splits dest: sym)
  moreover have "nat_text (nat \<bar>i\<bar>) @ r = nat_text (nat \<bar>j\<bar>) @ r'"
    using assms(1) calculation by (auto simp: int_text_def split: if_splits)
  then have "nat_text (nat \<bar>i\<bar>) = nat_text (nat \<bar>j\<bar>) \<and> r = r'"
    by (rule digits_prefix [OF nat_text_digits nat_text_digits assms(2,3)])
  then have "nat \<bar>i\<bar> = nat \<bar>j\<bar> \<and> r = r'" using nat_text_inj by blast
  ultimately show ?thesis by (cases "i < 0") auto
qed

subsection \<open>Texts\<close>

definition escaped :: "char \<Rightarrow> bool" where
  "escaped c \<longleftrightarrow> code c < 32 \<or> code c = 34 \<or> code c = 92"

lemma esc_plain: "\<not> escaped c \<Longrightarrow> esc c = [c]"
  by (auto simp: esc_def escaped_def Let_def)

text \<open>What follows the backslash of an escaped character.\<close>

definition esc_tail :: "nat \<Rightarrow> string" where
  "esc_tail n =
     (if n = 34 then [CHR 0x22] else if n = 92 then [CHR 0x5C]
      else if n = 10 then ''n'' else if n = 13 then ''r'' else if n = 9 then ''t'' else if n = 12 then ''f''
      else if n = 8 then ''b'' else ''u00'' @ [digit_char (n div 16), digit_char (n mod 16)])"

lemma esc_escaped: "escaped c \<Longrightarrow> esc c = CHR 0x5C # esc_tail (code c)"
  by (auto simp: esc_def escaped_def esc_tail_def Let_def)

lemma esc_tail_prefix:
  assumes "n < 32 \<or> n = 34 \<or> n = 92" "m < 32 \<or> m = 34 \<or> m = 92" "esc_tail n @ x = esc_tail m @ y"
  shows "n = m \<and> x = y"
proof (cases "n \<in> {34, 92, 10, 13, 9, 12, 8} \<or> m \<in> {34, 92, 10, 13, 9, 12, 8}")
  case True
  with assms(3) show ?thesis by (auto simp: esc_tail_def split: if_splits)
next
  case False
  with assms have u: "esc_tail n = ''u00'' @ [digit_char (n div 16), digit_char (n mod 16)]"
    "esc_tail m = ''u00'' @ [digit_char (m div 16), digit_char (m mod 16)]" "n < 32" "m < 32"
    by (auto simp: esc_tail_def)
  with assms(3) have d: "digit_char (n div 16) = digit_char (m div 16)" "digit_char (n mod 16) = digit_char (m mod 16)" "x = y"
    by simp_all
  have "n div 16 = m div 16" by (rule digit_char_inj [OF _ _ d(1)]) (use u in linarith)+
  moreover have "n mod 16 = m mod 16" by (rule digit_char_inj [OF _ _ d(2)]) simp_all
  ultimately show ?thesis using d(3) by (metis div_mult_mod_eq)
qed

lemma esc_prefix: "esc c @ x = esc d @ y \<Longrightarrow> c = d \<and> x = y"
proof (cases "escaped c"; cases "escaped d")
  assume e: "esc c @ x = esc d @ y" and c: "escaped c" and d: "escaped d"
  from e have "esc_tail (code c) @ x = esc_tail (code d) @ y" by (simp add: esc_escaped [OF c] esc_escaped [OF d])
  with c d show ?thesis using esc_tail_prefix code_inj by (metis escaped_def)
qed (auto simp: esc_plain esc_escaped escaped_def code_def)

lemma esc_head: "esc c @ x \<noteq> CHR 0x22 # y"
  by (cases "escaped c") (auto simp: esc_plain esc_escaped escaped_def code_def)

lemma text_prefix:
  "concat (map esc s) @ CHR 0x22 # r = concat (map esc s') @ CHR 0x22 # r' \<Longrightarrow> s = s' \<and> r = r'"
proof (induction s arbitrary: s')
  case Nil
  show ?case
  proof (cases s')
    case (Cons d t)
    with Nil have "esc d @ (concat (map esc t) @ CHR 0x22 # r') = CHR 0x22 # r" by simp
    with esc_head show ?thesis by blast
  qed (use Nil in simp)
next
  case (Cons c s)
  show ?case
  proof (cases s')
    case Nil
    with Cons.prems have "esc c @ (concat (map esc s) @ CHR 0x22 # r) = CHR 0x22 # r'" by simp
    with esc_head show ?thesis by blast
  next
    case (Cons d t)
    with Cons.prems have "esc c @ (concat (map esc s) @ CHR 0x22 # r) = esc d @ (concat (map esc t) @ CHR 0x22 # r')"
      by simp
    then have "c = d \<and> concat (map esc s) @ CHR 0x22 # r = concat (map esc t) @ CHR 0x22 # r'" by (rule esc_prefix)
    with Cons.IH [of t] Cons show ?thesis by simp
  qed
qed

lemma str_text_prefix: "str_text s @ r = str_text s' @ r' \<Longrightarrow> s = s' \<and> r = r'"
  using text_prefix [of s r s' r'] by (simp add: str_text_def)

subsection \<open>Values\<close>

fun no_float :: "json \<Rightarrow> bool" where
  "no_float (JFloat x) = False"
| "no_float (JArr vs) = list_all no_float vs"
| "no_float (JObj kvs) = list_all (\<lambda>(k, v). no_float v) kvs"
| "no_float v = True"

abbreviation ctext :: "json \<Rightarrow> string" where
  "ctext \<equiv> dump no_fl ('','', '':'')"

abbreviation citems :: "json list \<Rightarrow> string" where
  "citems \<equiv> dump_items no_fl ('','', '':'')"

abbreviation cmembers :: "(string \<times> json) list \<Rightarrow> string" where
  "cmembers \<equiv> dump_members no_fl ('','', '':'')"

text \<open>The first character of a value's text tells its kind.\<close>

definition value_head :: "json \<Rightarrow> char \<Rightarrow> bool" where
  "value_head v c =
     (case v of JNull \<Rightarrow> c = CHR ''n'' | JBool b \<Rightarrow> c = (if b then CHR ''t'' else CHR ''f'')
      | JInt i \<Rightarrow> is_digit c \<or> c = CHR ''-'' | JStr s \<Rightarrow> c = CHR 0x22 | JArr vs \<Rightarrow> c = CHR ''[''
      | JObj kvs \<Rightarrow> c = CHR ''{'' | JFloat x \<Rightarrow> False)"

lemma ctext_head: "no_float v \<Longrightarrow> \<exists>c t. ctext v = c # t \<and> value_head v c"
proof (cases v)
  case (JInt i)
  have "\<exists>c t. nat_text n = c # t \<and> is_digit c" for n
    using nat_text_digits [of n] by (cases "nat_text n") auto
  from this [of "nat i"] show ?thesis by (cases "i < 0") (auto simp: JInt value_head_def int_text_def)
qed (auto simp: value_head_def str_text_def)

lemma value_head_ends: "value_head v c \<Longrightarrow> \<not> ends_value (c # r)"
  by (auto simp: value_head_def ends_value_def is_digit_def code_def split: json.splits if_splits)

lemma ctext_not_end: "no_float v \<Longrightarrow> \<not> ends_value (ctext v @ r)"
  using ctext_head [of v] value_head_ends by fastforce

lemma value_head_kind:
  "value_head v c \<Longrightarrow> value_head w c \<Longrightarrow>
     v = w \<or> (\<exists>i j. v = JInt i \<and> w = JInt j) \<or> (\<exists>s t. v = JStr s \<and> w = JStr t)
     \<or> (\<exists>xs ys. v = JArr xs \<and> w = JArr ys) \<or> (\<exists>xs ys. v = JObj xs \<and> w = JObj ys)"
  by (auto simp: value_head_def is_digit_def code_def split: json.splits if_splits)

lemma ends_simps [simp]: "ends_value (CHR '','' # r)" "ends_value (CHR '']'' # r)" "ends_value (CHR ''}'' # r)"
  by (simp_all add: ends_value_def)

lemma items_prefix:
  assumes "\<And>v w r r'. v \<in> set vs \<Longrightarrow> no_float w \<Longrightarrow> ends_value r \<Longrightarrow> ends_value r' \<Longrightarrow> ctext v @ r = ctext w @ r' \<Longrightarrow> v = w \<and> r = r'"
    and "list_all no_float vs" "list_all no_float ws"
    and "citems vs @ CHR '']'' # r = citems ws @ CHR '']'' # r'"
  shows "vs = ws \<and> r = r'"
  using assms
proof (induction vs arbitrary: ws)
  case Nil
  show ?case
  proof (cases ws)
    case (Cons w us)
    with Nil have "\<exists>t. CHR '']'' # r = ctext w @ t" by auto
    then obtain t where "CHR '']'' # r = ctext w @ t" ..
    with ctext_not_end [of w t] Nil.prems(3) Cons show ?thesis by (metis ends_simps(2) list.pred_inject(2))
  qed (use Nil in simp)
next
  case (Cons v vs)
  show ?case
  proof (cases ws)
    case Nil
    with Cons.prems(4) have "\<exists>t. CHR '']'' # r' = ctext v @ t" by (auto split del: if_split dest: sym)
    then obtain t where "CHR '']'' # r' = ctext v @ t" ..
    with ctext_not_end [of v t] Cons.prems(2) show ?thesis by (metis ends_simps(2) list.pred_inject(2))
  next
    case (Cons w us)
    let ?t = "\<lambda>xs q. (if xs = [] then [] else '','' @ citems xs) @ CHR '']'' # q"
    have e: "ctext v @ ?t vs r = ctext w @ ?t us r'" using Cons.prems(4) Cons by (simp cong: if_cong split del: if_split)
    have "ends_value (?t xs q)" for xs q by simp
    with Cons.prems(1) [of v w "?t vs r" "?t us r'"] e Cons.prems(3) Cons
    have vw: "v = w" and t: "?t vs r = ?t us r'" by auto
    have "vs = [] \<longleftrightarrow> us = []" using t by (auto split: if_splits)
    with t have "citems vs @ CHR '']'' # r = citems us @ CHR '']'' # r'" by (auto split: if_splits)
    with Cons.IH [of us] Cons.prems(1-3) Cons vw show ?thesis by (auto simp del: dump_items.simps)
  qed
qed

lemma members_prefix:
  assumes "\<And>k v w r r'. (k, v) \<in> set kvs \<Longrightarrow> no_float w \<Longrightarrow> ends_value r \<Longrightarrow> ends_value r' \<Longrightarrow> ctext v @ r = ctext w @ r' \<Longrightarrow> v = w \<and> r = r'"
    and "list_all (\<lambda>(k, v). no_float v) kvs" "list_all (\<lambda>(k, v). no_float v) kws"
    and "cmembers kvs @ CHR ''}'' # r = cmembers kws @ CHR ''}'' # r'"
  shows "kvs = kws \<and> r = r'"
  using assms
proof (induction kvs arbitrary: kws)
  case Nil
  then show ?case by (cases kws) (auto simp: str_text_def)
next
  case (Cons kv kvs)
  obtain k v where kv: "kv = (k, v)" by (cases kv)
  show ?case
  proof (cases kws)
    case Nil
    with Cons.prems(4) show ?thesis by (simp add: kv str_text_def)
  next
    case (Cons lw us)
    obtain l w where lw: "lw = (l, w)" by (cases lw)
    let ?t = "\<lambda>xs q. (if xs = [] then [] else '','' @ cmembers xs) @ CHR ''}'' # q"
    have "str_text k @ (CHR '':'' # ctext v @ ?t kvs r) = str_text l @ (CHR '':'' # ctext w @ ?t us r')"
      using Cons.prems(4) Cons by (simp add: kv lw cong: if_cong split del: if_split)
    then have kl: "k = l" and e: "ctext v @ ?t kvs r = ctext w @ ?t us r'" by (auto dest: str_text_prefix)
    have "ends_value (?t xs q)" for xs q by simp
    with Cons.prems(1) [of k v w "?t kvs r" "?t us r'"] e Cons.prems(3) Cons
    have vw: "v = w" and t: "?t kvs r = ?t us r'" by (auto simp: kv lw)
    have "kvs = [] \<longleftrightarrow> us = []" using t by (auto split: if_splits)
    with t have "cmembers kvs @ CHR ''}'' # r = cmembers us @ CHR ''}'' # r'" by (auto split: if_splits)
    then have "kvs = us \<and> r = r'"
    proof (rule Cons.IH [rotated 3])
      show "v' = w' \<and> q = q'" if "(k', v') \<in> set kvs" "no_float w'" "ends_value q" "ends_value q'"
        "ctext v' @ q = ctext w' @ q'" for k' v' w' q q'
        by (rule Cons.prems(1) [OF _ that(2-5)]) (use that(1) in \<open>rule list.set_intros(2)\<close>)
      show "list_all (\<lambda>(k, v). no_float v) kvs" using Cons.prems(2) by simp
      show "list_all (\<lambda>(k, v). no_float v) us" using Cons.prems(3) Cons by simp
    qed
    with vw kl Cons show ?thesis by (simp add: kv lw)
  qed
qed

lemma ctext_prefix:
  "no_float v \<Longrightarrow> no_float w \<Longrightarrow> ends_value r \<Longrightarrow> ends_value r' \<Longrightarrow> ctext v @ r = ctext w @ r' \<Longrightarrow> v = w \<and> r = r'"
proof (induction v arbitrary: w r r')
  case (JArr vs)
  from ctext_head [OF JArr.prems(2)] JArr.prems(5) have "value_head w CHR ''[''" by auto
  then obtain ws where w: "w = JArr ws" by (auto simp: value_head_def is_digit_def code_def split: json.splits if_splits)
  have "vs = ws \<and> r = r'"
    by (rule items_prefix) (use JArr w in \<open>auto simp: list_all_iff simp del: dump_items.simps\<close>)
  with w show ?case by simp
next
  case (JObj kvs)
  from ctext_head [OF JObj.prems(2)] JObj.prems(5) have "value_head w CHR ''{''" by auto
  then obtain ws where w: "w = JObj ws" by (auto simp: value_head_def is_digit_def code_def split: json.splits if_splits)
  have "kvs = ws \<and> r = r'"
    by (rule members_prefix) (use JObj w in \<open>auto simp: list_all_iff simp del: dump_members.simps\<close>)
  with w show ?case by simp
next
  case (JInt i)
  from ctext_head [OF JInt.prems(1)] ctext_head [OF JInt.prems(2)] JInt.prems(5)
  have "\<exists>c. value_head (JInt i) c \<and> value_head w c" by auto
  then obtain j where w: "w = JInt j" using value_head_kind by blast
  with JInt.prems int_text_prefix [of i r j r'] show ?case by simp
next
  case (JStr s)
  from ctext_head [OF JStr.prems(1)] ctext_head [OF JStr.prems(2)] JStr.prems(5)
  have "\<exists>c. value_head (JStr s) c \<and> value_head w c" by auto
  then obtain t where w: "w = JStr t" using value_head_kind by blast
  with JStr.prems str_text_prefix [of s r t r'] show ?case by simp
next
  case JNull
  from ctext_head [OF JNull.prems(2)] JNull.prems(5) have "value_head w CHR ''n''" by auto
  then have "w = JNull" by (auto simp: value_head_def is_digit_def code_def split: json.splits if_splits)
  with JNull.prems show ?case by simp
next
  case (JBool b)
  from ctext_head [OF JBool.prems(1)] ctext_head [OF JBool.prems(2)] JBool.prems(5)
  have "\<exists>c. value_head (JBool b) c \<and> value_head w c" by auto
  then have "w = JBool b" using value_head_kind by blast
  with JBool.prems show ?case by simp
qed simp

subsection \<open>States, whatever the order of their keys\<close>

text \<open>Two values are one state: equal leaves, lists equal in order, objects equal as dictionaries.\<close>

fun same_value :: "json \<Rightarrow> json \<Rightarrow> bool" where
  "same_value (JArr vs) (JArr ws) = list_all2 same_value vs ws"
| "same_value (JObj kvs) (JObj kws) =
     (length kvs = length kws \<and> (\<forall>kv \<in> set kvs. \<exists>kw \<in> set kws. fst kv = fst kw \<and> same_value (snd kv) (snd kw)))"
| "same_value v w = (v = w)"

text \<open>A value whose objects have distinct keys, as Python's have.\<close>

fun keys_distinct :: "json \<Rightarrow> bool" where
  "keys_distinct (JArr vs) = list_all keys_distinct vs"
| "keys_distinct (JObj kvs) = (distinct (map fst kvs) \<and> list_all (\<lambda>(k, v). keys_distinct v) kvs)"
| "keys_distinct v = True"

lemma list_all_conj: "list_all (\<lambda>x. P x \<and> Q x) xs \<longleftrightarrow> list_all P xs \<and> list_all Q xs"
  by (auto simp: list_all_iff)

lemma list_all_neq: "list_all (\<lambda>x. x \<noteq> k) ks \<longleftrightarrow> k \<notin> set ks"
  by (auto simp: list_all_iff)

lemma normalize_sound:
  "(normalize nfc v = Inr v' \<longrightarrow> no_float v' \<and> keys_distinct v')"
  "(normalize_items nfc vs = Inr vs' \<longrightarrow> list_all no_float vs' \<and> list_all keys_distinct vs')"
  "(normalize_members nfc seen kvs = Inr kvs' \<longrightarrow> list_all (\<lambda>(k, v). no_float v) kvs'
     \<and> list_all (\<lambda>(k, v). keys_distinct v) kvs' \<and> distinct (map fst kvs') \<and> list_all (\<lambda>k. k \<notin> set seen) (map fst kvs'))"
  by (induction nfc v and nfc vs and nfc seen kvs arbitrary: v' and vs' and kvs'
      rule: normalize_normalize_items_normalize_members.induct)
    (simp_all split: sum.splits, auto simp del: list.pred_map simp: list_all_conj list_all_neq)

lemma no_float_sort_keys: "no_float v \<Longrightarrow> no_float (sort_keys v)"
  by (induction v) (auto simp: list_all_iff)

lemma sort_key_eq_iff:
  assumes "distinct (map fst xs)" "distinct (map fst ys)"
  shows "sort_key fst xs = sort_key fst ys \<longleftrightarrow> set xs = set ys"
proof
  assume "sort_key fst xs = sort_key fst ys"
  then show "set xs = set ys" by (metis set_sort)
next
  assume s: "set xs = set ys"
  have d: "distinct xs" "distinct ys" using assms by (simp_all add: distinct_map)
  with s have m: "mset xs = mset (sort_key fst ys)" by (simp add: set_eq_iff_mset_eq_distinct)
  have "inj_on fst (set xs)" using assms(1) by (simp add: distinct_map)
  with m show "sort_key fst xs = sort_key fst ys" by (intro sort_key_inj_key_eq) simp_all
qed

lemma same_objects:
  assumes IH: "\<And>k v w. (k, v) \<in> set kvs \<Longrightarrow> keys_distinct v \<Longrightarrow> keys_distinct w \<Longrightarrow> sort_keys v = sort_keys w \<longleftrightarrow> same_value v w"
    and d: "distinct (map fst kvs)" "distinct (map fst kws)"
    and kd: "list_all (\<lambda>(k, v). keys_distinct v) kvs" "list_all (\<lambda>(k, v). keys_distinct v) kws"
  shows "sort_keys (JObj kvs) = sort_keys (JObj kws) \<longleftrightarrow> same_value (JObj kvs) (JObj kws)"
proof -
  let ?f = "\<lambda>(k :: string, v). (k, sort_keys v)"
  have mf: "map fst (map ?f xs) = map fst xs" for xs :: "(string \<times> json) list" by (simp add: comp_def case_prod_beta)
  have "sort_keys (JObj kvs) = sort_keys (JObj kws) \<longleftrightarrow> ?f ` set kvs = ?f ` set kws"
    using sort_key_eq_iff [of "map ?f kvs" "map ?f kws"] d by (simp only: mf sort_keys.simps json.inject set_map)
  also have "\<dots> \<longleftrightarrow> length kvs = length kws \<and> ?f ` set kvs \<subseteq> ?f ` set kws"
  proof -
    have card: "card (?f ` set xs) = length xs" if "distinct (map fst xs)" for xs
    proof -
      have "distinct (map ?f xs)" using that mf [of xs] by (metis distinct_map)
      then show ?thesis by (metis distinct_card length_map set_map)
    qed
    show ?thesis using card [OF d(1)] card [OF d(2)]
      by (metis card_subset_eq List.finite_set finite_imageI order_refl)
  qed
  also have "\<dots> \<longleftrightarrow> length kvs = length kws \<and>
      (\<forall>kv \<in> set kvs. \<exists>kw \<in> set kws. fst kv = fst kw \<and> sort_keys (snd kv) = sort_keys (snd kw))"
    by (simp add: case_prod_beta image_subset_iff image_iff)
  also have "\<dots> \<longleftrightarrow> same_value (JObj kvs) (JObj kws)"
  proof -
    have "sort_keys (snd kv) = sort_keys (snd kw) \<longleftrightarrow> same_value (snd kv) (snd kw)"
      if "kv \<in> set kvs" "kw \<in> set kws" for kv kw
      using IH [of "fst kv" "snd kv" "snd kw"] kd that by (fastforce simp: list_all_iff case_prod_beta)
    then show ?thesis by simp
  qed
  finally show ?thesis .
qed

lemma map_eq_list_all2:
  "(\<And>v w. v \<in> set vs \<Longrightarrow> w \<in> set ws \<Longrightarrow> f v = f w \<longleftrightarrow> R v w) \<Longrightarrow> map f vs = map f ws \<longleftrightarrow> list_all2 R vs ws"
proof (induction vs arbitrary: ws)
  case (Cons v vs)
  then show ?case by (cases ws) auto
qed auto

lemma sort_keys_same:
  "keys_distinct v \<Longrightarrow> keys_distinct w \<Longrightarrow> sort_keys v = sort_keys w \<longleftrightarrow> same_value v w"
proof (induction v arbitrary: w)
  case (JArr vs)
  show ?case
  proof (cases w)
    case w: (JArr ws)
    have "map sort_keys vs = map sort_keys ws \<longleftrightarrow> list_all2 same_value vs ws"
      by (rule map_eq_list_all2) (use JArr w in \<open>auto simp: list_all_iff\<close>)
    then show ?thesis by (simp add: w)
  qed (auto simp del: sort_key_simps)
next
  case (JObj kvs)
  show ?case
  proof (cases w)
    case w: (JObj kws)
    have "sort_keys (JObj kvs) = sort_keys (JObj kws) \<longleftrightarrow> same_value (JObj kvs) (JObj kws)"
      by (rule same_objects) (use JObj w in \<open>auto\<close>)
    then show ?thesis by (simp only: w)
  qed auto
qed (case_tac w; auto)+

section \<open>Properties\<close>

text \<open>
  C33. Canonical bytes are equal exactly for one state: two values with canonical bytes have the
  same bytes just when their NFC-normalized forms are equal as dictionaries, whatever the order
  of keys, so that the hash gate suppresses no changed state and writes no unchanged one (up to
  collisions of SHA-256).
\<close>

theorem canonical_bytes_faithful:
  assumes "canonical_bytes nfc a = Inr x" "canonical_bytes nfc b = Inr y"
    and "normalize nfc a = Inr a'" "normalize nfc b = Inr b'"
  shows "x = y \<longleftrightarrow> same_value a' b'"
proof -
  have xy: "x = ctext (sort_keys a')" "y = ctext (sort_keys b')"
    using assms by (simp_all add: canonical_bytes_def)
  have n: "no_float a'" "keys_distinct a'" "no_float b'" "keys_distinct b'"
    using normalize_sound(1) assms(3,4) by blast+
  have "x = y \<longleftrightarrow> sort_keys a' = sort_keys b'"
    using ctext_prefix [OF no_float_sort_keys [OF n(1)] no_float_sort_keys [OF n(3)], of "[]" "[]"]
    by (auto simp: xy ends_value_def)
  then show ?thesis using sort_keys_same [OF n(2,4)] by blast
qed

lemma canonical_bytes_faithful_witness:
  "''{\"a\":1,\"b\":[true]}'' = ''{\"a\":1,\"b\":[true]}''
     \<longleftrightarrow> same_value (JObj [(''b'', JArr [JBool True]), (''a'', JInt 1)]) (JObj [(''a'', JInt 1), (''b'', JArr [JBool True])])"
proof (rule canonical_bytes_faithful)
  show "canonical_bytes id (JObj [(''b'', JArr [JBool True]), (''a'', JInt 1)]) = Inr ''{\"a\":1,\"b\":[true]}''" by code_simp
  show "canonical_bytes id (JObj [(''a'', JInt 1), (''b'', JArr [JBool True])]) = Inr ''{\"a\":1,\"b\":[true]}''" by code_simp
  show "normalize id (JObj [(''b'', JArr [JBool True]), (''a'', JInt 1)]) = Inr (JObj [(''b'', JArr [JBool True]), (''a'', JInt 1)])"
    by code_simp
  show "normalize id (JObj [(''a'', JInt 1), (''b'', JArr [JBool True])]) = Inr (JObj [(''a'', JInt 1), (''b'', JArr [JBool True])])"
    by code_simp
qed

end
