(* ===== verification/Plane_Db.thy ===== *)
theory Plane_Db
  imports Plane_Schema Canonical
begin

text \<open>
  The plane's database as its one writer uses it: the ledger, the identities, the family tables
  and the prune watermarks, and a connection with its transaction. A statement is an action on
  the session that answers or raises. What SQLite does beyond the tables is an oracle: the list
  \<open>faults\<close> says of each statement in turn whether it runs, fails, or (a COMMIT only) takes
  effect and still fails. ROLLBACK of an open transaction always works, as SQLite documents.

  A column that holds the text of a JSON value is kept as that value; a text cut short stays a
  text, and reading JSON out of it raises.
\<close>

declare jget.simps [simp del]

section \<open>Errors\<close>

datatype plane_error =
    Contract_Error string
  | Integrity_Error string
  | Operational_Error "int option" string
  | Db_Error string
  | Identity_Conflict string
  | Canon_Error canon_error
  | Runtime_Error string
  | Value_Err string
  | Os_Error string
  | Killed
  | Type_Err string
  | Attr_Err string
  | Index_Err string
  | Capture_Invalid string
  | Downgrade_Err string
  | Spool_Write_Err string
  | Key_Err string
  | Precondition_Failed string

section \<open>The database\<close>

record ledger_row =
  l_seq :: int
  l_event :: string
  l_family :: string
  l_at :: string

record identity =
  i_uid :: string
  i_kind :: string
  i_alias :: string
  i_parent :: "string option"
  i_provisional :: bool
  i_first_seen :: string
  i_last_seen :: string

record plane_db =
  ledger :: "ledger_row list"
  identities :: "identity list"
  tables :: "string \<Rightarrow> row list"
  watermarks :: "(string \<times> string) list"
  next_seq :: int

text \<open>\<open>ingest_seq\<close> is AUTOINCREMENT: \<open>next_seq\<close> is what the next row gets.\<close>

definition empty_db :: plane_db where
  "empty_db = \<lparr>ledger = [], identities = [], tables = (\<lambda>_. []), watermarks = [], next_seq = 1\<rparr>"

section \<open>The connection\<close>

datatype fault = Runs | Fails plane_error | Runs_And_Fails plane_error

text \<open>
  What the code reads from outside: random digits, the clock, the hash, NFC, the text of JSON
  values (with the text of floats), pydantic's coercions.
\<close>

record world =
  w_hex :: "nat \<Rightarrow> string"
  w_now :: "nat \<Rightarrow> string"
  w_sha :: "string \<Rightarrow> string"
  w_nfc :: "string \<Rightarrow> string"
  w_float :: "rat \<Rightarrow> string"
  w_lax :: lax

record session =
  db :: plane_db
  saved :: "plane_db option"
  faults :: "fault list"
  minted :: nat
  ticks :: nat
  memo :: "((string \<times> string) \<times> string) list"

text \<open>Actions on a state, and those on the session.\<close>

type_synonym ('s, 'a) st = "'s \<Rightarrow> (plane_error + 'a) \<times> 's"
type_synonym 'a act = "(session, 'a) st"

definition ret :: "'a \<Rightarrow> ('s, 'a) st" where
  "ret x s = (Inr x, s)"

definition raise :: "plane_error \<Rightarrow> ('s, 'a) st" where
  "raise e s = (Inl e, s)"

definition andthen :: "('s, 'a) st \<Rightarrow> ('a \<Rightarrow> ('s, 'b) st) \<Rightarrow> ('s, 'b) st" where
  "andthen m f s = (case m s of (Inl e, s') \<Rightarrow> (Inl e, s') | (Inr x, s') \<Rightarrow> f x s')"

definition lift :: "plane_error + 'a \<Rightarrow> ('s, 'a) st" where
  "lift r s = (r, s)"

text \<open>A statement starts: the next fault decides.\<close>

definition stmt :: "unit act" where
  "stmt s =
     (case faults s of [] \<Rightarrow> (Inr (), s)
      | Runs # fs \<Rightarrow> (Inr (), s\<lparr>faults := fs\<rparr>)
      | Fails e # fs \<Rightarrow> (Inl e, s\<lparr>faults := fs\<rparr>)
      | Runs_And_Fails e # fs \<Rightarrow> (Inl e, s\<lparr>faults := fs\<rparr>))"

definition query :: "(plane_db \<Rightarrow> 'a) \<Rightarrow> 'a act" where
  "query f = andthen stmt (\<lambda>_ s. (Inr (f (db s)), s))"

definition query_raising :: "(plane_db \<Rightarrow> plane_error + 'a) \<Rightarrow> 'a act" where
  "query_raising f = andthen stmt (\<lambda>_ s. (f (db s), s))"

definition modify :: "(plane_db \<Rightarrow> plane_db) \<Rightarrow> unit act" where
  "modify f = andthen stmt (\<lambda>_ s. (Inr (), s\<lparr>db := f (db s)\<rparr>))"

definition begin_immediate :: "unit act" where
  "begin_immediate = andthen stmt (\<lambda>_ s.
     case saved s of None \<Rightarrow> (Inr (), s\<lparr>saved := Some (db s)\<rparr>)
     | Some _ \<Rightarrow> (Inl (Operational_Error (Some 1) ''cannot start a transaction within a transaction''), s))"

definition commit :: "unit act" where
  "commit s =
     (case faults s of [] \<Rightarrow> (Inr (), s\<lparr>saved := None\<rparr>)
      | Runs # fs \<Rightarrow> (Inr (), s\<lparr>saved := None, faults := fs\<rparr>)
      | Fails e # fs \<Rightarrow> (Inl e, s\<lparr>faults := fs\<rparr>)
      | Runs_And_Fails e # fs \<Rightarrow> (Inl e, s\<lparr>saved := None, faults := fs\<rparr>))"

text \<open>\<open>if conn.in_transaction: conn.execute("ROLLBACK")\<close>.\<close>

definition rollback_if_open :: "session \<Rightarrow> session" where
  "rollback_if_open s = (case saved s of None \<Rightarrow> s | Some d \<Rightarrow> s\<lparr>db := d, saved := None\<rparr>)"

definition mint_hex :: "world \<Rightarrow> string act" where
  "mint_hex w s = (Inr (w_hex w (minted s)), s\<lparr>minted := Suc (minted s)\<rparr>)"

definition now_iso :: "world \<Rightarrow> string act" where
  "now_iso w s = (Inr (w_now w (ticks s)), s\<lparr>ticks := Suc (ticks s)\<rparr>)"

section \<open>Rows\<close>

text \<open>\<open>INSERT INTO ingest_ledger\<close>: the event id is unique; the answer is \<open>lastrowid\<close>.\<close>

definition insert_ledger :: "string \<Rightarrow> string \<Rightarrow> string \<Rightarrow> int act" where
  "insert_ledger event_id family now = andthen stmt (\<lambda>_ s.
     if event_id \<in> l_event ` set (ledger (db s))
     then (Inl (Integrity_Error ''UNIQUE constraint failed: ingest_ledger.event_id''), s)
     else (Inr (next_seq (db s)), s\<lparr>db := (db s)\<lparr>
       ledger := ledger (db s) @ [\<lparr>l_seq = next_seq (db s), l_event = event_id, l_family = family, l_at = now\<rparr>],
       next_seq := next_seq (db s) + 1\<rparr>\<rparr>))"

text \<open>\<open>_insert\<close>: the CHECK of the table, then its unique columns.\<close>

definition insert_row :: "string \<Rightarrow> row \<Rightarrow> unit act" where
  "insert_row table values = andthen stmt (\<lambda>_ s.
     if \<not> table_check table values
     then (Inl (Integrity_Error (''CHECK constraint failed: '' @ table)), s)
     else case clash table (tables (db s) table) values of
         Some c \<Rightarrow> (Inl (Integrity_Error (''UNIQUE constraint failed: '' @ table @ ''.'' @ c)), s)
       | None \<Rightarrow> (Inr (), s\<lparr>db := (db s)\<lparr>tables := (tables (db s))(table := tables (db s) table @ [values])\<rparr>\<rparr>))"

section \<open>Rules for actions\<close>

text \<open>
  \<open>runs R Q m\<close>: whatever the faults, \<open>m\<close> keeps the relation \<open>R\<close> between the session before and
  after, and where it answers the answer and the sessions satisfy \<open>Q\<close>.
\<close>

definition runs :: "('s \<Rightarrow> 's \<Rightarrow> bool) \<Rightarrow> ('s \<Rightarrow> 'a \<Rightarrow> 's \<Rightarrow> bool) \<Rightarrow> ('s, 'a) st \<Rightarrow> bool" where
  "runs R Q m \<longleftrightarrow> (\<forall>s r s'. m s = (r, s') \<longrightarrow> R s s' \<and> (case r of Inl e \<Rightarrow> True | Inr x \<Rightarrow> Q s x s'))"

named_theorems run_intros \<open>what an action keeps\<close>

abbreviation keeps :: "('s \<Rightarrow> 's \<Rightarrow> bool) \<Rightarrow> ('s, 'a) st \<Rightarrow> bool" where
  "keeps R m \<equiv> runs R (\<lambda>_ _ _. True) m"

lemma keepsI: "(\<And>s r s'. m s = (r, s') \<Longrightarrow> R s s') \<Longrightarrow> keeps R m"
  by (auto simp: runs_def split: sum.split)

lemma keepsD: "runs R Q m \<Longrightarrow> m s = (r, s') \<Longrightarrow> R s s'"
  by (simp add: runs_def)

lemma runsD: "runs R Q m \<Longrightarrow> m s = (Inr x, s') \<Longrightarrow> Q s x s'"
  by (fastforce simp: runs_def)

lemma keeps_andthen [run_intros]:
  assumes "transp R" "keeps R m" "\<And>x. keeps R (f x)"
  shows "keeps R (andthen m f)"
proof (rule keepsI)
  fix s r s' assume a: "andthen m f s = (r, s')"
  obtain q t where m: "m s = (q, t)" by (cases "m s")
  show "R s s'"
  proof (cases q)
    case (Inl e)
    with a m keepsD [OF assms(2) m] show ?thesis by (auto simp: andthen_def)
  next
    case (Inr x)
    with a m have "f x t = (r, s')" by (simp add: andthen_def)
    from transpD [OF assms(1) keepsD [OF assms(2) m] keepsD [OF assms(3) this]] show ?thesis .
  qed
qed

lemma andthen_Inr:
  "andthen m f s = (Inr y, s') \<longleftrightarrow> (\<exists>x t. m s = (Inr x, t) \<and> f x t = (Inr y, s'))"
  by (auto simp: andthen_def split: prod.splits sum.splits)

lemma andthen_cases:
  assumes "andthen m f s = (r, s')"
  obtains (stopped) e where "m s = (Inl e, s')" "r = Inl e" | (went) x t where "m s = (Inr x, t)" "f x t = (r, s')"
  using assms by (auto simp: andthen_def split: prod.splits sum.splits)

lemma keeps_if [run_intros]: "keeps R m \<Longrightarrow> keeps R m' \<Longrightarrow> keeps R (if b then m else m')"
  by simp

lemma ret_simp [simp]: "ret x s = (Inr x, s)" by (simp add: ret_def)
lemma raise_simp [simp]: "raise e s = (Inl e, s)" by (simp add: raise_def)
lemma lift_simp [simp]: "lift r s = (r, s)" by (simp add: lift_def)

text \<open>Guards and lookups of an action that answers.\<close>

lemma found_act: "(case a of None \<Rightarrow> raise e | Some i \<Rightarrow> f i) s = (Inr y, s') \<longleftrightarrow> (\<exists>i. a = Some i \<and> f i s = (Inr y, s'))"
  by (cases a) simp_all

lemma guard_act: "(if b then raise e else m) s = (Inr y, s') \<longleftrightarrow> \<not> b \<and> m s = (Inr y, s')"
  by simp

lemmas act_answers = andthen_Inr found_act guard_act

lemma keeps_now: "reflp R \<Longrightarrow> keeps R (ret x)" "reflp R \<Longrightarrow> keeps R (raise e)" "reflp R \<Longrightarrow> keeps R (lift q)"
  by (auto intro!: keepsI simp: ret_def raise_def lift_def reflpD)

lemma stmt_cases: "stmt s = (r, s') \<Longrightarrow> \<exists>fs. s' = s\<lparr>faults := fs\<rparr> \<and> set fs \<subseteq> set (faults s)"
  by (auto simp: stmt_def split: list.splits fault.splits intro: exI [of _ "faults s"])

lemma stmt_runs: "stmt s = (Inr u, s') \<Longrightarrow> \<exists>fs. s' = s\<lparr>faults := fs\<rparr>"
  using stmt_cases by blast

lemma query_Inr: "query f s = (Inr x, s') \<Longrightarrow> x = f (db s) \<and> (\<exists>fs. s' = s\<lparr>faults := fs\<rparr>)"
  by (auto simp: query_def andthen_Inr dest!: stmt_runs)

lemma query_raising_Inr: "query_raising f s = (Inr x, s') \<Longrightarrow> f (db s) = Inr x \<and> (\<exists>fs. s' = s\<lparr>faults := fs\<rparr>)"
  by (auto simp: query_raising_def andthen_Inr dest!: stmt_runs)

lemma modify_Inr: "modify f s = (Inr u, s') \<Longrightarrow> \<exists>fs. s' = s\<lparr>faults := fs, db := f (db s)\<rparr>"
  by (auto simp: modify_def andthen_Inr dest!: stmt_runs)

section \<open>The frame of an action\<close>

text \<open>An action inside a transaction leaves the snapshot alone, and no fault comes from nowhere.\<close>

definition no_new_faults :: "session \<Rightarrow> session \<Rightarrow> bool" where
  "no_new_faults s s' \<longleftrightarrow> set (faults s') \<subseteq> set (faults s)"

definition same_tx :: "session \<Rightarrow> session \<Rightarrow> bool" where
  "same_tx s s' \<longleftrightarrow> saved s' = saved s \<and> no_new_faults s s'"

text \<open>Beyond that it may touch nothing of the database but the identities.\<close>

definition same_facts :: "session \<Rightarrow> session \<Rightarrow> bool" where
  "same_facts s s' \<longleftrightarrow> saved s' = saved s \<and> ledger (db s') = ledger (db s) \<and> tables (db s') = tables (db s)
     \<and> watermarks (db s') = watermarks (db s) \<and> next_seq (db s') = next_seq (db s) \<and> no_new_faults s s'"

definition same_db :: "session \<Rightarrow> session \<Rightarrow> bool" where
  "same_db s s' \<longleftrightarrow> saved s' = saved s \<and> db s' = db s \<and> no_new_faults s s'"

lemma no_new_faults_refl [simp]: "no_new_faults s s"
  by (simp add: no_new_faults_def)

lemma no_new_faults_trans: "no_new_faults s t \<Longrightarrow> no_new_faults t u \<Longrightarrow> no_new_faults s u"
  by (auto simp: no_new_faults_def)

lemma frame_preorders [run_intros]:
  "transp same_tx" "transp same_facts" "transp same_db" "reflp same_tx" "reflp same_facts" "reflp same_db"
  by (auto intro!: transpI reflpI simp: same_tx_def same_facts_def same_db_def intro: no_new_faults_trans)

lemma same_db_facts: "same_db s s' \<Longrightarrow> same_facts s s'"
  by (simp add: same_db_def same_facts_def)

lemma same_facts_tx: "same_facts s s' \<Longrightarrow> same_tx s s'"
  by (simp add: same_facts_def same_tx_def)

lemma keeps_mono: "keeps R m \<Longrightarrow> (\<And>s s'. R s s' \<Longrightarrow> R' s s') \<Longrightarrow> keeps R' m"
  by (auto intro!: keepsI dest: keepsD)

lemma keeps_stmt: "keeps same_db stmt"
  by (rule keepsI) (drule stmt_cases, auto simp: same_db_def no_new_faults_def)

lemma keeps_andthen_pure:
  assumes "\<And>x s r s'. f x s = (r, s') \<Longrightarrow> R s s'" "keeps same_db m" "transp R" "\<And>s s'. same_db s s' \<Longrightarrow> R s s'"
  shows "keeps R (andthen m f)"
  by (rule keeps_andthen [OF assms(3) keeps_mono [OF assms(2,4)] keepsI]) (auto intro: assms(1))

lemma keeps_query: "keeps same_db (query f)" "keeps same_db (query_raising g)"
  unfolding query_def query_raising_def
  by (rule keeps_andthen_pure; (rule keeps_stmt frame_preorders)?; auto simp: same_db_def no_new_faults_def)+

text \<open>A read touches nothing but the faults.\<close>

definition same_read :: "session \<Rightarrow> session \<Rightarrow> bool" where
  "same_read s s' \<longleftrightarrow> same_db s s' \<and> memo s' = memo s"

lemma same_read_db: "same_read s s' \<Longrightarrow> same_db s s'"
  by (simp add: same_read_def)

lemma read_preorder: "transp same_read" "reflp same_read"
  by (auto intro!: transpI reflpI simp: same_read_def same_db_def intro: no_new_faults_trans)

lemma stmt_read: "keeps same_read stmt"
  by (rule keepsI) (drule stmt_cases, auto simp: same_read_def same_db_def no_new_faults_def)

lemma keeps_query_read: "keeps same_read (query f)" "keeps same_read (query_raising g)"
  unfolding query_def query_raising_def
  by (rule keeps_andthen [OF read_preorder(1) stmt_read keepsI]; auto simp: same_read_def same_db_def)+

lemma keeps_insert: "keeps same_tx (insert_ledger e f n)" "keeps same_tx (insert_row t v)"
  unfolding insert_ledger_def insert_row_def
  by (rule keeps_andthen_pure; (rule keeps_stmt frame_preorders)?;
      auto simp: same_db_def same_tx_def no_new_faults_def split: if_splits option.splits)+

lemma insert_ledger_Inr:
  assumes "insert_ledger e f n s = (Inr q, s')"
  shows "e \<notin> l_event ` set (ledger (db s)) \<and> q = next_seq (db s) \<and>
    (\<exists>fs. s' = s\<lparr>faults := fs, db := (db s)\<lparr>
       ledger := ledger (db s) @ [\<lparr>l_seq = next_seq (db s), l_event = e, l_family = f, l_at = n\<rparr>],
       next_seq := next_seq (db s) + 1\<rparr>\<rparr>)"
  using assms by (auto simp: insert_ledger_def andthen_Inr dest!: stmt_runs split: if_splits)

lemma insert_row_Inr:
  assumes "insert_row t v s = (Inr u, s')"
  shows "table_check t v \<and> clash t (tables (db s) t) v = None \<and>
    (\<exists>fs. s' = s\<lparr>faults := fs, db := (db s)\<lparr>tables := (tables (db s))(t := tables (db s) t @ [v])\<rparr>\<rparr>)"
  using assms by (auto simp: insert_row_def andthen_Inr dest!: stmt_runs split: if_splits option.splits)

end
