(* ===== verification/Plane_Identity.thy ===== *)
theory Plane_Identity
  imports Plane_Db
begin

text \<open>
  Aliases and the uids they are bound to (\<open>claudlobby/plane/identity.py\<close>), and the memo of one
  batch (\<open>ingest._batch_resolver\<close>). A first sight mints a provisional identity; the insert
  ignores a row that exists, so that two racing emitters meet on the winner's uid.
\<close>

section \<open>The registry\<close>

definition IDENTITY_KINDS :: "string list" where
  "IDENTITY_KINDS = [''host'', ''fleet'', ''actor'', ''bot_instance'', ''session'', ''vault'', ''project'', ''library_item'']"

definition find_identity :: "string \<Rightarrow> string \<Rightarrow> plane_db \<Rightarrow> identity option" where
  "find_identity kind alias d = find (\<lambda>i. i_kind i = kind \<and> i_alias i = alias) (identities d)"

text \<open>\<open>INSERT OR IGNORE\<close>: a row that would break a constraint (the uid or the pair is taken, or
  the kind is none of the registry's) is not inserted.\<close>

definition insert_or_ignore :: "identity \<Rightarrow> plane_db \<Rightarrow> plane_db" where
  "insert_or_ignore i d =
     (if i_uid i \<in> i_uid ` set (identities d) \<or> find_identity (i_kind i) (i_alias i) d \<noteq> None
         \<or> i_kind i \<notin> set IDENTITY_KINDS
      then d else d\<lparr>identities := identities d @ [i]\<rparr>)"

text \<open>\<open>UPDATE ... SET last_seen = ?, parent_uid = COALESCE(parent_uid, ?) WHERE uid = ?\<close>.\<close>

definition seen_now :: "string \<Rightarrow> string option \<Rightarrow> identity \<Rightarrow> identity" where
  "seen_now now parent i =
     i\<lparr>i_last_seen := now, i_parent := (case i_parent i of None \<Rightarrow> parent | Some p \<Rightarrow> Some p)\<rparr>"

definition touch :: "string \<Rightarrow> string \<Rightarrow> string option \<Rightarrow> plane_db \<Rightarrow> plane_db" where
  "touch uid now parent d =
     d\<lparr>identities := map (\<lambda>i. if i_uid i = uid then seen_now now parent i else i) (identities d)\<rparr>"

definition resolve :: "world \<Rightarrow> string \<Rightarrow> string \<Rightarrow> string \<Rightarrow> string option \<Rightarrow> string act" where
  "resolve w kind alias now parent_uid =
     andthen (mint_hex w) (\<lambda>h.
       case mint_uid kind h of None \<Rightarrow> raise (Key_Err kind)
       | Some candidate \<Rightarrow>
           andthen (modify (insert_or_ignore \<lparr>i_uid = candidate, i_kind = kind, i_alias = alias, i_parent = parent_uid,
               i_provisional = True, i_first_seen = now, i_last_seen = now\<rparr>)) (\<lambda>_.
           andthen (query (find_identity kind alias)) (\<lambda>row.
             case row of None \<Rightarrow> raise (Type_Err ''no identity row'')
             | Some i \<Rightarrow>
                 if parent_uid \<noteq> None \<and> i_parent i \<noteq> None \<and> i_parent i \<noteq> parent_uid
                 then raise (Identity_Conflict alias)
                 else andthen (modify (touch (i_uid i) now parent_uid)) (\<lambda>_. ret (i_uid i)))))"

definition lookup :: "plane_db \<Rightarrow> string \<Rightarrow> string \<Rightarrow> string option" where
  "lookup d kind alias = map_option i_uid (find_identity kind alias d)"

definition aliases_of_kind :: "plane_db \<Rightarrow> string \<Rightarrow> string list" where
  "aliases_of_kind d kind = sort (map i_alias (filter (\<lambda>i. i_kind i = kind) (identities d)))"

definition resolve_fleet :: "world \<Rightarrow> string \<Rightarrow> string \<Rightarrow> string \<Rightarrow> string act" where
  "resolve_fleet w alias now host_uid = resolve w ''fleet'' alias now (Some host_uid)"

definition resolve_party :: "world \<Rightarrow> string \<Rightarrow> string \<Rightarrow> string option \<Rightarrow> string act" where
  "resolve_party w alias now fleet_uid = resolve w ''actor'' alias now fleet_uid"

text \<open>\<open>alias NOT LIKE 'human:%'\<close>; SQLite's LIKE ignores the case of ASCII letters.\<close>

definition ascii_lower :: "char \<Rightarrow> char" where
  "ascii_lower c = (if 65 \<le> code c \<and> code c \<le> 90 then char_of (code c + 32) else c)"

definition provisional_actors :: "plane_db \<Rightarrow> identity list" where
  "provisional_actors d =
     sort_key i_first_seen (filter (\<lambda>i. i_kind i = ''actor'' \<and> i_provisional i
       \<and> \<not> starts_with (map ascii_lower (i_alias i)) ''human:'') (identities d))"

text \<open>\<open>_confirm\<close>: an observed identity is no longer provisional.\<close>

definition confirm :: "string \<Rightarrow> unit act" where
  "confirm uid = modify (\<lambda>d. d\<lparr>identities :=
     map (\<lambda>i. if i_uid i = uid then i\<lparr>i_provisional := False\<rparr> else i) (identities d)\<rparr>)"

section \<open>One batch\<close>

definition memoized :: "string \<times> string \<Rightarrow> string act \<Rightarrow> string act" where
  "memoized key m s =
     (case map_of (memo s) key of Some u \<Rightarrow> (Inr u, s)
      | None \<Rightarrow> andthen m (\<lambda>u s'. (Inr u, s'\<lparr>memo := memo s' @ [(key, u)]\<rparr>)) s)"

definition fleet :: "world \<Rightarrow> string \<Rightarrow> string \<Rightarrow> string \<Rightarrow> string act" where
  "fleet w now host_uid alias = memoized (''fleet'', alias) (resolve_fleet w alias now host_uid)"

definition bot_parent :: "world \<Rightarrow> string \<Rightarrow> string \<Rightarrow> string \<Rightarrow> string option act" where
  "bot_parent w now host_uid alias =
     (let r = drop 4 alias; fleet_alias = takeWhile (\<lambda>c. c \<noteq> CHR ''/'') r; bot_name = drop (Suc (length fleet_alias)) r in
      if starts_with alias ''bot:'' \<and> fleet_alias \<noteq> [] \<and> length fleet_alias < length r \<and> bot_name \<noteq> []
      then andthen (fleet w now host_uid fleet_alias) (\<lambda>u. ret (Some u)) else ret None)"

definition party :: "world \<Rightarrow> string \<Rightarrow> string \<Rightarrow> string \<Rightarrow> string act" where
  "party w now host_uid alias =
     memoized (''actor'', alias) (andthen (bot_parent w now host_uid alias) (resolve_party w alias now))"

definition entity :: "world \<Rightarrow> string \<Rightarrow> string \<Rightarrow> string \<Rightarrow> string \<Rightarrow> string act" where
  "entity w now host_uid kind alias =
     (if kind = ''fleet'' then fleet w now host_uid alias
      else if kind = ''actor'' then party w now host_uid alias
      else memoized (kind, alias)
        (andthen (if kind = ''bot_instance'' then bot_parent w now host_uid alias else ret None)
          (resolve w kind alias now)))"

section \<open>Only identities are touched\<close>

lemma keeps_modify_facts:
  assumes "\<And>d. ledger (f d) = ledger d \<and> tables (f d) = tables d \<and> watermarks (f d) = watermarks d \<and> next_seq (f d) = next_seq d"
  shows "keeps same_facts (modify f)"
  unfolding modify_def
  by (rule keeps_andthen_pure) (use assms in \<open>auto simp: same_facts_def same_db_def no_new_faults_def keeps_stmt run_intros\<close>)

lemma keeps_mint: "keeps same_db (mint_hex w)" "keeps same_db (now_iso w)"
  by (auto intro!: keepsI simp: mint_hex_def now_iso_def same_db_def no_new_faults_def)

lemmas facts_frame = keeps_mono [OF keeps_query(1) same_db_facts] keeps_mono [OF keeps_query(2) same_db_facts]
  keeps_mono [OF keeps_mint(1) same_db_facts] keeps_now [OF frame_preorders(5)]

lemma keeps_option: "keeps R (f None) \<Longrightarrow> (\<And>x. keeps R (f (Some x))) \<Longrightarrow> keeps R (f a)"
  by (cases a) auto

lemma resolve_facts: "keeps same_facts (resolve w k a n p)"
  unfolding resolve_def
  by (intro keeps_andthen frame_preorders facts_frame keeps_modify_facts keeps_if allI
      | simp add: insert_or_ignore_def touch_def | split option.split, intro conjI allI impI)+

lemma memoized_facts: "keeps same_facts m \<Longrightarrow> keeps same_facts (memoized key m)"
  by (auto intro!: keepsI simp: memoized_def andthen_def same_facts_def no_new_faults_def runs_def split: option.splits prod.splits sum.splits)

lemma resolver_facts [run_intros]:
  "keeps same_facts (fleet w n h a)" "keeps same_facts (bot_parent w n h a)"
  "keeps same_facts (party w n h a)" "keeps same_facts (entity w n h k a)" "keeps same_facts (confirm u)"
proof -
  show f: "keeps same_facts (fleet w n h a)" for a
    by (simp add: fleet_def resolve_fleet_def memoized_facts resolve_facts)
  show b: "keeps same_facts (bot_parent w n h a)" for a
    unfolding bot_parent_def Let_def by (intro keeps_if keeps_andthen frame_preorders f facts_frame)
  show p: "keeps same_facts (party w n h a)"
    unfolding party_def resolve_party_def by (intro memoized_facts keeps_andthen frame_preorders b resolve_facts)
  show "keeps same_facts (entity w n h k a)"
    unfolding entity_def by (intro keeps_if f p memoized_facts keeps_andthen frame_preorders b resolve_facts facts_frame)
  show "keeps same_facts (confirm u)" unfolding confirm_def by (intro keeps_modify_facts) simp
qed

section \<open>Bindings are for good\<close>

definition ids_ok :: "plane_db \<Rightarrow> bool" where
  "ids_ok d \<longleftrightarrow> distinct (map i_uid (identities d)) \<and> distinct (map (\<lambda>i. (i_kind i, i_alias i)) (identities d))"

text \<open>Every binding of \<open>d\<close> is one of \<open>d'\<close>; a parent once set stays.\<close>

definition binding_kept :: "identity \<Rightarrow> identity \<Rightarrow> bool" where
  "binding_kept i i' \<longleftrightarrow> i_uid i' = i_uid i \<and> i_kind i' = i_kind i \<and> i_alias i' = i_alias i
     \<and> (i_parent i = None \<or> i_parent i' = i_parent i)"

definition binds :: "plane_db \<Rightarrow> plane_db \<Rightarrow> bool" where
  "binds d d' \<longleftrightarrow> (\<forall>i \<in> set (identities d). \<exists>i' \<in> set (identities d'). binding_kept i i')"

definition keeps_bindings :: "session \<Rightarrow> session \<Rightarrow> bool" where
  "keeps_bindings s s' \<longleftrightarrow> (ids_ok (db s) \<longrightarrow> ids_ok (db s') \<and> binds (db s) (db s'))"

lemma binding_kept_refl [simp]: "binding_kept i i"
  by (simp add: binding_kept_def)

lemma binds_subset: "set (identities d) \<subseteq> set (identities d') \<Longrightarrow> binds d d'"
  unfolding binds_def using binding_kept_refl by blast

lemma binds_refl [simp]: "binds d d"
  by (simp add: binds_subset)

lemma binds_trans: "binds d e \<Longrightarrow> binds e f \<Longrightarrow> binds d f"
  unfolding binds_def binding_kept_def by (smt (verit, best))

lemma keeps_bindings_preorder [run_intros]: "transp keeps_bindings" "reflp keeps_bindings"
  by (auto intro!: transpI reflpI simp: keeps_bindings_def intro: binds_trans)

lemma same_db_bindings: "same_db s s' \<Longrightarrow> keeps_bindings s s'"
  by (simp add: same_db_def keeps_bindings_def)

lemma find_identity_Some: "find_identity k a d = Some i \<Longrightarrow> i \<in> set (identities d) \<and> i_kind i = k \<and> i_alias i = a"
  by (auto simp: find_identity_def find_Some_iff)

lemma find_identity_None: "find_identity k a d = None \<longleftrightarrow> (\<forall>i \<in> set (identities d). i_kind i \<noteq> k \<or> i_alias i \<noteq> a)"
  by (auto simp: find_identity_def find_None_iff)

lemma insert_or_ignore_ok: "ids_ok d \<Longrightarrow> ids_ok (insert_or_ignore i d) \<and> binds d (insert_or_ignore i d)"
  by (auto simp: insert_or_ignore_def ids_ok_def find_identity_None intro!: binds_subset)

text \<open>A change of rows one by one that keeps uid, kind and alias.\<close>

lemma map_identities_ok:
  assumes "ids_ok d" "\<And>i. binding_kept i (f i)" "identities d' = map f (identities d)"
  shows "ids_ok d' \<and> binds d d'"
proof -
  have "map i_uid (identities d') = map i_uid (identities d)"
    "map (\<lambda>i. (i_kind i, i_alias i)) (identities d') = map (\<lambda>i. (i_kind i, i_alias i)) (identities d)"
    using assms(2) by (simp_all add: assms(3) binding_kept_def)
  with assms(1) have "ids_ok d'" unfolding ids_ok_def by (simp only:)
  moreover have "binds d d'" using assms(2) by (auto simp: binds_def assms(3))
  ultimately show ?thesis ..
qed

lemma touch_ok: "ids_ok d \<Longrightarrow> ids_ok (touch u n p d) \<and> binds d (touch u n p d)"
  by (rule map_identities_ok [where f = "\<lambda>i. if i_uid i = u then seen_now n p i else i"])
    (auto simp: touch_def seen_now_def binding_kept_def split: option.split)

lemma keeps_modify_bindings:
  assumes "\<And>d. ids_ok d \<Longrightarrow> ids_ok (f d) \<and> binds d (f d)"
  shows "keeps keeps_bindings (modify f)"
  unfolding modify_def
proof (rule keeps_andthen_pure)
  show "keeps_bindings s s'" if "(Inr (), s\<lparr>db := f (db s)\<rparr>) = (r, s')" for s and r :: "plane_error + unit" and s'
    using that assms [of "db s"] by (auto simp: keeps_bindings_def)
qed (rule keeps_stmt keeps_bindings_preorder same_db_bindings, assumption?)+

lemmas bindings_frame = keeps_mono [OF keeps_query(1) same_db_bindings] keeps_mono [OF keeps_query(2) same_db_bindings]
  keeps_mono [OF keeps_mint(1) same_db_bindings] keeps_now [OF keeps_bindings_preorder(2)]

lemma resolve_bindings: "keeps keeps_bindings (resolve w k a n p)"
  unfolding resolve_def
  by (intro keeps_andthen keeps_bindings_preorder(1) bindings_frame keeps_modify_bindings insert_or_ignore_ok touch_ok
      keeps_if allI | assumption | split option.split, intro conjI allI impI)+

lemma memoized_bindings: "keeps keeps_bindings m \<Longrightarrow> keeps keeps_bindings (memoized key m)"
  by (auto intro!: keepsI simp: memoized_def andthen_def keeps_bindings_def runs_def split: option.splits prod.splits sum.splits)

lemma confirm_bindings: "keeps keeps_bindings (confirm u)"
  unfolding confirm_def
proof (rule keeps_modify_bindings)
  fix d assume d: "ids_ok d"
  show "ids_ok (d\<lparr>identities := map (\<lambda>i. if i_uid i = u then i\<lparr>i_provisional := False\<rparr> else i) (identities d)\<rparr>)
    \<and> binds d (d\<lparr>identities := map (\<lambda>i. if i_uid i = u then i\<lparr>i_provisional := False\<rparr> else i) (identities d)\<rparr>)"
    by (rule map_identities_ok [OF d, where f = "\<lambda>i. if i_uid i = u then i\<lparr>i_provisional := False\<rparr> else i"])
      (simp_all add: binding_kept_def)
qed

lemma resolver_bindings [run_intros]:
  "keeps keeps_bindings (fleet w n h a)" "keeps keeps_bindings (bot_parent w n h a)"
  "keeps keeps_bindings (party w n h a)" "keeps keeps_bindings (entity w n h k a)"
proof -
  show f: "keeps keeps_bindings (fleet w n h a)" for a
    by (simp add: fleet_def resolve_fleet_def memoized_bindings resolve_bindings)
  show b: "keeps keeps_bindings (bot_parent w n h a)" for a
    unfolding bot_parent_def Let_def by (intro keeps_if keeps_andthen keeps_bindings_preorder f bindings_frame)
  show p: "keeps keeps_bindings (party w n h a)"
    unfolding party_def resolve_party_def by (intro memoized_bindings keeps_andthen keeps_bindings_preorder b resolve_bindings)
  show "keeps keeps_bindings (entity w n h k a)"
    unfolding entity_def
    by (intro keeps_if f p memoized_bindings keeps_andthen keeps_bindings_preorder b resolve_bindings bindings_frame)
qed

definition parent_of :: "plane_db \<Rightarrow> string \<Rightarrow> string \<Rightarrow> string option" where
  "parent_of d kind alias = Option.bind (find_identity kind alias d) i_parent"

lemma find_identity_unique:
  "ids_ok d \<Longrightarrow> i \<in> set (identities d) \<Longrightarrow> find_identity (i_kind i) (i_alias i) d = Some i"
proof -
  assume ok: "ids_ok d" and i: "i \<in> set (identities d)"
  then obtain j where j: "find_identity (i_kind i) (i_alias i) d = Some j"
    by (cases "find_identity (i_kind i) (i_alias i) d") (auto simp: find_identity_None)
  with find_identity_Some [OF j] ok i show ?thesis by (auto simp: ids_ok_def distinct_map inj_on_def)
qed

lemma binds_find:
  assumes "ids_ok d'" "binds d d'" "find_identity k a d = Some i"
  obtains i' where "find_identity k a d' = Some i'" "binding_kept i i'"
proof -
  from find_identity_Some [OF assms(3)] assms(2) obtain i' where "i' \<in> set (identities d')" "binding_kept i i'"
    "i_kind i = k" "i_alias i = a" by (auto simp: binds_def)
  with find_identity_unique [OF assms(1), of i'] that show thesis by (auto simp: binding_kept_def)
qed

lemma find_identity_touch:
  "find_identity k a (touch u n p d) = map_option (\<lambda>i. if i_uid i = u then seen_now n p i else i) (find_identity k a d)"
proof -
  let ?f = "\<lambda>i. if i_uid i = u then seen_now n p i else i"
  have "find P (map ?f xs) = map_option ?f (find (P \<circ> ?f) xs)" for P xs by (induction xs) auto
  then show ?thesis by (simp add: find_identity_def touch_def comp_def seen_now_def if_distrib cong: if_cong)
qed

lemma resolve_answers:
  assumes "resolve w k a n p s = (Inr u, s')"
  shows "lookup (db s') k a = Some u \<and> (p = None \<or> parent_of (db s') k a = p)"
proof -
  from assms obtain i d where i: "find_identity k a d = Some i" "u = i_uid i" "db s' = touch (i_uid i) n p d"
    and c: "p = None \<or> i_parent i = None \<or> i_parent i = p"
    unfolding resolve_def act_answers ret_def by (fastforce dest!: query_Inr modify_Inr)
  then show ?thesis by (auto simp: lookup_def parent_of_def find_identity_touch seen_now_def split: option.split)
qed

text \<open>Resolutions one after the other, whatever each answers.\<close>

fun resolve_each :: "world \<Rightarrow> (string \<times> string \<times> string \<times> string option) list \<Rightarrow> session \<Rightarrow> session" where
  "resolve_each w [] s = s"
| "resolve_each w ((k, a, n, p) # qs) s = resolve_each w qs (snd (resolve w k a n p s))"

lemma resolve_each_bindings: "keeps_bindings s (resolve_each w qs s)"
proof (induction qs arbitrary: s)
  case Nil
  then show ?case using keeps_bindings_preorder(2) by (simp add: reflpD)
next
  case (Cons q qs)
  obtain k a n p where q: "q = (k, a, n, p)" by (metis prod_cases4)
  have "keeps_bindings s (snd (resolve w k a n p s))"
    using keepsD [OF resolve_bindings, of w k a n p s] by (metis prod.collapse)
  with Cons.IH show ?case using keeps_bindings_preorder(1) by (auto simp: q elim: transpD)
qed

section \<open>Properties\<close>

text \<open>
  C22. An alias is bound for good: once a resolution has answered with a uid, whatever is resolved
  afterwards, in whatever order and with whatever faults, the alias keeps that uid, and the
  parent it was resolved under; a second identity for it never appears.
\<close>

theorem alias_bound_for_good:
  assumes "ids_ok (db s)" "resolve w k a n p s = (Inr u, s')"
  shows "lookup (db (resolve_each w qs s')) k a = Some u \<and> ids_ok (db (resolve_each w qs s'))
    \<and> (p = None \<or> parent_of (db (resolve_each w qs s')) k a = p)"
proof -
  let ?t = "resolve_each w qs s'"
  from keepsD [OF resolve_bindings assms(2)] assms(1) have ok: "ids_ok (db s')" by (simp add: keeps_bindings_def)
  with resolve_each_bindings [of s' w qs] have t: "ids_ok (db ?t)" "binds (db s') (db ?t)"
    by (simp_all add: keeps_bindings_def)
  from resolve_answers [OF assms(2)] obtain i where i: "find_identity k a (db s') = Some i" "i_uid i = u"
    "p = None \<or> i_parent i = p" by (auto simp: lookup_def parent_of_def)
  from binds_find [OF t i(1)] obtain i' where i': "find_identity k a (db ?t) = Some i'" "binding_kept i i'" .
  with i t(1) show ?thesis by (auto simp: lookup_def parent_of_def binding_kept_def)
qed

definition sample_world :: world where
  "sample_world = \<lparr>w_hex = (\<lambda>n. replicate 31 CHR ''0'' @ [digit_char (n mod 16)]), w_now = (\<lambda>n. ''2026-01-0'' @ [digit_char (n mod 10)]),
     w_sha = no_sha, w_nfc = id, w_float = no_fl, w_lax = strict_lax\<rparr>"

definition fresh_session :: session where
  "fresh_session = \<lparr>db = empty_db, saved = None, faults = [], minted = 0, ticks = 0, memo = []\<rparr>"

lemma alias_bound_for_good_witness:
  "lookup (db (resolve_each sample_world [(''actor'', ''bot:s/a'', ''t2'', Some ''f2''), (''actor'', ''x'', ''t3'', None)]
      (snd (resolve sample_world ''actor'' ''bot:s/a'' ''t1'' (Some ''f1'') fresh_session)))) ''actor'' ''bot:s/a''
      = Some (''actor_'' @ replicate 32 CHR ''0'')
    \<and> ids_ok (db (resolve_each sample_world [(''actor'', ''bot:s/a'', ''t2'', Some ''f2''), (''actor'', ''x'', ''t3'', None)]
      (snd (resolve sample_world ''actor'' ''bot:s/a'' ''t1'' (Some ''f1'') fresh_session))))
    \<and> (Some ''f1'' = None \<or> parent_of (db (resolve_each sample_world [(''actor'', ''bot:s/a'', ''t2'', Some ''f2''), (''actor'', ''x'', ''t3'', None)]
      (snd (resolve sample_world ''actor'' ''bot:s/a'' ''t1'' (Some ''f1'') fresh_session)))) ''actor'' ''bot:s/a'' = Some ''f1'')"
proof (rule alias_bound_for_good)
  show "ids_ok (db fresh_session)" by code_simp
  have "fst (resolve sample_world ''actor'' ''bot:s/a'' ''t1'' (Some ''f1'') fresh_session)
    = Inr (''actor_'' @ replicate 32 CHR ''0'')" by code_simp
  then show "resolve sample_world ''actor'' ''bot:s/a'' ''t1'' (Some ''f1'') fresh_session
    = (Inr (''actor_'' @ replicate 32 CHR ''0''), snd (resolve sample_world ''actor'' ''bot:s/a'' ''t1'' (Some ''f1'') fresh_session))"
    by (metis prod.collapse)
qed

end
