(* ===== verification/Registry_Read.thy ===== *)
theory Registry_Read
  imports Plane_Identity
begin

text \<open>
  Reading the registry lane (\<open>claudlobby/plane/registry_read.py\<close> and its queries in
  \<open>queries.py\<close>): which tombstones are valid, what is current, the windows of each entity's
  history, the changes between neighbouring rows and their fields, and the check of the
  projection against an estate. Both sides of the write gate ask \<open>current_hash\<close>. A detail that
  is not JSON makes a query that reads it raise.
\<close>

section \<open>Columns\<close>

abbreviation col :: "row \<Rightarrow> string \<Rightarrow> json" where
  "col r c \<equiv> jget (JObj r) c"

definition seq_of :: "row \<Rightarrow> int" where
  "seq_of r = (case col r ''ingest_seq'' of JInt i \<Rightarrow> i | _ \<Rightarrow> 0)"

text \<open>\<open>json_extract(detail, '$.key')\<close>.\<close>

definition json_extract :: "json \<Rightarrow> string \<Rightarrow> plane_error + json" where
  "json_extract v key =
     (case v of JStr s \<Rightarrow> Inl (Operational_Error (Some 1) ''malformed JSON'') | _ \<Rightarrow> Inr (jget v key))"

text \<open>SQLite's \<open>= 1\<close> of what \<open>json_extract\<close> yields.\<close>

definition is_one :: "json \<Rightarrow> bool" where
  "is_one v \<longleftrightarrow> as_num v = Some 1"

section \<open>Valid tombstones\<close>

fun scan_completed :: "json \<Rightarrow> row list \<Rightarrow> plane_error + bool" where
  "scan_completed scan_id [] = Inr False"
| "scan_completed scan_id (d # ds) =
     (if col d ''kind'' = JStr ''declaration'' \<and> col d ''event'' = JStr ''scan_completed'' then
        (case json_extract (col d ''detail'') ''scan_id'' of Inl e \<Rightarrow> Inl e
         | Inr sid \<Rightarrow>
             if sid = scan_id \<and> sid \<noteq> JNull then
               (case json_extract (col d ''detail'') ''complete'' of Inl e \<Rightarrow> Inl e
                | Inr c \<Rightarrow> if is_one c then Inr True else scan_completed scan_id ds)
             else scan_completed scan_id ds)
      else scan_completed scan_id ds)"

definition f11_valid :: "plane_db \<Rightarrow> row \<Rightarrow> plane_error + bool" where
  "f11_valid d r =
     (if col r ''tombstone'' = JInt 0 then Inr True
      else scan_completed (col r ''scan_id'') (tables d ''events''))"

fun filter_raising :: "('a \<Rightarrow> plane_error + bool) \<Rightarrow> 'a list \<Rightarrow> plane_error + 'a list" where
  "filter_raising P [] = Inr []"
| "filter_raising P (x # xs) =
     (case P x of Inl e \<Rightarrow> Inl e
      | Inr b \<Rightarrow> (case filter_raising P xs of Inl e \<Rightarrow> Inl e | Inr ys \<Rightarrow> Inr (if b then x # ys else ys)))"

text \<open>The rows of \<open>effective\<close> that are valid.\<close>

definition valid_rows :: "plane_db \<Rightarrow> plane_error + row list" where
  "valid_rows d = filter_raising (f11_valid d) (tables d ''registry_snapshots'')"

section \<open>Partitions and their order\<close>

definition partition_of :: "row \<Rightarrow> json \<times> json \<times> json" where
  "partition_of r = (col r ''host_uid'', col r ''entity_type'', col r ''entity_uid'')"

definition moment :: "row \<Rightarrow> string \<times> int" where
  "moment r = (text_of (col r ''occurred_at''), seq_of r)"

text \<open>The next and the previous row of a row's partition: \<open>LEAD\<close> and \<open>LAG\<close>.\<close>

definition following :: "row list \<Rightarrow> row \<Rightarrow> row option" where
  "following rows r =
     (case sort_key moment (filter (\<lambda>q. partition_of q = partition_of r \<and> moment r < moment q) rows) of
        [] \<Rightarrow> None | q # _ \<Rightarrow> Some q)"

definition preceding :: "row list \<Rightarrow> row \<Rightarrow> row option" where
  "preceding rows r =
     (case rev (sort_key moment (filter (\<lambda>q. partition_of q = partition_of r \<and> moment q < moment r) rows)) of
        [] \<Rightarrow> None | q # _ \<Rightarrow> Some q)"

text \<open>\<open>rn = 1\<close>: no later row in the partition.\<close>

definition is_latest :: "row list \<Rightarrow> row \<Rightarrow> bool" where
  "is_latest rows r \<longleftrightarrow> following rows r = None"

text \<open>\<open>REG_CURRENT_SQL\<close>.\<close>

definition current_rows :: "plane_db \<Rightarrow> plane_error + row list" where
  "current_rows d =
     (case valid_rows d of Inl e \<Rightarrow> Inl e
      | Inr rows \<Rightarrow> Inr (sort_key (\<lambda>r. (text_of (col r ''entity_type''), text_of (col r ''entity_alias'')))
          (filter (\<lambda>r. is_latest rows r \<and> col r ''tombstone'' = JInt 0) rows)))"

text \<open>\<open>REG_CURRENT_POINT_SQL\<close>: only the partition asked for is read.\<close>

definition point_rows :: "plane_db \<Rightarrow> string \<Rightarrow> string \<Rightarrow> string \<Rightarrow> plane_error + row list" where
  "point_rows d host_uid entity_type entity_uid =
     filter_raising (f11_valid d)
       (filter (\<lambda>r. partition_of r = (JStr host_uid, JStr entity_type, JStr entity_uid)) (tables d ''registry_snapshots''))"

definition current_hash :: "plane_db \<Rightarrow> string \<Rightarrow> string \<Rightarrow> string \<Rightarrow> plane_error + string option" where
  "current_hash d host_uid entity_type entity_uid =
     (case point_rows d host_uid entity_type entity_uid of Inl e \<Rightarrow> Inl e
      | Inr rows \<Rightarrow>
          (case filter (\<lambda>r. is_latest rows r \<and> col r ''tombstone'' = JInt 0) rows of
             [] \<Rightarrow> Inr None | r # _ \<Rightarrow> Inr (Some (text_of (col r ''payload_hash'')))))"

section \<open>Scopes\<close>

definition in_scope :: "string \<Rightarrow> string \<Rightarrow> string \<Rightarrow> (string \<times> string) set \<Rightarrow> bool" where
  "in_scope entity_type alias fleet_name scanned =
     (if entity_type = ''host'' then True
      else if entity_type = ''vault'' then (''vault'', alias) \<in> scanned
      else if entity_type = ''fleet'' then alias = fleet_name
      else if entity_type = ''bot'' then starts_with alias (''bot:'' @ fleet_name @ ''/'')
      else if entity_type = ''project'' then starts_with alias (fleet_name @ ''/'')
      else if entity_type = ''library_item'' then starts_with alias ''shared/'' \<or> starts_with alias (fleet_name @ ''/'')
      else False)"

definition read_scope :: "string \<Rightarrow> string \<Rightarrow> string \<Rightarrow> bool" where
  "read_scope entity_type alias fleet_name =
     (if entity_type = ''vault'' then True else in_scope entity_type alias fleet_name {})"

definition current_entities :: "plane_db \<Rightarrow> string option \<Rightarrow> string option \<Rightarrow> plane_error + row list" where
  "current_entities d entity_type fleet_name =
     (case current_rows d of Inl e \<Rightarrow> Inl e
      | Inr rows \<Rightarrow> Inr (filter (\<lambda>r.
          (case entity_type of None \<Rightarrow> True | Some t \<Rightarrow> col r ''entity_type'' = JStr t)
          \<and> (case fleet_name of None \<Rightarrow> True
             | Some f \<Rightarrow> read_scope (text_of (col r ''entity_type'')) (text_of (col r ''entity_alias'')) f)) rows))"

section \<open>History\<close>

record window =
  win_row :: row
  valid_from :: json
  valid_to :: json

definition history :: "plane_db \<Rightarrow> plane_error + window list" where
  "history d =
     (case valid_rows d of Inl e \<Rightarrow> Inl e
      | Inr rows \<Rightarrow> Inr (map (\<lambda>r. \<lparr>win_row = r, valid_from = col r ''occurred_at'',
            valid_to = (case following rows r of None \<Rightarrow> JNull | Some q \<Rightarrow> col q ''occurred_at'')\<rparr>)
          (sort_key (\<lambda>r. (text_of (col r ''entity_type''), text_of (col r ''entity_alias''), moment r)) rows)))"

definition entity_history :: "plane_db \<Rightarrow> string \<Rightarrow> plane_error + window list" where
  "entity_history d ident =
     (case history d of Inl e \<Rightarrow> Inl e
      | Inr ws \<Rightarrow> Inr (filter (\<lambda>x. col (win_row x) ''entity_alias'' = JStr ident
          \<or> col (win_row x) ''entity_uid'' = JStr ident) ws))"

definition invalid_tombstones :: "plane_db \<Rightarrow> plane_error + row list" where
  "invalid_tombstones d =
     (case filter_raising (\<lambda>r. case scan_completed (col r ''scan_id'') (tables d ''events'') of Inl e \<Rightarrow> Inl e | Inr b \<Rightarrow> Inr (\<not> b))
        (filter (\<lambda>r. col r ''tombstone'' = JInt 1) (tables d ''registry_snapshots'')) of
        Inl e \<Rightarrow> Inl e | Inr rows \<Rightarrow> Inr (rev (sort_key seq_of rows)))"

section \<open>Differences\<close>

text \<open>Python's \<open>==\<close> of two JSON values: numbers and booleans by value, objects as dictionaries.\<close>

fun py_eq :: "json \<Rightarrow> json \<Rightarrow> bool" where
  "py_eq (JArr vs) (JArr ws) = list_all2 py_eq vs ws"
| "py_eq (JObj kvs) (JObj kws) =
     (length kvs = length kws \<and> list_all (\<lambda>kv. case map_of kws (fst kv) of None \<Rightarrow> False | Some w \<Rightarrow> py_eq (snd kv) w) kvs)"
| "py_eq v w = (if as_num v \<noteq> None then as_num v = as_num w else v = w)"

definition keys_union :: "(string \<times> json) list \<Rightarrow> (string \<times> json) list \<Rightarrow> string list" where
  "keys_union kvs kws = sort (remdups (map fst kvs @ map fst kws))"

definition path_to :: "string \<Rightarrow> string \<Rightarrow> string" where
  "path_to prefix key = (if prefix = [] then key else prefix @ ''.'' @ key)"

text \<open>The result is a dictionary: a later entry of a path replaces the value of an earlier one.\<close>

type_synonym diff = "(string \<times> (json \<times> json)) list"

definition update_all :: "diff \<Rightarrow> diff \<Rightarrow> diff" where
  "update_all out new = foldl (\<lambda>o' kv. alist_set (fst kv) (snd kv) o') out new"

lemma size_member: "(k, v) \<in> set kvs \<Longrightarrow> size v < size (JObj kvs)"
  by (induction kvs) auto

lemma size_found: "Some v = map_of kvs k \<Longrightarrow> size v < size (JObj kvs)"
  using size_member map_of_SomeD by metis

function diff_fields :: "json \<Rightarrow> json \<Rightarrow> string \<Rightarrow> diff" where
  "diff_fields prev newer prefix =
     (case (prev, newer) of
        (JObj kvs, JObj kws) \<Rightarrow>
          foldl (\<lambda>out key.
             case (map_of kvs key, map_of kws key) of
               (None, Some w) \<Rightarrow> alist_set (path_to prefix key) (JNull, w) out
             | (Some v, None) \<Rightarrow> alist_set (path_to prefix key) (v, JNull) out
             | (Some v, Some w) \<Rightarrow>
                 if is_obj v \<and> is_obj w then update_all out (diff_fields v w (path_to prefix key))
                 else if py_eq v w then out else alist_set (path_to prefix key) (v, w) out
             | (None, None) \<Rightarrow> out) [] (keys_union kvs kws)
      | _ \<Rightarrow> if py_eq prev newer then [] else [(if prefix = [] then ''.'' else prefix, (prev, newer))])"
  by pat_completeness auto

termination
  by (relation "measure (\<lambda>(p, c, x). size p)") (auto dest!: size_found)

declare diff_fields.simps [simp del]

datatype change = Deleted | First_Observed | Recreated | Updated diff

definition or_empty :: "json \<Rightarrow> json" where
  "or_empty v = (if truthy v then v else JObj [])"

definition change_of :: "row list \<Rightarrow> row \<Rightarrow> change" where
  "change_of rows r =
     (let prev = preceding rows r;
          prev_payload = (case prev of None \<Rightarrow> JNull | Some q \<Rightarrow> col q ''payload'');
          prev_tombstone = (case prev of None \<Rightarrow> JNull | Some q \<Rightarrow> col q ''tombstone'') in
      if truthy (col r ''tombstone'') then Deleted
      else if prev_payload = JNull \<and> prev_tombstone = JNull then First_Observed
      else if truthy prev_tombstone then Recreated
      else Updated (diff_fields (or_empty prev_payload) (or_empty (col r ''payload'')) []))"

definition recent_changes :: "plane_db \<Rightarrow> nat \<Rightarrow> plane_error + (row \<times> change) list" where
  "recent_changes d limit =
     (case valid_rows d of Inl e \<Rightarrow> Inl e
      | Inr rows \<Rightarrow> Inr (map (\<lambda>r. (r, change_of rows r)) (take limit (rev (sort_key seq_of rows)))))"

section \<open>The newest scan\<close>

text \<open>The newest completion, of a scope when one is asked for; its detail must be an object.\<close>

definition last_scan :: "plane_db \<Rightarrow> string option \<Rightarrow> plane_error + obj option" where
  "last_scan d fleet_name =
     (case filter_raising (\<lambda>r. case fleet_name of None \<Rightarrow> Inr True
            | Some f \<Rightarrow> (case json_extract (col r ''detail'') ''scope'' of Inl e \<Rightarrow> Inl e
                | Inr v \<Rightarrow> Inr (v = JStr (''host+shared+fleet:'' @ f))))
          (filter (\<lambda>r. col r ''kind'' = JStr ''declaration'' \<and> col r ''event'' = JStr ''scan_completed'') (tables d ''events'')) of
        Inl e \<Rightarrow> Inl e
      | Inr rows \<Rightarrow>
          (case rev (sort_key seq_of rows) of [] \<Rightarrow> Inr None
           | r # _ \<Rightarrow> (case col r ''detail'' of
               JObj kvs \<Rightarrow> Inr (Some (alist_set ''occurred_at'' (col r ''occurred_at'') kvs))
             | _ \<Rightarrow> Inl (Value_Err ''scan_completed detail is not an object''))))"

section \<open>Verification against an estate\<close>

definition gate_view :: "json \<Rightarrow> json" where
  "gate_view v = (case v of JObj kvs \<Rightarrow> JObj (filter (\<lambda>(k, _). k \<noteq> ''vault_rev'') kvs) | _ \<Rightarrow> v)"

definition gate_hash :: "world \<Rightarrow> json \<Rightarrow> plane_error + string" where
  "gate_hash w payload =
     (case canonical_hash (w_nfc w) (w_sha w) (gate_view payload) of Inl e \<Rightarrow> Inl (Canon_Error e) | Inr h \<Rightarrow> Inr h)"

type_synonym entity_key = "string \<times> string"

record verify_report =
  drifted :: "entity_key list"
  missing_from_db :: "entity_key list"
  missing_from_estate :: "entity_key list"
  checked :: nat

definition report_ok :: "verify_report \<Rightarrow> bool" where
  "report_ok r \<longleftrightarrow> drifted r = [] \<and> missing_from_db r = [] \<and> missing_from_estate r = []"

text \<open>\<open>{(t, a): p for t, a, p in assembled}\<close>: the last payload of a key, at its first place.\<close>

definition by_key :: "(string \<times> string \<times> json) list \<Rightarrow> (entity_key \<times> json) list" where
  "by_key assembled = foldl (\<lambda>m (t, a, p). if (t, a) \<in> fst ` set m then map (\<lambda>(k, v). (k, if k = (t, a) then p else v)) m
      else m @ [((t, a), p)]) [] assembled"

definition key_of :: "row \<Rightarrow> entity_key" where
  "key_of r = (text_of (col r ''entity_type''), text_of (col r ''entity_alias''))"

definition projected :: "string \<Rightarrow> entity_key set \<Rightarrow> string option \<Rightarrow> row list \<Rightarrow> (entity_key \<times> string) list" where
  "projected fleet_name scanned host_uid rows =
     map (\<lambda>r. (key_of r, text_of (col r ''payload_hash'')))
       (filter (\<lambda>r. (case host_uid of None \<Rightarrow> True | Some h \<Rightarrow> col r ''host_uid'' = JStr h)
          \<and> in_scope (fst (key_of r)) (snd (key_of r)) fleet_name scanned) rows)"

text \<open>One assembled entity: the projection's dictionary keeps the last row of a key.\<close>

definition verify_one :: "world \<Rightarrow> (entity_key \<times> string) list \<Rightarrow> verify_report \<Rightarrow> entity_key \<times> json \<Rightarrow> plane_error + verify_report" where
  "verify_one w proj rep kp =
     (case gate_hash w (snd kp) of Inl e \<Rightarrow> Inl e
      | Inr want \<Rightarrow>
          (let rep' = rep\<lparr>checked := Suc (checked rep)\<rparr> in
           case map_of (rev proj) (fst kp) of
             None \<Rightarrow> Inr (rep'\<lparr>missing_from_db := missing_from_db rep' @ [fst kp]\<rparr>)
           | Some got \<Rightarrow> if got \<noteq> want then Inr (rep'\<lparr>drifted := drifted rep' @ [fst kp]\<rparr>) else Inr rep'))"

fun verify_each :: "world \<Rightarrow> (entity_key \<times> string) list \<Rightarrow> verify_report \<Rightarrow> (entity_key \<times> json) list \<Rightarrow> plane_error + verify_report" where
  "verify_each w proj rep [] = Inr rep"
| "verify_each w proj rep (kp # kps) =
     (case verify_one w proj rep kp of Inl e \<Rightarrow> Inl e | Inr rep' \<Rightarrow> verify_each w proj rep' kps)"

definition verify_current :: "world \<Rightarrow> plane_db \<Rightarrow> (string \<times> string \<times> json) list \<Rightarrow> string \<Rightarrow> string option \<Rightarrow> plane_error + verify_report" where
  "verify_current w d assembled fleet_name host_uid =
     (let keyed = by_key assembled; scanned = fst ` set keyed;
          mine = filter (\<lambda>kp. in_scope (fst (fst kp)) (snd (fst kp)) fleet_name scanned) keyed in
      case current_rows d of Inl e \<Rightarrow> Inl e
      | Inr rows \<Rightarrow>
          (let proj = projected fleet_name scanned host_uid rows in
           case verify_each w proj \<lparr>drifted = [], missing_from_db = [], missing_from_estate = [], checked = 0\<rparr> mine of
             Inl e \<Rightarrow> Inl e
           | Inr rep \<Rightarrow> Inr (rep\<lparr>missing_from_estate :=
               sort (filter (\<lambda>k. k \<notin> fst ` set mine) (remdups (map fst proj)))\<rparr>)))"

section \<open>A difference is shown exactly when there is one\<close>

lemma foldl_nil:
  assumes "\<And>out k. \<not> C k \<Longrightarrow> f out k = out" "\<And>out k. C k \<Longrightarrow> f out k \<noteq> []" "\<And>out k. out \<noteq> [] \<Longrightarrow> f out k \<noteq> []"
  shows "foldl f out ks = [] \<longleftrightarrow> out = [] \<and> (\<forall>k \<in> set ks. \<not> C k)"
  by (induction ks arbitrary: out) (use assms in \<open>auto, metis+\<close>)

lemma alist_set_Nil [simp]: "alist_set k v xs \<noteq> []"
  by (cases "(k, v, xs)" rule: alist_set.cases) auto

lemma update_all_Nil [simp]: "update_all out new = [] \<longleftrightarrow> out = [] \<and> new = []"
proof -
  have "foldl (\<lambda>o' kv. alist_set (fst kv) (snd kv) o') out new = [] \<longleftrightarrow> out = [] \<and> (\<forall>k \<in> set new. \<not> True)"
    by (rule foldl_nil) simp_all
  then show ?thesis by (cases new) (auto simp: update_all_def)
qed

lemma update_all_none [simp]: "update_all out [] = out"
  by (simp add: update_all_def)

text \<open>A key of two objects shows a difference.\<close>

definition key_differs :: "(string \<times> json) list \<Rightarrow> (string \<times> json) list \<Rightarrow> string \<Rightarrow> string \<Rightarrow> bool" where
  "key_differs kvs kws prefix key =
     (case (map_of kvs key, map_of kws key) of
        (None, None) \<Rightarrow> False
      | (Some v, Some w) \<Rightarrow> if is_obj v \<and> is_obj w then diff_fields v w (path_to prefix key) \<noteq> [] else \<not> py_eq v w
      | _ \<Rightarrow> True)"

lemma diff_objects:
  "diff_fields (JObj kvs) (JObj kws) prefix = [] \<longleftrightarrow> (\<forall>key \<in> set (map fst kvs @ map fst kws). \<not> key_differs kvs kws prefix key)"
proof -
  have "diff_fields (JObj kvs) (JObj kws) prefix = []
      \<longleftrightarrow> ([] :: diff) = [] \<and> (\<forall>key \<in> set (keys_union kvs kws). \<not> key_differs kvs kws prefix key)"
    unfolding diff_fields.simps [of "JObj kvs" "JObj kws"] prod.case json.case
    by (rule foldl_nil) (auto simp: key_differs_def split: option.splits if_splits)
  then show ?thesis by (simp add: keys_union_def)
qed

lemma py_eq_objects:
  assumes "distinct (map fst kvs)" "distinct (map fst kws)"
  shows "py_eq (JObj kvs) (JObj kws) \<longleftrightarrow>
    (\<forall>key \<in> set (map fst kvs @ map fst kws). \<exists>v w. map_of kvs key = Some v \<and> map_of kws key = Some w \<and> py_eq v w)"
    (is "_ \<longleftrightarrow> ?R")
proof
  assume e: "py_eq (JObj kvs) (JObj kws)"
  then have len: "length kvs = length kws"
    and sub: "\<And>k v. (k, v) \<in> set kvs \<Longrightarrow> \<exists>w. map_of kws k = Some w \<and> py_eq v w"
    by (auto simp: list_all_iff split: option.splits)
  from sub have "fst ` set kvs \<subseteq> fst ` set kws" by (force dest: map_of_SomeD)
  moreover have "card (fst ` set kvs) = card (fst ` set kws)"
    using len assms by (metis distinct_card length_map list.set_map)
  ultimately have "fst ` set kvs = fst ` set kws" by (simp add: card_subset_eq)
  then have keys: "set (map fst kvs @ map fst kws) = fst ` set kvs" by simp
  show ?R unfolding keys
  proof
    fix key assume "key \<in> fst ` set kvs"
    then obtain v where v: "(key, v) \<in> set kvs" by force
    from sub [OF v] assms(1) v show "\<exists>v w. map_of kvs key = Some v \<and> map_of kws key = Some w \<and> py_eq v w"
      by (metis map_of_is_SomeI)
  qed
next
  assume r: ?R
  then have "fst ` set kvs = fst ` set kws" by (force dest!: map_of_SomeD)
  then have len: "length kvs = length kws" using assms by (metis distinct_card length_map list.set_map)
  have "case map_of kws (fst kv) of None \<Rightarrow> False | Some w \<Rightarrow> py_eq (snd kv) w" if "kv \<in> set kvs" for kv
  proof -
    from that have "fst kv \<in> set (map fst kvs @ map fst kws)" "map_of kvs (fst kv) = Some (snd kv)"
      using assms(1) by auto
    with r show ?thesis by fastforce
  qed
  with len show "py_eq (JObj kvs) (JObj kws)" by (simp add: list_all_iff)
qed

lemma diff_nil_iff:
  "keys_distinct v \<Longrightarrow> keys_distinct w \<Longrightarrow> diff_fields v w prefix = [] \<longleftrightarrow> py_eq v w"
proof (induction v w prefix rule: diff_fields.induct)
  case (1 v w prefix)
  show ?case
  proof (cases "is_obj v \<and> is_obj w")
    case True
    then obtain kvs kws where o': "v = JObj kvs" "w = JObj kws" by (metis is_obj.elims(2))
    have d: "distinct (map fst kvs)" "distinct (map fst kws)" using 1(2,3) by (simp_all add: o')
    have "key_differs kvs kws prefix key \<longleftrightarrow> \<not> (\<exists>x y. map_of kvs key = Some x \<and> map_of kws key = Some y \<and> py_eq x y)"
      if "key \<in> set (map fst kvs @ map fst kws)" for key
    proof (cases "map_of kvs key"; cases "map_of kws key")
      fix x y assume xy: "map_of kvs key = Some x" "map_of kws key = Some y"
      have "keys_distinct x" "keys_distinct y"
        using 1(2,3) xy [THEN map_of_SomeD] by (auto simp: o' list_all_iff)
      moreover have "key \<in> set (keys_union kvs kws)" using that by (simp add: keys_union_def)
      ultimately have "is_obj x \<and> is_obj y \<Longrightarrow> diff_fields x y (path_to prefix key) = [] \<longleftrightarrow> py_eq x y"
        using 1(1) [OF refl o'] xy by simp
      then show ?thesis by (simp add: key_differs_def xy)
    next
      assume "map_of kvs key = None" "map_of kws key = None"
      with that show ?thesis by (simp add: map_of_eq_None_iff)
    qed (simp_all add: key_differs_def)
    then show ?thesis unfolding o' diff_objects py_eq_objects [OF d] by blast
  next
    case False
    then show ?thesis by (subst diff_fields.simps) (auto split: json.splits)
  qed
qed

section \<open>The point query and the whole\<close>

lemma filter_raising_filter:
  "filter_raising P xs = Inr ys \<Longrightarrow> filter_raising P (filter Q xs) = Inr (filter Q ys)"
  by (induction xs arbitrary: ys) (auto split: sum.splits if_splits)

lemma filter_raising_subset: "filter_raising P xs = Inr ys \<Longrightarrow> set ys \<subseteq> set xs"
  by (induction xs arbitrary: ys) (auto split: sum.splits if_splits)

lemma filter_raising_distinct: "filter_raising P xs = Inr ys \<Longrightarrow> distinct (map f xs) \<Longrightarrow> distinct (map f ys)"
proof (induction xs arbitrary: ys)
  case (Cons x xs)
  then obtain b zs where z: "filter_raising P xs = Inr zs" "ys = (if b then x # zs else zs)"
    by (auto split: sum.splits)
  with Cons.IH [OF z(1)] Cons.prems(2) filter_raising_subset [OF z(1)] show ?case by auto
qed simp

lemma following_partition:
  "partition_of r = k \<Longrightarrow> following (filter (\<lambda>q. partition_of q = k) rows) r = following rows r"
  by (simp add: following_def conj_comms cong: conj_cong)

lemma sort_key_Nil_iff: "sort_key f xs = [] \<longleftrightarrow> xs = []"
  using length_sort [of f xs] by (metis length_0_conv)

lemma following_None: "following rows r = None \<longleftrightarrow> (\<forall>q \<in> set rows. partition_of q = partition_of r \<longrightarrow> \<not> moment r < moment q)"
proof -
  let ?F = "filter (\<lambda>q. partition_of q = partition_of r \<and> moment r < moment q) rows"
  have "following rows r = None \<longleftrightarrow> sort_key moment ?F = []"
    unfolding following_def by (cases "sort_key moment ?F") simp_all
  then show ?thesis by (simp add: sort_key_Nil_iff filter_empty_conv)
qed

lemma latest_unique:
  assumes "distinct (map seq_of rows)" "r \<in> set rows" "q \<in> set rows" "partition_of r = partition_of q"
    "is_latest rows r" "is_latest rows q"
  shows "r = q"
proof -
  from assms(2-6) have "\<not> moment r < moment q" "\<not> moment q < moment r" by (auto simp: is_latest_def following_None)
  then have "seq_of r = seq_of q" by (auto simp: moment_def less_prod_def)
  with assms(1-3) show ?thesis by (auto simp: distinct_map inj_on_def)
qed

lemma find_filter: "find P xs = (case filter P xs of [] \<Rightarrow> None | x # _ \<Rightarrow> Some x)"
  by (induction xs) auto

lemma short_sort: "length xs \<le> 1 \<Longrightarrow> sort_key f xs = xs"
  by (cases xs) auto

section \<open>Properties\<close>

text \<open>
  A difference is shown exactly when there is one: the field-by-field difference of two
  payloads is empty just when Python finds them equal.
\<close>

theorem diff_shows_every_change:
  assumes "keys_distinct prev" "keys_distinct newer"
  shows "diff_fields prev newer prefix = [] \<longleftrightarrow> py_eq prev newer"
  using assms by (rule diff_nil_iff)

lemma diff_shows_every_change_witness:
  "diff_fields (JObj [(''a'', JObj [(''b'', JInt 1)])]) (JObj [(''a'', JObj [(''b'', JInt 2)])]) [] = []
    \<longleftrightarrow> py_eq (JObj [(''a'', JObj [(''b'', JInt 1)])]) (JObj [(''a'', JObj [(''b'', JInt 2)])])"
  by (rule diff_shows_every_change) code_simp+

text \<open>
  C24. The write gate asks the reader's question: on rows with different sequence numbers the
  point query answers, for any entity, with the payload hash of that entity's row among the
  current rows, and with none exactly when the reader shows none.
\<close>

theorem gate_asks_the_reader:
  assumes "current_rows d = Inr shown" "distinct (map seq_of (tables d ''registry_snapshots''))"
  shows "current_hash d h t u = Inr (map_option (\<lambda>r. text_of (col r ''payload_hash''))
    (find (\<lambda>r. partition_of r = (JStr h, JStr t, JStr u)) shown))"
proof -
  let ?k = "(JStr h, JStr t, JStr u)"
  let ?P = "\<lambda>r. partition_of r = ?k"
  obtain rows where v: "valid_rows d = Inr rows"
    and sh: "shown = sort_key (\<lambda>r. (text_of (col r ''entity_type''), text_of (col r ''entity_alias'')))
          (filter (\<lambda>r. is_latest rows r \<and> col r ''tombstone'' = JInt 0) rows)"
    using assms(1) by (auto simp: current_rows_def split: sum.splits)
  from filter_raising_filter [OF v [unfolded valid_rows_def]]
  have p: "point_rows d h t u = Inr (filter ?P rows)" by (simp add: point_rows_def)
  have d: "distinct (map seq_of rows)" using filter_raising_distinct [OF v [unfolded valid_rows_def] assms(2)] .
  let ?L = "filter ?P (filter (\<lambda>r. is_latest rows r \<and> col r ''tombstone'' = JInt 0) rows)"
  have "filter (\<lambda>r. is_latest (filter ?P rows) r \<and> col r ''tombstone'' = JInt 0) (filter ?P rows) = ?L"
    by (auto simp: is_latest_def following_partition intro!: filter_cong)
  moreover have "length ?L \<le> 1"
  proof -
    have "distinct ?L" using d by (simp add: distinct_map)
    moreover have "r = q" if "r \<in> set ?L" "q \<in> set ?L" for r q
      using latest_unique [OF d, of r q] that by auto
    ultimately show ?thesis
      by (metis (no_types, lifting) One_nat_def card_le_Suc0_iff_eq distinct_card List.finite_set)
  qed
  then have "filter ?P shown = ?L" by (simp add: sh filter_sort short_sort)
  ultimately show ?thesis by (simp add: current_hash_def p find_filter split: list.split)
qed

definition sample_snapshot :: "int \<Rightarrow> string \<Rightarrow> string \<Rightarrow> int \<Rightarrow> row" where
  "sample_snapshot sq day hash tomb =
     [(''ingest_seq'', JInt sq), (''occurred_at'', JStr day), (''host_uid'', JStr ''h''), (''entity_type'', JStr ''bot''),
      (''entity_uid'', JStr ''u''), (''entity_alias'', JStr ''bot:s/a''), (''tombstone'', JInt tomb),
      (''payload_hash'', if tomb = 1 then JNull else JStr hash), (''scan_id'', JStr ''s1'')]"

definition sample_registry :: plane_db where
  "sample_registry = empty_db\<lparr>tables := (\<lambda>_. [])(''registry_snapshots'' :=
     [sample_snapshot 1 ''2026-01-02'' ''x'' 0, sample_snapshot 2 ''2026-01-01'' ''y'' 0, sample_snapshot 3 ''2026-01-03'' [] 1])\<rparr>"

lemma gate_asks_the_reader_witness:
  "current_hash sample_registry ''h'' ''bot'' ''u'' = Inr (map_option (\<lambda>r. text_of (col r ''payload_hash''))
    (find (\<lambda>r. partition_of r = (JStr ''h'', JStr ''bot'', JStr ''u'')) [sample_snapshot 1 ''2026-01-02'' ''x'' 0]))"
  by (rule gate_asks_the_reader) code_simp+

end
