(* ===== verification/Ingest.thy ===== *)
theory Ingest
  imports Registry_Read
begin

text \<open>
  The one transactional write path (\<open>claudlobby/plane/ingest.py\<close>): the row each event becomes,
  the registry's write gate, the transaction of a batch, and what a replayed batch is answered
  with. An item is what \<open>validate_request\<close> answers with: envelope, class, payload.
\<close>

record ingest_result =
  r_event :: string
  r_seq :: "int option"
  r_duplicate :: bool

definition CONSTRUCT_TABLE :: "(string \<times> string) list" where
  "CONSTRUCT_TABLE =
    [(''communication'', ''communications''), (''work_item'', ''work_items''), (''assignment'', ''assignments''),
     (''workstream'', ''workstreams''), (''registry_snapshot'', ''registry_snapshots''), (''metric_sample'', ''metric_samples'')]"

definition table_of :: "string \<Rightarrow> string" where
  "table_of family = (case map_of CONSTRUCT_TABLE family of Some t \<Rightarrow> t | None \<Rightarrow> ''events'')"

definition kind_of :: "string \<Rightarrow> string" where
  "kind_of family = (case map_of WIRE_TO_KIND family of Some k \<Rightarrow> k | None \<Rightarrow> family)"

section \<open>Rows\<close>

definition envelope :: "int \<Rightarrow> string \<Rightarrow> obj \<Rightarrow> string \<Rightarrow> json \<Rightarrow> string \<Rightarrow> row" where
  "envelope seq event_id env host_uid fleet_uid now =
     [(''ingest_seq'', JInt seq), (''event_id'', JStr event_id),
      (''schema_version'', if truthy (fld env ''schema_version'') then fld env ''schema_version'' else JStr PLANE_SCHEMA_VERSION),
      (''occurred_at'', if fld env ''occurred_at'' \<noteq> JNull then fld env ''occurred_at'' else JStr now),
      (''observed_at'', fld env ''observed_at''),
      (''ingested_at'', JStr now), (''host_uid'', JStr host_uid), (''fleet_uid'', fleet_uid),
      (''emitter'', fld env ''emitter''), (''source_ref'', fld env ''source_ref''),
      (''correlation_id'', fld env ''correlation_id''), (''causation_id'', fld env ''causation_id''),
      (''trace_id'', fld env ''trace_id''), (''span_id'', fld env ''span_id''), (''origin'', fld env ''origin''),
      (''import_batch'', fld env ''import_batch''), (''confidence'', fld env ''confidence'')]"

text \<open>\<open>{**base, **fam}\<close>, whatever the order of its columns.\<close>

definition merge_row :: "row \<Rightarrow> row \<Rightarrow> row" where
  "merge_row base fam = fam @ filter (\<lambda>(k, _). k \<notin> fst ` set fam) base"

definition bool_int :: "json \<Rightarrow> json" where
  "bool_int v = JInt (if truthy v then 1 else 0)"

text \<open>The detail dictionary without its null values; none when nothing is left.\<close>

definition detail_of :: "obj \<Rightarrow> json" where
  "detail_of kvs = (let d = filter (\<lambda>(k, v). v \<noteq> JNull) kvs in if d = [] then JNull else JObj d)"

text \<open>
  \<open>_family_values\<close> is given what resolves a party and an entity: the registry of a batch, or
  identities frozen beforehand.
\<close>

type_synonym 's resolver = "string \<Rightarrow> ('s, string) st"

text \<open>\<open>party(alias) if alias else None\<close>.\<close>

definition party_of :: "'s resolver \<Rightarrow> json \<Rightarrow> ('s, json) st" where
  "party_of prt v =
     (if truthy v then andthen (prt (text_of v)) (\<lambda>u. ret (JStr u)) else ret JNull)"

definition party_must :: "'s resolver \<Rightarrow> json \<Rightarrow> ('s, json) st" where
  "party_must prt v = andthen (prt (text_of v)) (\<lambda>u. ret (JStr u))"

definition communication_values :: "'s resolver \<Rightarrow> obj \<Rightarrow> ('s, row) st" where
  "communication_values prt p =
     andthen (party_must prt (fld p ''sender'')) (\<lambda>sender_uid.
     andthen (party_of prt (fld p ''recipient'')) (\<lambda>recipient_uid.
       ret [(''msg_id'', fld p ''msg_id''), (''sender_uid'', sender_uid), (''sender_alias'', fld p ''sender''),
         (''sender_session_uid'', fld p ''sender_session_uid''), (''recipient_uid'', recipient_uid),
         (''recipient_alias'', fld p ''recipient''), (''recipient_raw'', fld p ''recipient_raw''),
         (''message_class'', fld p ''message_class''), (''command_type'', fld p ''command_type''),
         (''work_item_id'', fld p ''work_item_id''), (''assignment_id'', fld p ''assignment_id''),
         (''workstream_id'', fld p ''workstream_id''), (''deliberation_id'', fld p ''deliberation_id''),
         (''reply_to_msg_id'', fld p ''reply_to_msg_id''), (''supersedes_msg_id'', fld p ''supersedes_msg_id''),
         (''body'', fld p ''body''), (''body_bytes'', fld p ''body_bytes''), (''body_sha256'', fld p ''body_sha256''),
         (''truncated'', bool_int (fld p ''truncated'')), (''privacy'', fld p ''privacy''),
         (''idempotency_key'', fld p ''idempotency_key'')]))"

definition work_item_values :: "'s resolver \<Rightarrow> obj \<Rightarrow> ('s, row) st" where
  "work_item_values prt p =
     andthen (party_must prt (fld p ''created_by'')) (\<lambda>created_by_uid.
       ret [(''work_item_id'', fld p ''work_item_id''), (''title'', fld p ''title''), (''created_by_uid'', created_by_uid),
         (''workstream_id'', fld p ''workstream_id''), (''repo'', fld p ''repo''), (''project_key'', fld p ''project_key''),
         (''body'', fld p ''body'')])"

definition assignment_values :: "'s resolver \<Rightarrow> obj \<Rightarrow> ('s, row) st" where
  "assignment_values prt p =
     andthen (party_must prt (fld p ''assignee'')) (\<lambda>assignee_uid.
     andthen (party_must prt (fld p ''assigned_by'')) (\<lambda>assigned_by_uid.
       ret [(''assignment_id'', fld p ''assignment_id''), (''work_item_id'', fld p ''work_item_id''),
         (''assignee_uid'', assignee_uid), (''assigned_by_uid'', assigned_by_uid), (''expected_by'', fld p ''expected_by''),
         (''dispatch_msg_id'', fld p ''dispatch_msg_id'')]))"

definition transmission_values :: "obj \<Rightarrow> row" where
  "transmission_values p =
     [(''kind'', JStr ''transmission''), (''event'', fld p ''state''), (''carrier'', fld p ''carrier''),
      (''attempt_no'', fld p ''attempt_no''), (''carrier_ref'', fld p ''carrier_ref''), (''msg_id'', fld p ''msg_id''),
      (''detail'', detail_of [(''destination'', fld p ''destination''), (''error'', fld p ''error''),
         (''part_no'', fld p ''part_no''), (''part_count'', fld p ''part_count''),
         (''received_bytes'', fld p ''received_bytes''), (''received_sha256'', fld p ''received_sha256''),
         (''wire_bytes'', fld p ''wire_bytes''), (''wire_sha256'', fld p ''wire_sha256'')]),
      (''detail_truncated'', JInt 0)]"

definition task_values :: "'s resolver \<Rightarrow> obj \<Rightarrow> ('s, row) st" where
  "task_values prt p =
     andthen (party_of prt (fld p ''actor'')) (\<lambda>actor_uid.
       ret [(''kind'', JStr ''task''), (''event'', fld p ''event''), (''work_item_id'', fld p ''work_item_id''),
         (''assignment_id'', fld p ''assignment_id''), (''actor_uid'', actor_uid), (''session_uid'', fld p ''session_uid''),
         (''deadline'', fld p ''deadline''), (''successor_id'', fld p ''successor_id''),
         (''detail'', detail_of [(''progress'', fld p ''progress''), (''summary'', fld p ''summary''),
            (''pr_url'', fld p ''pr_url''), (''pr_role'', fld p ''pr_role''), (''link_source'', fld p ''link_source''),
            (''pr_attribution_withheld'', fld p ''pr_attribution_withheld''), (''reason'', fld p ''reason''),
            (''question'', fld p ''question''), (''by'', fld p ''by'')]),
         (''detail_truncated'', JInt 0)])"

definition workstream_values :: "'s resolver \<Rightarrow> obj \<Rightarrow> ('s, row) st" where
  "workstream_values prt p =
     andthen (party_of prt (fld p ''owner'')) (\<lambda>owner_uid.
     andthen (party_must prt (fld p ''opened_by'')) (\<lambda>opened_by_uid.
       ret [(''workstream_id'', fld p ''workstream_id''), (''title'', fld p ''title''), (''goal'', fld p ''goal''),
         (''owner_uid'', owner_uid), (''opened_by_uid'', opened_by_uid), (''project_key'', fld p ''project_key'')]))"

definition workstream_event_values :: "'s resolver \<Rightarrow> obj \<Rightarrow> ('s, row) st" where
  "workstream_event_values prt p =
     andthen (party_of prt (fld p ''actor'')) (\<lambda>actor_uid.
       ret [(''kind'', JStr (kind_of ''workstream_event'')), (''event'', fld p ''event''),
         (''workstream_id'', fld p ''workstream_id''), (''actor_uid'', actor_uid), (''renewed_until'', fld p ''renewed_until''),
         (''detail'', detail_of [(''note'', fld p ''note''), (''waiting_on'', fld p ''waiting_on''),
            (''next_step'', fld p ''next_step''), (''disposition'', fld p ''disposition''), (''plan_ref'', fld p ''plan_ref'')]),
         (''detail_truncated'', JInt 0)])"

definition data_cap :: int where
  "data_cap = (case cap_for ''system'' ''data'' of Some n \<Rightarrow> n | None \<Rightarrow> 0)"

text \<open>The diagnostic data as it is stored: whole, or a prefix of its text with the flag.\<close>

definition system_detail :: "world \<Rightarrow> json \<Rightarrow> json \<times> json" where
  "system_detail w data =
     (if \<not> truthy data then (JNull, JInt 0)
      else let text = json_dumps (w_float w) data in
        if data_cap < utf8_len text then (JStr (utf8_prefix data_cap text), JInt 1) else (data, JInt 0))"

definition system_subject :: "'s resolver \<Rightarrow> (string \<Rightarrow> 's resolver) \<Rightarrow> obj \<Rightarrow> ('s, json \<times> json) st" where
  "system_subject prt ent p =
     (if fld p ''subject'' = JNull then ret (fld p ''subject_uid'', fld p ''subject_alias'')
      else andthen (if fld p ''subject_kind'' = JStr ''actor'' then prt (text_of (fld p ''subject''))
            else ent (text_of (fld p ''subject_kind'')) (text_of (fld p ''subject'')))
          (\<lambda>u. ret (JStr u, fld p ''subject'')))"

definition severity_of :: "json \<Rightarrow> json" where
  "severity_of event = (case SYSTEM_EVENT_SEVERITY (text_of event) of Some s \<Rightarrow> JStr s | None \<Rightarrow> JNull)"

definition system_values :: "world \<Rightarrow> 's resolver \<Rightarrow> (string \<Rightarrow> 's resolver) \<Rightarrow> obj \<Rightarrow> ('s, row) st" where
  "system_values w prt ent p =
     andthen (system_subject prt ent p) (\<lambda>(subject_uid, subject_alias).
       ret [(''kind'', JStr ''system''), (''event'', fld p ''event''), (''severity'', severity_of (fld p ''event'')),
         (''subject_kind'', fld p ''subject_kind''), (''subject_uid'', subject_uid), (''subject_alias'', subject_alias),
         (''detail'', fst (system_detail w (fld p ''data''))), (''detail_truncated'', snd (system_detail w (fld p ''data'')))])"

text \<open>\<open>_family_values\<close>: the table and the columns of a payload's class.\<close>

definition with_table :: "string \<Rightarrow> ('s, row) st \<Rightarrow> ('s, string \<times> row) st" where
  "with_table table m = andthen m (\<lambda>r. ret (table, r))"

definition family_values :: "world \<Rightarrow> 's resolver \<Rightarrow> (string \<Rightarrow> 's resolver) \<Rightarrow> string \<Rightarrow> obj \<Rightarrow> ('s, string \<times> row) st" where
  "family_values w prt ent cls p =
     (if cls = ''communication'' then with_table ''communications'' (communication_values prt p)
      else if cls = ''work_item'' then with_table ''work_items'' (work_item_values prt p)
      else if cls = ''assignment'' then with_table ''assignments'' (assignment_values prt p)
      else if cls = ''transmission'' then with_table ''events'' (ret (transmission_values p))
      else if cls = ''task'' then with_table ''events'' (task_values prt p)
      else if cls = ''workstream'' then with_table ''workstreams'' (workstream_values prt p)
      else if cls = ''workstream_event'' then with_table ''events'' (workstream_event_values prt p)
      else if cls = ''system'' then with_table ''events'' (system_values w prt ent p)
      else raise (Type_Err (''no insert mapping for '' @ cls)))"

section \<open>The registry's gate\<close>

definition is_sqlite_error :: "plane_error \<Rightarrow> bool" where
  "is_sqlite_error e = (case e of Integrity_Error m \<Rightarrow> True | Operational_Error c m \<Rightarrow> True | Db_Error m \<Rightarrow> True | _ \<Rightarrow> False)"

definition is_os_error :: "plane_error \<Rightarrow> bool" where
  "is_os_error e = (case e of Os_Error m \<Rightarrow> True | _ \<Rightarrow> False)"

definition except_sqlite :: "'a act \<Rightarrow> 'a act \<Rightarrow> 'a act" where
  "except_sqlite m h s =
     (case m s of (Inl e, s') \<Rightarrow> if is_sqlite_error e then h s' else (Inl e, s') | (Inr x, s') \<Rightarrow> (Inr x, s'))"

text \<open>The newest row of a partition in the ledger's order.\<close>

definition newest_row :: "string \<Rightarrow> string \<Rightarrow> string \<Rightarrow> plane_db \<Rightarrow> row option" where
  "newest_row host_uid entity_type uid d =
     (case rev (sort_key seq_of (filter (\<lambda>r. partition_of r = (JStr host_uid, JStr entity_type, JStr uid))
          (tables d ''registry_snapshots''))) of [] \<Rightarrow> None | r # _ \<Rightarrow> Some r)"

definition registry_values :: "string \<Rightarrow> obj \<Rightarrow> json \<Rightarrow> json \<Rightarrow> row" where
  "registry_values uid p payload payload_hash =
     [(''entity_type'', fld p ''entity_type''), (''entity_uid'', JStr uid), (''entity_alias'', fld p ''entity_alias''),
      (''tombstone'', bool_int (fld p ''tombstone'')), (''payload'', payload), (''payload_hash'', payload_hash),
      (''cause'', fld p ''cause''), (''scan_id'', fld p ''scan_id''), (''vault_rev'', fld p ''vault_rev'')]"

definition tombstone_row :: "string \<Rightarrow> string \<Rightarrow> obj \<Rightarrow> row option \<Rightarrow> row option act" where
  "tombstone_row host_uid uid p prev =
     (if (case prev of None \<Rightarrow> False | Some r \<Rightarrow> truthy (col r ''tombstone''))
      then andthen (except_sqlite
               (andthen (query_raising (\<lambda>d. current_hash d host_uid (text_of (fld p ''entity_type'')) uid)) (\<lambda>h. ret (h \<noteq> None)))
               (ret True))
             (\<lambda>still_current. ret (if still_current then Some (registry_values uid p JNull JNull) else None))
      else ret (Some (registry_values uid p JNull JNull)))"

definition keyframe_row :: "world \<Rightarrow> string \<Rightarrow> string \<Rightarrow> obj \<Rightarrow> row option act" where
  "keyframe_row w host_uid uid p =
     andthen (lift (gate_hash w (fld p ''payload''))) (\<lambda>phash.
     andthen (except_sqlite (query_raising (\<lambda>d. current_hash d host_uid (text_of (fld p ''entity_type'')) uid)) (ret None))
       (\<lambda>cur. ret (if cur = Some phash then None else Some (registry_values uid p (fld p ''payload'') (JStr phash)))))"

definition confirm_observed :: "world \<Rightarrow> string \<Rightarrow> string \<Rightarrow> string \<Rightarrow> obj \<Rightarrow> unit act" where
  "confirm_observed w now host_uid uid p =
     (if truthy (fld p ''tombstone'') then ret ()
      else andthen (confirm uid) (\<lambda>_.
        if fld p ''entity_type'' = JStr ''bot''
        then andthen (entity w now host_uid ''actor'' (text_of (fld p ''entity_alias''))) confirm
        else ret ()))"

definition registry_row :: "world \<Rightarrow> string \<Rightarrow> string \<Rightarrow> obj \<Rightarrow> row option act" where
  "registry_row w now host_uid p =
     (case map_of ENTITY_IDENTITY_KIND (text_of (fld p ''entity_type'')) of None \<Rightarrow> raise (Key_Err ''entity_type'')
      | Some kind \<Rightarrow>
          andthen (entity w now host_uid kind (text_of (fld p ''entity_alias''))) (\<lambda>uid.
          andthen (confirm_observed w now host_uid uid p) (\<lambda>_.
          andthen (query (newest_row host_uid (text_of (fld p ''entity_type'')) uid)) (\<lambda>prev.
            if truthy (fld p ''tombstone'') then tombstone_row host_uid uid p prev else keyframe_row w host_uid uid p))))"

section \<open>Samples and declarations\<close>

definition metric_row :: "world \<Rightarrow> string \<Rightarrow> string \<Rightarrow> obj \<Rightarrow> row act" where
  "metric_row w now host_uid p =
     andthen (entity w now host_uid (text_of (fld p ''subject_kind'')) (text_of (fld p ''subject''))) (\<lambda>subject_uid.
       ret [(''subject_kind'', fld p ''subject_kind''), (''subject_uid'', JStr subject_uid), (''metric'', fld p ''metric''),
         (''value'', fld p ''value''), (''status'', fld p ''status'')])"

definition declaration_row :: "world \<Rightarrow> string \<Rightarrow> string \<Rightarrow> obj \<Rightarrow> row act" where
  "declaration_row w now host_uid p =
     andthen (entity w now host_uid (text_of (fld p ''subject_kind'')) (text_of (fld p ''subject''))) (\<lambda>subject_uid.
       ret [(''kind'', JStr ''declaration''), (''event'', fld p ''event''), (''subject_kind'', fld p ''subject_kind''),
         (''subject_uid'', JStr subject_uid), (''subject_alias'', fld p ''subject''),
         (''detail'', if fld p ''event'' = JStr ''revision_seen'' then JObj [(''vault_rev'', fld p ''vault_rev'')]
            else JObj (filter (\<lambda>(k, v). v \<noteq> JNull) [(''scan_id'', fld p ''scan_id''), (''scope'', fld p ''scope''),
              (''counts'', fld p ''counts''), (''complete'', fld p ''complete''), (''source_rev'', fld p ''source_rev'')])),
         (''detail_truncated'', JInt 0)])"

section \<open>The transaction\<close>

text \<open>What an item's class overrides: nothing written, a table and its columns, or nothing yet.\<close>

datatype override = Suppressed | Prepared_Row string row | From_Payload

definition override_of :: "world \<Rightarrow> string \<Rightarrow> string \<Rightarrow> string \<Rightarrow> obj \<Rightarrow> override act" where
  "override_of w now host_uid cls p =
     (if cls = ''registry_snapshot'' then andthen (registry_row w now host_uid p) (\<lambda>r.
          ret (case r of None \<Rightarrow> Suppressed | Some v \<Rightarrow> Prepared_Row ''registry_snapshots'' v))
      else if cls = ''metric_sample'' then andthen (metric_row w now host_uid p) (\<lambda>v. ret (Prepared_Row ''metric_samples'' v))
      else if cls = ''declaration'' then andthen (declaration_row w now host_uid p) (\<lambda>v. ret (Prepared_Row ''events'' v))
      else ret From_Payload)"

definition fleet_of :: "world \<Rightarrow> string \<Rightarrow> string \<Rightarrow> obj \<Rightarrow> json act" where
  "fleet_of w now host_uid env =
     (if truthy (fld env ''fleet'') then andthen (fleet w now host_uid (text_of (fld env ''fleet''))) (\<lambda>u. ret (JStr u))
      else ret JNull)"

definition row_source :: "world \<Rightarrow> string \<Rightarrow> string \<Rightarrow> string \<Rightarrow> obj \<Rightarrow> override \<Rightarrow> (string \<times> row) act" where
  "row_source w now host_uid cls p ov =
     (case ov of Prepared_Row table fam \<Rightarrow> ret (table, fam) | _ \<Rightarrow> family_values w (party w now host_uid) (entity w now host_uid) cls p)"

definition ingest_row :: "world \<Rightarrow> string \<Rightarrow> string \<Rightarrow> string \<Rightarrow> item \<Rightarrow> override \<Rightarrow> ingest_result act" where
  "ingest_row w now host_uid event_id it ov =
     (case it of (env, cls, p) \<Rightarrow>
        andthen (insert_ledger event_id (text_of (fld env ''event_type'')) now) (\<lambda>seq.
        andthen (fleet_of w now host_uid env) (\<lambda>fleet_uid.
        andthen (row_source w now host_uid cls p ov) (\<lambda>(table, fam).
        andthen (insert_row table (merge_row (envelope seq event_id env host_uid fleet_uid now) fam)) (\<lambda>_.
          ret \<lparr>r_event = event_id, r_seq = Some seq, r_duplicate = False\<rparr>)))))"

definition ingest_item :: "world \<Rightarrow> string \<Rightarrow> string \<Rightarrow> string \<times> item \<Rightarrow> ingest_result act" where
  "ingest_item w now host_uid ei =
     (case ei of (event_id, it) \<Rightarrow>
        andthen (override_of w now host_uid (fst (snd it)) (snd (snd it))) (\<lambda>ov.
          if ov = Suppressed then ret \<lparr>r_event = event_id, r_seq = None, r_duplicate = True\<rparr>
          else ingest_row w now host_uid event_id it ov))"

fun each_act :: "('a \<Rightarrow> ('s, 'b) st) \<Rightarrow> 'a list \<Rightarrow> ('s, 'b list) st" where
  "each_act f [] = ret []"
| "each_act f (x # xs) = andthen (f x) (\<lambda>r. andthen (each_act f xs) (\<lambda>rs. ret (r # rs)))"

definition prepare :: "world \<Rightarrow> item \<Rightarrow> (string \<times> item) act" where
  "prepare w it =
     (if truthy (fld (fst it) ''event_id'') then ret (text_of (fld (fst it) ''event_id''), it)
      else andthen (mint_hex w) (\<lambda>h. ret (mint ''ev_'' h, it)))"

definition check_precondition :: "(plane_db \<Rightarrow> bool) option \<Rightarrow> unit act" where
  "check_precondition pre =
     (case pre of None \<Rightarrow> ret ()
      | Some P \<Rightarrow> andthen (query P) (\<lambda>b. if b then ret () else raise (Precondition_Failed [])))"

definition transaction :: "world \<Rightarrow> string \<Rightarrow> string \<Rightarrow> (plane_db \<Rightarrow> bool) option \<Rightarrow> (string \<times> item) list \<Rightarrow> ingest_result list act" where
  "transaction w now host_uid pre prepared =
     andthen begin_immediate (\<lambda>_.
     andthen (check_precondition pre) (\<lambda>_.
     andthen (each_act (ingest_item w now host_uid) prepared) (\<lambda>results.
     andthen commit (\<lambda>_. ret results))))"

section \<open>Replays\<close>

definition suppressed_on_replay :: "world \<Rightarrow> string \<Rightarrow> item \<Rightarrow> bool act" where
  "suppressed_on_replay w host_uid it =
     (case it of (env, cls, p) \<Rightarrow>
        if cls \<noteq> ''registry_snapshot'' \<or> truthy (fld p ''tombstone'') then ret False
        else case map_of ENTITY_IDENTITY_KIND (text_of (fld p ''entity_type'')) of None \<Rightarrow> raise (Key_Err ''entity_type'')
          | Some kind \<Rightarrow>
              andthen (query (find_identity kind (text_of (fld p ''entity_alias'')))) (\<lambda>row.
                case row of None \<Rightarrow> ret False
                | Some i \<Rightarrow>
                    andthen (query (newest_row host_uid (text_of (fld p ''entity_type'')) (i_uid i))) (\<lambda>prev.
                      case prev of None \<Rightarrow> ret False
                      | Some r \<Rightarrow>
                          if truthy (col r ''tombstone'') then ret False
                          else andthen (lift (gate_hash w (fld p ''payload''))) (\<lambda>h. ret (col r ''payload_hash'' = JStr h)))))"

definition explained_by_a_prune :: "ledger_row \<Rightarrow> plane_db \<Rightarrow> bool" where
  "explained_by_a_prune l d =
     (case map_of (watermarks d) (l_family l) of None \<Rightarrow> False | Some before \<Rightarrow> before \<noteq> [] \<and> l_at l < before)"

text \<open>\<open>except Exception: return False\<close>.\<close>

definition prune_explains :: "ledger_row \<Rightarrow> bool act" where
  "prune_explains l s = (case query (explained_by_a_prune l) s of (Inl e, s') \<Rightarrow> (Inr False, s') | (Inr b, s') \<Rightarrow> (Inr b, s'))"

definition family_row :: "ledger_row \<Rightarrow> plane_db \<Rightarrow> row option" where
  "family_row l d =
     find (\<lambda>r. col r ''event_id'' = JStr (l_event l)
             \<and> (table_of (l_family l) = ''events'' \<longrightarrow> col r ''kind'' = JStr (kind_of (l_family l))))
       (tables d (table_of (l_family l)))"

definition duplicate_of :: "string \<Rightarrow> ingest_result" where
  "duplicate_of event_id = \<lparr>r_event = event_id, r_seq = None, r_duplicate = True\<rparr>"

definition verify_replay :: "world \<Rightarrow> string \<Rightarrow> string \<times> item \<Rightarrow> ingest_result act" where
  "verify_replay w host_uid ei =
     (case ei of (event_id, it) \<Rightarrow>
        andthen (query (\<lambda>d. find (\<lambda>l. l_event l = event_id) (ledger d))) (\<lambda>found.
          case found of
            None \<Rightarrow> andthen (suppressed_on_replay w host_uid it) (\<lambda>b.
              if b then ret (duplicate_of event_id) else raise (Runtime_Error ''missing from ledger: mixed state''))
          | Some l \<Rightarrow>
              if fld (fst it) ''event_type'' \<noteq> JStr (l_family l) then raise (Contract_Error ''idempotency conflict'')
              else andthen (query (family_row l)) (\<lambda>fam.
                case fam of
                  None \<Rightarrow> andthen (prune_explains l) (\<lambda>b.
                    if b then ret (duplicate_of event_id) else raise (Runtime_Error ''ledger/family divergence''))
                | Some r \<Rightarrow>
                    if seq_of r \<noteq> l_seq l then raise (Runtime_Error ''ledger/family ingest_seq divergence'')
                    else ret (duplicate_of event_id))))"

definition verify_duplicates :: "world \<Rightarrow> string \<Rightarrow> (string \<times> item) list \<Rightarrow> ingest_result list act" where
  "verify_duplicates w host_uid prepared = each_act (verify_replay w host_uid) prepared"

text \<open>The transaction with what follows it: a collision in the ledger is verified as a replay.\<close>

definition commit_or_verify :: "world \<Rightarrow> string \<Rightarrow> string \<Rightarrow> (plane_db \<Rightarrow> bool) option \<Rightarrow> (string \<times> item) list \<Rightarrow> ingest_result list act" where
  "commit_or_verify w now host_uid pre prepared s =
     (case transaction w now host_uid pre prepared (s\<lparr>memo := []\<rparr>) of
        (Inr results, s') \<Rightarrow> (Inr results, s')
      | (Inl e, s') \<Rightarrow>
          (case e of
             Integrity_Error m \<Rightarrow>
               if contains m ''ingest_ledger.event_id'' then verify_duplicates w host_uid prepared (rollback_if_open s')
               else (Inl e, rollback_if_open s')
           | _ \<Rightarrow> (Inl e, rollback_if_open s')))"

definition ingest_many :: "world \<Rightarrow> string \<Rightarrow> (plane_db \<Rightarrow> bool) option \<Rightarrow> item list \<Rightarrow> ingest_result list act" where
  "ingest_many w host_uid pre items =
     andthen (now_iso w) (\<lambda>now.
     andthen (each_act (prepare w) items) (\<lambda>prepared.
       if \<not> distinct (map fst prepared) then raise (Contract_Error ''intra-batch duplicate event_id'')
       else commit_or_verify w now host_uid pre prepared))"

section \<open>What the steps keep\<close>

lemma keeps_each: "transp R \<Longrightarrow> reflp R \<Longrightarrow> (\<And>x. keeps R (f x)) \<Longrightarrow> keeps R (each_act f xs)"
  by (induction xs) (simp_all add: keeps_andthen keeps_now)

lemma keeps_except: "transp R \<Longrightarrow> keeps R m \<Longrightarrow> keeps R h \<Longrightarrow> keeps R (except_sqlite m h)"
  by (rule keepsI) (auto simp: except_sqlite_def split: prod.splits sum.splits if_splits dest: keepsD elim: transpD)

lemma keeps_prod: "(\<And>a b. keeps R (f a b)) \<Longrightarrow> keeps R (case x of (a, b) \<Rightarrow> f a b)"
  by (cases x) simp

text \<open>
  What the steps of a batch need of the resolver: a frame that holds of every step which only
  reads, of resolving a fleet, a party or an entity, and of confirming one, holds of everything
  that computes a row.
\<close>

locale batch_frame =
  fixes R :: "session \<Rightarrow> session \<Rightarrow> bool"
  assumes trans: "transp R"
    and of_read: "same_read s s' \<Longrightarrow> R s s'"
    and of_fleet: "keeps R (fleet w n h a)"
    and of_party: "keeps R (party w n h a)"
    and of_entity: "keeps R (entity w n h k a)"
    and of_confirm: "keeps R (confirm u)"
begin

lemma refl: "reflp R"
  by (rule reflpI) (simp add: of_read same_read_def same_db_def)

lemmas reads = keeps_mono [OF keeps_query_read(1) of_read] keeps_mono [OF keeps_query_read(2) of_read] keeps_now [OF refl]

lemmas rules = keeps_andthen trans reads keeps_if of_fleet of_party of_entity of_confirm keeps_prod allI

lemma values_keep:
  "keeps R (party_of (party w n h) v)" "keeps R (party_must (party w n h) v)"
  "keeps R (communication_values (party w n h) p)" "keeps R (work_item_values (party w n h) p)"
  "keeps R (assignment_values (party w n h) p)" "keeps R (task_values (party w n h) p)"
  "keeps R (workstream_values (party w n h) p)" "keeps R (workstream_event_values (party w n h) p)"
  "keeps R (system_values w (party w n h) (entity w n h) p)"
proof -
  show po: "keeps R (party_of (party w n h) v)" for v unfolding party_of_def by (intro rules)
  show pm: "keeps R (party_must (party w n h) v)" for v unfolding party_must_def by (intro rules)
  show "keeps R (communication_values (party w n h) p)" unfolding communication_values_def by (intro rules po pm)
  show "keeps R (work_item_values (party w n h) p)" unfolding work_item_values_def by (intro rules pm)
  show "keeps R (assignment_values (party w n h) p)" unfolding assignment_values_def by (intro rules pm)
  show "keeps R (task_values (party w n h) p)" unfolding task_values_def by (intro rules po)
  show "keeps R (workstream_values (party w n h) p)" unfolding workstream_values_def by (intro rules po pm)
  show "keeps R (workstream_event_values (party w n h) p)" unfolding workstream_event_values_def by (intro rules po)
  show "keeps R (system_values w (party w n h) (entity w n h) p)" unfolding system_values_def system_subject_def by (intro rules)
qed

lemma with_table_keeps: "keeps R m \<Longrightarrow> keeps R (with_table t m)"
  unfolding with_table_def by (intro rules)

lemma family_values_keep: "keeps R (family_values w (party w n h) (entity w n h) c p)"
  unfolding family_values_def by (intro rules with_table_keeps values_keep)

lemma registry_row_keeps: "keeps R (registry_row w n h p)"
proof -
  have c: "keeps R (confirm_observed w n h u p)" for u unfolding confirm_observed_def by (intro rules)
  have t: "keeps R (tombstone_row h u p r)" for u r
    unfolding tombstone_row_def by (intro rules keeps_except)
  have k: "keeps R (keyframe_row w h u p)" for u
    unfolding keyframe_row_def by (intro rules keeps_except)
  show ?thesis unfolding registry_row_def
    by (cases "map_of ENTITY_IDENTITY_KIND (text_of (fld p ''entity_type''))") (simp_all, (intro rules c t k)+)
qed

lemma override_keeps: "keeps R (override_of w n h c p)"
  unfolding override_of_def metric_row_def declaration_row_def by (intro rules registry_row_keeps)

lemma fleet_of_keeps: "keeps R (fleet_of w n h env)"
  unfolding fleet_of_def by (intro rules)

lemma row_source_keeps: "keeps R (row_source w n h c p ov)"
  unfolding row_source_def by (cases ov) (simp_all add: family_values_keep reads)

text \<open>With the two inserts it holds of a whole item.\<close>

lemma ingest_item_keeps:
  assumes "\<And>e f n. keeps R (insert_ledger e f n)" "\<And>t v. keeps R (insert_row t v)"
  shows "keeps R (ingest_item w n h ei)"
proof -
  have "keeps R (ingest_row w n h e it ov)" for e it ov
    unfolding ingest_row_def by (intro keeps_prod rules assms fleet_of_keeps row_source_keeps)
  then show ?thesis unfolding ingest_item_def by (intro keeps_prod rules override_keeps)
qed

end

interpretation facts: batch_frame same_facts
  by unfold_locales (auto intro: frame_preorders resolver_facts same_db_facts [OF same_read_db])

interpretation bindings: batch_frame keeps_bindings
  by unfold_locales (auto intro: keeps_bindings_preorder resolver_bindings confirm_bindings same_db_bindings [OF same_read_db])

interpretation tx: batch_frame same_tx
  by unfold_locales
    (auto intro: frame_preorders keeps_mono [OF resolver_facts(1) same_facts_tx] keeps_mono [OF resolver_facts(3) same_facts_tx]
      keeps_mono [OF resolver_facts(4) same_facts_tx] keeps_mono [OF resolver_facts(5) same_facts_tx] same_facts_tx [OF same_db_facts [OF same_read_db]])

lemma insert_bindings: "keeps keeps_bindings (insert_ledger e f n)" "keeps keeps_bindings (insert_row t v)"
  unfolding insert_ledger_def insert_row_def
  by (rule keeps_andthen_pure; (rule keeps_stmt keeps_bindings_preorder)?;
      auto simp: same_db_def keeps_bindings_def ids_ok_def binds_def split: if_splits option.splits
        intro: binding_kept_refl)+

lemmas ingest_item_tx = tx.ingest_item_keeps [OF keeps_insert]
lemmas ingest_item_bindings = bindings.ingest_item_keeps [OF insert_bindings]

section \<open>The row of an item\<close>

text \<open>The columns a class writes agree with its table and kind and leave the envelope's alone.\<close>

definition row_fits :: "string \<Rightarrow> string \<times> row \<Rightarrow> bool" where
  "row_fits cls tr \<longleftrightarrow> (case tr of (t, r) \<Rightarrow> t = table_of cls
     \<and> list_all (\<lambda>c. c \<notin> set envelope_not_null) (map fst r)
     \<and> (t = ''events'' \<longrightarrow> col r ''kind'' = JStr (kind_of cls)))"

lemma party_must_Inr: "party_must prt v s = (Inr u, s') \<Longrightarrow> u \<noteq> JNull"
  by (auto simp: party_must_def andthen_Inr)

lemma with_table_Inr: "with_table t m s = (Inr x, s') \<longleftrightarrow> (\<exists>r. m s = (Inr r, s') \<and> x = (t, r))"
  by (auto simp: with_table_def andthen_Inr)

lemma table_of_simps [simp]:
  "table_of ''communication'' = ''communications''" "table_of ''work_item'' = ''work_items''"
  "table_of ''assignment'' = ''assignments''" "table_of ''workstream'' = ''workstreams''"
  "table_of ''registry_snapshot'' = ''registry_snapshots''" "table_of ''metric_sample'' = ''metric_samples''"
  "table_of ''transmission'' = ''events''" "table_of ''task'' = ''events''" "table_of ''workstream_event'' = ''events''"
  "table_of ''system'' = ''events''" "table_of ''declaration'' = ''events''"
  by (simp_all add: table_of_def CONSTRUCT_TABLE_def)

lemma kind_of_simps [simp]:
  "kind_of ''transmission'' = ''transmission''" "kind_of ''task'' = ''task''" "kind_of ''workstream_event'' = ''workstream''"
  "kind_of ''system'' = ''system''" "kind_of ''declaration'' = ''declaration''"
  by (simp_all add: kind_of_def WIRE_TO_KIND_def)

lemma values_fit:
  "communication_values prt p s = (Inr r, s') \<Longrightarrow> row_fits ''communication'' (''communications'', r)"
  "work_item_values prt p s = (Inr r, s') \<Longrightarrow> row_fits ''work_item'' (''work_items'', r)"
  "assignment_values prt p s = (Inr r, s') \<Longrightarrow> row_fits ''assignment'' (''assignments'', r)"
  "task_values prt p s = (Inr r, s') \<Longrightarrow> row_fits ''task'' (''events'', r)"
  "workstream_values prt p s = (Inr r, s') \<Longrightarrow> row_fits ''workstream'' (''workstreams'', r)"
  "workstream_event_values prt p s = (Inr r, s') \<Longrightarrow> row_fits ''workstream_event'' (''events'', r)"
  "system_values w prt ent p s = (Inr r, s') \<Longrightarrow> row_fits ''system'' (''events'', r)"
  by (auto simp: communication_values_def work_item_values_def assignment_values_def task_values_def workstream_values_def
      workstream_event_values_def system_values_def andthen_Inr row_fits_def envelope_not_null_def jget.simps
      split: prod.splits)

lemma transmission_fits: "row_fits ''transmission'' (''events'', transmission_values p)"
  by (simp add: transmission_values_def row_fits_def envelope_not_null_def jget.simps)

lemma family_values_fit: "family_values w prt ent cls p s = (Inr tr, s') \<Longrightarrow> row_fits cls tr"
  by (auto simp: family_values_def with_table_Inr transmission_fits split: if_splits dest: values_fit)

lemma tombstone_row_shape: "tombstone_row h u p prev s = (Inr (Some r), s') \<Longrightarrow> r = registry_values u p JNull JNull"
  by (auto simp: tombstone_row_def andthen_Inr split: if_splits)

lemma keyframe_row_shape:
  "keyframe_row w h u p s = (Inr (Some r), s') \<Longrightarrow> \<exists>x. r = registry_values u p (fld p ''payload'') (JStr x)"
  by (auto simp: keyframe_row_def andthen_Inr split: if_splits)

lemma registry_row_shape:
  "registry_row w n h p s = (Inr (Some r), s') \<Longrightarrow> \<exists>u a b. r = registry_values u p a b
     \<and> (if truthy (fld p ''tombstone'') then a = JNull \<and> b = JNull else a = fld p ''payload'' \<and> (\<exists>x. b = JStr x))"
  unfolding registry_row_def act_answers
  by (cases "truthy (fld p ''tombstone'')") (auto dest!: tombstone_row_shape keyframe_row_shape)

lemma registry_fits: "row_fits ''registry_snapshot'' (''registry_snapshots'', registry_values u p a b)"
  by (simp add: row_fits_def registry_values_def envelope_not_null_def)

lemma metric_fits: "metric_row w n h p s = (Inr r, s') \<Longrightarrow> row_fits ''metric_sample'' (''metric_samples'', r)"
  by (auto simp: metric_row_def andthen_Inr row_fits_def envelope_not_null_def)

lemma declaration_fits: "declaration_row w n h p s = (Inr r, s') \<Longrightarrow> row_fits ''declaration'' (''events'', r)"
  by (auto simp: declaration_row_def andthen_Inr row_fits_def envelope_not_null_def jget.simps)

lemma override_Inr:
  "override_of w n h cls p s = (Inr ov, s') \<Longrightarrow>
     (\<exists>r. cls = ''registry_snapshot'' \<and> registry_row w n h p s = (Inr r, s')
        \<and> ov = (case r of None \<Rightarrow> Suppressed | Some v \<Rightarrow> Prepared_Row ''registry_snapshots'' v))
     \<or> (\<exists>v. cls = ''metric_sample'' \<and> metric_row w n h p s = (Inr v, s') \<and> ov = Prepared_Row ''metric_samples'' v)
     \<or> (\<exists>v. cls = ''declaration'' \<and> declaration_row w n h p s = (Inr v, s') \<and> ov = Prepared_Row ''events'' v)
     \<or> ov = From_Payload"
  unfolding override_of_def by (auto simp: andthen_Inr split: if_split_asm)

lemma registry_row_fits:
  assumes "registry_row w n h p s = (Inr (Some r), s')" shows "row_fits ''registry_snapshot'' (''registry_snapshots'', r)"
proof -
  from registry_row_shape [OF assms] obtain u a b where "r = registry_values u p a b" by blast
  then show ?thesis by (simp add: registry_fits)
qed

lemma override_fits:
  assumes o': "override_of w n h cls p s = (Inr (Prepared_Row t r), s')" shows "row_fits cls (t, r)"
  using override_Inr [OF o']
proof (elim disjE exE conjE)
  fix q assume "cls = ''registry_snapshot''" "registry_row w n h p s = (Inr q, s')"
    "Prepared_Row t r = (case q of None \<Rightarrow> Suppressed | Some v \<Rightarrow> Prepared_Row ''registry_snapshots'' v)"
  then show ?thesis by (cases q) (simp_all add: registry_row_fits)
qed (simp_all add: metric_fits declaration_fits)

lemma row_source_fit:
  assumes "row_source w n h cls p ov s = (Inr tr, s')" "ov = From_Payload \<or> (\<exists>t r. ov = Prepared_Row t r \<and> row_fits cls (t, r))"
  shows "row_fits cls tr"
  using assms by (auto simp: row_source_def family_values_fit)

lemma merge_row_col: "col (merge_row base r) c = (if c \<in> fst ` set r then col r c else col base c)"
proof (cases "c \<in> fst ` set r")
  case True
  then have "map_of r c \<noteq> None" by (simp add: map_of_eq_None_iff)
  with True show ?thesis by (auto simp: merge_row_def jget.simps map_add_def split: option.splits)
next
  case False
  then have "map_of r c = None" by (simp add: map_of_eq_None_iff)
  moreover from False have "map_of (filter (\<lambda>(k, _). k \<notin> fst ` set r) base) c = map_of base c" using False
    by (induction base) (auto simp: image_iff)
  ultimately show ?thesis using False by (simp add: merge_row_def jget.simps map_add_def)
qed

lemma envelope_ids:
  "col (envelope q e env h f now) ''event_id'' = JStr e" "col (envelope q e env h f now) ''ingest_seq'' = JInt q"
  "col (envelope q e env h f now) ''ingested_at'' = JStr now"
  by (simp_all add: envelope_def jget.simps)

section \<open>What an item adds\<close>

text \<open>An item that answers either adds nothing to the facts or its ledger row and its family row.\<close>

definition adds_nothing :: "plane_db \<Rightarrow> plane_db \<Rightarrow> bool" where
  "adds_nothing d d' \<longleftrightarrow> ledger d' = ledger d \<and> tables d' = tables d \<and> watermarks d' = watermarks d \<and> next_seq d' = next_seq d"

definition adds_row :: "string \<Rightarrow> string \<Rightarrow> string \<Rightarrow> plane_db \<Rightarrow> plane_db \<Rightarrow> bool" where
  "adds_row event_id family now d d' \<longleftrightarrow> (\<exists>r.
     event_id \<notin> l_event ` set (ledger d)
     \<and> ledger d' = ledger d @ [\<lparr>l_seq = next_seq d, l_event = event_id, l_family = family, l_at = now\<rparr>]
     \<and> tables d' = (tables d)(table_of family := tables d (table_of family) @ [r])
     \<and> watermarks d' = watermarks d \<and> next_seq d' = next_seq d + 1
     \<and> col r ''event_id'' = JStr event_id \<and> col r ''ingest_seq'' = JInt (next_seq d) \<and> col r ''ingested_at'' = JStr now
     \<and> table_check (table_of family) r
     \<and> (table_of family = ''events'' \<longrightarrow> col r ''kind'' = JStr (kind_of family)))"

lemma same_facts_adds: "same_facts s s' \<Longrightarrow> adds_nothing (db s) (db s')"
  by (simp add: same_facts_def adds_nothing_def)

lemma adds_nothing_after: "adds_row e f n d d' \<Longrightarrow> adds_nothing d0 d \<Longrightarrow> adds_row e f n d0 d'"
  by (simp add: adds_row_def adds_nothing_def)

lemma ingest_row_adds:
  assumes i: "ingest_row w now h event_id (env, cls, p) ov s = (Inr res, s')"
    and ov: "ov = From_Payload \<or> (\<exists>t r. ov = Prepared_Row t r \<and> row_fits cls (t, r))"
    and fam: "fld env ''event_type'' = JStr cls"
  shows "r_event res = event_id \<and> r_seq res = Some (next_seq (db s)) \<and> \<not> r_duplicate res
    \<and> adds_row event_id cls now (db s) (db s')"
proof -
  have cls: "text_of (fld env ''event_type'') = cls" by (simp add: fam text_of_def)
  from i obtain seq s1 fleet_uid s2 t r s3 where
    l: "insert_ledger event_id cls now s = (Inr seq, s1)" and f: "fleet_of w now h env s1 = (Inr fleet_uid, s2)"
    and tr: "row_source w now h cls p ov s2 = (Inr (t, r), s3)"
    and ins: "insert_row t (merge_row (envelope seq event_id env h fleet_uid now) r) s3 = (Inr (), s')"
    and res: "res = \<lparr>r_event = event_id, r_seq = Some seq, r_duplicate = False\<rparr>"
    by (auto simp: ingest_row_def cls andthen_Inr)
  from insert_ledger_Inr [OF l] have s1: "event_id \<notin> l_event ` set (ledger (db s))" "seq = next_seq (db s)"
    "ledger (db s1) = ledger (db s) @ [\<lparr>l_seq = next_seq (db s), l_event = event_id, l_family = cls, l_at = now\<rparr>]"
    "next_seq (db s1) = next_seq (db s) + 1" "tables (db s1) = tables (db s)" "watermarks (db s1) = watermarks (db s)"
    by auto
  from keepsD [OF facts.fleet_of_keeps f] keepsD [OF facts.row_source_keeps tr]
  have s3: "ledger (db s3) = ledger (db s1)" "tables (db s3) = tables (db s1)" "watermarks (db s3) = watermarks (db s1)"
    "next_seq (db s3) = next_seq (db s1)" by (simp_all add: same_facts_def)
  from row_source_fit [OF tr ov] have rf: "row_fits cls (t, r)" .
  let ?r = "merge_row (envelope seq event_id env h fleet_uid now) r"
  from rf have t: "t = table_of cls" and k: "t = ''events'' \<Longrightarrow> col r ''kind'' = JStr (kind_of cls)"
    and e: "''event_id'' \<notin> fst ` set r" "''ingest_seq'' \<notin> fst ` set r" "''ingested_at'' \<notin> fst ` set r"
    by (auto simp: row_fits_def envelope_not_null_def list_all_iff)
  have "''kind'' \<in> fst ` set r" if "t = ''events''"
    using k [OF that] by (auto simp: jget.simps split: option.splits dest!: map_of_SomeD intro: rev_image_eqI)
  with k have "t = ''events'' \<Longrightarrow> col ?r ''kind'' = JStr (kind_of cls)" by (simp add: merge_row_col)
  moreover have "col ?r ''event_id'' = JStr event_id" "col ?r ''ingest_seq'' = JInt seq" "col ?r ''ingested_at'' = JStr now"
    using e by (simp_all add: merge_row_col envelope_ids)
  moreover from insert_row_Inr [OF ins] have "table_check t ?r"
    "ledger (db s') = ledger (db s3)" "tables (db s') = (tables (db s3))(t := tables (db s3) t @ [?r])"
    "watermarks (db s') = watermarks (db s3)" "next_seq (db s') = next_seq (db s3)" by auto
  ultimately show ?thesis using s1 s3 t by (auto simp: res adds_row_def)
qed

lemma ingest_item_adds:
  assumes i: "ingest_item w now h (event_id, (env, cls, p)) s = (Inr res, s')" and fam: "fld env ''event_type'' = JStr cls"
  shows "r_event res = event_id \<and>
    (r_seq res = None \<and> r_duplicate res \<and> adds_nothing (db s) (db s') \<and> cls = ''registry_snapshot''
     \<or> r_seq res = Some (next_seq (db s)) \<and> \<not> r_duplicate res \<and> adds_row event_id cls now (db s) (db s'))"
proof -
  from i obtain ov t where o': "override_of w now h cls p s = (Inr ov, t)"
    and r: "(if ov = Suppressed then ret \<lparr>r_event = event_id, r_seq = None, r_duplicate = True\<rparr>
      else ingest_row w now h event_id (env, cls, p) ov) t = (Inr res, s')"
    by (auto simp: ingest_item_def andthen_Inr)
  have ad: "adds_nothing (db s) (db t)" using keepsD [OF facts.override_keeps o'] by (rule same_facts_adds)
  show ?thesis
  proof (cases "ov = Suppressed")
    case True
    then have "cls = ''registry_snapshot''" using override_Inr [OF o'] by auto
    moreover from True r have "res = \<lparr>r_event = event_id, r_seq = None, r_duplicate = True\<rparr>" "s' = t" by auto
    ultimately show ?thesis using ad by simp
  next
    case False
    then have "ov = From_Payload \<or> (\<exists>t r. ov = Prepared_Row t r \<and> row_fits cls (t, r))"
      using o' by (cases ov) (auto dest: override_fits)
    from ingest_row_adds [OF _ this fam, of w now h event_id p t res s'] r False
    have "r_event res = event_id \<and> r_seq res = Some (next_seq (db t)) \<and> \<not> r_duplicate res \<and> adds_row event_id cls now (db t) (db s')"
      by simp
    with ad adds_nothing_after show ?thesis by (metis adds_nothing_def)
  qed
qed

end
