(* ===== verification/Retention.thy ===== *)
theory Retention
  imports Ingest
begin

text \<open>
  Retention (\<open>claudlobby/plane/retention.py\<close>): the samples and two kinds of system events that
  age out by the time they landed. The ledger is never touched; each prune that removes a row
  moves the watermark of its family forward, never back. A cutoff is the ISO text of an instant,
  which \<open>_cutoff_iso\<close> computes from the clock and the days; instants compare as their texts.
\<close>

definition PRUNABLE_SYSTEM_EVENTS :: "string list" where
  "PRUNABLE_SYSTEM_EVENTS = [''tool_call'', ''wip_uncommitted'']"

text \<open>\<open>ingested_at < cutoff\<close>.\<close>

definition landed_before :: "string \<Rightarrow> row \<Rightarrow> bool" where
  "landed_before cutoff r \<longleftrightarrow> (case col r ''ingested_at'' of JStr t \<Rightarrow> t < cutoff | _ \<Rightarrow> False)"

text \<open>The upsert of a watermark: the later of the two cutoffs stays.\<close>

definition raise_watermark :: "string \<Rightarrow> string \<Rightarrow> plane_db \<Rightarrow> plane_db" where
  "raise_watermark family cutoff d =
     d\<lparr>watermarks := (case map_of (watermarks d) family of
        None \<Rightarrow> watermarks d @ [(family, cutoff)]
      | Some before \<Rightarrow> map (\<lambda>(f, b). (f, if f = family then max b cutoff else b)) (watermarks d))\<rparr>"

text \<open>A DELETE, which answers with how many rows it took, and the prune with its watermark.\<close>

definition delete_rows :: "string \<Rightarrow> (row \<Rightarrow> bool) \<Rightarrow> nat act" where
  "delete_rows table P = andthen stmt (\<lambda>_ s.
     (Inr (length (filter P (tables (db s) table))),
      s\<lparr>db := (db s)\<lparr>tables := (tables (db s))(table := filter (\<lambda>r. \<not> P r) (tables (db s) table))\<rparr>\<rparr>))"

definition prune_rows :: "string \<Rightarrow> string \<Rightarrow> string \<Rightarrow> (row \<Rightarrow> bool) \<Rightarrow> nat act" where
  "prune_rows table family cutoff P =
     andthen (delete_rows table P) (\<lambda>deleted.
       if deleted = 0 then ret 0
       else andthen (modify (raise_watermark family cutoff)) (\<lambda>_. ret deleted))"

definition prunable_event :: "string list \<Rightarrow> string \<Rightarrow> row \<Rightarrow> bool" where
  "prunable_event allow cutoff r \<longleftrightarrow>
     col r ''kind'' = JStr ''system'' \<and> col r ''event'' \<in> JStr ` set allow \<and> landed_before cutoff r"

definition prune_system_events :: "(int \<Rightarrow> string) \<Rightarrow> int \<Rightarrow> string list option \<Rightarrow> nat act" where
  "prune_system_events cutoff_iso days events =
     (let allow = (case events of None \<Rightarrow> PRUNABLE_SYSTEM_EVENTS | Some es \<Rightarrow> es) in
      if allow = [] then ret 0
      else if \<not> list_all (\<lambda>e. e \<in> set PRUNABLE_SYSTEM_EVENTS) allow then raise (Value_Err ''not allowlisted for retention'')
      else prune_rows ''events'' ''system'' (cutoff_iso days) (prunable_event allow (cutoff_iso days)))"

record retention_result =
  rr_cutoff :: string
  rr_candidates :: nat
  rr_deleted :: nat
  rr_dry_run :: bool

definition prune_metric_samples :: "(int \<Rightarrow> string) \<Rightarrow> int \<Rightarrow> bool \<Rightarrow> retention_result act" where
  "prune_metric_samples cutoff_iso days dry_run =
     (if days < 0 then raise (Value_Err ''retention days cannot be negative'')
      else let cutoff = cutoff_iso days in
        andthen (query (\<lambda>d. length (filter (landed_before cutoff) (tables d ''metric_samples'')))) (\<lambda>candidates.
          if dry_run \<or> candidates = 0
          then ret \<lparr>rr_cutoff = cutoff, rr_candidates = candidates, rr_deleted = 0, rr_dry_run = dry_run\<rparr>
          else andthen (prune_rows ''metric_samples'' ''metric_sample'' cutoff (landed_before cutoff)) (\<lambda>deleted.
            ret \<lparr>rr_cutoff = cutoff, rr_candidates = candidates, rr_deleted = deleted, rr_dry_run = False\<rparr>)))"

text \<open>
  The command (\<open>commands/plane_maintenance.py\<close>, \<open>_prune_under_scope\<close>): both lanes and their
  watermarks are one transaction; a dry run counts and writes nothing. Each lane reads the clock
  anew: \<open>cutoff_iso n\<close> is the cutoff at the \<open>n\<close>th reading.
\<close>

definition prune_lanes :: "(nat \<Rightarrow> int \<Rightarrow> string) \<Rightarrow> int \<Rightarrow> bool \<Rightarrow> (retention_result \<times> nat option) act" where
  "prune_lanes cutoff_iso days system_on =
     andthen (prune_metric_samples (cutoff_iso 0) days False) (\<lambda>res.
     andthen (if system_on then andthen (prune_system_events (cutoff_iso 1) days None) (\<lambda>n. ret (Some n)) else ret None) (\<lambda>system_count.
     andthen commit (\<lambda>_. ret (res, system_count))))"

definition dry_lanes :: "(int \<Rightarrow> string) \<Rightarrow> int \<Rightarrow> bool \<Rightarrow> (retention_result \<times> nat option) act" where
  "dry_lanes cutoff_iso days system_on =
     andthen (prune_metric_samples cutoff_iso days True) (\<lambda>res.
     andthen (if system_on then andthen (query (\<lambda>d. length (filter (prunable_event PRUNABLE_SYSTEM_EVENTS (rr_cutoff res)) (tables d ''events''))))
           (\<lambda>n. ret (Some n)) else ret None) (\<lambda>system_count. ret (res, system_count)))"

definition prune_under_scope :: "(nat \<Rightarrow> int \<Rightarrow> string) \<Rightarrow> int \<Rightarrow> bool \<Rightarrow> bool \<Rightarrow> (retention_result \<times> nat option) act" where
  "prune_under_scope cutoff_iso days system_on dry_run =
     (if dry_run then dry_lanes (cutoff_iso 0) days system_on
      else andthen begin_immediate (\<lambda>_ s.
        case prune_lanes cutoff_iso days system_on s of
          (Inl e, s') \<Rightarrow> (Inl e, rollback_if_open s') | (Inr x, s') \<Rightarrow> (Inr x, s')))"

section \<open>Watermarks only move forward\<close>

definition watermark_le :: "plane_db \<Rightarrow> plane_db \<Rightarrow> bool" where
  "watermark_le d d' \<longleftrightarrow> (\<forall>f b. map_of (watermarks d) f = Some b \<longrightarrow> (\<exists>b'. map_of (watermarks d') f = Some b' \<and> b \<le> b'))"

lemma map_of_raised:
  "map_of (map (\<lambda>(f, b). (f, if f = k then max b c else b)) ws) f = map_option (\<lambda>b. if f = k then max b c else b) (map_of ws f)"
  by (induction ws) auto

lemma raise_watermark_le: "watermark_le d (raise_watermark f c d)"
  by (auto simp: watermark_le_def raise_watermark_def map_of_raised map_add_def split: option.splits)

lemma raise_watermark_at: "\<exists>b. map_of (watermarks (raise_watermark f c d)) f = Some b \<and> c \<le> b"
  by (auto simp: raise_watermark_def map_of_raised map_add_def split: option.splits)

lemma raise_watermark_frame [simp]:
  "ledger (raise_watermark f c d) = ledger d" "tables (raise_watermark f c d) = tables d"
  "identities (raise_watermark f c d) = identities d" "next_seq (raise_watermark f c d) = next_seq d"
  by (simp_all add: raise_watermark_def)

lemma explained_mono: assumes "watermark_le d d'" "explained_by_a_prune l d" shows "explained_by_a_prune l d'"
proof -
  from assms(2) obtain b where b: "map_of (watermarks d) (l_family l) = Some b" "l_at l < b"
    by (auto simp: explained_by_a_prune_def split: option.splits)
  with assms(1) obtain b' where b': "map_of (watermarks d') (l_family l) = Some b'" "b \<le> b'"
    by (auto simp: watermark_le_def)
  with b(2) have "l_at l < b'" by simp
  then have "b' \<noteq> []" by auto
  with b'(1) \<open>l_at l < b'\<close> show ?thesis by (simp add: explained_by_a_prune_def)
qed

section \<open>What a prune takes\<close>

text \<open>A row that the watermark of its own family explains.\<close>

definition prune_owns :: "plane_db \<Rightarrow> string \<Rightarrow> row \<Rightarrow> bool" where
  "prune_owns d t r \<longleftrightarrow> (\<exists>f b. map_of (watermarks d) f = Some b \<and> landed_before b r
     \<and> (t = ''metric_samples'' \<and> f = ''metric_sample'' \<or> t = ''events'' \<and> f = ''system'' \<and> col r ''kind'' = JStr ''system''))"

definition pruned :: "plane_db \<Rightarrow> plane_db \<Rightarrow> bool" where
  "pruned d d' \<longleftrightarrow> ledger d' = ledger d \<and> next_seq d' = next_seq d \<and> identities d' = identities d \<and> watermark_le d d'
     \<and> (\<forall>t. \<exists>P. tables d' t = filter P (tables d t))
     \<and> (\<forall>t r. r \<in> set (tables d t) \<longrightarrow> r \<notin> set (tables d' t) \<longrightarrow> prune_owns d' t r)"

lemma watermark_le_trans: "watermark_le d e \<Longrightarrow> watermark_le e f \<Longrightarrow> watermark_le d f"
  unfolding watermark_le_def by (meson order.trans)

lemma landed_before_mono: "landed_before b r \<Longrightarrow> b \<le> b' \<Longrightarrow> landed_before b' r"
  by (auto simp: landed_before_def split: json.splits)

lemma prune_owns_mono: "watermark_le d d' \<Longrightarrow> prune_owns d t r \<Longrightarrow> prune_owns d' t r"
proof -
  assume le: "watermark_le d d'" and o': "prune_owns d t r"
  then obtain f b where f: "map_of (watermarks d) f = Some b" "landed_before b r"
    "t = ''metric_samples'' \<and> f = ''metric_sample'' \<or> t = ''events'' \<and> f = ''system'' \<and> col r ''kind'' = JStr ''system''"
    unfolding prune_owns_def by blast
  from le f(1) obtain b' where "map_of (watermarks d') f = Some b'" "b \<le> b'" unfolding watermark_le_def by blast
  with f(2,3) landed_before_mono [OF f(2)] show ?thesis unfolding prune_owns_def by blast
qed

lemma pruned_refl [simp]: "pruned d d"
  by (auto simp: pruned_def watermark_le_def intro: exI [of _ "\<lambda>_. True"])

lemma pruned_trans: assumes "pruned d e" "pruned e f" shows "pruned d f"
proof -
  have "\<exists>P. tables f t = filter P (tables d t)" for t
    using assms unfolding pruned_def by (metis filter_filter)
  with assms show ?thesis unfolding pruned_def
    by (metis prune_owns_mono watermark_le_trans)
qed

lemma delete_rows_Inr:
  "delete_rows t P s = (Inr n, s') \<Longrightarrow> n = length (filter P (tables (db s) t))
     \<and> db s' = (db s)\<lparr>tables := (tables (db s))(t := filter (\<lambda>r. \<not> P r) (tables (db s) t))\<rparr>"
  by (auto simp: delete_rows_def andthen_Inr dest!: stmt_runs)

lemma prune_rows_pruned:
  assumes p: "prune_rows t f c P s = (Inr n, s')"
    and lane: "\<And>r. P r \<Longrightarrow> landed_before c r \<and> (t = ''metric_samples'' \<and> f = ''metric_sample'' \<or> t = ''events'' \<and> f = ''system'' \<and> col r ''kind'' = JStr ''system'')"
  shows "pruned (db s) (db s')"
proof -
  let ?d = "(db s)\<lparr>tables := (tables (db s))(t := filter (\<lambda>r. \<not> P r) (tables (db s) t))\<rparr>"
  from p obtain m u where m: "delete_rows t P s = (Inr m, u)"
    and k: "(if m = 0 then ret 0 else andthen (modify (raise_watermark f c)) (\<lambda>_. ret m)) u = (Inr n, s')"
    by (auto simp: prune_rows_def andthen_Inr)
  from delete_rows_Inr [OF m] have "m = length (filter P (tables (db s) t))" "db u = ?d" by simp_all
  moreover have "if m = 0 then db s' = db u else db s' = raise_watermark f c (db u)"
    using k by (cases "m = 0") (auto simp: andthen_Inr dest!: modify_Inr)
  ultimately have r: "if filter P (tables (db s) t) = [] then db s' = ?d else db s' = raise_watermark f c ?d"
    by simp
  show ?thesis
  proof (cases "filter P (tables (db s) t) = []")
    case True
    then have "filter (\<lambda>r. \<not> P r) (tables (db s) t) = tables (db s) t" by (simp add: filter_empty_conv)
    with r True have "db s' = db s" by simp
    then show ?thesis by simp
  next
    case False
    with r have d: "db s' = raise_watermark f c ?d" by simp
    obtain b where b: "map_of (watermarks (db s')) f = Some b" "c \<le> b"
      using raise_watermark_at [of f c ?d] by (auto simp: d)
    have own: "prune_owns (db s') t r" if "P r" for r
      using lane [OF that] b landed_before_mono unfolding prune_owns_def by blast
    have le: "watermark_le (db s) (db s')"
      using raise_watermark_le [of ?d f c] by (simp add: d watermark_le_def)
    have "\<exists>Q. tables (db s') u = filter Q (tables (db s) u)" for u
      by (cases "u = t") (auto simp: d intro: exI [of _ "\<lambda>_. True"])
    with own le show ?thesis by (auto simp: pruned_def d split: if_splits)
  qed
qed

end
