(* ===== verification/Ingest_Safety.thy ===== *)
theory Ingest_Safety
  imports Retention
begin

text \<open>
  What the write path promises: a batch lands whole or not at all, the database stays
  consistent (every event of the ledger has its row or was pruned, every row its event), it is
  an append-only log of events, and a batch that landed is answered as a duplicate ever after.
\<close>

section \<open>How a batch lands\<close>

text \<open>Item by item: a row, or nothing for a snapshot that changes nothing.\<close>

inductive lands :: "string \<Rightarrow> (string \<times> item) list \<Rightarrow> ingest_result list \<Rightarrow> plane_db \<Rightarrow> plane_db \<Rightarrow> bool" for now where
  none: "adds_nothing d d' \<Longrightarrow> lands now [] [] d d'"
| row: "adds_row e cls now d d1 \<Longrightarrow> lands now eis rs d1 d' \<Longrightarrow>
    lands now ((e, (env, cls, p)) # eis) (\<lparr>r_event = e, r_seq = Some (next_seq d), r_duplicate = False\<rparr> # rs) d d'"
| same: "adds_nothing d d1 \<Longrightarrow> lands now eis rs d1 d' \<Longrightarrow>
    lands now ((e, (env, ''registry_snapshot'', p)) # eis) (duplicate_of e # rs) d d'"

inductive_cases lands_NilE: "lands now [] rs d d'"
inductive_cases lands_ConsE: "lands now (ei # eis) rs d d'"

definition classed :: "item \<Rightarrow> bool" where
  "classed it \<longleftrightarrow> (case it of (env, cls, p) \<Rightarrow> fld env ''event_type'' = JStr cls)"

lemma accepted_classed: "accepted it \<Longrightarrow> classed it"
  by (auto simp: accepted_def classed_def split: prod.splits)

lemma each_act_Inr:
  "each_act f [] s = (Inr rs, s') \<longleftrightarrow> rs = [] \<and> s' = s"
  "each_act f (x # xs) s = (Inr rs, s') \<longleftrightarrow>
     (\<exists>r t rs'. f x s = (Inr r, t) \<and> each_act f xs t = (Inr rs', s') \<and> rs = r # rs')"
  by (auto simp: andthen_Inr)

lemma each_lands:
  "list_all (\<lambda>ei. classed (snd ei)) prepared \<Longrightarrow> each_act (ingest_item w now h) prepared s = (Inr rs, s')
    \<Longrightarrow> lands now prepared rs (db s) (db s')"
proof (induction prepared arbitrary: s rs)
  case Nil
  then show ?case by (auto simp: adds_nothing_def intro!: lands.none)
next
  case (Cons ei eis)
  obtain e env cls p where ei: "ei = (e, (env, cls, p))" by (cases ei) auto
  from Cons.prems(2) obtain r t rs' where r: "ingest_item w now h ei s = (Inr r, t)"
    and e: "each_act (ingest_item w now h) eis t = (Inr rs', s')" and rs: "rs = r # rs'"
    unfolding each_act_Inr by blast
  from Cons.prems(1) have c: "fld env ''event_type'' = JStr cls" and cs: "list_all (\<lambda>ei. classed (snd ei)) eis"
    by (auto simp: ei classed_def)
  have l: "lands now eis rs' (db t) (db s')" using Cons.IH [OF cs e] .
  from ingest_item_adds [OF r [unfolded ei] c] show ?case
  proof (elim conjE disjE)
    assume a: "r_event r = e" "r_seq r = None" "r_duplicate r" "adds_nothing (db s) (db t)" "cls = ''registry_snapshot''"
    then have "r = duplicate_of e" by (simp add: duplicate_of_def)
    with a(4,5) l show ?thesis by (simp add: ei rs lands.same)
  next
    assume a: "r_event r = e" "r_seq r = Some (next_seq (db s))" "\<not> r_duplicate r" "adds_row e cls now (db s) (db t)"
    then have "r = \<lparr>r_event = e, r_seq = Some (next_seq (db s)), r_duplicate = False\<rparr>" by simp
    with a(4) l show ?thesis by (simp add: ei rs lands.row)
  qed
qed

section \<open>The transaction\<close>

definition in_doubt :: "session \<Rightarrow> bool" where
  "in_doubt s \<longleftrightarrow> (\<exists>e. Runs_And_Fails e \<in> set (faults s))"

lemma in_doubt_mono: "no_new_faults s s' \<Longrightarrow> in_doubt s' \<Longrightarrow> in_doubt s"
  by (auto simp: no_new_faults_def in_doubt_def)

lemma commit_cases:
  assumes "commit s = (r, s')" "saved s = Some d"
  shows "(\<exists>fs. s' = s\<lparr>saved := None, faults := fs\<rparr>) \<and> (r = Inr () \<or> in_doubt s \<and> r \<noteq> Inr ())
    \<or> r \<noteq> Inr () \<and> (\<exists>fs. s' = s\<lparr>faults := fs\<rparr>)"
  using assms by (auto simp: commit_def in_doubt_def split: list.splits fault.splits)
    (metis session.surjective session.update_convs(3))+

lemma begin_cases:
  assumes "begin_immediate s = (q, s1)" "saved s = None"
  shows "db s1 = db s \<and> no_new_faults s s1 \<and> (if \<exists>e. q = Inl e then saved s1 = None else saved s1 = Some (db s))"
proof -
  obtain q0 s0 where s0: "stmt s = (q0, s0)" by (cases "stmt s")
  from stmt_cases [OF s0] obtain fs where fs: "s0 = s\<lparr>faults := fs\<rparr>" "set fs \<subseteq> set (faults s)" by blast
  show ?thesis using assms s0 fs
    by (cases q0) (auto simp: begin_immediate_def andthen_def no_new_faults_def)
qed

lemma check_precondition_keeps: "keeps same_db (check_precondition pre)"
  unfolding check_precondition_def
  by (cases pre) (simp_all, (intro keeps_andthen frame_preorders keeps_query keeps_if keeps_now)+)

text \<open>What runs between BEGIN and COMMIT.\<close>

definition work :: "world \<Rightarrow> string \<Rightarrow> string \<Rightarrow> (plane_db \<Rightarrow> bool) option \<Rightarrow> (string \<times> item) list \<Rightarrow> ingest_result list act" where
  "work w now h pre prepared = andthen (check_precondition pre) (\<lambda>_. each_act (ingest_item w now h) prepared)"

lemma andthen_assoc: "andthen (andthen m f) g = andthen m (\<lambda>x. andthen (f x) g)"
  by (rule ext) (simp add: andthen_def split: prod.splits sum.splits)

lemma transaction_work:
  "transaction w now h pre prepared =
     andthen begin_immediate (\<lambda>_. andthen (work w now h pre prepared) (\<lambda>rs. andthen commit (\<lambda>_. ret rs)))"
  unfolding transaction_def work_def andthen_assoc ..

lemma work_tx: "keeps same_tx (work w now h pre prepared)"
  unfolding work_def
  by (intro keeps_andthen frame_preorders keeps_each ingest_item_tx keeps_mono [OF check_precondition_keeps])
    (simp add: same_db_facts same_facts_tx)

lemma work_lands:
  assumes "work w now h pre prepared s = (Inr rs, s')" "list_all (\<lambda>ei. classed (snd ei)) prepared"
  shows "lands now prepared rs (db s) (db s')"
proof -
  from assms(1) obtain t where c: "check_precondition pre s = (Inr (), t)"
    and e: "each_act (ingest_item w now h) prepared t = (Inr rs, s')" by (auto simp: work_def andthen_Inr)
  from keepsD [OF check_precondition_keeps c] have "db t = db s" by (simp add: same_db_def)
  with each_lands [OF assms(2) e] show ?thesis by simp
qed

text \<open>What a batch stores: its rows, and identities that keep every binding.\<close>

definition keeps_ids :: "plane_db \<Rightarrow> plane_db \<Rightarrow> bool" where
  "keeps_ids d d' \<longleftrightarrow> (ids_ok d \<longrightarrow> ids_ok d' \<and> binds d d')"

definition stored :: "string \<Rightarrow> (string \<times> item) list \<Rightarrow> ingest_result list \<Rightarrow> plane_db \<Rightarrow> plane_db \<Rightarrow> bool" where
  "stored now prepared rs d d' \<longleftrightarrow> lands now prepared rs d d' \<and> keeps_ids d d'"

lemma work_bindings: "keeps keeps_bindings (work w now h pre prepared)"
  unfolding work_def
  by (intro keeps_andthen keeps_bindings_preorder keeps_each ingest_item_bindings
      keeps_mono [OF check_precondition_keeps same_db_bindings])

lemma work_stored:
  assumes "work w now h pre prepared s = (Inr rs, s')" "list_all (\<lambda>ei. classed (snd ei)) prepared"
  shows "stored now prepared rs (db s) (db s')"
  using work_lands [OF assms] keepsD [OF work_bindings assms(1)] by (simp add: stored_def keeps_ids_def keeps_bindings_def)

lemma transaction_outcome:
  assumes t: "transaction w now h pre prepared s = (r, s')" and idle: "saved s = None"
    and c: "list_all (\<lambda>ei. classed (snd ei)) prepared"
  shows "saved s' = Some (db s) \<and> (\<exists>e. r = Inl e)
    \<or> saved s' = None \<and> (db s' = db s \<and> (\<exists>e. r = Inl e)
        \<or> (\<exists>rs. stored now prepared rs (db s) (db s') \<and> (r = Inr rs \<or> in_doubt s \<and> (\<exists>e. r = Inl e))))"
proof -
  obtain q1 s1 where b: "begin_immediate s = (q1, s1)" by (cases "begin_immediate s")
  note b' = begin_cases [OF b idle]
  show ?thesis
  proof (cases q1)
    case (Inl e)
    with t b b' show ?thesis by (auto simp: transaction_def andthen_def)
  next
    case (Inr u)
    obtain q2 s2 where wk: "work w now h pre prepared s1 = (q2, s2)" by (cases "work w now h pre prepared s1")
    from Inr b' have s1: "db s1 = db s" "saved s1 = Some (db s)" "no_new_faults s s1" by auto
    from keepsD [OF work_tx wk] s1 have s2: "saved s2 = Some (db s)" "no_new_faults s s2"
      by (auto simp: same_tx_def intro: no_new_faults_trans)
    show ?thesis
    proof (cases q2)
      case (Inl e)
      with t b \<open>q1 = Inr u\<close> wk s2 show ?thesis by (auto simp: transaction_work andthen_def)
    next
      case (Inr rs)
      obtain q3 where cm: "commit s2 = (q3, s')" and r: "r = (case q3 of Inl e \<Rightarrow> Inl e | Inr _ \<Rightarrow> Inr rs)"
        using t b \<open>q1 = Inr u\<close> wk Inr by (auto simp: transaction_work andthen_def split: prod.splits sum.splits)
      have l: "stored now prepared rs (db s) (db s2)" using work_stored [OF _ c] wk Inr s1(1) by metis
      from commit_cases [OF cm s2(1)] show ?thesis
      proof (elim disjE conjE exE)
        fix fs assume "s' = s2\<lparr>saved := None, faults := fs\<rparr>" "q3 = Inr ()"
        with l r show ?thesis by auto
      next
        fix fs assume "s' = s2\<lparr>saved := None, faults := fs\<rparr>" "in_doubt s2" "q3 \<noteq> Inr ()"
        with l r in_doubt_mono [OF s2(2)] show ?thesis by (cases q3) auto
      next
        fix fs assume "q3 \<noteq> Inr ()" "s' = s2\<lparr>faults := fs\<rparr>"
        with s2(1) r show ?thesis by (cases q3) auto
      qed
    qed
  qed
qed

section \<open>The whole call\<close>

lemma keeps_case: "keeps R m \<Longrightarrow> (\<And>x. keeps R (f x)) \<Longrightarrow> keeps R (case a of None \<Rightarrow> m | Some x \<Rightarrow> f x)"
  by (cases a) auto

lemma keeps_item: "(\<And>env c p. keeps R (f env c p)) \<Longrightarrow> keeps R (case it of (env, c, p) \<Rightarrow> f env c p)"
  by (cases it) auto

lemmas read_rules = keeps_andthen frame_preorders keeps_query keeps_now keeps_if keeps_case allI

lemma prune_explains_keeps: "keeps same_db (prune_explains l)"
proof (rule keepsI)
  fix s r s' assume a: "prune_explains l s = (r, s')"
  obtain q t where q: "query (explained_by_a_prune l) s = (q, t)" by (cases "query (explained_by_a_prune l) s")
  with a have "s' = t" by (cases q) (auto simp: prune_explains_def)
  with keepsD [OF keeps_query(1) q] show "same_db s s'" by simp
qed

lemma verify_replay_keeps: "keeps same_db (verify_replay w h ei)"
proof -
  have s: "keeps same_db (suppressed_on_replay w h it)" for it
    unfolding suppressed_on_replay_def by (intro keeps_item read_rules)
  show ?thesis unfolding verify_replay_def by (intro keeps_prod read_rules s prune_explains_keeps)
qed

lemma verify_keeps: "keeps same_db (verify_duplicates w h prepared)"
  unfolding verify_duplicates_def by (intro keeps_each frame_preorders verify_replay_keeps)

definition recorded :: "plane_db \<Rightarrow> string \<Rightarrow> string \<Rightarrow> bool" where
  "recorded d e cls \<longleftrightarrow> (\<exists>l \<in> set (ledger d). l_event l = e \<and> l_family l = cls)"

text \<open>
  A batch answered as one that landed before: every event is recorded under its class, or is a
  snapshot that changes nothing.
\<close>

definition again :: "(string \<times> item) list \<Rightarrow> ingest_result list \<Rightarrow> plane_db \<Rightarrow> bool" where
  "again prepared rs d \<longleftrightarrow> rs = map (\<lambda>ei. duplicate_of (fst ei)) prepared
     \<and> list_all (\<lambda>(e, (env, cls, p)). recorded d e cls \<or> cls = ''registry_snapshot'') prepared"

lemma suppressed_class: "suppressed_on_replay w h (env, cls, p) s = (Inr True, s') \<Longrightarrow> cls = ''registry_snapshot''"
  by (auto simp: suppressed_on_replay_def split: if_splits)

lemma find_ledger: "find (\<lambda>l. l_event l = e) (ledger d) = Some l \<Longrightarrow> l \<in> set (ledger d) \<and> l_event l = e"
  by (auto simp: find_Some_iff)

lemma verify_replay_answers:
  assumes v: "verify_replay w h (e, (env, cls, p)) s = (Inr r, s')" and c: "fld env ''event_type'' = JStr cls"
  shows "r = duplicate_of e \<and> (recorded (db s) e cls \<or> cls = ''registry_snapshot'')"
proof -
  let ?found = "\<lambda>d. find (\<lambda>l. l_event l = e) (ledger d)"
  from v obtain found t where q: "query ?found s = (Inr found, t)"
    and k: "(case found of None \<Rightarrow> andthen (suppressed_on_replay w h (env, cls, p)) (\<lambda>b.
              if b then ret (duplicate_of e) else raise (Runtime_Error ''missing from ledger: mixed state''))
          | Some l \<Rightarrow>
              if fld env ''event_type'' \<noteq> JStr (l_family l) then raise (Contract_Error ''idempotency conflict'')
              else andthen (query (family_row l)) (\<lambda>fam.
                case fam of
                  None \<Rightarrow> andthen (prune_explains l) (\<lambda>b.
                    if b then ret (duplicate_of e) else raise (Runtime_Error ''ledger/family divergence''))
                | Some r \<Rightarrow>
                    if seq_of r \<noteq> l_seq l then raise (Runtime_Error ''ledger/family ingest_seq divergence'')
                    else ret (duplicate_of e))) t = (Inr r, s')"
    unfolding verify_replay_def prod.case andthen_Inr fst_conv by blast
  show ?thesis
  proof (cases found)
    case None
    with k suppressed_class show ?thesis by (auto simp: andthen_Inr split: if_splits)
  next
    case (Some l)
    with query_Inr [OF q] find_ledger [of e "db s" l] have l: "l \<in> set (ledger (db s))" "l_event l = e" by auto
    from k Some have f: "fld env ''event_type'' = JStr (l_family l)" by (auto split: if_splits)
    from k Some f have "r = duplicate_of e" by (auto simp: andthen_Inr split: option.splits if_splits)
    with l f c show ?thesis by (auto simp: recorded_def)
  qed
qed

lemma verify_answers:
  "verify_duplicates w h prepared s = (Inr rs, s') \<Longrightarrow> list_all (\<lambda>ei. classed (snd ei)) prepared \<Longrightarrow> again prepared rs (db s)"
proof (induction prepared arbitrary: s rs)
  case Nil
  then show ?case by (simp add: verify_duplicates_def again_def)
next
  case (Cons ei eis)
  obtain e env cls p where ei: "ei = (e, (env, cls, p))" by (cases ei) auto
  from Cons.prems(1) obtain r t rs' where r: "verify_replay w h ei s = (Inr r, t)"
    and e: "verify_duplicates w h eis t = (Inr rs', s')" and rs: "rs = r # rs'"
    unfolding verify_duplicates_def each_act_Inr by blast
  have "db t = db s" using keepsD [OF verify_replay_keeps r] by (simp add: same_db_def)
  with Cons.IH [OF e] Cons.prems(2) have "again eis rs' (db s)" by simp
  moreover have "fld env ''event_type'' = JStr cls" using Cons.prems(2) by (simp add: ei classed_def)
  ultimately show ?case using verify_replay_answers [OF r [unfolded ei]] by (simp add: again_def rs ei)
qed

section \<open>All or nothing\<close>

text \<open>Nothing changed, or the batch landed although its COMMIT reported a failure.\<close>

definition unchanged_or_doubt :: "string \<Rightarrow> (string \<times> item) list \<Rightarrow> session \<Rightarrow> session \<Rightarrow> bool" where
  "unchanged_or_doubt now prepared s s' \<longleftrightarrow>
     db s' = db s \<or> in_doubt s \<and> (\<exists>rs. stored now prepared rs (db s) (db s'))"

definition batch_outcome :: "string \<Rightarrow> (string \<times> item) list \<Rightarrow> plane_error + ingest_result list \<Rightarrow> session \<Rightarrow> session \<Rightarrow> bool" where
  "batch_outcome now prepared r s s' \<longleftrightarrow> saved s' = None \<and>
     (case r of Inr rs \<Rightarrow> stored now prepared rs (db s) (db s') \<or> again prepared rs (db s') \<and> unchanged_or_doubt now prepared s s'
      | Inl e \<Rightarrow> unchanged_or_doubt now prepared s s')"

lemma rollback_simps:
  "saved s = None \<Longrightarrow> rollback_if_open s = s"
  "saved s = Some d \<Longrightarrow> db (rollback_if_open s) = d \<and> saved (rollback_if_open s) = None"
  by (simp_all add: rollback_if_open_def)

lemma commit_or_verify_outcome:
  assumes r: "commit_or_verify w now h pre prepared s = (r, s')" and idle: "saved s = None"
    and c: "list_all (\<lambda>ei. classed (snd ei)) prepared"
  shows "batch_outcome now prepared r s s'"
proof -
  obtain q t where t: "transaction w now h pre prepared (s\<lparr>memo := []\<rparr>) = (q, t)"
    by (cases "transaction w now h pre prepared (s\<lparr>memo := []\<rparr>)")
  have idle': "saved (s\<lparr>memo := []\<rparr>) = None" and dt: "in_doubt (s\<lparr>memo := []\<rparr>) = in_doubt s"
    using idle by (simp_all add: in_doubt_def)
  note o' = transaction_outcome [OF t idle' c, unfolded dt, simplified]
  let ?u = "rollback_if_open t"
  show ?thesis
  proof (cases q)
    case (Inr rs)
    with r t o' show ?thesis by (auto simp: commit_or_verify_def batch_outcome_def split: prod.splits)
  next
    case (Inl e)
    have u: "saved ?u = None \<and> unchanged_or_doubt now prepared s ?u"
      using o' Inl rollback_simps [of t] by (auto simp: unchanged_or_doubt_def)
    show ?thesis
    proof (cases "\<exists>m. e = Integrity_Error m \<and> contains m ''ingest_ledger.event_id''")
      case True
      then have v: "verify_duplicates w h prepared ?u = (r, s')"
        using r t Inl by (auto simp: commit_or_verify_def)
      from keepsD [OF verify_keeps v] have d: "db s' = db ?u" "saved s' = saved ?u" by (simp_all add: same_db_def)
      with u have "saved s' = None \<and> unchanged_or_doubt now prepared s s'" by (simp add: unchanged_or_doubt_def)
      with v d verify_answers [OF _ c, of w h ?u _ s'] show ?thesis by (cases r) (auto simp: batch_outcome_def)
    next
      case False
      then have "r = Inl e" "s' = ?u" using r t Inl by (auto simp: commit_or_verify_def split: plane_error.splits if_splits)
      with u show ?thesis by (simp add: batch_outcome_def)
    qed
  qed
qed

text \<open>The event ids of a batch: the given ones, new ones where none is given.\<close>

definition prepared_for :: "item list \<Rightarrow> (string \<times> item) list \<Rightarrow> bool" where
  "prepared_for items prepared \<longleftrightarrow> map snd prepared = items
     \<and> list_all (\<lambda>(e, it). if truthy (fld (fst it) ''event_id'') then e = text_of (fld (fst it) ''event_id'') else True) prepared"

lemma prepare_keeps: "keeps same_db (prepare w it)"
  unfolding prepare_def by (intro read_rules keeps_mint)

lemma each_prepare_runs: "\<exists>prepared s'. each_act (prepare w) items s = (Inr prepared, s')"
proof (induction items arbitrary: s)
  case (Cons it its)
  have "\<exists>r t. prepare w it s = (Inr r, t)"
    by (cases it; cases "truthy (fld (fst it) ''event_id'')") (simp_all add: prepare_def andthen_def mint_hex_def)
  then obtain r t where "prepare w it s = (Inr r, t)" by blast
  with Cons.IH [of t] show ?case by (auto simp: andthen_def)
qed simp

lemma each_prepare: "each_act (prepare w) items s = (Inr prepared, s') \<Longrightarrow> prepared_for items prepared"
proof (induction items arbitrary: s prepared)
  case Nil
  then show ?case by (simp add: prepared_for_def)
next
  case (Cons it its)
  then obtain r t rs where r: "prepare w it s = (Inr r, t)" and e: "each_act (prepare w) its t = (Inr rs, s')" and p: "prepared = r # rs"
    unfolding each_act_Inr by blast
  from r have "snd r = it \<and> (if truthy (fld (fst it) ''event_id'') then fst r = text_of (fld (fst it) ''event_id'') else True)"
    by (auto simp: prepare_def andthen_Inr split: if_splits)
  with Cons.IH [OF e] p show ?case by (auto simp: prepared_for_def split: prod.splits)
qed

lemma prepared_classed: "prepared_for items prepared \<Longrightarrow> list_all classed items \<Longrightarrow> list_all (\<lambda>ei. classed (snd ei)) prepared"
proof -
  assume p: "prepared_for items prepared" and c: "list_all classed items"
  from p have "items = map snd prepared" by (simp add: prepared_for_def)
  with c show ?thesis by (simp add: list_all_iff)
qed

lemma ingest_outcome:
  assumes i: "ingest_many w h pre items s = (r, s')" and idle: "saved s = None" and c: "list_all classed items"
  shows "\<exists>now prepared. prepared_for items prepared \<and> batch_outcome now prepared r s s'"
proof -
  obtain now s1 where n: "now_iso w s = (Inr now, s1)" by (simp add: now_iso_def)
  obtain prepared s2 where p: "each_act (prepare w) items s1 = (Inr prepared, s2)" using each_prepare_runs by blast
  have k: "keeps same_db (each_act (prepare w) items)" by (intro keeps_each frame_preorders prepare_keeps)
  have same: "same_db s s2" by (rule transpD [OF frame_preorders(3) keepsD [OF keeps_mint(2) n] keepsD [OF k p]])
  note pf = each_prepare [OF p]
  have "batch_outcome now prepared r s s'"
  proof (cases "distinct (map fst prepared)")
    case False
    with i n p same idle show ?thesis
      by (auto simp: ingest_many_def andthen_def same_db_def batch_outcome_def unchanged_or_doubt_def)
  next
    case True
    with i n p have cv: "commit_or_verify w now h pre prepared s2 = (r, s')" by (simp add: ingest_many_def andthen_def)
    have id2: "saved s2 = None" and db2: "db s2 = db s" and d2: "in_doubt s2 \<Longrightarrow> in_doubt s"
      using same idle in_doubt_mono by (auto simp: same_db_def)
    have u: "unchanged_or_doubt now prepared s2 s' \<Longrightarrow> unchanged_or_doubt now prepared s s'"
      using d2 unfolding unchanged_or_doubt_def db2 by blast
    from commit_or_verify_outcome [OF cv id2 prepared_classed [OF pf c]] show ?thesis
      using u by (cases r) (auto simp: batch_outcome_def db2)
  qed
  with pf show ?thesis by blast
qed

section \<open>Every event has its row, every row its event\<close>

definition row_of :: "ledger_row \<Rightarrow> string \<Rightarrow> row \<Rightarrow> bool" where
  "row_of l t r \<longleftrightarrow> t = table_of (l_family l) \<and> col r ''event_id'' = JStr (l_event l) \<and> col r ''ingest_seq'' = JInt (l_seq l)
     \<and> col r ''ingested_at'' = JStr (l_at l) \<and> (t = ''events'' \<longrightarrow> col r ''kind'' = JStr (kind_of (l_family l)))"

definition facts_ok :: "plane_db \<Rightarrow> bool" where
  "facts_ok d \<longleftrightarrow>
     distinct (map l_event (ledger d)) \<and> sorted_wrt (<) (map l_seq (ledger d)) \<and> (\<forall>l \<in> set (ledger d). l_seq l < next_seq d)
     \<and> (\<forall>t. distinct (map (\<lambda>r. col r ''event_id'') (tables d t)))
     \<and> (\<forall>t. \<forall>r \<in> set (tables d t). table_check t r \<and> (\<exists>l \<in> set (ledger d). row_of l t r))
     \<and> (\<forall>l \<in> set (ledger d). explained_by_a_prune l d
          \<or> (\<exists>r \<in> set (tables d (table_of (l_family l))). row_of l (table_of (l_family l)) r))"

definition plane_ok :: "plane_db \<Rightarrow> bool" where
  "plane_ok d \<longleftrightarrow> ids_ok d \<and> facts_ok d"

lemma empty_ok: "plane_ok empty_db"
  by (simp add: plane_ok_def ids_ok_def facts_ok_def empty_db_def)

lemma adds_nothing_ok: "adds_nothing d d' \<Longrightarrow> facts_ok d \<Longrightarrow> facts_ok d'"
  by (simp add: adds_nothing_def facts_ok_def explained_by_a_prune_def)

lemma adds_row_ok:
  assumes a: "adds_row e cls now d d'" and ok: "facts_ok d"
  shows "facts_ok d'"
proof -
  let ?l = "\<lparr>l_seq = next_seq d, l_event = e, l_family = cls, l_at = now\<rparr>"
  from a obtain r where r: "e \<notin> l_event ` set (ledger d)" "ledger d' = ledger d @ [?l]"
    "tables d' = (tables d)(table_of cls := tables d (table_of cls) @ [r])" "watermarks d' = watermarks d"
    "next_seq d' = next_seq d + 1" "table_check (table_of cls) r" "row_of ?l (table_of cls) r"
    by (auto simp: adds_row_def row_of_def)
  have x: "explained_by_a_prune l d' = explained_by_a_prune l d" for l
    using r(4) by (simp add: explained_by_a_prune_def)
  have fresh: "col r ''event_id'' \<noteq> col q ''event_id''" if "q \<in> set (tables d t)" for q t
  proof -
    from ok that obtain l where "l \<in> set (ledger d)" "row_of l t q" unfolding facts_ok_def by blast
    with r(1,7) show ?thesis by (auto simp: row_of_def)
  qed
  show ?thesis unfolding facts_ok_def
  proof (intro conjI allI ballI)
    show "distinct (map l_event (ledger d'))" using ok r(1,2) by (auto simp: facts_ok_def)
    show "sorted_wrt (<) (map l_seq (ledger d'))" using ok r(2) by (auto simp: facts_ok_def sorted_wrt_append)
    show "l_seq l < next_seq d'" if "l \<in> set (ledger d')" for l using that ok r(2,5) by (auto simp: facts_ok_def)
    show "distinct (map (\<lambda>r. col r ''event_id'') (tables d' t))" for t
      using ok fresh by (auto simp: r(3) facts_ok_def)
    show "table_check t q" if "q \<in> set (tables d' t)" for t q
      using that ok r(6) by (auto simp: r(3) facts_ok_def split: if_splits)
    show "\<exists>l \<in> set (ledger d'). row_of l t q" if "q \<in> set (tables d' t)" for t q
    proof (cases "q \<in> set (tables d t)")
      case True
      with ok r(2) show ?thesis unfolding facts_ok_def by auto
    next
      case False
      with that r(7) show ?thesis by (auto simp: r(2,3) split: if_splits)
    qed
    show "explained_by_a_prune l d' \<or> (\<exists>q \<in> set (tables d' (table_of (l_family l))). row_of l (table_of (l_family l)) q)"
      if "l \<in> set (ledger d')" for l
    proof (cases "l = ?l")
      case True
      with r(7) show ?thesis by (auto simp: r(3))
    next
      case False
      with that ok show ?thesis unfolding x r(2) facts_ok_def by (auto simp: r(3))
    qed
  qed
qed

lemma lands_ok: "lands now eis rs d d' \<Longrightarrow> facts_ok d \<Longrightarrow> facts_ok d'"
  by (induction rule: lands.induct) (auto intro: adds_nothing_ok adds_row_ok)

lemma family_of_lane:
  "table_of f = ''metric_samples'' \<Longrightarrow> f = ''metric_sample''"
  "table_of f = ''events'' \<Longrightarrow> kind_of f = ''system'' \<Longrightarrow> f = ''system''"
  by (auto simp: table_of_def CONSTRUCT_TABLE_def kind_of_def WIRE_TO_KIND_def split: if_splits option.splits)

lemma pruned_ok:
  assumes p: "pruned d d'" and ok: "facts_ok d"
  shows "facts_ok d'"
proof -
  from p have e: "ledger d' = ledger d" "next_seq d' = next_seq d" "watermark_le d d'"
    and t: "\<And>t. \<exists>P. tables d' t = filter P (tables d t)"
    and own: "\<And>t r. r \<in> set (tables d t) \<Longrightarrow> r \<notin> set (tables d' t) \<Longrightarrow> prune_owns d' t r"
    unfolding pruned_def by blast+
  have sub: "set (tables d' u) \<subseteq> set (tables d u)" for u using t [of u] by auto
  have dist: "distinct (map (\<lambda>r. col r ''event_id'') (tables d' u))" for u
  proof -
    obtain P where P: "tables d' u = filter P (tables d u)" using t by blast
    have "distinct (map (\<lambda>r. col r ''event_id'') (tables d u))" using ok unfolding facts_ok_def by blast
    then show ?thesis unfolding P by (rule distinct_map_filter)
  qed
  have acc: "explained_by_a_prune l d' \<or> (\<exists>r \<in> set (tables d' (table_of (l_family l))). row_of l (table_of (l_family l)) r)"
    if l: "l \<in> set (ledger d)" for l
  proof (cases "explained_by_a_prune l d")
    case True
    with explained_mono [OF e(3)] show ?thesis by simp
  next
    case False
    with ok l obtain r where r: "r \<in> set (tables d (table_of (l_family l)))" "row_of l (table_of (l_family l)) r"
      unfolding facts_ok_def by blast
    show ?thesis
    proof (cases "r \<in> set (tables d' (table_of (l_family l)))")
      case True
      with r(2) show ?thesis by blast
    next
      case False
      from own [OF r(1) this] obtain f b where f: "map_of (watermarks d') f = Some b" "landed_before b r"
        and fam: "table_of (l_family l) = ''metric_samples'' \<and> f = ''metric_sample''
          \<or> table_of (l_family l) = ''events'' \<and> f = ''system'' \<and> col r ''kind'' = JStr ''system''"
        unfolding prune_owns_def by blast
      have "f = l_family l" using fam
      proof (elim disjE conjE)
        assume "table_of (l_family l) = ''events''" "f = ''system''" "col r ''kind'' = JStr ''system''"
        with r(2) family_of_lane(2) [of "l_family l"] show ?thesis by (simp add: row_of_def)
      qed (use family_of_lane(1) in simp)
      moreover from f(2) r(2) have "l_at l < b" by (simp add: landed_before_def row_of_def)
      ultimately show ?thesis using f(1) by (auto simp: explained_by_a_prune_def)
    qed
  qed
  show ?thesis using ok sub dist acc unfolding facts_ok_def e by blast
qed

lemma metric_rows_pruned:
  "prune_rows ''metric_samples'' ''metric_sample'' c (landed_before c) s = (Inr n, s') \<Longrightarrow> pruned (db s) (db s')"
  by (erule prune_rows_pruned) auto

lemma system_rows_pruned:
  "prune_rows ''events'' ''system'' c (prunable_event allow c) s = (Inr n, s') \<Longrightarrow> pruned (db s) (db s')"
  by (erule prune_rows_pruned) (auto simp: prunable_event_def)

lemma prune_metric_pruned: "prune_metric_samples f days dry s = (Inr x, s') \<Longrightarrow> pruned (db s) (db s')"
  by (auto simp: prune_metric_samples_def Let_def andthen_Inr split: if_splits dest!: query_Inr metric_rows_pruned)

lemma prune_system_pruned: "prune_system_events f days es s = (Inr x, s') \<Longrightarrow> pruned (db s) (db s')"
  by (auto simp: prune_system_events_def Let_def split: if_splits dest: system_rows_pruned)

lemma keeps_tx_stmt: "keeps same_tx (andthen stmt (\<lambda>_ s. (g s, s\<lparr>db := f s\<rparr>)))"
  by (rule keeps_andthen_pure; (rule keeps_stmt frame_preorders)?; auto simp: same_db_def same_tx_def no_new_faults_def)

lemma prune_rows_tx: "keeps same_tx (prune_rows t f c P)"
  unfolding prune_rows_def delete_rows_def modify_def
  by (intro keeps_andthen frame_preorders keeps_tx_stmt keeps_if keeps_now)

definition lanes :: "(nat \<Rightarrow> int \<Rightarrow> string) \<Rightarrow> int \<Rightarrow> bool \<Rightarrow> (retention_result \<times> nat option) act" where
  "lanes f days system_on =
     andthen (prune_metric_samples (f 0) days False) (\<lambda>res.
     andthen (if system_on then andthen (prune_system_events (f 1) days None) (\<lambda>n. ret (Some n)) else ret None) (\<lambda>n. ret (res, n)))"

lemma prune_lanes_lanes: "prune_lanes f days on = andthen (lanes f days on) (\<lambda>x. andthen commit (\<lambda>_. ret x))"
  by (rule ext) (simp add: prune_lanes_def lanes_def andthen_def split: prod.splits sum.splits)

lemmas read_tx = keeps_mono [OF keeps_query(1) same_facts_tx [OF same_db_facts]]

lemma lanes_tx: "keeps same_tx (lanes f days on)"
  unfolding lanes_def prune_metric_samples_def prune_system_events_def Let_def
  by (intro keeps_andthen frame_preorders keeps_if keeps_now prune_rows_tx read_tx)

lemma lanes_pruned: "lanes f days on s = (Inr x, s') \<Longrightarrow> pruned (db s) (db s')"
  by (auto simp: lanes_def andthen_Inr split: if_splits dest!: prune_metric_pruned prune_system_pruned intro: pruned_trans)

lemma dry_lanes_same: "keeps same_db (dry_lanes f days on)"
proof -
  have "keeps same_db (prune_metric_samples f days True)"
    unfolding prune_metric_samples_def Let_def by (simp only: simp_thms if_True) (intro read_rules)
  then show ?thesis unfolding dry_lanes_def by (intro read_rules)
qed

lemma prune_outcome:
  assumes r: "prune_under_scope f days on dry s = (r, s')" and idle: "saved s = None"
  shows "saved s' = None \<and> pruned (db s) (db s')"
proof (cases dry)
  case True
  with r keepsD [OF dry_lanes_same, of "f 0" days on s r s'] idle show ?thesis
    by (simp add: prune_under_scope_def same_db_def)
next
  case False
  obtain q1 s1 where b: "begin_immediate s = (q1, s1)" by (cases "begin_immediate s")
  note b' = begin_cases [OF b idle]
  show ?thesis
  proof (cases q1)
    case (Inl e)
    with r False b b' show ?thesis by (auto simp: prune_under_scope_def andthen_def)
  next
    case (Inr u)
    with b' have s1: "db s1 = db s" "saved s1 = Some (db s)" by auto
    obtain q2 s2 where l: "lanes f days on s1 = (q2, s2)" by (cases "lanes f days on s1")
    from keepsD [OF lanes_tx l] s1 have s2: "saved s2 = Some (db s)" by (simp add: same_tx_def)
    show ?thesis
    proof (cases q2)
      case (Inl e)
      with r False b \<open>q1 = Inr u\<close> l rollback_simps(2) [OF s2] show ?thesis
        by (auto simp: prune_under_scope_def prune_lanes_lanes andthen_def)
    next
      case (Inr x)
      obtain q3 s3 where c: "commit s2 = (q3, s3)" by (cases "commit s2")
      have p: "pruned (db s) (db s2)" using lanes_pruned l Inr s1(1) by metis
      from r False b \<open>q1 = Inr u\<close> l Inr c have s': "s' = (case q3 of Inl _ \<Rightarrow> rollback_if_open s3 | Inr _ \<Rightarrow> s3)"
        by (auto simp: prune_under_scope_def prune_lanes_lanes andthen_def split: sum.splits)
      from commit_cases [OF c s2] show ?thesis
      proof (elim disjE conjE exE)
        fix fs assume "s3 = s2\<lparr>saved := None, faults := fs\<rparr>" "q3 = Inr ()"
        with p s' show ?thesis by simp
      next
        fix fs assume "s3 = s2\<lparr>saved := None, faults := fs\<rparr>" "in_doubt s2" "q3 \<noteq> Inr ()"
        with p s' show ?thesis by (cases q3) (auto simp: rollback_if_open_def)
      next
        fix fs assume "q3 \<noteq> Inr ()" "s3 = s2\<lparr>faults := fs\<rparr>"
        with s' s2 show ?thesis by (cases q3) (auto simp: rollback_if_open_def)
      qed
    qed
  qed
qed

end
