(* ===== verification/Plane_History.thy ===== *)
theory Plane_History
  imports Ingest_Safety
begin

text \<open>
  The plane over its life: batches that are ingested and prunes, in any order, whatever fails.
  The database stays consistent, implements an append-only log of events, and answers every
  batch that landed as a duplicate from then on.
\<close>

section \<open>Steps\<close>

inductive plane_step :: "plane_db \<Rightarrow> plane_db \<Rightarrow> bool" where
  ingests: "saved s = None \<Longrightarrow> list_all classed items \<Longrightarrow> ingest_many w h pre items s = (r, s') \<Longrightarrow> plane_step (db s) (db s')"
| prunes: "saved s = None \<Longrightarrow> prune_under_scope f days on dry s = (r', s') \<Longrightarrow> plane_step (db s) (db s')"

abbreviation later :: "plane_db \<Rightarrow> plane_db \<Rightarrow> bool" where
  "later \<equiv> plane_step\<^sup>*\<^sup>*"

lemma outcome_db:
  "batch_outcome now prepared r s s' \<Longrightarrow> db s' = db s \<or> (\<exists>rs. stored now prepared rs (db s) (db s'))"
  by (auto simp: batch_outcome_def unchanged_or_doubt_def split: sum.splits)

lemma lands_grows: "lands now eis rs d d' \<Longrightarrow> \<exists>more. ledger d' = ledger d @ more"
  by (induction rule: lands.induct) (auto simp: adds_nothing_def adds_row_def)

lemma stored_ok: "stored now eis rs d d' \<Longrightarrow> plane_ok d \<Longrightarrow> plane_ok d' \<and> binds d d' \<and> (\<exists>more. ledger d' = ledger d @ more)"
  by (auto simp: stored_def plane_ok_def keeps_ids_def intro: lands_ok lands_grows)

lemma pruned_all_ok: "pruned d d' \<Longrightarrow> plane_ok d \<Longrightarrow> plane_ok d' \<and> binds d d' \<and> (\<exists>more. ledger d' = ledger d @ more)"
  using pruned_ok by (auto simp: plane_ok_def ids_ok_def pruned_def binds_def intro: binding_kept_refl)

lemma step_ok: "plane_step d d' \<Longrightarrow> plane_ok d \<Longrightarrow> plane_ok d' \<and> binds d d' \<and> (\<exists>more. ledger d' = ledger d @ more)"
proof (induction rule: plane_step.induct)
  case (ingests s items w h pre r s')
  from ingest_outcome [OF ingests(3,1,2)] show ?case using outcome_db stored_ok ingests(4) by fastforce
next
  case (prunes s f days on dry r' s')
  from prune_outcome [OF prunes(2,1)] prunes(3) show ?case using pruned_all_ok by blast
qed

lemma later_ok: "later d d' \<Longrightarrow> plane_ok d \<Longrightarrow> plane_ok d' \<and> binds d d' \<and> (\<exists>more. ledger d' = ledger d @ more)"
proof (induction rule: rtranclp_induct)
  case base
  then show ?case by simp
next
  case (step e f)
  then show ?case using step_ok [OF step(2)] binds_trans by fastforce
qed

lemma recorded_later: "later d d' \<Longrightarrow> plane_ok d \<Longrightarrow> recorded d e c \<Longrightarrow> recorded d' e c"
  using later_ok by (fastforce simp: recorded_def)

section \<open>A replay\<close>

lemma stmt_no_faults: "faults s = [] \<Longrightarrow> stmt s = (Inr (), s)"
  by (simp add: stmt_def)

lemma query_no_faults: "faults s = [] \<Longrightarrow> query f s = (Inr (f (db s)), s)"
  by (simp add: query_def andthen_def stmt_no_faults)

lemma recorded_find:
  assumes "plane_ok d" "recorded d e c"
  obtains l where "find (\<lambda>l. l_event l = e) (ledger d) = Some l" "l \<in> set (ledger d)" "l_event l = e" "l_family l = c"
proof -
  from assms(2) obtain l where l: "l \<in> set (ledger d)" "l_event l = e" "l_family l = c" by (auto simp: recorded_def)
  then obtain l' where l': "find (\<lambda>l. l_event l = e) (ledger d) = Some l'"
    by (cases "find (\<lambda>l. l_event l = e) (ledger d)") (auto simp: find_None_iff)
  from find_ledger [OF l'] have "l' \<in> set (ledger d)" "l_event l' = e" by auto
  moreover from assms(1) have "distinct (map l_event (ledger d))" by (simp add: plane_ok_def facts_ok_def)
  ultimately have "l' = l" using l by (metis distinct_map inj_onD)
  with l l' that show thesis by blast
qed

lemma family_row_found:
  assumes "plane_ok d" "l \<in> set (ledger d)"
  shows "case family_row l d of None \<Rightarrow> explained_by_a_prune l d | Some r \<Rightarrow> seq_of r = l_seq l"
proof (cases "family_row l d")
  case None
  have "\<not> row_of l (table_of (l_family l)) r" if "r \<in> set (tables d (table_of (l_family l)))" for r
    using None that by (auto simp: family_row_def find_None_iff row_of_def)
  moreover have "explained_by_a_prune l d \<or> (\<exists>r \<in> set (tables d (table_of (l_family l))). row_of l (table_of (l_family l)) r)"
    using assms unfolding plane_ok_def facts_ok_def by blast
  ultimately show ?thesis using None by auto
next
  case (Some r)
  then have r: "r \<in> set (tables d (table_of (l_family l)))" "col r ''event_id'' = JStr (l_event l)"
    by (auto simp: family_row_def find_Some_iff)
  from assms(1) r(1) obtain m where m: "m \<in> set (ledger d)" "row_of m (table_of (l_family l)) r"
    unfolding plane_ok_def facts_ok_def by blast
  from assms(1) have "distinct (map l_event (ledger d))" by (simp add: plane_ok_def facts_ok_def)
  moreover have "l_event m = l_event l" using m(2) r(2) by (simp add: row_of_def)
  ultimately have "m = l" using m(1) assms(2) by (metis distinct_map inj_onD)
  with m(2) Some show ?thesis by (simp add: row_of_def seq_of_def)
qed

lemma prune_explains_no_faults: "faults s = [] \<Longrightarrow> prune_explains l s = (Inr (explained_by_a_prune l (db s)), s)"
  by (simp add: prune_explains_def query_no_faults)

lemma verify_recorded:
  assumes ok: "plane_ok (db s)" and nf: "faults s = []" and rec: "recorded (db s) e cls" and c: "fld env ''event_type'' = JStr cls"
  shows "verify_replay w h (e, (env, cls, p)) s = (Inr (duplicate_of e), s)"
proof -
  obtain l where l: "find (\<lambda>l. l_event l = e) (ledger (db s)) = Some l" "l \<in> set (ledger (db s))" "l_family l = cls"
    using recorded_find [OF ok rec] by blast
  show ?thesis using family_row_found [OF ok l(2)]
    by (cases "family_row l (db s)")
      (simp_all add: verify_replay_def andthen_def query_no_faults [OF nf] prune_explains_no_faults [OF nf] l c)
qed

lemma verify_all_recorded:
  "plane_ok (db s) \<Longrightarrow> faults s = [] \<Longrightarrow> list_all (\<lambda>(e, it). classed it \<and> recorded (db s) e (fst (snd it))) prepared
    \<Longrightarrow> verify_duplicates w h prepared s = (Inr (map (\<lambda>ei. duplicate_of (fst ei)) prepared), s)"
proof (induction prepared)
  case (Cons ei eis)
  obtain e env cls p where ei: "ei = (e, (env, cls, p))" by (cases ei) auto
  from Cons.prems(3) have c: "fld env ''event_type'' = JStr cls" and rec: "recorded (db s) e cls" by (simp_all add: ei classed_def)
  have v: "verify_replay w h ei s = (Inr (duplicate_of e), s)" unfolding ei by (rule verify_recorded [OF Cons.prems(1,2) rec c])
  have "verify_duplicates w h eis s = (Inr (map (\<lambda>ei. duplicate_of (fst ei)) eis), s)"
    using Cons.IH Cons.prems by simp
  with v show ?case by (simp add: verify_duplicates_def andthen_def ei)
qed (simp add: verify_duplicates_def)

text \<open>A class whose row comes from its payload alone.\<close>

definition plain_class :: "string \<Rightarrow> bool" where
  "plain_class cls \<longleftrightarrow> cls \<notin> {''registry_snapshot'', ''metric_sample'', ''declaration''}"

lemma first_collides:
  assumes "plain_class cls" "fld env ''event_type'' = JStr cls" "recorded (db s) e cls" "faults s = []"
  shows "ingest_item w now h (e, (env, cls, p)) s = (Inl (Integrity_Error ''UNIQUE constraint failed: ingest_ledger.event_id''), s)"
proof -
  have "override_of w now h cls p s = (Inr From_Payload, s)" using assms(1) by (simp add: override_of_def plain_class_def)
  moreover have "e \<in> l_event ` set (ledger (db s))" using assms(3) by (auto simp: recorded_def)
  ultimately show ?thesis
    by (simp add: ingest_item_def ingest_row_def andthen_def insert_ledger_def stmt_no_faults [OF assms(4)])
qed

lemma contains_ledger: "contains ''UNIQUE constraint failed: ingest_ledger.event_id'' ''ingest_ledger.event_id''"
  by (simp add: starts_with_def)

lemma replay_prepared:
  assumes ok: "plane_ok (db s)" and idle: "saved s = None" and nf: "faults s = []"
    and p: "prepared = (e, (env, cls, p)) # eis" and plain: "plain_class cls"
    and rec: "list_all (\<lambda>(e, it). classed it \<and> recorded (db s) e (fst (snd it))) prepared"
  shows "\<exists>s'. commit_or_verify w now h None prepared s = (Inr (map (\<lambda>ei. duplicate_of (fst ei)) prepared), s')
    \<and> db s' = db s \<and> saved s' = None"
proof -
  let ?b = "s\<lparr>memo := [], saved := Some (db s)\<rparr>"
  from rec have c: "fld env ''event_type'' = JStr cls" "recorded (db ?b) e cls" by (simp_all add: p classed_def)
  have "ingest_item w now h (e, (env, cls, p)) ?b = (Inl (Integrity_Error ''UNIQUE constraint failed: ingest_ledger.event_id''), ?b)"
    by (rule first_collides [OF plain c]) (simp add: nf)
  then have "transaction w now h None prepared (s\<lparr>memo := []\<rparr>)
      = (Inl (Integrity_Error ''UNIQUE constraint failed: ingest_ledger.event_id''), ?b)"
    by (simp add: transaction_def begin_immediate_def andthen_def stmt_no_faults nf idle check_precondition_def p)
  then have "commit_or_verify w now h None prepared s = verify_duplicates w h prepared (rollback_if_open ?b)"
    by (simp only: commit_or_verify_def prod.case sum.case plane_error.case contains_ledger if_True)
  moreover have "rollback_if_open ?b = s\<lparr>memo := []\<rparr>" using idle by (simp add: rollback_if_open_def)
  moreover have "verify_duplicates w h prepared (s\<lparr>memo := []\<rparr>) = (Inr (map (\<lambda>ei. duplicate_of (fst ei)) prepared), s\<lparr>memo := []\<rparr>)"
    by (rule verify_all_recorded) (use ok nf rec in simp_all)
  ultimately show ?thesis using idle by simp
qed

section \<open>The log\<close>

text \<open>
  What the plane is to its callers: a log of events with their classes, to which a call appends.
  The answer tells of each event whether it was a duplicate, or there is none.
\<close>

type_synonym event_log = "(string \<times> string) list"

definition log_of :: "plane_db \<Rightarrow> event_log" where
  "log_of d = map (\<lambda>l. (l_event l, l_family l)) (ledger d)"

definition not_dup :: "event_log \<Rightarrow> bool list \<Rightarrow> event_log" where
  "not_dup evs dups = map fst (filter (\<lambda>x. \<not> snd x) (zip evs dups))"

definition appends :: "event_log \<Rightarrow> event_log \<Rightarrow> bool" where
  "appends old new \<longleftrightarrow> distinct (map fst new) \<and> set (map fst new) \<inter> set (map fst old) = {}"

inductive log_call :: "bool \<Rightarrow> event_log \<Rightarrow> event_log \<Rightarrow> bool list option \<Rightarrow> event_log \<Rightarrow> bool" for doubt evs old where
  stored: "length dups = length evs \<Longrightarrow> appends old (not_dup evs dups)
    \<Longrightarrow> list_all2 (\<lambda>ev dup. dup \<longrightarrow> snd ev = ''registry_snapshot'') evs dups
    \<Longrightarrow> log_call doubt evs old (Some dups) (old @ not_dup evs dups)"
| again: "list_all (\<lambda>ev. ev \<in> set old \<or> snd ev = ''registry_snapshot'') evs
    \<Longrightarrow> log_call doubt evs old (Some (replicate (length evs) True)) old"
| refused: "log_call doubt evs old None old"
| doubtful: "doubt \<Longrightarrow> appends old (not_dup evs dups) \<Longrightarrow> length dups = length evs
    \<Longrightarrow> log_call doubt evs old answer (old @ not_dup evs dups)"

definition answer_of :: "plane_error + ingest_result list \<Rightarrow> bool list option" where
  "answer_of r = (case r of Inl e \<Rightarrow> None | Inr rs \<Rightarrow> Some (map r_duplicate rs))"

definition events_of :: "(string \<times> item) list \<Rightarrow> event_log" where
  "events_of prepared = map (\<lambda>(e, (env, cls, p)). (e, cls)) prepared"

lemma lands_log:
  "lands now prepared rs d d' \<Longrightarrow> length (map r_duplicate rs) = length (events_of prepared)
     \<and> log_of d' = log_of d @ not_dup (events_of prepared) (map r_duplicate rs)
     \<and> appends (log_of d) (not_dup (events_of prepared) (map r_duplicate rs))
     \<and> list_all2 (\<lambda>ev dup. dup \<longrightarrow> snd ev = ''registry_snapshot'') (events_of prepared) (map r_duplicate rs)"
proof (induction rule: lands.induct)
  case (none d d')
  then show ?case by (simp add: adds_nothing_def log_of_def events_of_def not_dup_def appends_def)
next
  case (row e cls d d1 eis rs d' env p)
  then show ?case by (auto simp: adds_row_def log_of_def events_of_def not_dup_def appends_def)
next
  case (same d d1 eis rs d' e env p)
  then show ?case by (simp add: adds_nothing_def log_of_def events_of_def not_dup_def duplicate_of_def)
qed

lemma again_log:
  assumes "again prepared rs d"
  shows "map r_duplicate rs = replicate (length (events_of prepared)) True
    \<and> list_all (\<lambda>ev. ev \<in> set (log_of d) \<or> snd ev = ''registry_snapshot'') (events_of prepared)"
proof -
  from assms have "map r_duplicate rs = replicate (length (events_of prepared)) True"
    by (simp add: again_def duplicate_of_def events_of_def map_replicate_const comp_def)
  moreover have "(e, c) \<in> set (log_of d)" if "recorded d e c" for e c
    using that by (force simp: recorded_def log_of_def)
  then have "list_all (\<lambda>ev. ev \<in> set (log_of d) \<or> snd ev = ''registry_snapshot'') (events_of prepared)"
    using assms by (fastforce simp: again_def events_of_def list_all_iff)
  ultimately show ?thesis ..
qed

lemma outcome_log:
  assumes "batch_outcome now prepared r s s'"
  shows "log_call (in_doubt s) (events_of prepared) (log_of (db s)) (answer_of r) (log_of (db s'))"
proof -
  have u: "log_call (in_doubt s) (events_of prepared) (log_of (db s)) a (log_of (db s'))"
    if "unchanged_or_doubt now prepared s s'" "db s' = db s \<Longrightarrow> log_call (in_doubt s) (events_of prepared) (log_of (db s)) a (log_of (db s))" for a
    using that lands_log [of now prepared _ "db s" "db s'"] log_call.doubtful
    unfolding unchanged_or_doubt_def stored_def by metis
  show ?thesis
  proof (cases r)
    case (Inl e)
    with assms u [of None] log_call.refused show ?thesis by (simp add: batch_outcome_def answer_of_def)
  next
    case (Inr rs)
    with assms consider "stored now prepared rs (db s) (db s')" | "again prepared rs (db s')" "unchanged_or_doubt now prepared s s'"
      by (auto simp: batch_outcome_def)
    then show ?thesis
    proof cases
      case 1
      with lands_log [of now prepared rs "db s" "db s'"] log_call.stored Inr show ?thesis
        by (simp add: stored_def answer_of_def)
    next
      case 2
      have "log_call (in_doubt s) (events_of prepared) (log_of (db s)) (Some (map r_duplicate rs)) (log_of (db s))"
        if "db s' = db s"
        using again_log [OF 2(1)] log_call.again [of "log_of (db s)" "events_of prepared" "in_doubt s"] that by simp
      with u [OF 2(2), of "Some (map r_duplicate rs)"] Inr show ?thesis by (simp add: answer_of_def)
    qed
  qed
qed

section \<open>A replay of the whole call\<close>

lemma lands_recorded:
  "lands now prepared rs d d' \<Longrightarrow> list_all (\<lambda>r. \<not> r_duplicate r) rs
    \<Longrightarrow> list_all (\<lambda>(e, it). recorded d' e (fst (snd it))) prepared"
proof (induction rule: lands.induct)
  case (row e cls d d1 eis rs d' env p)
  from row(1) have "recorded d1 e cls" by (auto simp: adds_row_def recorded_def)
  with lands_grows [OF row(2)] have "recorded d' e cls" by (auto simp: recorded_def)
  with row show ?case by simp
qed (simp_all add: duplicate_of_def)

lemma lands_distinct:
  "lands now prepared rs d d' \<Longrightarrow> list_all (\<lambda>r. \<not> r_duplicate r) rs \<Longrightarrow> distinct (map fst prepared)"
proof -
  assume l: "lands now prepared rs d d'" and n: "list_all (\<lambda>r. \<not> r_duplicate r) rs"
  from lands_log [OF l] have ap: "appends (log_of d) (not_dup (events_of prepared) (map r_duplicate rs))"
    and len: "length (map r_duplicate rs) = length (events_of prepared)" by simp_all
  from n have "map r_duplicate rs = replicate (length rs) False" by (induction rs) auto
  then have "not_dup (events_of prepared) (map r_duplicate rs) = events_of prepared"
    using len by (simp add: not_dup_def zip_replicate2 comp_def)
  with ap have "distinct (map fst (events_of prepared))" by (simp add: appends_def)
  moreover have "map fst (events_of prepared) = map fst prepared" by (auto simp: events_of_def)
  ultimately show ?thesis by simp
qed

lemma prepare_given: "truthy (fld (fst it) ''event_id'') \<Longrightarrow> prepare w it s = (Inr (text_of (fld (fst it) ''event_id''), it), s)"
  by (simp add: prepare_def)

lemma each_prepare_given:
  "list_all (\<lambda>it. truthy (fld (fst it) ''event_id'')) items
    \<Longrightarrow> each_act (prepare w) items s = (Inr (map (\<lambda>it. (text_of (fld (fst it) ''event_id''), it)) items), s)"
  by (induction items) (simp_all add: prepare_given andthen_def)

lemma prepared_given:
  "prepared_for items prepared \<Longrightarrow> list_all (\<lambda>it. truthy (fld (fst it) ''event_id'')) items
    \<Longrightarrow> prepared = map (\<lambda>it. (text_of (fld (fst it) ''event_id''), it)) items"
proof (induction items arbitrary: prepared)
  case (Cons it its)
  then obtain e eis where p: "prepared = (e, it) # eis" "map snd eis = its" by (auto simp: prepared_for_def)
  with Cons show ?case by (auto simp: prepared_for_def)
qed (simp add: prepared_for_def)

lemma replay_all:
  assumes ok: "plane_ok (db s)" and idle: "saved s = None" and nf: "faults s = []"
    and pf: "prepared_for items prepared" and ids: "list_all (\<lambda>it. truthy (fld (fst it) ''event_id'')) items"
    and plain: "items \<noteq> [] \<and> plain_class (fst (snd (hd items)))"
    and rec: "list_all (\<lambda>(e, it). classed it \<and> recorded (db s) e (fst (snd it))) prepared"
    and dist: "distinct (map fst prepared)"
  shows "\<exists>s'. ingest_many w h None items s = (Inr (map (\<lambda>it. duplicate_of (text_of (fld (fst it) ''event_id''))) items), s')
    \<and> db s' = db s \<and> saved s' = None"
proof -
  let ?s = "s\<lparr>ticks := Suc (ticks s)\<rparr>" and ?now = "w_now w (ticks s)"
  note p = prepared_given [OF pf ids]
  obtain env cls pl its where items: "items = (env, cls, pl) # its" using plain by (cases items) auto
  have pe: "each_act (prepare w) items ?s = (Inr prepared, ?s)" unfolding p by (rule each_prepare_given [OF ids])
  have hd: "prepared = (text_of (fld env ''event_id''), (env, cls, pl)) # tl prepared" by (simp add: p items)
  have "\<exists>s'. commit_or_verify w ?now h None prepared ?s = (Inr (map (\<lambda>ei. duplicate_of (fst ei)) prepared), s')
    \<and> db s' = db ?s \<and> saved s' = None"
    by (rule replay_prepared [OF _ _ _ hd]) (use ok idle nf plain rec items in simp_all)
  then show ?thesis using pe dist
    by (auto simp: ingest_many_def now_iso_def andthen_def p comp_def)
qed

section \<open>Properties\<close>

text \<open>A batch, and the session after it landed.\<close>

definition sample_event :: "nat \<Rightarrow> string \<Rightarrow> obj \<Rightarrow> item" where
  "sample_event n family payload =
     ([(''event_id'', JStr (''ev_'' @ replicate 31 CHR ''0'' @ [digit_char n])), (''event_type'', JStr family),
       (''emitter'', JStr ''dispatch''), (''fleet'', JStr ''studio''), (''origin'', JStr ''live'')], family, payload)"

definition sample_batch :: "item list" where
  "sample_batch = [sample_event 1 ''transmission'' sample_transmission]"

definition sample_landed :: session where
  "sample_landed = snd (ingest_many sample_world ''host'' None sample_batch fresh_session)"

lemma sample_classed: "list_all classed sample_batch"
  by code_simp

lemma sample_results:
  "fst (ingest_many sample_world ''host'' None sample_batch fresh_session) =
     Inr [\<lparr>r_event = ''ev_'' @ replicate 31 CHR ''0'' @ ''1'', r_seq = Some 1, r_duplicate = False\<rparr>]"
  by code_simp

lemma sample_ingested:
  "ingest_many sample_world ''host'' None sample_batch fresh_session =
     (Inr [\<lparr>r_event = ''ev_'' @ replicate 31 CHR ''0'' @ ''1'', r_seq = Some 1, r_duplicate = False\<rparr>], sample_landed)"
  unfolding sample_landed_def sample_results [symmetric] by simp

lemma fresh_simps: "saved fresh_session = None" "db fresh_session = empty_db" "faults fresh_session = []"
  by (simp_all add: fresh_session_def)

lemma sample_later: "later empty_db (db sample_landed)"
  using plane_step.ingests [OF fresh_simps(1) sample_classed sample_ingested] by (simp add: fresh_simps)

text \<open>
  C1. The write path implements an append-only log of events. Whatever statement fails, a call
  either appends every event of its batch under its class, in order, each new to the log and
  only snapshots that change nothing left out, and says so event by event; or it leaves the log
  alone and answers that all of it was there before, as each event is, or refuses. When COMMIT
  reported a failure and yet took effect, the batch is appended and the answer may miss it.
\<close>

theorem ingest_refines_log:
  assumes "ingest_many w h pre items s = (r, s')" "saved s = None" "list_all classed items"
  shows "saved s' = None \<and> (\<exists>prepared. prepared_for items prepared
    \<and> log_call (in_doubt s) (events_of prepared) (log_of (db s)) (answer_of r) (log_of (db s')))"
  using ingest_outcome [OF assms] outcome_log by (auto simp: batch_outcome_def)

lemma ingest_refines_log_witness:
  "saved sample_landed = None \<and> (\<exists>prepared. prepared_for sample_batch prepared
    \<and> log_call (in_doubt fresh_session) (events_of prepared) (log_of (db fresh_session))
        (answer_of (fst (ingest_many sample_world ''host'' None sample_batch fresh_session))) (log_of (db sample_landed)))"
  by (rule ingest_refines_log [OF _ fresh_simps(1) sample_classed]) (simp add: sample_landed_def)

text \<open>
  C5. The database stays consistent over its life: after any batches and prunes, whatever
  failed in them, event ids and sequence numbers of the ledger are unique and in order, each
  alias has one identity, every family row satisfies its table's CHECK and carries the id, the
  sequence number and the class of its ledger row, and every ledger row has its family row unless
  a prune's watermark accounts for it. Identities keep their bindings, and the ledger only grows.
\<close>

theorem plane_consistent:
  assumes "later empty_db d" "later d d'"
  shows "ids_ok d' \<and> facts_ok d' \<and> binds d d' \<and> (\<exists>more. ledger d' = ledger d @ more)"
  using later_ok [OF assms(1) empty_ok] later_ok [OF assms(2)] by (auto simp: plane_ok_def)

lemma plane_consistent_witness:
  "ids_ok (db sample_landed) \<and> facts_ok (db sample_landed) \<and> binds empty_db (db sample_landed)
    \<and> (\<exists>more. ledger (db sample_landed) = ledger empty_db @ more)"
  by (rule plane_consistent [OF rtranclp.rtrancl_refl sample_later])



text \<open>
  A replay does not recognise every snapshot that the gate suppressed. The host was seen
  once, then a scan died between its tombstone and its completion, so readers still see the host.
  A rescan that finds it unchanged writes nothing; but replaying that scan, on the very same
  database, is refused as a mixed state, because the replay looks at the newest row of the ledger
  where the gate asks the reader.
\<close>

definition host_snapshot :: obj where
  "host_snapshot = [(''entity_type'', JStr ''host''), (''entity_alias'', JStr ''pi''), (''tombstone'', JBool False),
      (''payload'', JObj [(''os'', JStr ''linux'')]), (''cause'', JStr ''generate''), (''scan_id'', JStr ''s3'')]"

definition host_row :: "int \<Rightarrow> string \<Rightarrow> json \<Rightarrow> json \<Rightarrow> row" where
  "host_row n day tomb hash = [(''ingest_seq'', JInt n), (''event_id'', JStr ''e''), (''occurred_at'', JStr day), (''host_uid'', JStr ''h''),
     (''entity_type'', JStr ''host''), (''entity_uid'', JStr ''host_1''), (''tombstone'', tomb), (''payload_hash'', hash), (''scan_id'', JStr ''s2'')]"

definition gone_db :: plane_db where
  "gone_db = empty_db\<lparr>identities := [\<lparr>i_uid = ''host_1'', i_kind = ''host'', i_alias = ''pi'', i_parent = None, i_provisional = False,
       i_first_seen = [], i_last_seen = []\<rparr>],
     tables := (\<lambda>t. if t = ''registry_snapshots'' then
       [host_row 1 ''1'' (JInt 0) (JStr ''sha256:00''), host_row 2 ''2'' (JInt 1) JNull] else [])\<rparr>"
theorem suppressed_snapshot_replay_refused:
  "fst (registry_row sample_world ''now'' ''h'' host_snapshot (fresh_session\<lparr>db := gone_db\<rparr>)) = Inr None
   \<and> fst (verify_replay sample_world ''h'' (''ev_x'', ([], ''registry_snapshot'', host_snapshot)) (fresh_session\<lparr>db := gone_db\<rparr>))
      = Inl (Runtime_Error ''missing from ledger: mixed state'')"
  by code_simp

end
