(* ===== verification/Queue_Names.thy ===== *)
theory Queue_Names
  imports Json Py_Text
begin

text \<open>
  What a queued batch's name says about the transmissions in it
  (\<open>claudlobby/plane/queue_names.py\<close>): the tag a writer puts in the name, and what a reader
  may conclude from it. The walk over nested values is bounded by Python's recursion limit,
  here the argument \<open>depth\<close>; reaching it is \<open>None\<close>.
\<close>

section \<open>Names\<close>

text \<open>\<open>_MESSAGE.fullmatch(message)\<close>: the hexadecimal part.\<close>

definition message_hex :: "string \<Rightarrow> string option" where
  "message_hex s = (if starts_with s ''msg_'' \<and> hex32 (drop 4 s) then Some (drop 4 s) else None)"

text \<open>The rest of \<open>s\<close> after a leading part.\<close>

definition after_text :: "string \<Rightarrow> string \<Rightarrow> string option" where
  "after_text p s = (if starts_with s p then Some (drop (length p) s) else None)"

definition after_lead :: "string \<Rightarrow> string option" where
  "after_lead s = (case after_text ''ev_'' s of None \<Rightarrow> None
     | Some r \<Rightarrow> if hex32 (take 32 r) then Some (drop 32 r) else None)"

definition after_digits :: "string \<Rightarrow> string option" where
  "after_digits s = (if takeWhile is_digit s = [] then None else Some (dropWhile is_digit s))"

text \<open>A tag without its dot, and the rest.\<close>

definition after_tag :: "string \<Rightarrow> (string \<times> string) option" where
  "after_tag s = (case after_text ''.np'' s of Some r \<Rightarrow> Some (''np'', r)
     | None \<Rightarrow> (case after_text ''.m'' s of None \<Rightarrow> None
        | Some r \<Rightarrow> if hex32 (take 32 r) then Some (''m'' @ take 32 r, drop 32 r) else None))"

definition after_lead_tag :: "string \<Rightarrow> (string \<times> string) option" where
  "after_lead_tag s = Option.bind (after_lead s) after_tag"

text \<open>\<open>\\d+-LEAD TAG\<close>.\<close>

definition after_staged :: "string \<Rightarrow> (string \<times> string) option" where
  "after_staged s = Option.bind (after_digits s) (\<lambda>r. Option.bind (after_text ''-'' r) after_lead_tag)"

definition staged_tag :: "string \<Rightarrow> string option" where
  "staged_tag s = (case after_staged s of Some (t, r) \<Rightarrow> if r = ''.batch'' then Some t else None | None \<Rightarrow> None)"

definition temp_tag :: "string \<Rightarrow> string option" where
  "temp_tag s =
     (case Option.bind (after_text ''.'' s) after_staged of None \<Rightarrow> None
      | Some (t, r) \<Rightarrow>
          (case Option.bind (after_text ''.batch.'' r) after_digits of None \<Rightarrow> None
           | Some r' \<Rightarrow> if r' = ''.tmp'' then Some t else None))"

definition spool_tag :: "string \<Rightarrow> string option" where
  "spool_tag s = (case after_lead_tag s of Some (t, r) \<Rightarrow> if r = ''.json'' then Some t else None | None \<Rightarrow> None)"

definition claimed_tag :: "string \<Rightarrow> string option" where
  "claimed_tag s =
     (case after_lead_tag s of None \<Rightarrow> None
      | Some (t, r) \<Rightarrow>
          (case Option.bind (Option.bind (after_text ''.json.inflight.'' r) after_digits) (after_text ''.'') of
             None \<Rightarrow> None
           | Some h \<Rightarrow> if h \<noteq> [] \<and> (\<forall>c \<in> set h. is_hex c) then Some t else None))"

definition tag :: "string \<Rightarrow> string option" where
  "tag nm =
     (case staged_tag nm of Some t \<Rightarrow> Some t
      | None \<Rightarrow> (case temp_tag nm of Some t \<Rightarrow> Some t
        | None \<Rightarrow> (case spool_tag nm of Some t \<Rightarrow> Some t | None \<Rightarrow> claimed_tag nm)))"

definition may_hold_transmission :: "string \<Rightarrow> string \<Rightarrow> bool" where
  "may_hold_transmission nm message_id =
     (case tag nm of None \<Rightarrow> True | Some t \<Rightarrow> t \<noteq> ''np'' \<and> ''msg_'' @ drop 1 t = message_id)"

definition may_hold_any_transmission :: "string \<Rightarrow> bool" where
  "may_hold_any_transmission nm \<longleftrightarrow> tag nm \<noteq> Some ''np''"

section \<open>The writer's tag\<close>

text \<open>\<open>all(...)\<close> of the walks of some values, which stops at the first that fails.\<close>

fun all_named :: "('a \<Rightarrow> (bool \<times> string list) option) \<Rightarrow> 'a list \<Rightarrow> (bool \<times> string list) option" where
  "all_named f [] = Some (True, [])"
| "all_named f (x # xs) =
     (case f x of None \<Rightarrow> None
      | Some (False, ms) \<Rightarrow> Some (False, ms)
      | Some (True, ms) \<Rightarrow>
          (case all_named f xs of None \<Rightarrow> None | Some (b, ms') \<Rightarrow> Some (b, ms @ ms')))"

text \<open>What an object itself adds: nothing, a message, or a transmission without one.\<close>

definition own_message :: "(string \<times> json) list \<Rightarrow> (bool \<times> string list)" where
  "own_message kvs =
     (if jget (JObj kvs) ''event_type'' = JStr ''transmission'' then
        (case jget (jget (JObj kvs) ''payload'') ''msg_id'' of
           JStr m \<Rightarrow> (case message_hex m of None \<Rightarrow> (False, []) | Some h \<Rightarrow> (True, [h]))
         | _ \<Rightarrow> (False, []))
      else (True, []))"

fun named :: "nat \<Rightarrow> json \<Rightarrow> (bool \<times> string list) option" where
  "named 0 v = None"
| "named (Suc depth) v =
     (case v of
        JArr xs \<Rightarrow> all_named (named depth) xs
      | JObj kvs \<Rightarrow>
          (case own_message kvs of (False, ms) \<Rightarrow> Some (False, ms)
           | (True, ms) \<Rightarrow>
               (case all_named (named depth) (map snd kvs) of None \<Rightarrow> None
                | Some (b, ms') \<Rightarrow> Some (b, ms @ ms')))
      | _ \<Rightarrow> Some (True, []))"

definition name_tag :: "nat \<Rightarrow> json list \<Rightarrow> string" where
  "name_tag depth events =
     (case named depth (JArr events) of None \<Rightarrow> []
      | Some (whole, ms) \<Rightarrow>
          if \<not> whole \<or> 1 < length (remdups ms) then []
          else (case ms of [] \<Rightarrow> ''.np'' | m # _ \<Rightarrow> ''.m'' @ m))"

text \<open>The receipt check's own match: a nested transmission of the message.\<close>

fun mentions :: "string \<Rightarrow> json \<Rightarrow> bool" where
  "mentions m (JArr xs) = (\<exists>x \<in> set xs. mentions m x)"
| "mentions m (JObj kvs) =
     (jget (JObj kvs) ''event_type'' = JStr ''transmission'' \<and> jget (jget (JObj kvs) ''payload'') ''msg_id'' = JStr m
      \<or> (\<exists>kv \<in> set kvs. mentions m (snd kv)))"
| "mentions m _ = False"

section \<open>Soundness\<close>

lemma message_hex_Some: "message_hex s = Some h \<Longrightarrow> s = ''msg_'' @ h \<and> hex32 h"
  by (auto simp: message_hex_def starts_with_iff split: if_splits)

lemma own_message_sound:
  "own_message kvs = (True, ms) \<Longrightarrow>
     jget (JObj kvs) ''event_type'' = JStr ''transmission'' \<and> jget (jget (JObj kvs) ''payload'') ''msg_id'' = JStr m
     \<Longrightarrow> m \<in> (@) ''msg_'' ` set ms"
  by (auto simp: own_message_def split: option.splits dest: message_hex_Some)

lemma own_message_hex: "own_message kvs = (b, ms) \<Longrightarrow> list_all hex32 ms"
  by (auto simp: own_message_def split: if_splits json.splits option.splits dest: message_hex_Some)

lemma all_named_sound:
  assumes "\<And>x ms. x \<in> set xs \<Longrightarrow> f x = Some (True, ms) \<Longrightarrow> P x \<Longrightarrow> m \<in> (@) ''msg_'' ` set ms"
    and "all_named f xs = Some (True, ms)" and "\<exists>x \<in> set xs. P x"
  shows "m \<in> (@) ''msg_'' ` set ms"
  using assms
proof (induction xs arbitrary: ms)
  case (Cons x xs)
  from Cons.prems(2) obtain a c where x: "f x = Some (True, a)" and c: "all_named f xs = Some (True, c)" and ms: "ms = a @ c"
    by (auto split: option.splits bool.splits)
  show ?case
  proof (cases "P x")
    case True
    from Cons.prems(1) [OF _ x True] show ?thesis by (auto simp: ms)
  next
    case False
    then have "\<exists>x \<in> set xs. P x" using Cons.prems(3) by auto
    from Cons.IH [OF _ c this] Cons.prems(1) show ?thesis by (auto simp: ms)
  qed
qed simp

lemma all_named_hex:
  "(\<And>x b ms. x \<in> set xs \<Longrightarrow> f x = Some (b, ms) \<Longrightarrow> list_all hex32 ms) \<Longrightarrow> all_named f xs = Some (b, ms) \<Longrightarrow> list_all hex32 ms"
proof (induction xs arbitrary: b ms)
  case (Cons x xs)
  have hx: "\<And>b' a. f x = Some (b', a) \<Longrightarrow> list_all hex32 a" using Cons.prems(1) by auto
  have hs: "\<And>b' a. all_named f xs = Some (b', a) \<Longrightarrow> list_all hex32 a"
    using Cons.IH Cons.prems(1) by (meson list.set_intros(2))
  obtain b1 a where x: "f x = Some (b1, a)" using Cons.prems(2) by (auto split: option.splits)
  show ?case
  proof (cases b1)
    case True
    with x Cons.prems(2) obtain b2 c where c: "all_named f xs = Some (b2, c)" and ms: "ms = a @ c"
      by (auto split: option.splits)
    from hx [OF x] hs [OF c] show ?thesis by (simp add: ms)
  next
    case False
    with x Cons.prems(2) have "ms = a" by simp
    with hx [OF x] show ?thesis by simp
  qed
qed simp

lemma named_sound: "named d v = Some (True, ms) \<Longrightarrow> mentions m v \<Longrightarrow> m \<in> (@) ''msg_'' ` set ms"
proof (induction d arbitrary: v ms)
  case (Suc d)
  show ?case
  proof (cases v)
    case (JArr xs)
    have "\<exists>x \<in> set xs. mentions m x" using Suc.prems(2) by (simp add: JArr)
    moreover have "all_named (named d) xs = Some (True, ms)" using Suc.prems(1) by (simp add: JArr)
    ultimately show ?thesis using all_named_sound [where P = "mentions m" and f = "named d" and xs = xs] Suc.IH by blast
  next
    case (JObj kvs)
    from Suc.prems(1) obtain a c where o: "own_message kvs = (True, a)"
      and c: "all_named (named d) (map snd kvs) = Some (True, c)" and ms: "ms = a @ c"
      by (auto simp: JObj split: prod.splits bool.splits option.splits)
    from Suc.prems(2) consider (own) "jget (JObj kvs) ''event_type'' = JStr ''transmission''
        \<and> jget (jget (JObj kvs) ''payload'') ''msg_id'' = JStr m" | (sub) "\<exists>x \<in> set (map snd kvs). mentions m x"
      by (auto simp: JObj)
    then show ?thesis
    proof cases
      case own
      from own_message_sound [OF o this] show ?thesis by (auto simp: ms)
    next
      case sub
      with c have "m \<in> (@) ''msg_'' ` set c"
        using all_named_sound [where P = "mentions m" and f = "named d" and xs = "map snd kvs"] Suc.IH by blast
      then show ?thesis by (auto simp: ms)
    qed
  qed (use Suc.prems in simp_all)
qed simp

lemma named_hex: "named d v = Some (b, ms) \<Longrightarrow> list_all hex32 ms"
proof (induction d arbitrary: v b ms)
  case (Suc d)
  have sub: "all_named (named d) xs = Some (b, ms) \<Longrightarrow> list_all hex32 ms" for xs b ms
    using all_named_hex [where f = "named d"] Suc.IH by blast
  show ?case
    using Suc.prems
    by (auto split: json.splits prod.splits bool.splits option.splits dest: sub own_message_hex)
qed simp

lemma after_text_append [simp]: "after_text p (p @ s) = Some s"
  by (simp add: after_text_def)

lemma after_lead_append: "hex32 h \<Longrightarrow> after_lead (''ev_'' @ h @ s) = Some s"
  by (simp only: after_lead_def after_text_append option.case) (simp add: hex32_def)

lemma after_tag_np: "after_tag (''.np'' @ s) = Some (''np'', s)"
  by (simp only: after_tag_def after_text_append option.case)

lemma after_tag_m: "hex32 h \<Longrightarrow> after_tag (''.m'' @ h @ s) = Some (''m'' @ h, s)"
proof -
  assume h: "hex32 h"
  have "after_text ''.np'' (''.m'' @ h @ s) = None" by (simp add: after_text_def starts_with_def)
  with h show ?thesis by (simp only: after_tag_def after_text_append option.case) (simp add: hex32_def)
qed

text \<open>The name of a spool entry carries the tag it was written with.\<close>

lemma spool_name_tag:
  assumes "hex32 h" "after_tag (t @ ''.json'') = Some (t', ''.json'')"
  shows "tag (''ev_'' @ h @ t @ ''.json'') = Some t'"
proof -
  have "after_lead_tag (''ev_'' @ h @ t @ ''.json'') = Some (t', ''.json'')"
    using after_lead_append [OF assms(1), of "t @ ''.json''"] assms(2) by (simp add: after_lead_tag_def)
  then have "spool_tag (''ev_'' @ h @ t @ ''.json'') = Some t'" by (simp add: spool_tag_def)
  moreover have "staged_tag (''ev_'' @ h @ t @ ''.json'') = None" "temp_tag (''ev_'' @ h @ t @ ''.json'') = None"
    by (simp_all add: staged_tag_def temp_tag_def after_staged_def after_digits_def is_digit_def code_def after_text_def starts_with_def)
  ultimately show ?thesis by (simp add: tag_def)
qed

section \<open>Properties\<close>

text \<open>
  A receipt check passes over no entry that could answer it: where the name a writer gave a
  spool entry says it holds no transmission of a message, no object nested in the batch is one.
\<close>

theorem name_sets_aside_soundly:
  assumes "hex32 h" "\<not> may_hold_transmission (''ev_'' @ h @ name_tag depth events @ ''.json'') m"
  shows "\<not> mentions m (JArr events)"
proof
  assume men: "mentions m (JArr events)"
  show False
  proof (cases "named depth (JArr events)")
    case None
    then have "tag (''ev_'' @ h @ name_tag depth events @ ''.json'') = None"
      using assms(1)
      by (simp add: name_tag_def tag_def staged_tag_def temp_tag_def spool_tag_def claimed_tag_def after_staged_def
          after_digits_def is_digit_def code_def after_lead_tag_def after_lead_def after_tag_def after_text_def
          starts_with_def hex32_def)
    with assms(2) show False by (simp add: may_hold_transmission_def)
  next
    case (Some r)
    obtain whole ms where r: "named depth (JArr events) = Some (whole, ms)" using Some by (cases r) simp
    show False
    proof (cases "\<not> whole \<or> 1 < length (remdups ms)")
      case True
      then have "tag (''ev_'' @ h @ name_tag depth events @ ''.json'') = None"
        using assms(1)
        by (simp add: name_tag_def r tag_def staged_tag_def temp_tag_def spool_tag_def claimed_tag_def after_staged_def
            after_digits_def is_digit_def code_def after_lead_tag_def after_lead_def after_tag_def after_text_def
            starts_with_def hex32_def)
      with assms(2) show False by (simp add: may_hold_transmission_def)
    next
      case False
      then have w: "whole" and one: "length (remdups ms) \<le> 1" by auto
      from named_sound [OF r [unfolded w [THEN eqTrueI]] men] obtain x where x: "x \<in> set ms" "m = ''msg_'' @ x" by auto
      then obtain y ys where ms: "ms = y # ys" by (cases ms) auto
      have "card (set ms) \<le> 1" using one by (simp add: length_remdups_card_conv)
      then have "x = y" using x(1) ms by (metis card_le_Suc0_iff_eq One_nat_def List.finite_set list.set_intros(1))
      moreover have "hex32 y" using named_hex [OF r] ms by simp
      then have "tag (''ev_'' @ h @ name_tag depth events @ ''.json'') = Some (''m'' @ y)"
        using spool_name_tag [OF assms(1), of "''.m'' @ y"] after_tag_m [of y "''.json''"] False
        by (simp add: name_tag_def r ms)
      ultimately show False using assms(2) x(2) by (simp add: may_hold_transmission_def)
    qed
  qed
qed

definition sample_hex :: string where
  "sample_hex = ''0123456789abcdef0123456789abcdef''"

lemma name_sets_aside_soundly_witness:
  "\<not> mentions (''msg_'' @ replicate 32 CHR ''0'')
     (JArr [JObj [(''event_type'', JStr ''transmission''), (''payload'', JObj [(''msg_id'', JStr (''msg_'' @ sample_hex))])]])"
proof (rule name_sets_aside_soundly)
  show "hex32 sample_hex" by code_simp
  show "\<not> may_hold_transmission (''ev_'' @ sample_hex @ name_tag 9
      [JObj [(''event_type'', JStr ''transmission''), (''payload'', JObj [(''msg_id'', JStr (''msg_'' @ sample_hex))])]]
      @ ''.json'') (''msg_'' @ replicate 32 CHR ''0'')" by code_simp
qed

end
