(* ===== verification/Spool.thy ===== *)
theory Spool
  imports Plane_History Queue_Names
begin

text \<open>
  The spool (\<open>claudlobby/plane/spool.py\<close>): batches that the database could not take, as files
  that a drain claims by renaming, replays through the write path and removes, rewrites or
  quarantines. A file is its bytes with what \<open>json.loads\<close> makes of them. A
  claim is known by the name it was claimed under, the drainer's pid and its random digits.

  Every operation on the disk consults the oracle \<open>io\<close>: it runs, fails without effect, or takes
  effect and fails then (the fsync after a rename). A drain that is killed is a drain whose next
  operation fails with \<open>Killed\<close>, which nothing catches.
\<close>

section \<open>Which errors are retried\<close>

definition RETRYABLE_SQLITE_CODES :: "int list" where
  "RETRYABLE_SQLITE_CODES = [5, 6, 8, 10, 13, 14]"

definition RETRYABLE_MESSAGES :: "string list" where
  "RETRYABLE_MESSAGES =
     [''database is locked'', ''database table is locked'', ''database or disk is full'', ''disk i/o error'',
      ''unable to open database'', ''attempt to write a readonly database'']"

definition TRANSIENT_LOCK_CODES :: "int list" where
  "TRANSIENT_LOCK_CODES = [5, 6]"

definition TRANSIENT_LOCK_MESSAGES :: "string list" where
  "TRANSIENT_LOCK_MESSAGES = [''database is locked'', ''database table is locked'']"

text \<open>By the primary code (\<open>code & 0xFF\<close>), and by the message where there is no code.\<close>

definition matches_error :: "int list \<Rightarrow> string list \<Rightarrow> int option \<Rightarrow> string \<Rightarrow> bool" where
  "matches_error codes messages sqlite_errorcode msg =
     (case sqlite_errorcode of Some c \<Rightarrow> c mod 256 \<in> set codes
      | None \<Rightarrow> list_ex (contains (map ascii_lower msg)) messages)"

definition is_transient_lock :: "int option \<Rightarrow> string \<Rightarrow> bool" where
  "is_transient_lock = matches_error TRANSIENT_LOCK_CODES TRANSIENT_LOCK_MESSAGES"

definition is_retryable :: "int option \<Rightarrow> string \<Rightarrow> bool" where
  "is_retryable = matches_error RETRYABLE_SQLITE_CODES RETRYABLE_MESSAGES"

section \<open>The directory\<close>

text \<open>
  What \<open>json.loads\<close> makes of the bytes: a value, a \<open>JSONDecodeError\<close>, or, for bytes that are no
  text, a \<open>UnicodeDecodeError\<close>, which is another \<open>ValueError\<close>.
\<close>

datatype loaded = Loaded json | Not_Json | Not_Text

record spool_file =
  raw :: string
  parsed :: loaded

record claim_key =
  ck_name :: string
  ck_pid :: nat
  ck_hex :: string

record disk =
  pend :: "(string \<times> spool_file) list"
  claims :: "(claim_key \<times> spool_file) list"
  quar :: "(string \<times> spool_file) list"
  reasons :: "(string \<times> string) list"
  conn :: session
  io :: "fault list"
  looks :: nat
  drawn :: nat

text \<open>A file as \<open>_write_entry_file\<close> writes it.\<close>

definition file_of :: "world \<Rightarrow> json \<Rightarrow> spool_file" where
  "file_of w j = \<lparr>raw = json_dumps (w_float w) j @ [CHR 0x0A], parsed = Loaded j\<rparr>"

definition disk_op :: "(disk, 'a) st \<Rightarrow> (disk, 'a) st" where
  "disk_op f s =
     (case io s of [] \<Rightarrow> f s
      | Runs # fs \<Rightarrow> f (s\<lparr>io := fs\<rparr>)
      | Fails e # fs \<Rightarrow> (Inl e, s\<lparr>io := fs\<rparr>)
      | Runs_And_Fails e # fs \<Rightarrow> (Inl e, snd (f (s\<lparr>io := fs\<rparr>))))"

definition effect :: "(disk \<Rightarrow> disk) \<Rightarrow> (disk, unit) st" where
  "effect f = disk_op (\<lambda>s. (Inr (), f s))"

text \<open>A mkdir, chmod or fsync: nothing to see but that it may fail.\<close>

definition quiet_op :: "(disk, unit) st" where
  "quiet_op = effect (\<lambda>s. s)"

definition catching :: "(plane_error \<Rightarrow> bool) \<Rightarrow> ('s, 'a) st \<Rightarrow> (plane_error \<Rightarrow> ('s, 'a) st) \<Rightarrow> ('s, 'a) st" where
  "catching P m h s = (case m s of (Inl e, s') \<Rightarrow> if P e then h e s' else (Inl e, s') | (Inr x, s') \<Rightarrow> (Inr x, s'))"

definition on_db :: "'a act \<Rightarrow> (disk, 'a) st" where
  "on_db m s = (case m (conn s) of (r, c) \<Rightarrow> (r, s\<lparr>conn := c\<rparr>))"

definition drop_claim :: "claim_key \<Rightarrow> disk \<Rightarrow> disk" where
  "drop_claim key s = s\<lparr>claims := filter (\<lambda>kc. fst kc \<noteq> key) (claims s)\<rparr>"

definition put_claim :: "claim_key \<Rightarrow> spool_file \<Rightarrow> disk \<Rightarrow> disk" where
  "put_claim key c s = s\<lparr>claims := filter (\<lambda>kc. fst kc \<noteq> key) (claims s) @ [(key, c)]\<rparr>"

definition put_pend :: "string \<Rightarrow> spool_file \<Rightarrow> disk \<Rightarrow> disk" where
  "put_pend name c s = s\<lparr>pend := alist_set name c (pend s)\<rparr>"

section \<open>Writing and quarantining\<close>

definition spool_entry :: "string \<Rightarrow> json list \<Rightarrow> string \<Rightarrow> json" where
  "spool_entry spooled_at requests error =
     JObj [(''event_ids'', JArr (map (\<lambda>r. jget r ''event_id'') requests)), (''spooled_at'', JStr spooled_at), (''error'', JStr error),
       (''attempts'', JInt 0), (''history'', JArr []), (''requests'', JArr requests)]"

text \<open>The name's tag is computed to the walk's depth \<open>depth\<close>.\<close>

definition spool_name :: "nat \<Rightarrow> json list \<Rightarrow> string" where
  "spool_name depth requests =
     (case requests of [] \<Rightarrow> [] | r # _ \<Rightarrow> text_of (jget r ''event_id'') @ name_tag depth requests @ ''.json'')"

definition spool_write :: "world \<Rightarrow> nat \<Rightarrow> string \<Rightarrow> json list \<Rightarrow> string \<Rightarrow> (disk, string) st" where
  "spool_write w depth spooled_at requests error =
     (if requests = [] then raise (Index_Err ''list index out of range'') else
      catching is_os_error
       (andthen quiet_op (\<lambda>_.
        andthen (effect (put_pend (spool_name depth requests) (file_of w (spool_entry spooled_at requests error)))) (\<lambda>_.
          ret (spool_name depth requests))))
       (\<lambda>e. raise (Spool_Write_Err ''db failed AND spool failed'')))"

text \<open>\<open>quarantine_entry\<close> of a claimed file: the reason first, then the file.\<close>

definition move_to_quarantine :: "claim_key \<Rightarrow> string \<Rightarrow> disk \<Rightarrow> disk" where
  "move_to_quarantine key name s =
     (case map_of (claims s) key of None \<Rightarrow> s
      | Some c \<Rightarrow> drop_claim key (s\<lparr>quar := alist_set name c (quar s)\<rparr>))"

definition quarantine_entry :: "claim_key \<Rightarrow> string \<Rightarrow> string \<Rightarrow> (disk, unit) st" where
  "quarantine_entry key name reason =
     andthen quiet_op (\<lambda>_.
     andthen (effect (\<lambda>s. s\<lparr>reasons := alist_set name reason (reasons s)\<rparr>)) (\<lambda>_.
     andthen quiet_op (\<lambda>_.
     andthen (effect (move_to_quarantine key name)) (\<lambda>_.
     andthen quiet_op (\<lambda>_. quiet_op)))))"

definition envelope_problem :: "json \<Rightarrow> string option" where
  "envelope_problem data =
     (if \<not> is_obj data then Some ''top level must be an object''
      else case jget data ''requests'' of
          JArr reqs \<Rightarrow> if reqs = [] then Some ''requests is empty''
            else if \<exists>r \<in> set reqs. \<not> is_obj r then Some ''request members must be objects'' else None
        | _ \<Rightarrow> Some ''requests must be a list'')"

section \<open>Claims\<close>

record drain_config =
  dr_pid :: nat
  dr_alive :: "nat \<Rightarrow> bool"
  dr_late :: "nat \<Rightarrow> bool"
  dr_approved :: "(string \<times> string) list option"
  dr_max :: "nat option"
  dr_hex :: "nat \<Rightarrow> string"

definition late :: "drain_config \<Rightarrow> (disk, bool) st" where
  "late cfg s = (Inr (dr_late cfg (looks s)), s\<lparr>looks := Suc (looks s)\<rparr>)"

definition claim :: "drain_config \<Rightarrow> string \<Rightarrow> (disk, claim_key option) st" where
  "claim cfg name = disk_op (\<lambda>s.
     let key = \<lparr>ck_name = name, ck_pid = dr_pid cfg, ck_hex = dr_hex cfg (drawn s)\<rparr>; s' = s\<lparr>drawn := Suc (drawn s)\<rparr> in
     case map_of (pend s) name of None \<Rightarrow> (Inr None, s')
     | Some c \<Rightarrow> (Inr (Some key), put_claim key c (s'\<lparr>pend := alist_pop name (pend s)\<rparr>)))"

definition recover_one :: "claim_key \<Rightarrow> disk \<Rightarrow> disk" where
  "recover_one key s =
     (case map_of (claims s) key of None \<Rightarrow> s
      | Some c \<Rightarrow> if map_of (pend s) (ck_name key) \<noteq> None then drop_claim key s else drop_claim key (put_pend (ck_name key) c s))"

fun recover_each :: "drain_config \<Rightarrow> claim_key list \<Rightarrow> (disk, unit) st" where
  "recover_each cfg [] = ret ()"
| "recover_each cfg (key # keys) =
     andthen (if dr_alive cfg (ck_pid key) then ret ()
        else catching is_os_error (effect (recover_one key)) (\<lambda>e. ret ()))
      (\<lambda>_. recover_each cfg keys)"

definition recover_stale_inflight :: "drain_config \<Rightarrow> (disk, unit) st" where
  "recover_stale_inflight cfg s = andthen (recover_each cfg (map fst (claims s))) (\<lambda>_. quiet_op) s"

definition unclaim :: "claim_key \<Rightarrow> (disk, unit) st" where
  "unclaim key =
     andthen (disk_op (\<lambda>s.
       case map_of (claims s) key of None \<Rightarrow> (Inl (Os_Error ''no such file''), s)
       | Some c \<Rightarrow> if map_of (pend s) (ck_name key) \<noteq> None then (Inr False, s) else (Inr True, put_pend (ck_name key) c s))) (\<lambda>linked.
     if linked then andthen (effect (drop_claim key)) (\<lambda>_. quiet_op) else ret ())"

section \<open>A drain\<close>

definition MAX_ATTEMPTS :: int where
  "MAX_ATTEMPTS = 5"

definition HISTORY_LIMIT :: nat where
  "HISTORY_LIMIT = 5"

record tally =
  t_ingested :: nat
  t_duplicates :: nat
  t_quarantined :: nat
  t_attempted :: nat
  t_refused :: "string list"
  t_limited :: bool

fun collect :: "drain_config \<Rightarrow> nat \<Rightarrow> string list \<Rightarrow> (disk, claim_key list \<times> bool) st" where
  "collect cfg n [] = ret ([], False)"
| "collect cfg n (name # names) =
     (if (case dr_approved cfg of None \<Rightarrow> False | Some a \<Rightarrow> map_of a name = None) then collect cfg n names
      else andthen (if (case dr_max cfg of None \<Rightarrow> False | Some m \<Rightarrow> m \<le> n) then ret True else late cfg) (\<lambda>stop.
        if stop then ret ([], True)
        else andthen (claim cfg name) (\<lambda>c.
          case c of None \<Rightarrow> collect cfg n names
          | Some key \<Rightarrow> andthen (collect cfg (Suc n) names) (\<lambda>(keys, limited). ret (key # keys, limited)))))"

definition read_claim :: "claim_key \<Rightarrow> (disk, spool_file) st" where
  "read_claim key = disk_op (\<lambda>s. case map_of (claims s) key of None \<Rightarrow> (Inl (Os_Error ''no such file''), s) | Some c \<Rightarrow> (Inr c, s))"

datatype reading = Late | Unapproved | Malformed string | Entry json

text \<open>What the first loop makes of a claim.\<close>

definition read_one :: "world \<Rightarrow> drain_config \<Rightarrow> claim_key \<Rightarrow> (disk, reading) st" where
  "read_one w cfg key =
     catching is_os_error
       (andthen (read_claim key) (\<lambda>c.
          if (case dr_approved cfg of None \<Rightarrow> False | Some a \<Rightarrow> map_of a (ck_name key) \<noteq> Some (w_sha w (raw c)))
          then ret Unapproved
          else case parsed c of
              Not_Text \<Rightarrow> raise (Value_Err ''invalid start byte'')
            | Not_Json \<Rightarrow> ret (Malformed ''malformed spool file'')
            | Loaded data \<Rightarrow> ret (case envelope_problem data of Some p \<Rightarrow> Malformed (''malformed spool entry: '' @ p) | None \<Rightarrow> Entry data)))
       (\<lambda>e. ret (Malformed ''malformed spool file''))"

definition quarantined :: "claim_key \<Rightarrow> string \<Rightarrow> tally \<Rightarrow> (disk, tally) st" where
  "quarantined key reason t =
     andthen (quarantine_entry key (ck_name key) reason) (\<lambda>_. ret (t\<lparr>t_quarantined := Suc (t_quarantined t)\<rparr>))"

definition settle_reading :: "claim_key \<Rightarrow> reading \<Rightarrow> tally \<Rightarrow> (disk, tally) st" where
  "settle_reading key r t =
     (case r of
        Late \<Rightarrow> andthen (unclaim key) (\<lambda>_. ret (t\<lparr>t_limited := True\<rparr>))
      | Unapproved \<Rightarrow> catching is_os_error
          (andthen (unclaim key) (\<lambda>_. ret (t\<lparr>t_attempted := Suc (t_attempted t), t_refused := t_refused t @ [ck_name key]\<rparr>)))
          (\<lambda>e. quarantined key ''malformed spool file'' (t\<lparr>t_attempted := Suc (t_attempted t)\<rparr>))
      | Malformed reason \<Rightarrow> quarantined key reason (t\<lparr>t_attempted := Suc (t_attempted t)\<rparr>)
      | Entry data \<Rightarrow> ret (t\<lparr>t_attempted := Suc (t_attempted t)\<rparr>))"

fun read_each :: "world \<Rightarrow> drain_config \<Rightarrow> claim_key list \<Rightarrow> tally \<Rightarrow> (disk, tally \<times> (claim_key \<times> json) list) st" where
  "read_each w cfg [] t = ret (t, [])"
| "read_each w cfg (key # keys) t =
     andthen (late cfg) (\<lambda>b.
     andthen (if b then ret Late else read_one w cfg key) (\<lambda>r.
     andthen (settle_reading key r t) (\<lambda>t'.
     andthen (read_each w cfg keys t') (\<lambda>(t'', entries).
       ret (t'', (case r of Entry data \<Rightarrow> [(key, data)] | _ \<Rightarrow> []) @ entries)))))"

text \<open>
  \<open>sorted(entries, key=lambda e: (e[0], e[1]))\<close> by \<open>spooled_at\<close> and name: texts sort among
  themselves, numbers among themselves, and comparing one of each raises. Two arrays or two
  objects are taken not to compare.
\<close>

definition sort_value :: "json \<Rightarrow> json" where
  "sort_value data = (let v = jget data ''spooled_at'' in if truthy v then v else JStr [])"

definition sort_entries :: "(claim_key \<times> json) list \<Rightarrow> plane_error + (claim_key \<times> json) list" where
  "sort_entries es =
     (if length es \<le> 1 then Inr es
      else if list_all (\<lambda>e. is_str (sort_value (snd e))) es
        then Inr (sort_key (\<lambda>e. (text_of (sort_value (snd e)), ck_name (fst e))) es)
      else if list_all (\<lambda>e. as_num (sort_value (snd e)) \<noteq> None) es
        then Inr (sort_key (\<lambda>e. (the (as_num (sort_value (snd e))), ck_name (fst e))) es)
      else Inl (Type_Err ''not supported between instances''))"

fun validate_all :: "(json \<Rightarrow> contract_violation + item) \<Rightarrow> json list \<Rightarrow> item list option" where
  "validate_all f [] = Some []"
| "validate_all f (r # rs) = (case f r of Inl e \<Rightarrow> None | Inr it \<Rightarrow> map_option ((#) it) (validate_all f rs))"

definition requests_of :: "json \<Rightarrow> json list" where
  "requests_of data = (case jget data ''requests'' of JArr rs \<Rightarrow> rs | _ \<Rightarrow> [])"

text \<open>\<open>int(entry.get("attempts", 0))\<close>, which raises for what is no number.\<close>

definition attempts_of :: "json \<Rightarrow> plane_error + int" where
  "attempts_of data =
     (if \<not> jhas data ''attempts'' then Inr 0
      else case jget data ''attempts'' of
          JInt i \<Rightarrow> Inr i
        | JBool b \<Rightarrow> Inr (if b then 1 else 0)
        | JFloat x \<Rightarrow> Inr (py_int x)
        | JStr s \<Rightarrow> (case py_parse_int s of Some i \<Rightarrow> Inr i | None \<Rightarrow> Inl (Value_Err ''invalid literal for int()''))
        | _ \<Rightarrow> Inl (Type_Err ''int() argument must be a string or a number''))"

definition history_of :: "json \<Rightarrow> json list" where
  "history_of data = (case jget data ''history'' of JArr hs \<Rightarrow> hs | _ \<Rightarrow> [])"

definition obj_of :: "json \<Rightarrow> obj" where
  "obj_of data = (case data of JObj kvs \<Rightarrow> kvs | _ \<Rightarrow> [])"

text \<open>The entry after a failed attempt.\<close>

definition failed_entry :: "string \<Rightarrow> string \<Rightarrow> int \<Rightarrow> json \<Rightarrow> json" where
  "failed_entry now msg attempts data =
     (let history = history_of data @ [JObj [(''at'', JStr now), (''error'', JStr msg)]] in
      JObj (alist_set ''history'' (JArr (drop (length history - HISTORY_LIMIT) history))
        (alist_set ''error'' (JStr msg) (alist_set ''attempts'' (JInt attempts) (obj_of data)))))"

definition retry_later :: "world \<Rightarrow> claim_key \<Rightarrow> json \<Rightarrow> string \<Rightarrow> tally \<Rightarrow> (disk, tally) st" where
  "retry_later w key data msg t =
     andthen (lift (attempts_of data)) (\<lambda>n.
     andthen (on_db (now_iso w)) (\<lambda>now.
       let entry = failed_entry now msg (n + 1) data in
       if MAX_ATTEMPTS \<le> n + 1 then
         andthen (effect (put_claim key (file_of w entry))) (\<lambda>_.
         andthen (quarantine_entry key (ck_name key) (''retries exhausted: '' @ msg)) (\<lambda>_.
           ret (t\<lparr>t_quarantined := Suc (t_quarantined t)\<rparr>)))
       else
         andthen (effect (put_pend (ck_name key) (file_of w entry))) (\<lambda>_.
         andthen (effect (drop_claim key)) (\<lambda>_. ret t))))"

text \<open>\<open>Killed\<close> is no \<open>Exception\<close>.\<close>

definition settle_replay :: "world \<Rightarrow> claim_key \<Rightarrow> json \<Rightarrow> tally \<Rightarrow> plane_error + ingest_result list \<Rightarrow> (disk, tally) st" where
  "settle_replay w key data t r =
     (case r of
        Inr results \<Rightarrow> andthen (effect (drop_claim key)) (\<lambda>_.
          ret (if list_all r_duplicate results then t\<lparr>t_duplicates := Suc (t_duplicates t)\<rparr> else t\<lparr>t_ingested := Suc (t_ingested t)\<rparr>))
      | Inl (Operational_Error c msg) \<Rightarrow>
          if \<not> is_retryable c msg then quarantined key (''non-retryable operational: '' @ msg) t else retry_later w key data msg t
      | Inl Killed \<Rightarrow> raise Killed
      | Inl _ \<Rightarrow> quarantined key ''non-retryable on drain'' t)"

definition replay_one :: "world \<Rightarrow> string \<Rightarrow> drain_config \<Rightarrow> claim_key \<times> json \<Rightarrow> tally \<Rightarrow> (disk, tally) st" where
  "replay_one w host_uid cfg e t =
     (case e of (key, data) \<Rightarrow>
        andthen (late cfg) (\<lambda>b.
          if b then andthen (unclaim key) (\<lambda>_. ret (t\<lparr>t_limited := True\<rparr>))
          else case validate_all (validate_request (w_sha w) (w_lax w)) (requests_of data) of
              None \<Rightarrow> quarantined key ''contract violation on drain'' t
            | Some items \<Rightarrow>
                andthen (\<lambda>s. case on_db (ingest_many w host_uid None items) s of (r, s') \<Rightarrow> (Inr r, s')) (settle_replay w key data t)))"

fun replay_each :: "world \<Rightarrow> string \<Rightarrow> drain_config \<Rightarrow> (claim_key \<times> json) list \<Rightarrow> tally \<Rightarrow> (disk, tally) st" where
  "replay_each w host_uid cfg [] t = ret t"
| "replay_each w host_uid cfg (e # es) t = andthen (replay_one w host_uid cfg e t) (replay_each w host_uid cfg es)"

definition candidates :: "disk \<Rightarrow> string list" where
  "candidates s = sort (remdups (map fst (pend s)))"

definition not_there :: "drain_config \<Rightarrow> string list \<Rightarrow> string list" where
  "not_there cfg names = (case dr_approved cfg of None \<Rightarrow> [] | Some a \<Rightarrow> sort (filter (\<lambda>n. n \<notin> set names) (remdups (map fst a))))"

text \<open>From the entries read to the report.\<close>

definition replay_read :: "world \<Rightarrow> string \<Rightarrow> drain_config \<Rightarrow> tally \<times> (claim_key \<times> json) list \<Rightarrow> (disk, tally \<times> nat) st" where
  "replay_read w h cfg te =
     (case te of (t, entries) \<Rightarrow>
       andthen (lift (sort_entries entries)) (\<lambda>es.
       andthen (replay_each w h cfg es t) (\<lambda>t'.
       andthen (disk_op (\<lambda>s. (Inr (length (pend s)), s))) (\<lambda>remaining. ret (t', remaining)))))"

definition drain :: "world \<Rightarrow> string \<Rightarrow> drain_config \<Rightarrow> (disk, tally \<times> nat) st" where
  "drain w host_uid cfg =
     andthen quiet_op (\<lambda>_.
     andthen (recover_stale_inflight cfg) (\<lambda>_.
     andthen (disk_op (\<lambda>s. (Inr (candidates s), s))) (\<lambda>names.
     andthen (collect cfg 0 names) (\<lambda>(keys, limited).
     andthen (read_each w cfg keys \<lparr>t_ingested = 0, t_duplicates = 0, t_quarantined = 0, t_attempted = 0,
         t_refused = not_there cfg names, t_limited = limited\<rparr>) (replay_read w host_uid cfg)))))"

section \<open>Facts\<close>

lemma alist_set_new: "(k, v) \<in> set (alist_set k v xs)"
  by (induction k v xs rule: alist_set.induct) auto

lemma alist_set_sub: "(m, x) \<in> set (alist_set k v xs) \<Longrightarrow> m = k \<and> x = v \<or> (m, x) \<in> set xs"
  by (induction k v xs rule: alist_set.induct) (auto split: if_splits)

lemma alist_set_other: "m \<noteq> k \<Longrightarrow> (m, x) \<in> set xs \<Longrightarrow> (m, x) \<in> set (alist_set k v xs)"
  by (induction k v xs rule: alist_set.induct) auto

lemma disk_op_cases:
  assumes "disk_op f s = (r, s')"
  obtains (failed) e fs where "r = Inl e" "s' = s\<lparr>io := fs\<rparr>"
    | (worked) fs where "s' = snd (f (s\<lparr>io := fs\<rparr>))" "r = fst (f (s\<lparr>io := fs\<rparr>)) \<or> (\<exists>e. r = Inl e)"
proof (cases "io s")
  case Nil
  then have "s = s\<lparr>io := []\<rparr>" by simp
  then have "f s = f (s\<lparr>io := []\<rparr>)" by simp
  with Nil assms show thesis using worked [of "[]"] by (auto simp: disk_op_def)
next
  case (Cons a fs)
  with assms show thesis using failed worked [of fs]
    by (cases a) (auto simp: disk_op_def split: prod.splits)
qed

lemma effect_Inr: "effect f s = (Inr u, s') \<Longrightarrow> \<exists>fs. s' = f (s\<lparr>io := fs\<rparr>)"
  unfolding effect_def by (elim disk_op_cases) auto

lemma quiet_Inr: "quiet_op s = (Inr u, s') \<Longrightarrow> \<exists>fs. s' = s\<lparr>io := fs\<rparr>"
  unfolding quiet_op_def using effect_Inr by fastforce

lemma claims_drop: "map_of (filter (\<lambda>kc. fst kc \<noteq> key) xs) k = (if k = key then None else map_of xs k)"
  by (induction xs) auto

lemma put_pend_has: "(n, c) \<in> set (pend (put_pend n c s))"
  by (simp add: put_pend_def alist_set_new)

lemma catching_keeps:
  assumes "transp R" "keeps R m" "\<And>e. keeps R (h e)"
  shows "keeps R (catching P m h)"
proof (rule keepsI)
  fix s r s' assume a: "catching P m h s = (r, s')"
  obtain q t where m: "m s = (q, t)" by (cases "m s")
  note t = keepsD [OF assms(2) m]
  show "R s s'"
  proof (cases "\<exists>e. q = Inl e \<and> P e")
    case True
    then obtain e where "q = Inl e" "P e" by blast
    with a m have "h e t = (r, s')" by (simp add: catching_def)
    from transpD [OF assms(1) t keepsD [OF assms(3) this]] show ?thesis .
  next
    case False
    with a m have "s' = t" by (auto simp: catching_def split: sum.splits if_splits)
    with t show ?thesis by simp
  qed
qed

lemma on_db_now: "on_db (now_iso w) s = (Inr (w_now w (ticks (conn s))), s\<lparr>conn := (conn s)\<lparr>ticks := Suc (ticks (conn s))\<rparr>\<rparr>)"
  by (simp add: on_db_def now_iso_def)

lemma claim_name: "claim cfg name s = (Inr (Some key), s') \<Longrightarrow> ck_name key = name"
  unfolding claim_def by (elim disk_op_cases) (auto simp: Let_def split: option.splits)

lemma collect_names:
  "collect cfg n names s = (Inr (keys, b), s') \<Longrightarrow> distinct names
    \<Longrightarrow> distinct (map ck_name keys) \<and> ck_name ` set keys \<subseteq> set names"
proof (induction names arbitrary: n s keys b)
  case Nil
  then show ?case by simp
next
  case (Cons name names)
  show ?case
  proof (cases "case dr_approved cfg of None \<Rightarrow> False | Some a \<Rightarrow> map_of a name = None")
    case True
    with Cons.prems(1) have "collect cfg n names s = (Inr (keys, b), s')" by simp
    from Cons.IH [OF this] Cons.prems(2) show ?thesis by auto
  next
    case False
    with Cons.prems(1) obtain stop u where k: "(if stop then ret ([], True)
        else andthen (claim cfg name) (\<lambda>c. case c of None \<Rightarrow> collect cfg n names
          | Some key \<Rightarrow> andthen (collect cfg (Suc n) names) (\<lambda>(keys, limited). ret (key # keys, limited)))) u = (Inr (keys, b), s')"
      unfolding collect.simps by (auto simp: andthen_Inr simp del: collect.simps)
    show ?thesis
    proof (cases stop)
      case True
      with k show ?thesis by simp
    next
      case False
      with k obtain c v where c: "claim cfg name u = (Inr c, v)"
        and r: "(case c of None \<Rightarrow> collect cfg n names
          | Some key \<Rightarrow> andthen (collect cfg (Suc n) names) (\<lambda>(keys, limited). ret (key # keys, limited))) v = (Inr (keys, b), s')"
        by (auto simp: andthen_Inr)
      show ?thesis
      proof (cases c)
        case None
        with r have "collect cfg n names v = (Inr (keys, b), s')" by simp
        from Cons.IH [OF this] Cons.prems(2) show ?thesis by auto
      next
        case (Some key)
        with r obtain keys' b' where rest: "collect cfg (Suc n) names v = (Inr (keys', b'), s')" "keys = key # keys'"
          by (auto simp: andthen_Inr)
        from claim_name [OF c [unfolded Some]] have "ck_name key = name" .
        with Cons.IH [OF rest(1)] Cons.prems(2) rest(2) show ?thesis by auto
      qed
    qed
  qed
qed

lemma sort_entries_perm: "sort_entries es = Inr es' \<Longrightarrow> mset es' = mset es"
  by (auto simp: sort_entries_def split: if_splits)

end
