(* ===== verification/Spool_Safety.thy ===== *)
theory Spool_Safety
  imports Spool
begin

text \<open>
  What a drain keeps. A file in the queue, claimed or in quarantine stands for a batch; which files
  stand for the same batch is a relation \<open>sim\<close>, and the locale \<open>batch_identity\<close> says what of it
  the drain relies on. It is interpreted twice: for files that agree in all but the bookkeeping of
  attempts, and for files that carry the same events.
\<close>

section \<open>Files, batches and the database\<close>

text \<open>A request is in the database when its event is recorded under its class; a snapshot may have changed nothing.\<close>

definition request_in :: "plane_db \<Rightarrow> json \<Rightarrow> bool" where
  "request_in d r \<longleftrightarrow> (\<exists>cls. jget r ''event_type'' = JStr cls \<and> (cls = ''registry_snapshot''
     \<or> (\<exists>e. recorded d e cls \<and> (truthy (jget r ''event_id'') \<longrightarrow> e = text_of (jget r ''event_id'')))))"

definition in_db :: "plane_db \<Rightarrow> spool_file \<Rightarrow> bool" where
  "in_db d c \<longleftrightarrow> (\<exists>j. parsed c = Loaded j \<and> requests_of j \<noteq> [] \<and> list_all (request_in d) (requests_of j))"

definition event_in :: "plane_db \<Rightarrow> item \<Rightarrow> bool" where
  "event_in d it \<longleftrightarrow> fst (snd it) = ''registry_snapshot'' \<or> (\<exists>e. recorded d e (fst (snd it))
     \<and> (truthy (fld (fst it) ''event_id'') \<longrightarrow> e = text_of (fld (fst it) ''event_id'')))"

definition held :: "string \<Rightarrow> disk \<Rightarrow> spool_file set" where
  "held n s = {c. (n, c) \<in> set (pend s) \<or> (\<exists>k. ck_name k = n \<and> (k, c) \<in> set (claims s)) \<or> (n, c) \<in> set (quar s)}"

text \<open>A name stands for one batch, wherever its files are.\<close>

definition spool_ok :: "(spool_file \<Rightarrow> spool_file \<Rightarrow> bool) \<Rightarrow> disk \<Rightarrow> bool" where
  "spool_ok sim s \<longleftrightarrow> saved (conn s) = None \<and> (\<forall>n. \<forall>c \<in> held n s. \<forall>c' \<in> held n s. sim c c')"

definition safe :: "(spool_file \<Rightarrow> spool_file \<Rightarrow> bool) \<Rightarrow> string \<Rightarrow> spool_file \<Rightarrow> disk \<Rightarrow> bool" where
  "safe sim n c s \<longleftrightarrow> (\<exists>c' \<in> held n s. sim c c') \<or> in_db (db (conn s)) c"

text \<open>
  A step keeps batches when it keeps names unambiguous and every file of the queue safe, and files
  no batch under a name that did not have it.
\<close>

definition keeps_batches :: "(spool_file \<Rightarrow> spool_file \<Rightarrow> bool) \<Rightarrow> disk \<Rightarrow> disk \<Rightarrow> bool" where
  "keeps_batches sim s s' \<longleftrightarrow> (spool_ok sim s \<longrightarrow> spool_ok sim s' \<and> (\<forall>n c. safe sim n c s \<longrightarrow> safe sim n c s')
     \<and> (\<forall>n. \<forall>c' \<in> held n s'. \<exists>c \<in> held n s. sim c c'))"

text \<open>The frame of a step that may touch the claims \<open>K\<close> only.\<close>

definition works_on :: "(spool_file \<Rightarrow> spool_file \<Rightarrow> bool) \<Rightarrow> claim_key set \<Rightarrow> disk \<Rightarrow> disk \<Rightarrow> bool" where
  "works_on sim K s s' \<longleftrightarrow> keeps_batches sim s s' \<and> (\<forall>k. k \<notin> K \<longrightarrow> map_of (claims s') k = map_of (claims s) k)"

text \<open>The entries in hand: each is what its claim holds, an object with requests.\<close>

definition replayable :: "json \<Rightarrow> bool" where
  "replayable data \<longleftrightarrow> is_obj data \<and> requests_of data \<noteq> []"

definition in_hand :: "disk \<Rightarrow> (claim_key \<times> json) list \<Rightarrow> bool" where
  "in_hand s es \<longleftrightarrow> distinct (map fst es) \<and>
     (\<forall>(key, data) \<in> set es. replayable data \<and> (\<exists>c. map_of (claims s) key = Some c \<and> parsed c = Loaded data))"

section \<open>What the spool relies on\<close>

text \<open>
  The store a batch is replayed into, as the spool relies on it: an answer means that it holds
  every event of the batch, and what it holds it goes on holding, whatever later calls do.
\<close>

locale durable_store =
  fixes take_batch :: "item list \<Rightarrow> 's \<Rightarrow> (plane_error + ingest_result list) \<times> 's"
    and idle :: "'s \<Rightarrow> bool"
    and holds :: "'s \<Rightarrow> item \<Rightarrow> bool"
  assumes answered: "idle s \<Longrightarrow> list_all classed items \<Longrightarrow> take_batch items s = (Inr rs, s') \<Longrightarrow> list_all (holds s') items"
    and stays_idle: "idle s \<Longrightarrow> list_all classed items \<Longrightarrow> take_batch items s = (r, s') \<Longrightarrow> idle s'"
    and durable: "idle s \<Longrightarrow> list_all classed items \<Longrightarrow> take_batch items s = (r, s') \<Longrightarrow> holds s it \<Longrightarrow> holds s' it"
begin

lemma batch_durable:
  "idle s \<Longrightarrow> list_all classed items \<Longrightarrow> take_batch items s = (r, s') \<Longrightarrow> list_all (holds s) batch \<Longrightarrow> list_all (holds s') batch"
  by (induction batch) (auto intro: durable)

end

lemma event_in_grows: "ledger d' = ledger d @ new \<Longrightarrow> event_in d it \<Longrightarrow> event_in d' it"
  by (auto simp: event_in_def recorded_def)

lemma lands_events:
  "lands now prepared rs d d' \<Longrightarrow> list_all (\<lambda>(e, it). recorded d' e (fst (snd it)) \<or> fst (snd it) = ''registry_snapshot'') prepared"
proof (induction rule: lands.induct)
  case (row e cls d d1 eis rs d' env p)
  from row(1) have "recorded d1 e cls" by (auto simp: adds_row_def recorded_def)
  with lands_grows [OF row(2)] have "recorded d' e cls" by (auto simp: recorded_def)
  with row show ?case by simp
qed simp_all

lemma prepared_events:
  assumes "prepared_for items prepared" "list_all (\<lambda>(e, it). recorded d e (fst (snd it)) \<or> fst (snd it) = ''registry_snapshot'') prepared"
  shows "list_all (event_in d) items"
proof -
  have "list_all (\<lambda>ei. event_in d (snd ei)) prepared"
    using assms by (force simp: prepared_for_def list_all_iff event_in_def split: if_splits)
  moreover have "items = map snd prepared" using assms(1) by (simp add: prepared_for_def)
  ultimately show ?thesis by (simp add: list_all_iff)
qed

lemma again_events: "again prepared rs d \<Longrightarrow> list_all (\<lambda>(e, it). recorded d e (fst (snd it)) \<or> fst (snd it) = ''registry_snapshot'') prepared"
  unfolding again_def list_all_iff by fastforce

interpretation plane: durable_store "ingest_many w h pre" "\<lambda>s. saved s = None" "\<lambda>s. event_in (db s)"
proof
  fix s items rs s' assume a: "saved s = None" "list_all classed items" "ingest_many w h pre items s = (Inr rs, s')"
  from ingest_outcome [OF a(3,1,2)] obtain now prepared where p: "prepared_for items prepared"
    and o': "batch_outcome now prepared (Inr rs) s s'" by blast
  from o' have "list_all (\<lambda>(e, it). recorded (db s') e (fst (snd it)) \<or> fst (snd it) = ''registry_snapshot'') prepared"
    using lands_events [of now prepared rs "db s" "db s'"] again_events by (auto simp: batch_outcome_def stored_def)
  with p show "list_all (event_in (db s')) items" by (rule prepared_events)
next
  fix s items r s' assume a: "saved s = None" "list_all classed items" "ingest_many w h pre items s = (r, s')"
  note o' = ingest_outcome [OF a(3,1,2)]
  then show "saved s' = None" by (auto simp: batch_outcome_def)
  fix it assume "event_in (db s) it"
  moreover from o' have "db s' = db s \<or> (\<exists>new. ledger (db s') = ledger (db s) @ new)"
    using outcome_db lands_grows unfolding stored_def by blast
  ultimately show "event_in (db s') it" using event_in_grows by metis
qed

lemma validate_all_classed: "validate_all (validate_request sha x) rs = Some items \<Longrightarrow> list_all classed items"
proof (induction rs arbitrary: items)
  case (Cons r rs)
  then obtain it its where i: "validate_request sha x r = Inr it" "validate_all (validate_request sha x) rs = Some its" "items = it # its"
    by (auto split: sum.splits)
  obtain env fam p where "it = (env, fam, p)" by (cases it) auto
  with i(1) validate_request_class have "classed it" by (auto simp: classed_def)
  with Cons.IH [OF i(2)] i(3) show ?case by simp
qed simp

lemma request_in_event:
  "request_in d r \<longleftrightarrow> (\<exists>cls. jget r ''event_type'' = JStr cls \<and> event_in d ([(''event_id'', jget r ''event_id'')], cls, []))"
  by (simp add: request_in_def event_in_def)

text \<open>The id and the class of an item are those of its request.\<close>

lemma validate_request_ids:
  assumes "validate_request sha x r = Inr (env, cls, p)"
  shows "jget r ''event_type'' = JStr cls \<and> fld env ''event_id'' = jget r ''event_id''"
proof -
  from assms obtain kvs where r: "r = JObj kvs" and e: "read_fields x EmitRequest_fields kvs = Some env"
    by (rule validate_request_cases)
  have d: "distinct (field_names EmitRequest_fields)" using envelope_well_declared by (simp add: well_declared_def)
  have "field_value x FStr None kvs ''event_type'' = Some (fld env ''event_type'')"
    by (rule read_fields_value [OF e d]) (simp add: EmitRequest_fields_def)
  moreover have "field_value x (FOpt (FMatch (id_of ''event''))) (Some JNull) kvs ''event_id'' = Some (fld env ''event_id'')"
    by (rule read_fields_value [OF e d]) (simp add: EmitRequest_fields_def)
  moreover have "fld env ''event_type'' = JStr cls" using assms by (rule validate_request_class)
  ultimately show ?thesis unfolding r
    by (auto simp: field_value_def text_if_Some jget.simps split: option.splits if_splits)
qed

lemma validated_in:
  "validate_all (validate_request sha x) rs = Some items \<Longrightarrow> list_all (event_in d) items \<Longrightarrow> list_all (request_in d) rs"
proof (induction rs arbitrary: items)
  case (Cons r rs)
  then obtain env cls p its where it: "validate_request sha x r = Inr (env, cls, p)"
    and r: "validate_all (validate_request sha x) rs = Some its" "items = (env, cls, p) # its" by (auto split: sum.splits)
  from validate_request_ids [OF it] Cons.prems(2) have "request_in d r" by (auto simp: request_in_event event_in_def r(2))
  with Cons.IH [OF r(1)] Cons.prems(2) show ?case by (simp add: r(2))
qed simp

text \<open>What the drain relies on of the files that stand for the same batch.\<close>

locale batch_identity =
  fixes sim :: "spool_file \<Rightarrow> spool_file \<Rightarrow> bool"
  assumes sim_refl [simp]: "sim c c"
    and sim_sym: "sim c c' \<Longrightarrow> sim c' c"
    and sim_trans: "sim a b \<Longrightarrow> sim b c \<Longrightarrow> sim a c"
    and sim_in_db: "sim c c' \<Longrightarrow> in_db d c \<Longrightarrow> in_db d c'"
    and sim_rewrite: "parsed c = Loaded data \<Longrightarrow> is_obj data \<Longrightarrow> sim c (file_of w (failed_entry now msg n data))"
begin

lemma keeps_batches_preorder: "transp (keeps_batches sim)" "reflp (keeps_batches sim)"
proof -
  have "keeps_batches sim s u" if "keeps_batches sim s t" "keeps_batches sim t u" for s t u
    using that unfolding keeps_batches_def by (meson sim_trans)
  then show "transp (keeps_batches sim)" by (rule transpI)
  show "reflp (keeps_batches sim)" by (intro reflpI) (auto simp: keeps_batches_def intro: sim_refl)
qed

text \<open>A change of the files in which every file is of a batch its name had, and no name loses its last file.\<close>

lemma keeps_by_held:
  assumes "conn s' = conn s" "\<And>n c. c \<in> held n s' \<Longrightarrow> \<exists>c0 \<in> held n s. sim c0 c"
    "\<And>n. held n s \<noteq> {} \<Longrightarrow> held n s' \<noteq> {}"
  shows "keeps_batches sim s s'"
proof -
  have "safe sim n c s'" if ok: "spool_ok sim s" and sf: "safe sim n c s" for n c
  proof (cases "in_db (db (conn s)) c")
    case False
    with sf obtain c1 where c1: "c1 \<in> held n s" "sim c c1" by (auto simp: safe_def)
    with assms(3) obtain c2 where c2: "c2 \<in> held n s'" by blast
    with assms(2) obtain c0 where c0: "c0 \<in> held n s" "sim c0 c2" by blast
    with ok c1 have "sim c1 c0" by (auto simp: spool_ok_def)
    with c1 c0 c2 show ?thesis by (auto simp: safe_def intro: sim_trans)
  qed (simp add: safe_def assms(1))
  moreover have "spool_ok sim s'" if ok: "spool_ok sim s"
  proof -
    have "sim c c'" if c: "c \<in> held n s'" "c' \<in> held n s'" for n c c'
    proof -
      from assms(2) [OF c(1)] assms(2) [OF c(2)] obtain d d' where
        "d \<in> held n s" "sim d c" "d' \<in> held n s" "sim d' c'" by blast
      with ok show ?thesis unfolding spool_ok_def by (meson sim_sym sim_trans)
    qed
    with ok assms(1) show ?thesis by (auto simp: spool_ok_def)
  qed
  ultimately show ?thesis using assms(2) unfolding keeps_batches_def by blast
qed

lemma keeps_same:
  assumes "\<And>n. held n s' = held n s" "db (conn s') = db (conn s)" "saved (conn s') = saved (conn s)"
  shows "keeps_batches sim s s'"
  unfolding keeps_batches_def spool_ok_def safe_def assms using sim_refl by blast

lemma works_same:
  assumes "\<And>n. held n s' = held n s" "db (conn s') = db (conn s)" "saved (conn s') = saved (conn s)" "claims s' = claims s"
  shows "works_on sim K s s'"
  using keeps_same [OF assms(1-3)] assms(4) by (simp add: works_on_def)

lemma keeps_batches_io [simp]:
  "keeps_batches sim (s\<lparr>io := fs\<rparr>) s' = keeps_batches sim s s'" "keeps_batches sim s (s'\<lparr>io := fs\<rparr>) = keeps_batches sim s s'"
  by (simp_all add: keeps_batches_def spool_ok_def safe_def held_def)

lemma works_on_preorder: "transp (works_on sim K)" "reflp (works_on sim K)"
  using keeps_batches_preorder by (auto intro!: transpI reflpI simp: works_on_def dest: transpD reflpD)

lemmas works_on_trans = transpD [OF works_on_preorder(1)]

lemma works_on_refl [simp]: "works_on sim K s s"
  using works_on_preorder(2) by (rule reflpD)

lemma works_on_mono: "works_on sim K s s' \<Longrightarrow> K \<subseteq> L \<Longrightarrow> works_on sim L s s'"
  by (auto simp: works_on_def)

lemma works_on_io [simp]:
  "works_on sim K (s\<lparr>io := fs\<rparr>) s' = works_on sim K s s'" "works_on sim K s (s'\<lparr>io := fs\<rparr>) = works_on sim K s s'"
  by (simp_all add: works_on_def)

lemma andthen_on:
  assumes "andthen m f s = (r, s')" "\<And>q t. m s = (q, t) \<Longrightarrow> works_on sim K s t"
    "\<And>x t. m s = (Inr x, t) \<Longrightarrow> f x t = (r, s') \<Longrightarrow> works_on sim K t s'"
  shows "works_on sim K s s'"
  using assms(1)
proof (cases rule: andthen_cases)
  case (stopped e)
  then show ?thesis using assms(2) by blast
next
  case (went x t)
  with assms(2,3) show ?thesis using works_on_trans by blast
qed

lemma disk_op_on:
  assumes "disk_op f s = (r, s')" "\<And>fs. works_on sim K s (snd (f (s\<lparr>io := fs\<rparr>)))"
  shows "works_on sim K s s'"
  using assms(1) by (cases rule: disk_op_cases) (use assms(2) in auto)

lemma effect_on:
  assumes "effect f s = (r, s')" "\<And>fs. works_on sim K s (f (s\<lparr>io := fs\<rparr>))"
  shows "works_on sim K s s'"
  using assms(1) unfolding effect_def by (rule disk_op_on) (use assms(2) in simp)

lemma works_on_set_io: "works_on sim K s (s\<lparr>io := fs\<rparr>)"
  by simp

lemma quiet_on: "quiet_op s = (r, s') \<Longrightarrow> works_on sim K s s'"
  unfolding quiet_op_def by (erule effect_on) (rule works_on_set_io)

section \<open>Each operation keeps batches\<close>

lemma drop_claim_on:
  assumes "(\<exists>c. (ck_name key, c) \<in> set (pend s)) \<or> (\<exists>c. (ck_name key, c) \<in> set (quar s))"
  shows "works_on sim {key} s (drop_claim key s)"
proof -
  have "keeps_batches sim s (drop_claim key s)"
  proof (rule keeps_by_held)
    fix n assume "held n s \<noteq> {}"
    then obtain c where c: "c \<in> held n s" by blast
    show "held n (drop_claim key s) \<noteq> {}"
    proof (cases "n = ck_name key")
      case True
      with assms show ?thesis by (auto simp: held_def drop_claim_def)
    next
      case False
      with c have "c \<in> held n (drop_claim key s)" by (auto simp: held_def drop_claim_def)
      then show ?thesis by blast
    qed
  qed (auto simp: held_def drop_claim_def)
  then show ?thesis by (simp add: works_on_def drop_claim_def claims_drop)
qed

lemma put_pend_on:
  assumes "c0 \<in> held n s" "sim c0 c"
  shows "works_on sim K s (put_pend n c s)"
proof -
  have "keeps_batches sim s (put_pend n c s)"
  proof (rule keeps_by_held)
    fix m assume "held m s \<noteq> {}"
    then obtain x where x: "x \<in> held m s" by blast
    show "held m (put_pend n c s) \<noteq> {}"
    proof (cases "m = n")
      case True
      then have "c \<in> held m (put_pend n c s)" by (simp add: held_def put_pend_def alist_set_new)
      then show ?thesis by blast
    next
      case False
      with x have "x \<in> held m (put_pend n c s)" by (auto simp: held_def put_pend_def alist_set_other)
      then show ?thesis by blast
    qed
  next
    fix m x assume "x \<in> held m (put_pend n c s)"
    then have "x \<in> held m s \<or> m = n \<and> x = c" by (auto simp: held_def put_pend_def dest: alist_set_sub)
    with assms show "\<exists>c0 \<in> held m s. sim c0 x" using sim_refl by blast
  qed (simp add: put_pend_def)
  then show ?thesis by (simp add: works_on_def put_pend_def)
qed

lemma put_claim_on:
  assumes "c0 \<in> held (ck_name key) s" "sim c0 c"
  shows "works_on sim {key} s (put_claim key c s)"
proof -
  have "keeps_batches sim s (put_claim key c s)"
  proof (rule keeps_by_held)
    fix m assume "held m s \<noteq> {}"
    then obtain x where x: "x \<in> held m s" by blast
    show "held m (put_claim key c s) \<noteq> {}"
    proof (cases "m = ck_name key")
      case True
      then have "c \<in> held m (put_claim key c s)" by (auto simp: held_def put_claim_def)
      then show ?thesis by blast
    next
      case False
      with x have "x \<in> held m (put_claim key c s)" by (auto simp: held_def put_claim_def)
      then show ?thesis by blast
    qed
  next
    fix m x assume "x \<in> held m (put_claim key c s)"
    then have "x \<in> held m s \<or> m = ck_name key \<and> x = c" by (auto simp: held_def put_claim_def)
    with assms show "\<exists>c0 \<in> held m s. sim c0 x" using sim_refl by blast
  qed (simp add: put_claim_def)
  then show ?thesis by (auto simp: works_on_def put_claim_def claims_drop map_add_def split: option.splits)
qed

lemma move_to_quarantine_on: "works_on sim {key} s (move_to_quarantine key (ck_name key) s)"
proof (cases "map_of (claims s) key")
  case (Some c)
  let ?s = "s\<lparr>quar := alist_set (ck_name key) c (quar s)\<rparr>"
  from Some have c: "c \<in> held (ck_name key) s" by (auto simp: held_def dest!: map_of_SomeD)
  have "keeps_batches sim s ?s"
  proof (rule keeps_by_held)
    fix m assume "held m s \<noteq> {}"
    then obtain x where x: "x \<in> held m s" by blast
    have "if m = ck_name key then c \<in> held m ?s else x \<in> held m ?s"
      using x by (auto simp: held_def alist_set_new alist_set_other)
    then show "held m ?s \<noteq> {}" by (auto split: if_splits)
  next
    fix m x assume "x \<in> held m ?s"
    then have "x \<in> held m s \<or> m = ck_name key \<and> x = c" by (auto simp: held_def dest: alist_set_sub)
    with c show "\<exists>c0 \<in> held m s. sim c0 x" using sim_refl by blast
  qed simp
  then have "works_on sim {key} s ?s" by (simp add: works_on_def)
  moreover have "works_on sim {key} ?s (drop_claim key ?s)"
    by (rule drop_claim_on) (auto intro: alist_set_new)
  ultimately show ?thesis using works_on_trans by (simp add: move_to_quarantine_def Some)
qed (simp add: move_to_quarantine_def)

lemma reasons_on: "works_on sim K s (s\<lparr>io := fs, reasons := x\<rparr>)"
  by (intro works_same) (simp_all add: held_def)

lemma effect_keeps: "(\<And>s fs. works_on sim K s (f (s\<lparr>io := fs\<rparr>))) \<Longrightarrow> keeps (works_on sim K) (effect f)"
  by (rule keepsI) (rule effect_on)

lemma quiet_keeps: "keeps (works_on sim K) quiet_op"
  by (rule keepsI) (rule quiet_on)

lemmas works_rules = keeps_andthen works_on_preorder quiet_keeps keeps_now [OF works_on_preorder(2)] keeps_if

lemma quarantine_entry_keeps: "keeps (works_on sim {key}) (quarantine_entry key (ck_name key) reason)"
proof -
  have moved: "works_on sim {key} t (move_to_quarantine key (ck_name key) (t\<lparr>io := fs\<rparr>))" for t fs
    using move_to_quarantine_on [of key "t\<lparr>io := fs\<rparr>"] by simp
  have noted: "works_on sim {key} t ((t\<lparr>io := fs\<rparr>)\<lparr>reasons := alist_set (ck_name key) reason (reasons (t\<lparr>io := fs\<rparr>))\<rparr>)" for t fs
    by (rule reasons_on)
  show ?thesis unfolding quarantine_entry_def by (intro works_rules effect_keeps moved noted)
qed

lemma quarantined_keeps: "keeps (works_on sim {key}) (quarantined key reason t)"
  unfolding quarantined_def by (intro works_rules quarantine_entry_keeps)

lemma retry_pend_on:
  assumes "map_of (claims s) key = Some c" "sim c c'"
  shows "works_on sim {key} s (put_pend (ck_name key) c' (s\<lparr>io := fs\<rparr>))"
proof -
  have "c \<in> held (ck_name key) (s\<lparr>io := fs\<rparr>)" using assms(1) by (auto simp: held_def dest!: map_of_SomeD)
  from put_pend_on [OF this assms(2), of "{key}"] show ?thesis by simp
qed

lemma recover_one_on: "works_on sim {key} s (recover_one key (s\<lparr>io := fs\<rparr>))"
proof (cases "map_of (claims s) key")
  case None
  then show ?thesis by (simp add: recover_one_def)
next
  case (Some c)
  let ?s = "s\<lparr>io := fs\<rparr>"
  show ?thesis
  proof (cases "map_of (pend s) (ck_name key)")
    case None
    have "works_on sim {key} s (put_pend (ck_name key) c ?s)" by (rule retry_pend_on [OF Some]) simp
    moreover have "works_on sim {key} (put_pend (ck_name key) c ?s) (drop_claim key (put_pend (ck_name key) c ?s))"
      by (rule drop_claim_on) (use put_pend_has in blast)
    ultimately show ?thesis using works_on_trans by (simp add: recover_one_def Some None)
  next
    case (Some c')
    then have "works_on sim {key} ?s (drop_claim key ?s)" by (intro drop_claim_on) (auto dest: map_of_SomeD)
    then show ?thesis by (simp add: recover_one_def \<open>map_of (claims s) key = Some c\<close> Some)
  qed
qed

lemma works_on_same_files:
  "conn s' = conn s \<Longrightarrow> pend s' = pend s \<Longrightarrow> claims s' = claims s \<Longrightarrow> quar s' = quar s \<Longrightarrow> works_on sim K s s'"
  by (intro works_same) (simp_all add: held_def)

lemma late_keeps: "keeps (works_on sim K) (late cfg)"
  by (rule keepsI) (auto simp: late_def intro: works_on_same_files)

lemma keeps_works_mono: "keeps (works_on sim K) m \<Longrightarrow> K \<subseteq> L \<Longrightarrow> keeps (works_on sim L) m"
  by (erule keeps_mono) (rule works_on_mono)

lemma recover_each_keeps: "keeps (works_on sim (set keys)) (recover_each cfg keys)"
proof (induction keys)
  case (Cons key keys)
  have "keeps (works_on sim {key}) (effect (recover_one key))" by (intro effect_keeps recover_one_on)
  then have "keeps (works_on sim (set (key # keys))) (effect (recover_one key))" by (rule keeps_works_mono) simp
  moreover have "keeps (works_on sim (set (key # keys))) (recover_each cfg keys)" using Cons.IH by (rule keeps_works_mono) auto
  ultimately show ?case unfolding recover_each.simps by (intro works_rules catching_keeps)
next
  case Nil
  show ?case unfolding recover_each.simps by (intro works_rules)
qed

lemma unclaim_on: "unclaim key s = (r, s') \<Longrightarrow> works_on sim {key} s s'"
proof -
  let ?link = "\<lambda>s. case map_of (claims s) key of None \<Rightarrow> (Inl (Os_Error ''no such file''), s)
       | Some c \<Rightarrow> if map_of (pend s) (ck_name key) \<noteq> None then (Inr False, s) else (Inr True, put_pend (ck_name key) c s)"
  have link: "works_on sim {key} a (snd (?link (a\<lparr>io := fs\<rparr>)))" for a fs
    by (auto split: option.split intro: retry_pend_on)
  have linked: "\<exists>c. (ck_name key, c) \<in> set (pend b)" if "disk_op ?link a = (Inr True, b)" for a b
    using that
  proof (cases rule: disk_op_cases)
    case (worked fs)
    then show ?thesis by (auto simp: put_pend_has split: option.splits if_splits intro: exI [of _ "the (map_of (claims a) key)"])
  qed simp
  assume u: "unclaim key s = (r, s')"
  then show ?thesis unfolding unclaim_def
  proof (rule andthen_on)
    fix q t assume "disk_op ?link s = (q, t)"
    then show "works_on sim {key} s t" by (rule disk_op_on) (rule link)
  next
    fix x t assume d: "disk_op ?link s = (Inr x, t)"
      and k: "(if x then andthen (effect (drop_claim key)) (\<lambda>_. quiet_op) else ret ()) t = (r, s')"
    show "works_on sim {key} t s'"
    proof (cases x)
      case True
      with d have "disk_op ?link s = (Inr True, t)" by simp
      then have p: "\<exists>c. (ck_name key, c) \<in> set (pend t)" by (rule linked)
      from k True have "andthen (effect (drop_claim key)) (\<lambda>_. quiet_op) t = (r, s')" by simp
      then show ?thesis
      proof (rule andthen_on)
        fix q u assume "effect (drop_claim key) t = (q, u)"
        then show "works_on sim {key} t u"
        proof (rule effect_on)
          fix fs
          have "works_on sim {key} (t\<lparr>io := fs\<rparr>) (drop_claim key (t\<lparr>io := fs\<rparr>))" by (rule drop_claim_on) (use p in simp)
          then show "works_on sim {key} t (drop_claim key (t\<lparr>io := fs\<rparr>))" by simp
        qed
      qed (rule quiet_on)
    next
      case False
      with k show ?thesis by simp
    qed
  qed
qed

lemma claim_on:
  assumes "claim cfg name s = (r, s')"
  shows "(\<exists>K. works_on sim K s s' \<and> (\<forall>k \<in> K. ck_name k = name)) \<and> (\<forall>key. r = Inr (Some key) \<longrightarrow> ck_name key = name)"
proof -
  let ?key = "\<lparr>ck_name = name, ck_pid = dr_pid cfg, ck_hex = dr_hex cfg (drawn s)\<rparr>"
  let ?f = "\<lambda>s. let key = \<lparr>ck_name = name, ck_pid = dr_pid cfg, ck_hex = dr_hex cfg (drawn s)\<rparr>; s' = s\<lparr>drawn := Suc (drawn s)\<rparr> in
     case map_of (pend s) name of None \<Rightarrow> (Inr None, s')
     | Some c \<Rightarrow> (Inr (Some key), put_claim key c (s'\<lparr>pend := alist_pop name (pend s)\<rparr>))"
  have step: "works_on sim {?key} s (snd (?f (s\<lparr>io := fs\<rparr>)))" for fs
  proof (cases "map_of (pend s) name")
    case None
    then show ?thesis by (intro works_same) (simp_all add: held_def)
  next
    case (Some c)
    let ?t = "put_claim ?key c (s\<lparr>io := fs, drawn := Suc (drawn s), pend := alist_pop name (pend s)\<rparr>)"
    have "keeps_batches sim s ?t"
    proof (rule keeps_by_held)
      fix m assume "held m s \<noteq> {}"
      then obtain x where x: "x \<in> held m s" by blast
      show "held m ?t \<noteq> {}"
      proof (cases "m = name")
        case True
        have "(?key, c) \<in> set (claims ?t)" by (simp add: put_claim_def)
        with True have "c \<in> held m ?t" unfolding held_def by (auto intro!: exI [of _ ?key])
        then show ?thesis by blast
      next
        case False
        with x have "x \<in> held m ?t" by (auto simp: held_def put_claim_def alist_pop_def)
        then show ?thesis by blast
      qed
    next
      fix m x assume "x \<in> held m ?t"
      then have "x \<in> held m s \<or> m = name \<and> x = c" by (auto simp: held_def put_claim_def alist_pop_def)
      moreover have "c \<in> held name s" using Some by (auto simp: held_def dest: map_of_SomeD)
      ultimately show "\<exists>c0 \<in> held m s. sim c0 x" using sim_refl by blast
    qed (simp add: put_claim_def)
    then have "works_on sim {?key} s ?t"
      by (auto simp: works_on_def put_claim_def claims_drop map_add_def split: option.splits)
    then show ?thesis by (simp add: Some Let_def)
  qed
  from assms have "works_on sim {?key} s s'" unfolding claim_def by (rule disk_op_on) (rule step)
  moreover from assms have "\<forall>key. r = Inr (Some key) \<longrightarrow> ck_name key = name" unfolding claim_def
    by (cases rule: disk_op_cases) (auto simp: Let_def split: option.splits)
  ultimately show ?thesis by (intro conjI exI [of _ "{?key}"]) auto
qed

section \<open>A drain keeps batches\<close>

lemma in_db_later:
  assumes "\<And>batch. list_all (event_in d) batch \<Longrightarrow> list_all (event_in d') batch" "in_db d c"
  shows "in_db d' c"
proof -
  have "request_in d' r" if "request_in d r" for r
    using that assms(1) [of "[([(''event_id'', jget r ''event_id'')], cls, [])]" for cls] by (auto simp: request_in_event)
  with assms(2) show ?thesis unfolding in_db_def list_all_iff by blast
qed

lemma replay_on:
  assumes v: "validate_all (validate_request (w_sha w) (w_lax w)) reqs = Some items" and i: "on_db (ingest_many w h None items) s = (r, s')"
  shows "works_on sim {} s s'"
proof -
  from i obtain c where c: "ingest_many w h None items (conn s) = (r, c)" "s' = s\<lparr>conn := c\<rparr>"
    by (auto simp: on_db_def split: prod.splits)
  note cl = validate_all_classed [OF v]
  have "keeps_batches sim s s'"
  proof (unfold keeps_batches_def, intro impI conjI allI)
    assume ok: "spool_ok sim s"
    then have idle: "saved (conn s) = None" by (simp add: spool_ok_def)
    show "spool_ok sim s'" using ok plane.stays_idle [OF idle cl c(1)] by (simp add: spool_ok_def c(2) held_def)
    fix n f assume "safe sim n f s"
    then show "safe sim n f s'" using in_db_later [OF plane.batch_durable [OF idle cl c(1)]]
      by (auto simp: safe_def c(2) held_def)
  next
    fix n show "\<forall>c' \<in> held n s'. \<exists>c0 \<in> held n s. sim c0 c'" using sim_refl by (auto simp: c(2) held_def)
  qed
  then show ?thesis by (simp add: works_on_def c(2))
qed

lemma drop_stored_on:
  assumes c: "map_of (claims s) key = Some c" and st: "in_db (db (conn s)) c"
  shows "works_on sim {key} s (drop_claim key (s\<lparr>io := fs\<rparr>))"
proof -
  let ?s = "drop_claim key (s\<lparr>io := fs\<rparr>)"
  have sub: "held n ?s \<subseteq> held n s" for n by (auto simp: held_def drop_claim_def)
  have other: "held n ?s = held n s" if "n \<noteq> ck_name key" for n using that by (auto simp: held_def drop_claim_def)
  have cn: "conn ?s = conn s" by (simp add: drop_claim_def)
  have "keeps_batches sim s ?s"
  proof (unfold keeps_batches_def, intro impI conjI allI)
    assume ok: "spool_ok sim s"
    then show "spool_ok sim ?s" using sub unfolding spool_ok_def cn by blast
    fix n f assume f: "safe sim n f s"
    show "safe sim n f ?s"
    proof (cases "n = ck_name key")
      case True
      have "in_db (db (conn s)) f"
      proof (cases "in_db (db (conn s)) f")
        case False
        with f obtain c1 where c1: "c1 \<in> held n s" "sim f c1" by (auto simp: safe_def)
        have "c \<in> held n s" using c True by (auto simp: held_def dest!: map_of_SomeD)
        with ok c1 have "sim c1 c" by (auto simp: spool_ok_def)
        with c1 have "sim c f" by (meson sim_sym sim_trans)
        with st show ?thesis by (rule sim_in_db [rotated])
      qed simp
      then show ?thesis by (simp add: safe_def cn)
    qed (use f in \<open>simp add: safe_def cn other\<close>)
  next
    fix n show "\<forall>c' \<in> held n ?s. \<exists>c0 \<in> held n s. sim c0 c'" using sub sim_refl by blast
  qed
  then show ?thesis by (simp add: works_on_def drop_claim_def claims_drop)
qed

lemma clock_on: "works_on sim K s (s\<lparr>conn := (conn s)\<lparr>ticks := n\<rparr>\<rparr>)"
  by (intro works_same) (simp_all add: held_def)

lemma retry_later_on:
  assumes c: "map_of (claims s) key = Some c" "parsed c = Loaded data" "is_obj data"
    and r: "retry_later w key data msg t s = (r, s')"
  shows "works_on sim {key} s s'"
proof (cases "attempts_of data")
  case (Inl e)
  with r show ?thesis by (simp add: retry_later_def andthen_def)
next
  case (Inr n)
  let ?s = "s\<lparr>conn := (conn s)\<lparr>ticks := Suc (ticks (conn s))\<rparr>\<rparr>"
  define f where "f = file_of w (failed_entry (w_now w (ticks (conn s))) msg (n + 1) data)"
  have same: "sim c f" using sim_rewrite [OF c(2,3)] by (simp add: f_def)
  have cs: "map_of (claims ?s) key = Some c" using c(1) by simp
  have now: "works_on sim {key} s ?s" by (rule clock_on)
  show ?thesis
  proof (cases "MAX_ATTEMPTS \<le> n + 1")
    case True
    with r Inr have "andthen (effect (put_claim key f)) (\<lambda>_. andthen (quarantine_entry key (ck_name key) (''retries exhausted: '' @ msg))
        (\<lambda>_. ret (t\<lparr>t_quarantined := Suc (t_quarantined t)\<rparr>))) ?s = (r, s')"
      by (simp add: retry_later_def andthen_def [of "lift _"] andthen_def [of "on_db _"] on_db_now f_def Let_def)
    then have "works_on sim {key} ?s s'"
    proof (rule andthen_on)
      fix q u assume "effect (put_claim key f) ?s = (q, u)"
      then show "works_on sim {key} ?s u"
      proof (rule effect_on)
        fix fs
        have "c \<in> held (ck_name key) (?s\<lparr>io := fs\<rparr>)" using cs by (auto simp: held_def dest!: map_of_SomeD)
        from put_claim_on [OF this same] show "works_on sim {key} ?s (put_claim key f (?s\<lparr>io := fs\<rparr>))"
          by (simp only: works_on_io)
      qed
    next
      fix x u assume "andthen (quarantine_entry key (ck_name key) (''retries exhausted: '' @ msg))
          (\<lambda>_. ret (t\<lparr>t_quarantined := Suc (t_quarantined t)\<rparr>)) u = (r, s')"
      moreover have "keeps (works_on sim {key}) (andthen (quarantine_entry key (ck_name key) (''retries exhausted: '' @ msg))
          (\<lambda>_. ret (t\<lparr>t_quarantined := Suc (t_quarantined t)\<rparr>)))" by (intro works_rules quarantine_entry_keeps)
      ultimately show "works_on sim {key} u s'" using keepsD by metis
    qed
    with now show ?thesis by (rule works_on_trans)
  next
    case False
    with r Inr have "andthen (effect (put_pend (ck_name key) f)) (\<lambda>_. andthen (effect (drop_claim key)) (\<lambda>_. ret t)) ?s = (r, s')"
      by (simp add: retry_later_def andthen_def [of "lift _"] andthen_def [of "on_db _"] on_db_now f_def Let_def)
    then have "works_on sim {key} ?s s'"
    proof (rule andthen_on)
      fix q u assume "effect (put_pend (ck_name key) f) ?s = (q, u)"
      then show "works_on sim {key} ?s u" by (rule effect_on) (rule retry_pend_on [OF cs same])
    next
      fix x u assume e: "effect (put_pend (ck_name key) f) ?s = (Inr x, u)"
        and d: "andthen (effect (drop_claim key)) (\<lambda>_. ret t) u = (r, s')"
      from effect_Inr [OF e] have p: "(ck_name key, f) \<in> set (pend u)" using put_pend_has by metis
      from d show "works_on sim {key} u s'"
      proof (rule andthen_on)
        fix q v assume "effect (drop_claim key) u = (q, v)"
        then show "works_on sim {key} u v"
        proof (rule effect_on)
          fix fs
          have "works_on sim {key} (u\<lparr>io := fs\<rparr>) (drop_claim key (u\<lparr>io := fs\<rparr>))" by (rule drop_claim_on) (use p in auto)
          then show "works_on sim {key} u (drop_claim key (u\<lparr>io := fs\<rparr>))" by (simp only: works_on_io)
        qed
      qed simp
    qed
    with now show ?thesis by (rule works_on_trans)
  qed
qed

lemma settle_replay_on:
  assumes c: "map_of (claims s) key = Some c" "parsed c = Loaded data" "is_obj data"
    and stored: "\<And>rs. q = Inr rs \<Longrightarrow> in_db (db (conn s)) c"
    and r: "settle_replay w key data t q s = (r, s')"
  shows "works_on sim {key} s s'"
proof (cases q)
  case (Inr rs)
  with r have "andthen (effect (drop_claim key)) (\<lambda>_. ret (if list_all r_duplicate rs then t\<lparr>t_duplicates := Suc (t_duplicates t)\<rparr>
      else t\<lparr>t_ingested := Suc (t_ingested t)\<rparr>)) s = (r, s')" by (simp add: settle_replay_def)
  then show ?thesis
  proof (rule andthen_on)
    fix a u assume "effect (drop_claim key) s = (a, u)"
    then show "works_on sim {key} s u" by (rule effect_on) (rule drop_stored_on [OF c(1) stored [OF Inr]])
  qed simp
next
  case (Inl e)
  have q: "keeps (works_on sim {key}) (quarantined key reason t)" for reason by (rule quarantined_keeps)
  show ?thesis
  proof (cases "\<exists>co m. e = Operational_Error co m \<and> is_retryable co m")
    case True
    with r Inl show ?thesis by (auto simp: settle_replay_def intro: retry_later_on [OF c])
  next
    case False
    with r Inl show ?thesis
      by (cases e) (auto simp: settle_replay_def dest: keepsD [OF q])
  qed
qed

lemma unclaim_keeps: "keeps (works_on sim {key}) (unclaim key)"
  by (rule keepsI) (rule unclaim_on)

lemma replay_one_on:
  assumes c: "map_of (claims s) key = Some c" "parsed c = Loaded data" "replayable data" and ok: "spool_ok sim s"
    and r: "replay_one w h cfg (key, data) t s = (r, s')"
  shows "works_on sim {key} s s'"
proof -
  from c(3) have ob: "is_obj data" by (simp add: replayable_def)
  from r have "andthen (late cfg) (\<lambda>b. if b then andthen (unclaim key) (\<lambda>_. ret (t\<lparr>t_limited := True\<rparr>))
      else case validate_all (validate_request (w_sha w) (w_lax w)) (requests_of data) of
          None \<Rightarrow> quarantined key ''contract violation on drain'' t
        | Some items \<Rightarrow> andthen (\<lambda>s. case on_db (ingest_many w h None items) s of (r, s') \<Rightarrow> (Inr r, s')) (settle_replay w key data t)) s = (r, s')"
    by (simp add: replay_one_def)
  then show ?thesis
  proof (rule andthen_on)
    fix q u assume "late cfg s = (q, u)"
    then show "works_on sim {key} s u" by (rule keepsD [OF late_keeps])
  next
    fix b u assume l: "late cfg s = (Inr b, u)"
      and k: "(if b then andthen (unclaim key) (\<lambda>_. ret (t\<lparr>t_limited := True\<rparr>))
        else case validate_all (validate_request (w_sha w) (w_lax w)) (requests_of data) of
            None \<Rightarrow> quarantined key ''contract violation on drain'' t
          | Some items \<Rightarrow> andthen (\<lambda>s. case on_db (ingest_many w h None items) s of (r, s') \<Rightarrow> (Inr r, s')) (settle_replay w key data t)) u = (r, s')"
    from l c(1) have cu: "map_of (claims u) key = Some c" by (auto simp: late_def)
    have un: "keeps (works_on sim {key}) (andthen (unclaim key) (\<lambda>_. ret (t\<lparr>t_limited := True\<rparr>)))" by (intro works_rules unclaim_keeps)
    show "works_on sim {key} u s'"
    proof (cases b)
      case True
      with k keepsD [OF un] show ?thesis by simp
    next
      case False
      show ?thesis
      proof (cases "validate_all (validate_request (w_sha w) (w_lax w)) (requests_of data)")
        case None
        with k False keepsD [OF quarantined_keeps] show ?thesis by simp
      next
        case (Some items)
        obtain q v where i: "on_db (ingest_many w h None items) u = (q, v)" by (cases "on_db (ingest_many w h None items) u")
        with k False Some have sr: "settle_replay w key data t q v = (r, s')" by (simp add: andthen_def)
        have uv: "works_on sim {} u v" by (rule replay_on [OF Some i])
        then have cv: "map_of (claims v) key = Some c" using cu by (simp add: works_on_def)
        have st: "in_db (db (conn v)) c" if "q = Inr rs" for rs
        proof -
          from i that obtain cn where "ingest_many w h None items (conn u) = (Inr rs, cn)" "v = u\<lparr>conn := cn\<rparr>"
            by (auto simp: on_db_def split: prod.splits)
          moreover have "saved (conn u) = None" using l ok by (auto simp: late_def spool_ok_def)
          ultimately have "list_all (event_in (db (conn v))) items"
            using plane.answered [OF _ validate_all_classed [OF Some]] by auto
          with validated_in [OF Some] c(2,3) show ?thesis by (auto simp: in_db_def replayable_def)
        qed
        have "works_on sim {key} v s'" by (rule settle_replay_on [OF cv c(2) ob st sr])
        with works_on_mono [OF uv] show ?thesis using works_on_trans by blast
      qed
    qed
  qed
qed

lemma works_on_ok: "works_on sim K s s' \<Longrightarrow> spool_ok sim s \<Longrightarrow> spool_ok sim s'"
  by (simp add: works_on_def keeps_batches_def)

lemma in_hand_frame: "in_hand s es \<Longrightarrow> works_on sim K s s' \<Longrightarrow> K \<inter> fst ` set es = {} \<Longrightarrow> in_hand s' es"
  unfolding in_hand_def works_on_def by fastforce

lemma replay_each_on:
  "in_hand s es \<Longrightarrow> spool_ok sim s \<Longrightarrow> replay_each w h cfg es t s = (r, s') \<Longrightarrow> works_on sim (fst ` set es) s s'"
proof (induction es arbitrary: s t)
  case Nil
  then show ?case by simp
next
  case (Cons e es)
  obtain key data where e: "e = (key, data)" by (cases e)
  from Cons.prems(1) obtain c where c: "map_of (claims s) key = Some c" "parsed c = Loaded data" "replayable data"
    by (auto simp: in_hand_def e)
  from Cons.prems(1) have rest: "in_hand s es" "{key} \<inter> fst ` set es = {}" by (auto simp: in_hand_def e)
  have one: "works_on sim {key} s u" if "replay_one w h cfg e t s = (q, u)" for q u
    using replay_one_on [OF c Cons.prems(2)] that by (simp add: e)
  from Cons.prems(3) show ?case unfolding replay_each.simps
  proof (rule andthen_on)
    fix q u assume "replay_one w h cfg e t s = (q, u)"
    then show "works_on sim (fst ` set (e # es)) s u" by (rule works_on_mono [OF one]) (simp add: e)
  next
    fix t' u assume o': "replay_one w h cfg e t s = (Inr t', u)" and k: "replay_each w h cfg es t' u = (r, s')"
    from one [OF o'] have u: "works_on sim {key} s u" .
    have "works_on sim (fst ` set es) u s'"
      by (rule Cons.IH [OF in_hand_frame [OF rest(1) u rest(2)] works_on_ok [OF u Cons.prems(2)] k])
    then show "works_on sim (fst ` set (e # es)) u s'" by (rule works_on_mono) auto
  qed
qed

lemma disk_read_keeps: "(\<And>s. snd (f s) = s) \<Longrightarrow> keeps (works_on sim K) (disk_op f)"
  by (rule keepsI, erule disk_op_on) simp

lemma read_one_keeps: "keeps (works_on sim K) (read_one w' cfg key)"
proof -
  have rc: "keeps (works_on sim K) (read_claim key)"
    unfolding read_claim_def by (rule disk_read_keeps) (auto split: option.split)
  have "keeps (works_on sim K) (case l of Not_Text \<Rightarrow> raise (Value_Err ''invalid start byte'')
      | Not_Json \<Rightarrow> ret (Malformed ''malformed spool file'')
      | Loaded data \<Rightarrow> ret (case envelope_problem data of Some p \<Rightarrow> Malformed (''malformed spool entry: '' @ p) | None \<Rightarrow> Entry data))" for l
    by (cases l) (simp_all only: loaded.case, (intro works_rules)+)
  then show ?thesis unfolding read_one_def by (intro catching_keeps works_rules rc)
qed

lemma settle_reading_keeps: "keeps (works_on sim {key}) (settle_reading key rd t)"
  unfolding settle_reading_def
  by (cases rd) (simp_all only: reading.case, (intro works_rules unclaim_keeps quarantined_keeps catching_keeps)+)

lemma read_each_keeps: "keeps (works_on sim (set keys)) (read_each w' cfg keys t)"
proof (induction keys arbitrary: t)
  case Nil
  show ?case unfolding read_each.simps by (intro works_rules)
next
  case (Cons key keys)
  have "keeps (works_on sim (set (key # keys))) (settle_reading key rd t)" for rd t
    by (rule keeps_works_mono [OF settle_reading_keeps]) simp
  moreover have "keeps (works_on sim (set (key # keys))) (read_each w' cfg keys t)" for t
    by (rule keeps_works_mono [OF Cons.IH]) auto
  ultimately show ?case unfolding read_each.simps by (intro works_rules late_keeps read_one_keeps keeps_prod)
qed

lemma read_one_entry:
  assumes "read_one w cfg key s = (Inr (Entry data), s')"
  shows "replayable data \<and> (\<exists>c. map_of (claims s') key = Some c \<and> parsed c = Loaded data)"
proof -
  from assms obtain c where c: "read_claim key s = (Inr c, s')" "parsed c = Loaded data" "envelope_problem data = None"
    unfolding read_one_def catching_def andthen_def
    by (auto split: prod.splits sum.splits if_splits loaded.splits option.splits)
  from c(1) have "map_of (claims s') key = Some c" unfolding read_claim_def
    by (cases rule: disk_op_cases) (auto split: option.splits)
  with c(2,3) show ?thesis by (auto simp: envelope_problem_def replayable_def requests_of_def split: if_splits json.splits)
qed

lemma read_each_entries:
  assumes "distinct keys" "read_each w cfg keys t s = (Inr (t', es), s')"
  shows "in_hand s' es \<and> fst ` set es \<subseteq> set keys"
  using assms
proof (induction keys arbitrary: t s es t')
  case Nil
  then show ?case by (simp add: in_hand_def)
next
  case (Cons key keys)
  from Cons.prems(2) obtain b s1 rd s2 t1 s3 t2 es' where l: "late cfg s = (Inr b, s1)"
    and rd: "(if b then ret Late else read_one w cfg key) s1 = (Inr rd, s2)"
    and st: "settle_reading key rd t s2 = (Inr t1, s3)" and rest: "read_each w cfg keys t1 s3 = (Inr (t2, es'), s')"
    and es: "es = (case rd of Entry data \<Rightarrow> [(key, data)] | _ \<Rightarrow> []) @ es'"
    by (auto simp: andthen_Inr)
  from Cons.IH [OF _ rest] Cons.prems(1) have ih: "in_hand s' es'" "fst ` set es' \<subseteq> set keys" by auto
  show ?case
  proof (cases "\<exists>data. rd = Entry data")
    case False
    then have "es = es'" using es by (cases rd) auto
    with ih show ?thesis by auto
  next
    case True
    then obtain data where d: "rd = Entry data" by blast
    with rd have "read_one w cfg key s1 = (Inr (Entry data), s2)" by (auto split: if_splits)
    from read_one_entry [OF this] obtain c where c: "replayable data" "map_of (claims s2) key = Some c" "parsed c = Loaded data" by blast
    from st d have "s3 = s2" by (simp add: settle_reading_def)
    have "works_on sim (set keys) s3 s'" using keepsD [OF read_each_keeps rest] .
    with Cons.prems(1) c(2) \<open>s3 = s2\<close> have "map_of (claims s') key = Some c" by (simp add: works_on_def)
    with c ih Cons.prems(1) show ?thesis by (auto simp: in_hand_def es d)
  qed
qed

lemma collect_keeps: "keeps (keeps_batches sim) (collect cfg n names)"
proof (induction names arbitrary: n)
  case Nil
  show ?case unfolding collect.simps by (intro keeps_now keeps_batches_preorder)
next
  case (Cons name names)
  have "keeps (keeps_batches sim) (claim cfg name)" by (rule keepsI) (use claim_on works_on_def in blast)
  moreover have "keeps (keeps_batches sim) (late cfg)" using keepsD [OF late_keeps] by (intro keepsI) (simp add: works_on_def)
  ultimately show ?case unfolding collect.simps
    by (intro keeps_if keeps_andthen keeps_case keeps_prod keeps_batches_preorder keeps_now Cons.IH allI)
qed

lemma in_hand_perm: "mset es' = mset es \<Longrightarrow> in_hand s es \<Longrightarrow> in_hand s es'"
  unfolding in_hand_def using distinct_map_mset_eq [of es' es fst] mset_eq_set [of es' es] by simp

lemma kept_trans: "keeps_batches sim s t \<Longrightarrow> keeps_batches sim t u \<Longrightarrow> keeps_batches sim s u"
  using keeps_batches_preorder(1) by (rule transpD)

lemma andthen_kept:
  assumes "andthen m f s = (r, s')" "\<And>q t. m s = (q, t) \<Longrightarrow> keeps_batches sim s t"
    "\<And>x t. m s = (Inr x, t) \<Longrightarrow> f x t = (r, s') \<Longrightarrow> keeps_batches sim t s'"
  shows "keeps_batches sim s s'"
  using assms(1)
proof (cases rule: andthen_cases)
  case (stopped e)
  then show ?thesis using assms(2) by blast
next
  case (went x t)
  then show ?thesis using kept_trans [OF assms(2) assms(3)] by blast
qed

lemma works_kept: "keeps (works_on sim K) m \<Longrightarrow> m s = (r, s') \<Longrightarrow> keeps_batches sim s s'"
  using keepsD by (fastforce simp: works_on_def)

lemma recover_kept: "recover_stale_inflight cfg s = (r, s') \<Longrightarrow> keeps_batches sim s s'"
proof -
  assume "recover_stale_inflight cfg s = (r, s')"
  then have r: "andthen (recover_each cfg (map fst (claims s))) (\<lambda>_. quiet_op) s = (r, s')" by (simp add: recover_stale_inflight_def)
  have "keeps (works_on sim (set (map fst (claims s)))) (andthen (recover_each cfg (map fst (claims s))) (\<lambda>_. quiet_op))"
    by (intro works_rules recover_each_keeps)
  then show ?thesis using r by (rule works_kept)
qed

lemma replay_read_kept:
  assumes h: "in_hand s entries" and r: "replay_read w h cfg (t, entries) s = (r, s')"
  shows "keeps_batches sim s s'"
proof (cases "spool_ok sim s")
  case False
  then show ?thesis by (simp add: keeps_batches_def)
next
  case True
  have rd: "keeps (works_on sim {}) (disk_op (\<lambda>s. (Inr (length (pend s)), s)))" by (rule disk_read_keeps) simp
  from r have "andthen (lift (sort_entries entries)) (\<lambda>es. andthen (replay_each w h cfg es t) (\<lambda>t'.
       andthen (disk_op (\<lambda>s. (Inr (length (pend s)), s))) (\<lambda>remaining. ret (t', remaining)))) s = (r, s')"
    by (simp add: replay_read_def)
  then show ?thesis
  proof (rule andthen_kept)
    fix q u assume "lift (sort_entries entries) s = (q, u)"
    then show "keeps_batches sim s u" using keeps_batches_preorder(2) by (simp add: reflpD)
  next
    fix es u assume l: "lift (sort_entries entries) s = (Inr es, u)"
      and k: "andthen (replay_each w h cfg es t) (\<lambda>t'. andthen (disk_op (\<lambda>s. (Inr (length (pend s)), s)))
         (\<lambda>remaining. ret (t', remaining))) u = (r, s')"
    then have u: "u = s" and es: "mset es = mset entries" using sort_entries_perm by auto
    from k show "keeps_batches sim u s'" unfolding u
    proof (rule andthen_kept)
      fix q v assume "replay_each w h cfg es t s = (q, v)"
      from replay_each_on [OF in_hand_perm [OF es h] True this] show "keeps_batches sim s v" by (simp add: works_on_def)
    next
      fix t' v assume "andthen (disk_op (\<lambda>s. (Inr (length (pend s)), s))) (\<lambda>remaining. ret (t', remaining)) v = (r, s')"
      moreover have "keeps (works_on sim {}) (andthen (disk_op (\<lambda>s. (Inr (length (pend s)), s))) (\<lambda>remaining. ret (t', remaining)))"
        by (intro works_rules rd)
      ultimately show "keeps_batches sim v s'" using works_kept by blast
    qed
  qed
qed

lemma drain_kept:
  assumes "drain w h cfg s = (r, s')"
  shows "keeps_batches sim s s'"
proof -
  have listing: "keeps (works_on sim {}) (disk_op (\<lambda>s. (Inr (candidates s), s)))" by (rule disk_read_keeps) simp
  have names: "distinct names" if "disk_op (\<lambda>s. (Inr (candidates s), s)) a = (Inr names, b)" for names a b
    using that by (cases rule: disk_op_cases) (auto simp: candidates_def)
  let ?read = "\<lambda>names kl. (case kl of (keys, limited) \<Rightarrow>
     andthen (read_each w cfg keys \<lparr>t_ingested = 0, t_duplicates = 0, t_quarantined = 0, t_attempted = 0,
         t_refused = not_there cfg names, t_limited = limited\<rparr>) (replay_read w h cfg))"
  have reading: "keeps_batches sim b s'" if d: "distinct (map ck_name keys)" and rd: "?read names (keys, limited) b = (r, s')"
    for names keys limited b
  proof -
    from d have dk: "distinct keys" by (simp add: distinct_map)
    from rd have "andthen (read_each w cfg keys \<lparr>t_ingested = 0, t_duplicates = 0, t_quarantined = 0, t_attempted = 0,
         t_refused = not_there cfg names, t_limited = limited\<rparr>) (replay_read w h cfg) b = (r, s')" by simp
    then show ?thesis
    proof (rule andthen_kept)
      fix q v assume "read_each w cfg keys \<lparr>t_ingested = 0, t_duplicates = 0, t_quarantined = 0, t_attempted = 0,
         t_refused = not_there cfg names, t_limited = limited\<rparr> b = (q, v)"
      then show "keeps_batches sim b v" by (rule works_kept [OF read_each_keeps])
    next
      fix te v assume rd: "read_each w cfg keys \<lparr>t_ingested = 0, t_duplicates = 0, t_quarantined = 0, t_attempted = 0,
         t_refused = not_there cfg names, t_limited = limited\<rparr> b = (Inr te, v)" and k: "replay_read w h cfg te v = (r, s')"
      obtain t es where te: "te = (t, es)" by (cases te)
      from read_each_entries [OF dk rd [unfolded te]] have "in_hand v es" ..
      then show "keeps_batches sim v s'" using k unfolding te by (rule replay_read_kept)
    qed
  qed
  from assms have "andthen quiet_op (\<lambda>_. andthen (recover_stale_inflight cfg) (\<lambda>_.
     andthen (disk_op (\<lambda>s. (Inr (candidates s), s))) (\<lambda>names. andthen (collect cfg 0 names) (?read names)))) s = (r, s')"
    unfolding drain_def .
  then show ?thesis
  proof (rule andthen_kept)
    fix q a assume "quiet_op s = (q, a)"
    then show "keeps_batches sim s a" using quiet_on [of s q a "{}"] by (simp add: works_on_def)
  next
    fix x a assume "andthen (recover_stale_inflight cfg) (\<lambda>_. andthen (disk_op (\<lambda>s. (Inr (candidates s), s)))
        (\<lambda>names. andthen (collect cfg 0 names) (?read names))) a = (r, s')"
    then show "keeps_batches sim a s'"
    proof (rule andthen_kept)
      fix q b assume "recover_stale_inflight cfg a = (q, b)"
      then show "keeps_batches sim a b" by (rule recover_kept)
    next
      fix x b assume "andthen (disk_op (\<lambda>s. (Inr (candidates s), s))) (\<lambda>names. andthen (collect cfg 0 names) (?read names)) b = (r, s')"
      then show "keeps_batches sim b s'"
      proof (rule andthen_kept)
        fix q c assume "disk_op (\<lambda>s. (Inr (candidates s), s)) b = (q, c)"
        then show "keeps_batches sim b c" by (rule works_kept [OF listing])
      next
        fix ns c assume ns: "disk_op (\<lambda>s. (Inr (candidates s), s)) b = (Inr ns, c)" and k: "andthen (collect cfg 0 ns) (?read ns) c = (r, s')"
        from k show "keeps_batches sim c s'"
        proof (rule andthen_kept)
          fix q d assume "collect cfg 0 ns c = (q, d)"
          then show "keeps_batches sim c d" by (rule keepsD [OF collect_keeps])
        next
          fix kl d assume kl: "collect cfg 0 ns c = (Inr kl, d)" and k: "?read ns kl d = (r, s')"
          obtain keys lim where e: "kl = (keys, lim)" by (cases kl)
          from collect_names [OF kl [unfolded e] names [OF ns]] have "distinct (map ck_name keys)" ..
          then show "keeps_batches sim d s'" using k unfolding e by (rule reading)
        qed
      qed
    qed
  qed
qed

end

section \<open>The two readings of "the same batch"\<close>

definition bookkeeping :: "string list" where
  "bookkeeping = [''attempts'', ''error'', ''history'']"

text \<open>The same bytes, or entries that differ in the bookkeeping of attempts only.\<close>

definition same_batch :: "spool_file \<Rightarrow> spool_file \<Rightarrow> bool" where
  "same_batch c c' \<longleftrightarrow> c' = c \<or> (\<exists>d d'. parsed c = Loaded d \<and> parsed c' = Loaded d'
     \<and> (\<forall>k. k \<notin> set bookkeeping \<longrightarrow> jget d k = jget d' k))"

text \<open>
  The same events, by class and id, among the requests of a spool entry or the events of a staged
  batch.
\<close>

definition request_ids :: "json list \<Rightarrow> (json \<times> json) list" where
  "request_ids rs = map (\<lambda>r. (jget r ''event_type'', jget r ''event_id'')) rs"

definition staged_events :: "json \<Rightarrow> json list" where
  "staged_events j = (case jget j ''events'' of JArr es \<Rightarrow> es | _ \<Rightarrow> [])"

definition batch_ids :: "spool_file \<Rightarrow> ((json \<times> json) list \<times> (json \<times> json) list) option" where
  "batch_ids c = (case parsed c of Loaded j \<Rightarrow> Some (request_ids (requests_of j), request_ids (staged_events j)) | _ \<Rightarrow> None)"

definition same_events :: "spool_file \<Rightarrow> spool_file \<Rightarrow> bool" where
  "same_events c c' \<longleftrightarrow> batch_ids c = batch_ids c'"

definition pair_in :: "plane_db \<Rightarrow> json \<times> json \<Rightarrow> bool" where
  "pair_in d te \<longleftrightarrow> (\<exists>cls. fst te = JStr cls \<and> event_in d ([(''event_id'', snd te)], cls, []))"

lemma requests_in: "list_all (request_in d) rs = list_all (pair_in d) (request_ids rs)"
  by (induction rs) (simp_all add: request_ids_def request_in_event pair_in_def)

lemma in_db_pairs: "in_db d c \<longleftrightarrow> (\<exists>ids es. batch_ids c = Some (ids, es) \<and> ids \<noteq> [] \<and> list_all (pair_in d) ids)"
  by (auto simp: in_db_def batch_ids_def requests_in request_ids_def split: loaded.splits)

lemma requests_of_requests: "jget d ''requests'' = jget d' ''requests'' \<Longrightarrow> requests_of d = requests_of d'"
  by (simp add: requests_of_def)

lemma bookkeeping_requests: "(\<forall>k. k \<notin> set bookkeeping \<longrightarrow> jget d k = jget d' k) \<Longrightarrow> requests_of d = requests_of d'"
  by (rule requests_of_requests) (simp add: bookkeeping_def)

lemma bookkeeping_events: "(\<forall>k. k \<notin> set bookkeeping \<longrightarrow> jget d k = jget d' k) \<Longrightarrow> staged_events d = staged_events d'"
  by (simp add: bookkeeping_def staged_events_def)

lemma same_batch_events: "same_batch c c' \<Longrightarrow> same_events c c'"
proof -
  have "request_ids (requests_of d) = request_ids (requests_of d') \<and> request_ids (staged_events d) = request_ids (staged_events d')"
    if "\<forall>k. k \<notin> set bookkeeping \<longrightarrow> jget d k = jget d' k" for d d'
    using bookkeeping_requests [OF that] bookkeeping_events [OF that] by simp
  then show "same_batch c c' \<Longrightarrow> same_events c c'" by (auto simp: same_batch_def same_events_def batch_ids_def)
qed

lemma rewrite_bookkeeping:
  "parsed c = Loaded data \<Longrightarrow> is_obj data \<Longrightarrow> same_batch c (file_of w (failed_entry now msg n data))"
  by (cases data) (auto simp: same_batch_def bookkeeping_def file_of_def failed_entry_def Let_def obj_of_def)

lemma same_events_in_db: "same_events c c' \<Longrightarrow> in_db d c \<Longrightarrow> in_db d c'"
  by (simp add: in_db_pairs same_events_def)

interpretation content: batch_identity same_batch
proof
  show "same_batch c c" for c by (simp add: same_batch_def)
  show "same_batch c c' \<Longrightarrow> same_batch c' c" for c c' by (auto simp: same_batch_def)
  show "same_batch a b \<Longrightarrow> same_batch b c \<Longrightarrow> same_batch a c" for a b c by (auto simp: same_batch_def)
  show "same_batch c c' \<Longrightarrow> in_db d c \<Longrightarrow> in_db d c'" for c c' d using same_batch_events same_events_in_db by blast
  show "parsed c = Loaded data \<Longrightarrow> is_obj data \<Longrightarrow> same_batch c (file_of w (failed_entry now msg n data))" for c data w now msg n
    by (rule rewrite_bookkeeping)
qed

interpretation events: batch_identity same_events
proof
  show "same_events c c" for c by (simp add: same_events_def)
  show "same_events c c' \<Longrightarrow> same_events c' c" for c c' by (auto simp: same_events_def)
  show "same_events a b \<Longrightarrow> same_events b c \<Longrightarrow> same_events a c" for a b c by (auto simp: same_events_def)
  show "same_events c c' \<Longrightarrow> in_db d c \<Longrightarrow> in_db d c'" for c c' d by (rule same_events_in_db)
  show "parsed c = Loaded data \<Longrightarrow> is_obj data \<Longrightarrow> same_events c (file_of w (failed_entry now msg n data))" for c data w now msg n
    by (intro same_batch_events rewrite_bookkeeping)
qed

section \<open>Properties\<close>

text \<open>
  C4. A drain loses nothing, whichever operation on the disk or the database fails and wherever the
  drainer is killed: every file that was in the queue, claimed or in quarantine is still there
  afterwards under its own name, the bookkeeping of attempts aside, or the event of each of its
  requests is in the database; and no name gets a file of another batch.
\<close>

theorem drain_loses_nothing:
  assumes "drain w host_uid cfg s = (r, s')" "spool_ok same_batch s"
  shows "spool_ok same_batch s' \<and> (\<forall>n c. c \<in> held n s \<longrightarrow> safe same_batch n c s')
    \<and> (\<forall>n. \<forall>c' \<in> held n s'. \<exists>c \<in> held n s. same_batch c c')"
proof -
  have "safe same_batch n c s" if "c \<in> held n s" for n c
    unfolding safe_def using that content.sim_refl by blast
  with content.drain_kept [OF assms(1)] assms(2) show ?thesis unfolding keeps_batches_def by blast
qed

text \<open>A queue of hand-written files, for a drainer of pid 7 with no limit.\<close>

definition sample_file :: "json \<Rightarrow> json \<Rightarrow> spool_file" where
  "sample_file spooled_at attempts = file_of sample_world (JObj [(''spooled_at'', spooled_at), (''attempts'', attempts),
     (''requests'', JArr [JObj ((''event_id'', JStr (''ev_'' @ replicate 32 CHR ''0'')) # obj_of (sample_request ''transmission'' sample_transmission))])])"

definition sample_disk :: "(string \<times> spool_file) list \<Rightarrow> disk" where
  "sample_disk files = \<lparr>pend = files, claims = [], quar = [], reasons = [], conn = fresh_session, io = [], looks = 0, drawn = 0\<rparr>"

definition sample_drain :: drain_config where
  "sample_drain = \<lparr>dr_pid = 7, dr_alive = (\<lambda>p. p = 7), dr_late = (\<lambda>_. False), dr_approved = None, dr_max = None, dr_hex = (\<lambda>n. ''ab'')\<rparr>"

lemma drain_loses_nothing_witness:
  "spool_ok same_batch (snd (drain sample_world ''host'' sample_drain (sample_disk [(''a.json'', sample_file JNull (JInt 0))])))
   \<and> safe same_batch ''a.json'' (sample_file JNull (JInt 0))
       (snd (drain sample_world ''host'' sample_drain (sample_disk [(''a.json'', sample_file JNull (JInt 0))])))"
proof -
  let ?s = "sample_disk [(''a.json'', sample_file JNull (JInt 0))]"
  have "spool_ok same_batch ?s" by (auto simp: spool_ok_def held_def sample_disk_def fresh_simps)
  moreover have "sample_file JNull (JInt 0) \<in> held ''a.json'' ?s" by (simp add: held_def sample_disk_def)
  ultimately show ?thesis
    using drain_loses_nothing [of sample_world "''host''" sample_drain ?s, OF prod.collapse [symmetric]] by blast
qed

text \<open>The result of a drain of the given files, with what is left in the queue, claimed and in quarantine.\<close>

definition drained :: "drain_config \<Rightarrow> disk \<Rightarrow> (plane_error + tally \<times> nat) \<times> nat \<times> nat \<times> nat" where
  "drained cfg s = (case drain sample_world ''host'' cfg s of
     (r, s') \<Rightarrow> (r, length (pend s'), length (claims s'), length (quar s')))"


end
