(* ===== verification/Emit.thy ===== *)
theory Emit
  imports Spool_Safety
begin

text \<open>
  The door every writer uses (\<open>claudlobby/plane/emit_api.py\<close>, with the schema admission of
  \<open>schema_state.py\<close>): a batch is completed with ids and times, validated, put through the capture
  policy and validated again, then tried on the database; a lock is retried, a failure that a
  later replay can mend is spooled, everything else is reported.

  Given from outside: the capture configuration as it is found, the \<open>user_version\<close> of the
  database file, the installation identity that \<open>ensure_host_uid\<close> answers (\<open>Plane_Ids\<close>), whether the
  caller lends its connection, and the depth of the walk behind spool names.
\<close>

record emit_config =
  em_capture :: config_file
  em_version :: "int option"
  em_host :: "plane_error + string"
  em_borrowed :: bool
  em_depth :: nat

section \<open>Preparing a batch\<close>

definition finalize :: "world \<Rightarrow> obj \<Rightarrow> obj act" where
  "finalize w req =
     andthen (if truthy (fld req ''event_id'') then ret req
       else andthen (mint_hex w) (\<lambda>h. ret (alist_set ''event_id'' (JStr (mint ''ev_'' h)) req))) (\<lambda>a.
     andthen (if truthy (fld a ''occurred_at'') then ret a
       else andthen (now_iso w) (\<lambda>now. ret (alist_set ''occurred_at'' (JStr now) a))) (\<lambda>b.
       ret (if truthy (fld b ''schema_version'') then b
         else alist_set ''schema_version'' (JStr PLANE_SCHEMA_VERSION) b)))"

text \<open>\<open>CONTENT_FIELDS.get(r.get("event_type"))\<close>: a list or an object cannot be looked up.\<close>

definition content_family :: "obj \<Rightarrow> plane_error + bool" where
  "content_family r =
     (case fld r ''event_type'' of
        JArr vs \<Rightarrow> Inl (Type_Err ''unhashable type'')
      | JObj kvs \<Rightarrow> Inl (Type_Err ''unhashable type'')
      | _ \<Rightarrow> Inr (CONTENT_FIELDS (event_type r) \<noteq> []))"

fun capture_raised :: "capture_error \<Rightarrow> plane_error" where
  "capture_raised (Config_Invalid m) = Capture_Invalid m"
| "capture_raised (Value_Error m) = Value_Err m"
| "capture_raised (Type_Error m) = Type_Err m"

definition load_modes :: "config_file \<Rightarrow> plane_error + modes" where
  "load_modes cfg = (case load_capture_config cfg of Inl e \<Rightarrow> Inl (capture_raised e) | Inr ms \<Rightarrow> Inr ms)"

definition request_item :: "world \<Rightarrow> obj \<Rightarrow> plane_error + item" where
  "request_item w r =
     (case validate_request (w_sha w) (w_lax w) (JObj r) of
        Inl (Contract_Violation m) \<Rightarrow> Inl (Contract_Error m) | Inr it \<Rightarrow> Inr it)"

text \<open>The request first, then its captured form where the policy changed it.\<close>

definition validate_item :: "world \<Rightarrow> modes \<Rightarrow> obj \<Rightarrow> plane_error + item \<times> obj" where
  "validate_item w modes r =
     (case request_item w r of Inl e \<Rightarrow> Inl e
      | Inr it \<Rightarrow>
          (case apply_capture (w_sha w) r modes of Inl e \<Rightarrow> Inl (capture_raised e)
           | Inr None \<Rightarrow> Inr (it, r)
           | Inr (Some c) \<Rightarrow> (case request_item w c of Inl e \<Rightarrow> Inl e | Inr it' \<Rightarrow> Inr (it', c))))"

text \<open>The configuration is read at most once, at the first event that carries content.\<close>

fun prepare_each :: "world \<Rightarrow> config_file \<Rightarrow> modes option \<Rightarrow> json list \<Rightarrow> (obj list \<times> item list) act" where
  "prepare_each w cfg modes [] = ret ([], [])"
| "prepare_each w cfg modes (req # reqs) =
     (case req of
        JObj kvs \<Rightarrow>
          andthen (finalize w kvs) (\<lambda>r.
          andthen (lift (content_family r)) (\<lambda>content.
          andthen (if modes = None \<and> content then andthen (lift (load_modes cfg)) (\<lambda>ms. ret (Some ms)) else ret modes) (\<lambda>modes'.
          andthen (lift (validate_item w (case modes' of None \<Rightarrow> [] | Some ms \<Rightarrow> ms) r)) (\<lambda>(it, c).
          andthen (prepare_each w cfg modes' reqs) (\<lambda>(cs, its). ret (c # cs, it # its))))))
      | _ \<Rightarrow> raise (Attr_Err ''object has no attribute get''))"

section \<open>Admission and one attempt\<close>

definition SCHEMA_USER_VERSION :: int where
  "SCHEMA_USER_VERSION = 14"

definition require_current_schema :: "emit_config \<Rightarrow> unit act" where
  "require_current_schema cfg =
     andthen stmt (\<lambda>_.
       let current = (case em_version cfg of None \<Rightarrow> 0 | Some v \<Rightarrow> v) in
       if SCHEMA_USER_VERSION < current then raise (Downgrade_Err ''plane.db is newer than this code'')
       else if current < SCHEMA_USER_VERSION then raise (Runtime_Error ''plane.db requires migration'')
       else ret ())"

definition preflight_schema :: "emit_config \<Rightarrow> unit act" where
  "preflight_schema cfg =
     andthen stmt (\<lambda>_. if em_version cfg = None then raise (Runtime_Error ''no plane db'') else require_current_schema cfg)"

text \<open>The \<open>finally\<close>: an own connection is closed, and what SQLite says of that is dropped.\<close>

definition closing :: "emit_config \<Rightarrow> 'a act \<Rightarrow> 'a act" where
  "closing cfg m s =
     (case m s of (r, t) \<Rightarrow>
        if em_borrowed cfg then (r, t)
        else case stmt t of (Inr u, t') \<Rightarrow> (r, t')
          | (Inl e, t') \<Rightarrow> if is_sqlite_error e then (r, t') else (Inl e, t'))"

definition attempt :: "world \<Rightarrow> emit_config \<Rightarrow> (plane_db \<Rightarrow> bool) option \<Rightarrow> item list \<Rightarrow> ingest_result list act" where
  "attempt w cfg pre items =
     andthen (if em_borrowed cfg then ret () else preflight_schema cfg) (\<lambda>_.
     andthen stmt (\<lambda>_.
       closing cfg (
         andthen (require_current_schema cfg) (\<lambda>_.
         andthen (lift (em_host cfg)) (\<lambda>host.
           ingest_many w host pre items)))))"

section \<open>Emitting\<close>

datatype emit_status = Committed | Duplicate | Spooled

record emit_outcome =
  eo_id :: string
  eo_status :: emit_status
  eo_detail :: "string option"

definition LOCK_RETRY_ATTEMPTS :: nat where
  "LOCK_RETRY_ATTEMPTS = 6"

definition outcome_of :: "ingest_result \<Rightarrow> emit_outcome" where
  "outcome_of res = \<lparr>eo_id = r_event res, eo_status = (if r_duplicate res then Duplicate else Committed), eo_detail = None\<rparr>"

definition spool_batch :: "world \<Rightarrow> emit_config \<Rightarrow> obj list \<Rightarrow> string \<Rightarrow> (disk, emit_outcome list) st" where
  "spool_batch w cfg captured msg =
     andthen (on_db (now_iso w)) (\<lambda>at'.
     andthen (spool_write w (em_depth cfg) at' (map JObj captured) msg) (\<lambda>path.
       ret (map (\<lambda>c. \<lparr>eo_id = text_of (fld c ''event_id''), eo_status = Spooled, eo_detail = Some path\<rparr>) captured)))"

text \<open>After an attempt: \<open>next_try\<close> is the next one, where there is one left.\<close>

definition after_attempt :: "world \<Rightarrow> emit_config \<Rightarrow> bool \<Rightarrow> obj list \<Rightarrow> (disk, emit_outcome list) st option
    \<Rightarrow> plane_error + ingest_result list \<Rightarrow> (disk, emit_outcome list) st" where
  "after_attempt w cfg require_commit captured next_try r =
     (case r of
        Inr results \<Rightarrow> ret (map outcome_of results)
      | Inl (Operational_Error c msg) \<Rightarrow>
          if \<not> is_retryable c msg then raise (Operational_Error c msg)
          else if is_transient_lock c msg \<and> next_try \<noteq> None then the next_try
          else if require_commit then raise (Operational_Error c msg)
          else spool_batch w cfg captured msg
      | Inl e \<Rightarrow> raise e)"

text \<open>The loop, by the number of retries left.\<close>

primrec deliver :: "nat \<Rightarrow> world \<Rightarrow> emit_config \<Rightarrow> bool \<Rightarrow> (plane_db \<Rightarrow> bool) option \<Rightarrow> obj list \<Rightarrow> item list \<Rightarrow> (disk, emit_outcome list) st" where
  "deliver 0 w cfg rc pre captured items =
     (\<lambda>s. case on_db (attempt w cfg pre items) s of (r, t) \<Rightarrow> after_attempt w cfg rc captured None r t)"
| "deliver (Suc k) w cfg rc pre captured items =
     (\<lambda>s. case on_db (attempt w cfg pre items) s of (r, t) \<Rightarrow>
        after_attempt w cfg rc captured (Some (deliver k w cfg rc pre captured items)) r t)"

definition emit_batch :: "world \<Rightarrow> emit_config \<Rightarrow> bool \<Rightarrow> (plane_db \<Rightarrow> bool) option \<Rightarrow> json list \<Rightarrow> (disk, emit_outcome list) st" where
  "emit_batch w cfg require_commit precondition requests =
     (if precondition \<noteq> None \<and> \<not> require_commit then raise (Value_Err ''precondition requires require_commit=True'')
      else andthen (on_db (prepare_each w (em_capture cfg) None requests)) (\<lambda>(captured, items).
        deliver (LOCK_RETRY_ATTEMPTS - 1) w cfg require_commit precondition captured items))"

section \<open>What a prepared batch is\<close>

text \<open>What is spooled replays as what is tried on the database.\<close>

lemma request_item_valid: "request_item w r = Inr it \<longleftrightarrow> validate_request (w_sha w) (w_lax w) (JObj r) = Inr it"
  by (auto simp: request_item_def split: sum.splits contract_violation.splits)

lemma validate_item_valid: "validate_item w modes r = Inr (it, c) \<Longrightarrow> validate_request (w_sha w) (w_lax w) (JObj c) = Inr it"
  by (auto simp: validate_item_def request_item_valid split: sum.splits option.splits)

text \<open>What becomes of a request: an object of the same class, with the id it came with, or one of its own.\<close>

definition carries :: "json \<Rightarrow> json \<Rightarrow> bool" where
  "carries req c \<longleftrightarrow> is_obj c \<and> jget c ''event_type'' = jget req ''event_type'' \<and> truthy (jget c ''event_id'')
     \<and> (truthy (jget req ''event_id'') \<longrightarrow> jget c ''event_id'' = jget req ''event_id'')"

lemma finalize_carries:
  assumes "finalize w kvs s = (Inr r, s')"
  shows "fld r ''event_type'' = fld kvs ''event_type'' \<and> truthy (fld r ''event_id'')
    \<and> (truthy (fld kvs ''event_id'') \<longrightarrow> fld r ''event_id'' = fld kvs ''event_id'')"
  using assms by (auto simp: finalize_def andthen_Inr mint_def split: if_splits)

lemma apply_capture_shape: "apply_capture sha r modes = Inr (Some c) \<Longrightarrow> \<exists>p. c = with_payload r p"
  by (auto simp: apply_capture_def Let_def split: sum.splits if_splits)

lemma validate_item_carries:
  assumes "validate_item w modes r = Inr (it, c)"
  shows "fld c ''event_id'' = fld r ''event_id'' \<and> fld c ''event_type'' = fld r ''event_type''"
proof -
  from assms have "c = r \<or> (\<exists>p. c = with_payload r p)"
    by (auto simp: validate_item_def dest: apply_capture_shape split: sum.splits option.splits)
  then show ?thesis by (auto simp del: jget.simps)
qed

lemma prepare_each_carries:
  "prepare_each w cfg modes reqs s = (Inr (cs, its), s') \<Longrightarrow>
     validate_all (validate_request (w_sha w) (w_lax w)) (map JObj cs) = Some its \<and> list_all2 carries reqs (map JObj cs)"
proof (induction reqs arbitrary: modes s cs its)
  case (Cons req reqs)
  from Cons.prems obtain kvs r t modes' it c u cs' its' where req: "req = JObj kvs" and f: "finalize w kvs s = (Inr r, t)"
    and v: "validate_item w (case modes' of None \<Rightarrow> [] | Some ms \<Rightarrow> ms) r = Inr (it, c)"
    and p: "prepare_each w cfg modes' reqs u = (Inr (cs', its'), s')" and e: "cs = c # cs'" "its = it # its'"
    by (auto simp: andthen_Inr split: json.splits)
  from finalize_carries [OF f] validate_item_carries [OF v] have "carries req (JObj c)" by (simp add: carries_def req)
  with Cons.IH [OF p] validate_item_valid [OF v] show ?case by (simp add: e)
qed simp

lemma finalize_keeps: "keeps same_db (finalize w kvs)"
  unfolding finalize_def by (intro read_rules keeps_mint)

lemma prepare_each_keeps: "keeps same_db (prepare_each w cfg modes reqs)"
proof (induction reqs arbitrary: modes)
  case (Cons req reqs)
  show ?case
  proof (cases req)
    case (JObj kvs)
    have "keeps same_db (if modes = None \<and> content then andthen (lift (load_modes cfg)) (\<lambda>ms. ret (Some ms)) else ret modes)" for content
      by (intro read_rules)
    with Cons.IH JObj show ?thesis unfolding prepare_each.simps
      by simp (intro read_rules finalize_keeps keeps_prod)
  qed (auto simp del: raise_simp intro: keeps_now frame_preorders)
qed (simp add: keeps_now frame_preorders)

section \<open>What an attempt does\<close>

lemma rollback_faults [simp]: "no_new_faults s (rollback_if_open t) = no_new_faults s t"
  by (simp add: no_new_faults_def rollback_if_open_def split: option.split)

lemma no_new_trans: "transp no_new_faults" "reflp no_new_faults"
  by (auto intro!: transpI reflpI simp: no_new_faults_def)

lemma same_tx_faults: "same_tx s s' \<Longrightarrow> no_new_faults s s'" "same_db s s' \<Longrightarrow> no_new_faults s s'"
  by (simp_all add: same_tx_def same_db_def)

lemma work_faults: "keeps no_new_faults (work w now h pre prepared)"
  unfolding work_def
  by (intro keeps_andthen no_new_trans keeps_each keeps_mono [OF ingest_item_tx same_tx_faults(1)]
      keeps_mono [OF check_precondition_keeps same_tx_faults(2)])

lemma transaction_faults: "keeps no_new_faults (transaction w now h pre prepared)"
proof -
  have b: "keeps no_new_faults begin_immediate" unfolding begin_immediate_def
    by (rule keeps_andthen_pure [OF _ keeps_stmt no_new_trans(1) same_tx_faults(2)])
      (auto simp: no_new_faults_def split: option.splits)
  have "keeps no_new_faults commit"
    by (rule keepsI) (auto simp: commit_def no_new_faults_def split: list.splits fault.splits)
  with b show ?thesis unfolding transaction_work
    by (intro keeps_andthen no_new_trans work_faults keeps_now)
qed

lemma ingest_faults: "keeps no_new_faults (ingest_many w h pre items)"
proof -
  have c: "keeps no_new_faults (commit_or_verify w now h pre prepared)" for now prepared
  proof (rule keepsI)
    fix s r s' assume c: "commit_or_verify w now h pre prepared s = (r, s')"
    obtain q t where t: "transaction w now h pre prepared (s\<lparr>memo := []\<rparr>) = (q, t)" by (cases "transaction w now h pre prepared (s\<lparr>memo := []\<rparr>)")
    then have st: "no_new_faults s t" using keepsD [OF transaction_faults t] by (simp add: no_new_faults_def)
    have v: "no_new_faults s u" if "verify_duplicates w h prepared (rollback_if_open t) = (x, u)" for x u
    proof -
      from keepsD [OF verify_keeps that] have "no_new_faults (rollback_if_open t) u" by (simp add: same_db_def)
      with st show ?thesis using transpD [OF no_new_trans(1), of s "rollback_if_open t" u] by simp
    qed
    from c t st v show "no_new_faults s s'"
      by (cases q) (auto simp: commit_or_verify_def split: plane_error.splits if_splits)
  qed
  show ?thesis unfolding ingest_many_def
    by (intro keeps_andthen no_new_trans c keeps_if keeps_now keeps_each keeps_mono [OF prepare_keeps same_tx_faults(2)]
        keeps_mono [OF keeps_mint(2) same_tx_faults(2)])
qed

text \<open>
  A try cannot say what it wrote when COMMIT failed and took effect, or when something other than
  the database (a kill) stopped it after that.
\<close>

definition doubtful :: "session \<Rightarrow> bool" where
  "doubtful s \<longleftrightarrow> in_doubt s \<or> (\<exists>e. Fails e \<in> set (faults s) \<and> \<not> is_sqlite_error e)"

definition tried :: "item list \<Rightarrow> session \<Rightarrow> plane_error + ingest_result list \<Rightarrow> session \<Rightarrow> bool" where
  "tried items s r s' \<longleftrightarrow> saved s' = None \<and> no_new_faults s s' \<and> (\<forall>it. event_in (db s) it \<longrightarrow> event_in (db s') it)
     \<and> (case r of Inr rs \<Rightarrow> list_all (event_in (db s')) items | Inl e \<Rightarrow> db s' = db s \<or> doubtful s)"

lemma doubtful_mono: "no_new_faults s s' \<Longrightarrow> doubtful s' \<Longrightarrow> doubtful s"
  by (auto simp: doubtful_def no_new_faults_def in_doubt_def)

lemma tried_after: "same_db s t \<Longrightarrow> tried items t r s' \<Longrightarrow> tried items s r s'"
  using doubtful_mono [of s t] transpD [OF no_new_trans(1), of s t s']
  by (auto simp: tried_def same_db_def split: sum.splits)

lemma tried_failed: "same_db s s' \<Longrightarrow> saved s = None \<Longrightarrow> tried items s (Inl e) s'"
  by (simp add: tried_def same_db_def)

text \<open>A step that keeps the database, then a try.\<close>

lemma tried_andthen:
  assumes "andthen m f s = (r, s')" "keeps same_db m" "saved s = None"
    "\<And>x t. f x t = (r, s') \<Longrightarrow> saved t = None \<Longrightarrow> tried items t r s'"
  shows "tried items s r s'"
  using assms(1)
proof (cases rule: andthen_cases)
  case (stopped e)
  then show ?thesis using keepsD [OF assms(2)] tried_failed assms(3) by blast
next
  case (went x t)
  from keepsD [OF assms(2) went(1)] have st: "same_db s t" .
  with assms(3) have "saved t = None" by (simp add: same_db_def)
  with assms(4) [OF went(2)] st show ?thesis using tried_after by blast
qed

lemma ingest_tried:
  assumes i: "ingest_many w h pre items s = (r, s')" and idle: "saved s = None" and cl: "list_all classed items"
  shows "tried items s r s'"
proof -
  have "db s' = db s \<or> in_doubt s" if "r = Inl e" for e
    using ingest_outcome [OF i idle cl] that by (auto simp: batch_outcome_def unchanged_or_doubt_def)
  moreover have "list_all (event_in (db s')) items" if "r = Inr rs" for rs
    using plane.answered [OF idle cl] i that by simp
  ultimately show ?thesis
    using plane.stays_idle [OF idle cl i] plane.durable [OF idle cl i] keepsD [OF ingest_faults i]
    by (auto simp: tried_def doubtful_def split: sum.splits)
qed

lemma stmt_failed: "stmt s = (Inl e, s') \<Longrightarrow> Fails e \<in> set (faults s) \<or> Runs_And_Fails e \<in> set (faults s)"
  by (auto simp: stmt_def split: list.splits fault.splits)

lemma closing_tried:
  assumes c: "closing cfg m s = (r, s')" and m: "\<And>q t. m s = (q, t) \<Longrightarrow> tried items s q t"
  shows "tried items s r s'"
proof -
  obtain q t where t: "m s = (q, t)" by (cases "m s")
  have tq: "tried items s q t" by (rule m [OF t])
  show ?thesis
  proof (cases "em_borrowed cfg")
    case True
    with c t tq show ?thesis by (simp add: closing_def)
  next
    case False
    obtain x u where u: "stmt t = (x, u)" by (cases "stmt t")
    from keepsD [OF keeps_stmt u] have tu: "same_db t u" .
    with tq have s': "tried items s q u"
      using transpD [OF no_new_trans(1), of s t u] by (auto simp: tried_def same_db_def split: sum.splits)
    from c t False u have r: "s' = u \<and> (r = q \<or> (\<exists>e. r = Inl e \<and> x = Inl e \<and> \<not> is_sqlite_error e))"
      by (cases x) (auto simp: closing_def split: if_splits)
    have "doubtful s" if "x = Inl e" "\<not> is_sqlite_error e" for e
    proof -
      have "doubtful t" using stmt_failed [OF u [unfolded that(1)]] that(2) by (auto simp: doubtful_def in_doubt_def)
      with tq show ?thesis using doubtful_mono by (auto simp: tried_def)
    qed
    with r s' show ?thesis by (auto simp: tried_def)
  qed
qed

lemma require_keeps: "keeps same_db (require_current_schema cfg)"
  unfolding require_current_schema_def Let_def by (intro read_rules keeps_stmt)

lemma preflight_keeps: "keeps same_db (preflight_schema cfg)"
  unfolding preflight_schema_def by (intro read_rules keeps_stmt require_keeps)

lemma attempt_tried:
  assumes a: "attempt w cfg pre items s = (r, s')" and idle: "saved s = None" and cl: "list_all classed items"
  shows "tried items s r s'"
proof -
  have pf: "keeps same_db (if em_borrowed cfg then ret () else preflight_schema cfg)" by (intro read_rules preflight_keeps)
  from a show ?thesis unfolding attempt_def
  proof (rule tried_andthen [OF _ pf idle])
    fix x t assume "andthen stmt (\<lambda>_. closing cfg (andthen (require_current_schema cfg) (\<lambda>_.
        andthen (lift (em_host cfg)) (\<lambda>host. ingest_many w host pre items)))) t = (r, s')" "saved t = None"
    then show "tried items t r s'"
    proof (rule tried_andthen [OF _ keeps_stmt])
      fix x u assume c: "closing cfg (andthen (require_current_schema cfg) (\<lambda>_.
          andthen (lift (em_host cfg)) (\<lambda>host. ingest_many w host pre items))) u = (r, s')" and iu: "saved u = None"
      from c show "tried items u r s'"
      proof (rule closing_tried)
        fix q v assume "andthen (require_current_schema cfg) (\<lambda>_.
            andthen (lift (em_host cfg)) (\<lambda>host. ingest_many w host pre items)) u = (q, v)"
        then show "tried items u q v"
        proof (rule tried_andthen [OF _ require_keeps iu])
          fix x a assume "andthen (lift (em_host cfg)) (\<lambda>host. ingest_many w host pre items) a = (q, v)" "saved a = None"
          then show "tried items a q v"
            by (rule tried_andthen [OF _ keeps_now(3) [OF frame_preorders(6)]]) (rule ingest_tried [OF _ _ cl])
        qed
      qed
    qed
  qed
qed

section \<open>What an emission does\<close>

definition same_files :: "disk \<Rightarrow> disk \<Rightarrow> bool" where
  "same_files s s' \<longleftrightarrow> pend s' = pend s \<and> claims s' = claims s \<and> quar s' = quar s"

text \<open>The file a spooled batch becomes.\<close>

definition spooled_file :: "world \<Rightarrow> string \<Rightarrow> obj list \<Rightarrow> string \<Rightarrow> spool_file" where
  "spooled_file w now captured msg = file_of w (spool_entry now (map JObj captured) msg)"

definition wrote :: "world \<Rightarrow> emit_config \<Rightarrow> obj list \<Rightarrow> disk \<Rightarrow> disk \<Rightarrow> bool" where
  "wrote w cfg captured s s' \<longleftrightarrow> claims s' = claims s \<and> quar s' = quar s \<and> (\<exists>now msg.
     pend s' = alist_set (spool_name (em_depth cfg) (map JObj captured)) (spooled_file w now captured msg) (pend s))"

definition delivered :: "world \<Rightarrow> emit_config \<Rightarrow> bool \<Rightarrow> obj list \<Rightarrow> item list \<Rightarrow> disk \<Rightarrow> plane_error + emit_outcome list \<Rightarrow> disk \<Rightarrow> bool" where
  "delivered w cfg rc captured items s r s' \<longleftrightarrow>
     saved (conn s') = None \<and> no_new_faults (conn s) (conn s')
     \<and> (\<forall>it. event_in (db (conn s)) it \<longrightarrow> event_in (db (conn s')) it)
     \<and> (same_files s s' \<or> \<not> rc \<and> wrote w cfg captured s s')
     \<and> (case r of
          Inl e \<Rightarrow> db (conn s') = db (conn s) \<or> doubtful (conn s)
        | Inr outs \<Rightarrow>
            same_files s s' \<and> list_all (event_in (db (conn s'))) items \<and> list_all (\<lambda>x. eo_status x \<noteq> Spooled) outs
            \<or> (db (conn s') = db (conn s) \<or> doubtful (conn s))
              \<and> (\<exists>now msg. (spool_name (em_depth cfg) (map JObj captured), spooled_file w now captured msg) \<in> set (pend s'))
              \<and> map eo_id outs = map (\<lambda>c. text_of (fld c ''event_id'')) captured \<and> list_all (\<lambda>x. eo_status x = Spooled) outs)"

lemma outcome_status: "list_all (\<lambda>x. eo_status x \<noteq> Spooled) (map outcome_of rs)"
  by (induction rs) (simp_all add: outcome_of_def)

lemma spool_write_Inr:
  assumes "spool_write w n at' reqs msg s = (Inr p, s')"
  shows "conn s' = conn s \<and> (spool_name n reqs, file_of w (spool_entry at' reqs msg)) \<in> set (pend s')"
proof -
  from assms obtain u where q: "quiet_op s = (Inr (), u)"
    and e: "effect (put_pend (spool_name n reqs) (file_of w (spool_entry at' reqs msg))) u = (Inr (), s')"
    by (auto simp: spool_write_def catching_def andthen_Inr split: prod.splits sum.splits if_splits)
  from quiet_Inr [OF q] effect_Inr [OF e] show ?thesis
    by (auto simp: put_pend_def alist_set_new)
qed

lemma spool_write_conn: "keeps (\<lambda>s s'. conn s' = conn s) (spool_write w n at' reqs msg)"
proof -
  let ?R = "\<lambda>s s'. conn s' = conn s"
  have p: "transp ?R" "reflp ?R" by (auto intro: transpI reflpI)
  have e: "keeps ?R (effect f)" if f: "\<And>s. conn (f s) = conn s" for f
  proof (rule keepsI)
    fix s r s' assume "effect f s = (r, s')"
    then show "conn s' = conn s" unfolding effect_def by (cases rule: disk_op_cases) (simp_all add: f)
  qed
  have q: "keeps ?R quiet_op" unfolding quiet_op_def by (rule e) simp
  have pp: "keeps ?R (effect (put_pend m c))" for m c by (rule e) (simp add: put_pend_def)
  show ?thesis unfolding spool_write_def
    by (intro keeps_if keeps_now catching_keeps keeps_andthen p q pp)
qed

lemma same_files_refl [simp]: "same_files s s"
  by (simp add: same_files_def)

lemma spool_write_files:
  assumes "spool_write w n at' reqs msg s = (r, s')"
  shows "same_files s s' \<or> claims s' = claims s \<and> quar s' = quar s
    \<and> pend s' = alist_set (spool_name n reqs) (file_of w (spool_entry at' reqs msg)) (pend s)"
proof -
  let ?f = "file_of w (spool_entry at' reqs msg)"
  have q: "same_files s t" if "quiet_op s = (x, t)" for x t
    using that unfolding quiet_op_def effect_def by (elim disk_op_cases) (simp_all add: same_files_def)
  have p: "same_files t u \<or> claims u = claims t \<and> quar u = quar t \<and> pend u = alist_set (spool_name n reqs) ?f (pend t)"
    if "effect (put_pend (spool_name n reqs) ?f) t = (x, u)" for t x u
    using that unfolding effect_def by (elim disk_op_cases) (simp_all add: same_files_def put_pend_def)
  from assms consider "s' = s" | x where "andthen quiet_op (\<lambda>_. andthen (effect (put_pend (spool_name n reqs) ?f)) (\<lambda>_. ret (spool_name n reqs))) s = (x, s')"
    by (auto simp: spool_write_def catching_def split: prod.splits sum.splits if_splits)
  then show ?thesis
  proof cases
    case 2
    then show ?thesis
    proof (cases rule: andthen_cases)
      case (went y t)
      from q [OF went(1)] have st: "same_files s t" .
      from went(2) obtain z where "effect (put_pend (spool_name n reqs) ?f) t = (z, s')" by (auto elim: andthen_cases)
      from p [OF this] st show ?thesis by (auto simp: same_files_def)
    qed (use q in blast)
  qed simp
qed

lemma spool_batch_delivered:
  assumes b: "spool_batch w cfg captured msg s = (r, s')" and idle: "saved (conn s) = None"
  shows "delivered w cfg False captured items s r s'"
proof -
  let ?t = "s\<lparr>conn := (conn s)\<lparr>ticks := Suc (ticks (conn s))\<rparr>\<rparr>"
  have w: "andthen (spool_write w (em_depth cfg) (w_now w (ticks (conn s))) (map JObj captured) msg) (\<lambda>path.
      ret (map (\<lambda>c. \<lparr>eo_id = text_of (fld c ''event_id''), eo_status = Spooled, eo_detail = Some path\<rparr>) captured)) ?t = (r, s')"
    using b by (simp add: spool_batch_def andthen_def [of "on_db _"] on_db_now)
  then have c: "conn s' = conn ?t"
    by (cases rule: andthen_cases) (auto dest: keepsD [OF spool_write_conn])
  have db: "db (conn s') = db (conn s)" "saved (conn s') = None" "no_new_faults (conn s) (conn s')"
    using idle by (simp_all add: c no_new_faults_def)
  from w obtain z where "spool_write w (em_depth cfg) (w_now w (ticks (conn s))) (map JObj captured) msg ?t = (z, s')"
    by (auto elim: andthen_cases)
  from spool_write_files [OF this] have fs: "same_files s s' \<or> wrote w cfg captured s s'"
    by (auto simp: same_files_def wrote_def spooled_file_def)
  show ?thesis
  proof (cases r)
    case (Inl e)
    with db fs show ?thesis by (simp add: delivered_def)
  next
    case (Inr outs)
    with w obtain path where p: "spool_write w (em_depth cfg) (w_now w (ticks (conn s))) (map JObj captured) msg ?t = (Inr path, s')"
      and o': "outs = map (\<lambda>c. \<lparr>eo_id = text_of (fld c ''event_id''), eo_status = Spooled, eo_detail = Some path\<rparr>) captured"
      by (auto simp: andthen_Inr)
    have "map eo_id outs = map (\<lambda>c. text_of (fld c ''event_id'')) captured \<and> list_all (\<lambda>x. eo_status x = Spooled) outs"
      unfolding o' by (induction captured) auto
    with spool_write_Inr [OF p] db Inr fs show ?thesis
      unfolding delivered_def spooled_file_def by auto
  qed
qed

lemma same_files_trans: "same_files s t \<Longrightarrow> same_files t u \<Longrightarrow> same_files s u"
  by (simp add: same_files_def)

text \<open>A failed attempt, then the rest.\<close>

lemma delivered_after:
  assumes "tried items (conn s) (Inl e) (conn t)" "same_files s t" "delivered w cfg rc captured items t r s'"
  shows "delivered w cfg rc captured items s r s'"
proof -
  have nf: "no_new_faults (conn s) (conn s')"
    using assms(1,3) transpD [OF no_new_trans(1), of "conn s" "conn t" "conn s'"] by (simp add: tried_def delivered_def)
  have dm: "doubtful (conn t) \<Longrightarrow> doubtful (conn s)" using assms(1) doubtful_mono by (auto simp: tried_def)
  have db: "db (conn s') = db (conn t) \<or> doubtful (conn t) \<Longrightarrow> db (conn s') = db (conn s) \<or> doubtful (conn s)"
    using assms(1) dm by (auto simp: tried_def)
  have sf: "same_files t s' \<Longrightarrow> same_files s s'" using assms(2) same_files_trans by blast
  have wf: "wrote w cfg captured t s' \<Longrightarrow> wrote w cfg captured s s'"
    using assms(2) by (simp add: same_files_def wrote_def)
  show ?thesis using assms(1,3) nf db sf wf unfolding delivered_def tried_def by (auto split: sum.splits)
qed

lemma delivered_now:
  assumes "tried items (conn s) q (conn t)" "same_files s t"
    "case q of Inl e \<Rightarrow> r = Inl e | Inr rs \<Rightarrow> r = Inr (map outcome_of rs)"
  shows "delivered w cfg rc captured items s r t"
  using assms outcome_status by (auto simp: delivered_def tried_def split: sum.splits)

lemma after_attempt_outcome:
  assumes a: "after_attempt w cfg rc captured next_try q t = (r, s')" and tq: "tried items (conn s) q (conn t)" and sf: "same_files s t"
    and nx: "\<And>m. next_try = Some m \<Longrightarrow> m t = (r, s') \<Longrightarrow> delivered w cfg rc captured items t r s'"
  shows "delivered w cfg rc captured items s r s'"
proof (cases "\<exists>c msg. q = Inl (Operational_Error c msg) \<and> is_retryable c msg")
  case False
  with a have "s' = t" "case q of Inl e \<Rightarrow> r = Inl e | Inr rs \<Rightarrow> r = Inr (map outcome_of rs)"
    by (auto simp: after_attempt_def split: sum.splits plane_error.splits if_splits)
  with delivered_now [OF tq sf] show ?thesis by simp
next
  case True
  then obtain c msg where q: "q = Inl (Operational_Error c msg)" "is_retryable c msg" by blast
  note tf = tq [unfolded q(1)]
  show ?thesis
  proof (cases "is_transient_lock c msg \<and> next_try \<noteq> None")
    case True
    with a q obtain m where "next_try = Some m" "m t = (r, s')" by (auto simp: after_attempt_def)
    from delivered_after [OF tf sf nx [OF this]] show ?thesis .
  next
    case False
    show ?thesis
    proof (cases rc)
      case True
      with a q False have "s' = t" "r = Inl (Operational_Error c msg)" by (auto simp: after_attempt_def)
      with delivered_now [OF tq sf] q show ?thesis by simp
    next
      case nrc: False
      with a q False have "spool_batch w cfg captured msg t = (r, s')" by (auto simp: after_attempt_def)
      moreover have "saved (conn t) = None" using tq by (simp add: tried_def)
      ultimately have "delivered w cfg False captured items t r s'" by (rule spool_batch_delivered)
      with delivered_after [OF tf sf] nrc show ?thesis by simp
    qed
  qed
qed

lemma on_db_attempt:
  assumes "on_db (attempt w cfg pre items) s = (q, t)" "saved (conn s) = None" "list_all classed items"
  shows "tried items (conn s) q (conn t) \<and> same_files s t"
  using assms attempt_tried [OF _ assms(2,3)] by (auto simp: on_db_def same_files_def split: prod.splits)

lemma deliver_outcome:
  "deliver k w cfg rc pre captured items s = (r, s') \<Longrightarrow> saved (conn s) = None \<Longrightarrow> list_all classed items
     \<Longrightarrow> delivered w cfg rc captured items s r s'"
proof (induction k arbitrary: s)
  case 0
  obtain q t where t: "on_db (attempt w cfg pre items) s = (q, t)" by (cases "on_db (attempt w cfg pre items) s")
  with 0 have "after_attempt w cfg rc captured None q t = (r, s')" by simp
  with on_db_attempt [OF t 0(2,3)] show ?case by (auto intro: after_attempt_outcome)
next
  case (Suc k)
  obtain q t where t: "on_db (attempt w cfg pre items) s = (q, t)" by (cases "on_db (attempt w cfg pre items) s")
  from on_db_attempt [OF t Suc.prems(2,3)] have tq: "tried items (conn s) q (conn t)" "same_files s t" by simp_all
  then have idle: "saved (conn t) = None" by (simp add: tried_def)
  from Suc.prems t have "after_attempt w cfg rc captured (Some (deliver k w cfg rc pre captured items)) q t = (r, s')" by simp
  then show ?case using tq by (rule after_attempt_outcome) (use Suc.IH [OF _ idle Suc.prems(3)] in auto)
qed

text \<open>What the whole door does, for the requests as they came.\<close>

lemma emit_outcome:
  assumes e: "emit_batch w cfg rc pre reqs s = (r, s')" and idle: "saved (conn s) = None"
  shows "(\<exists>err. r = Inl err \<and> db (conn s') = db (conn s) \<and> saved (conn s') = None \<and> same_files s s')
    \<or> (\<exists>captured items t. list_all2 carries reqs (map JObj captured) \<and> same_files s t \<and> same_db (conn s) (conn t)
        \<and> validate_all (validate_request (w_sha w) (w_lax w)) (map JObj captured) = Some items
        \<and> delivered w cfg rc captured items t r s')"
proof (cases "pre \<noteq> None \<and> \<not> rc")
  case True
  with e idle show ?thesis by (intro disjI1) (auto simp: emit_batch_def same_files_def)
next
  case False
  obtain p c where p: "prepare_each w (em_capture cfg) None reqs (conn s) = (p, c)" by (cases "prepare_each w (em_capture cfg) None reqs (conn s)")
  from keepsD [OF prepare_each_keeps p] have k: "same_db (conn s) c" .
  show ?thesis
  proof (cases p)
    case (Inl err)
    with e p False k have "r = Inl err" "s' = s\<lparr>conn := c\<rparr>" by (auto simp: emit_batch_def andthen_def on_db_def)
    with k idle show ?thesis by (simp add: same_db_def same_files_def)
  next
    case (Inr ci)
    then obtain captured items where ci: "p = Inr (captured, items)" by (cases ci) auto
    from prepare_each_carries [OF p [unfolded ci]]
    have v: "validate_all (validate_request (w_sha w) (w_lax w)) (map JObj captured) = Some items"
      and l: "list_all2 carries reqs (map JObj captured)" by simp_all
    let ?t = "s\<lparr>conn := c\<rparr>"
    have "emit_batch w cfg rc pre reqs s = deliver (LOCK_RETRY_ATTEMPTS - 1) w cfg rc pre captured items ?t"
      using False unfolding emit_batch_def if_not_P [OF False] by (simp add: andthen_def on_db_def p ci)
    with e have "deliver (LOCK_RETRY_ATTEMPTS - 1) w cfg rc pre captured items ?t = (r, s')" by simp
    moreover have "saved (conn ?t) = None" using k idle by (simp add: same_db_def)
    ultimately have "delivered w cfg rc captured items ?t r s'" using validate_all_classed [OF v] by (rule deliver_outcome)
    with v l k show ?thesis by (intro disjI2 exI [of _ captured] exI [of _ items] exI [of _ ?t]) (simp add: same_files_def)
  qed
qed

section \<open>Properties\<close>

text \<open>Any number of drains, by any processes, with any faults and kills.\<close>

definition drain_step :: "world \<Rightarrow> disk \<Rightarrow> disk \<Rightarrow> bool" where
  "drain_step w s s' \<longleftrightarrow> (\<exists>host cfg r. drain w host cfg s = (r, s'))"

lemma drains_keep: "(drain_step w)\<^sup>*\<^sup>* s s' \<Longrightarrow> keeps_batches same_batch s s'"
proof (induction rule: rtranclp_induct)
  case base
  show ?case using content.keeps_batches_preorder(2) by (rule reflpD)
next
  case (step t u)
  from step(2) have "keeps_batches same_batch t u" unfolding drain_step_def using content.drain_kept by blast
  with step(3) show ?case by (rule content.kept_trans)
qed

lemma spooled_requests: "parsed (spooled_file w now captured msg) = Loaded (spool_entry now (map JObj captured) msg)"
    "requests_of (spool_entry now (map JObj captured) msg) = map JObj captured"
  by (simp_all add: spooled_file_def file_of_def requests_of_def spool_entry_def)

lemma delivered_safe:
  assumes "delivered w cfg rc captured items t (Inr outs) s'"
    "validate_all (validate_request (w_sha w) (w_lax w)) (map JObj captured) = Some items" "captured \<noteq> []"
  shows "\<exists>now msg. safe same_batch (spool_name (em_depth cfg) (map JObj captured)) (spooled_file w now captured msg) s'"
proof (cases "\<exists>now msg. (spool_name (em_depth cfg) (map JObj captured), spooled_file w now captured msg) \<in> set (pend s')")
  case True
  then obtain now msg where "spooled_file w now captured msg \<in> held (spool_name (em_depth cfg) (map JObj captured)) s'"
    by (auto simp: held_def)
  then show ?thesis unfolding safe_def using content.sim_refl by blast
next
  case False
  with assms(1) have "list_all (event_in (db (conn s'))) items" by (auto simp: delivered_def)
  with validated_in [OF assms(2)] assms(3) have "in_db (db (conn s')) (spooled_file w now captured msg)" for now msg
    by (simp add: in_db_def spooled_requests)
  then show ?thesis by (auto simp: safe_def)
qed

text \<open>
  C3. What a caller was told is kept. When the door answers a batch of requests, committed,
  duplicate or spooled, then after any number of drains, whatever fails in them and wherever they are
  killed, every event of the batch is recorded in the database, or a file with the whole batch is
  still in the queue, claimed or in quarantine. The batch is the requests as they came, in order,
  each with its class and the id it had.
\<close>

theorem acknowledged_survives:
  assumes "emit_batch w cfg rc pre reqs s = (Inr outs, s1)" "saved (conn s) = None" "spool_ok same_batch s1" "(drain_step w)\<^sup>*\<^sup>* s1 s2"
    and "reqs \<noteq> []"
  shows "\<exists>captured now msg. list_all2 carries reqs (map JObj captured)
    \<and> safe same_batch (spool_name (em_depth cfg) (map JObj captured)) (spooled_file w now captured msg) s2"
proof -
  from emit_outcome [OF assms(1,2)] obtain captured items t where l: "list_all2 carries reqs (map JObj captured)"
    and v: "validate_all (validate_request (w_sha w) (w_lax w)) (map JObj captured) = Some items"
    and d: "delivered w cfg rc captured items t (Inr outs) s1" by auto
  from l assms(5) have "captured \<noteq> []" by auto
  from delivered_safe [OF d v this] drains_keep [OF assms(4)] assms(3) l show ?thesis
    unfolding keeps_batches_def by blast
qed

text \<open>A plane that is there, its database read-only for a while, and a process that reports a receipt.\<close>

definition sample_emit :: emit_config where
  "sample_emit = \<lparr>em_capture = Absent, em_version = Some 14, em_host = Inr ''host'', em_borrowed = False, em_depth = 3\<rparr>"

definition readonly_disk :: disk where
  "readonly_disk = (sample_disk [])\<lparr>conn := fresh_session\<lparr>faults := [Fails (Operational_Error (Some 8) ''attempt to write a readonly database'')]\<rparr>\<rparr>"

definition sample_reports :: "json list" where
  "sample_reports = [sample_request ''transmission'' sample_transmission]"

definition sample_spooled :: "(plane_error + emit_outcome list) \<times> disk" where
  "sample_spooled = emit_batch sample_world sample_emit False None sample_reports readonly_disk"

lemma sample_spooled_once:
  "(case sample_spooled of (r, s) \<Rightarrow> ((case r of Inr outs \<Rightarrow> map eo_status outs = [Spooled] | Inl e \<Rightarrow> False),
      length (pend s), claims s = [], quar s = [], saved (conn s) = None)) = (True, 1, True, True, True)"
  by code_simp

lemma sample_spooled_facts:
  "(case fst sample_spooled of Inr outs \<Rightarrow> map eo_status outs = [Spooled] | Inl e \<Rightarrow> False)
   \<and> length (pend (snd sample_spooled)) = 1 \<and> claims (snd sample_spooled) = [] \<and> quar (snd sample_spooled) = []
   \<and> saved (conn (snd sample_spooled)) = None"
  using sample_spooled_once by (simp add: split_def)

lemma acknowledged_survives_witness:
  "\<exists>captured now msg. list_all2 carries sample_reports (map JObj captured)
    \<and> safe same_batch (spool_name (em_depth sample_emit) (map JObj captured)) (spooled_file sample_world now captured msg)
        (snd (drain sample_world ''host'' sample_drain (snd sample_spooled)))"
proof (rule acknowledged_survives)
  show "sample_reports \<noteq> []" by (simp add: sample_reports_def)
  from sample_spooled_facts have "\<exists>outs. fst sample_spooled = Inr outs" by (cases "fst sample_spooled") auto
  then show "emit_batch sample_world sample_emit False None sample_reports readonly_disk = (Inr (projr (fst sample_spooled)), snd sample_spooled)"
    unfolding sample_spooled_def by (metis prod.collapse sum.sel(2))
  show "saved (conn readonly_disk) = None" by (simp add: readonly_disk_def fresh_simps)
  from sample_spooled_facts obtain nc where "pend (snd sample_spooled) = [nc]" by (auto simp: length_Suc_conv)
  with sample_spooled_facts show "spool_ok same_batch (snd sample_spooled)" by (cases nc) (auto simp: spool_ok_def held_def)
  show "(drain_step sample_world)\<^sup>*\<^sup>* (snd sample_spooled) (snd (drain sample_world ''host'' sample_drain (snd sample_spooled)))"
    unfolding drain_step_def by (intro r_into_rtranclp) (metis prod.collapse)
qed

text \<open>
  C16. A refused batch leaves nothing behind: the database is as it was, unless a COMMIT failed and
  took effect or the process was interrupted after it, and no file was written where the caller
  asked for a commit or nothing, so that a condition it checked is never replayed later.
\<close>

theorem refused_writes_nothing:
  assumes "emit_batch w cfg rc pre reqs s = (Inl e, s')" "saved (conn s) = None"
  shows "(db (conn s') = db (conn s) \<or> doubtful (conn s)) \<and> (rc \<or> pre \<noteq> None \<longrightarrow> same_files s s') \<and> saved (conn s') = None"
proof -
  have np: "pre \<noteq> None \<and> \<not> rc \<Longrightarrow> same_files s s'" using assms(1) by (auto simp: emit_batch_def same_files_def)
  from emit_outcome [OF assms] show ?thesis
  proof (elim disjE exE conjE)
    fix captured items t assume t: "same_files s t" "same_db (conn s) (conn t)" and d: "delivered w cfg rc captured items t (Inl e) s'"
    from t(2) have "doubtful (conn t) \<Longrightarrow> doubtful (conn s)" using doubtful_mono by (auto simp: same_db_def)
    with d t np same_files_trans show ?thesis by (auto simp: delivered_def same_db_def)
  qed simp
qed

lemma refused_writes_nothing_witness:
  "same_files readonly_disk (snd (emit_batch sample_world sample_emit True None sample_reports readonly_disk))
   \<and> saved (conn (snd (emit_batch sample_world sample_emit True None sample_reports readonly_disk))) = None"
proof -
  let ?e = "Operational_Error (Some 8) ''attempt to write a readonly database''"
  have idle: "saved (conn readonly_disk) = None" by (simp add: readonly_disk_def fresh_simps)
  have "fst (emit_batch sample_world sample_emit True None sample_reports readonly_disk) = Inl ?e" by code_simp
  then have "emit_batch sample_world sample_emit True None sample_reports readonly_disk
    = (Inl ?e, snd (emit_batch sample_world sample_emit True None sample_reports readonly_disk))" by (metis prod.collapse)
  from refused_writes_nothing [OF this idle] show ?thesis by simp
qed

end
