(* ===== verification/Staged.thy ===== *)
theory Staged
  imports Emit
begin

text \<open>
  The second way into the plane: a client without the package's start-up cost hands its batch to the
  daemon's socket, and where that fails leaves it as a file of the staged queue
  (\<open>claudlobby/_runtime_scripts/plane-socket-client.py\<close>); the daemon answers requests and replays
  the queue through the same door (\<open>claudlobby/plane/daemon.py\<close>).

  The queue is beside the spool, so the state is the spool's disk with the staged files and the rows
  of \<open>.emit-losses\<close>. Every operation consults the oracle \<open>io\<close> of the disk. A file becomes
  whole in one write: a stager killed within it leaves the file empty.
\<close>

section \<open>The queue\<close>

record depot =
  dk :: disk
  staged :: "(string \<times> spool_file) list"
  losses :: "(string \<times> string) list"

definition depot_op :: "(depot, 'a) st \<Rightarrow> (depot, 'a) st" where
  "depot_op f s =
     (case io (dk s) of [] \<Rightarrow> f s
      | Runs # fs \<Rightarrow> f (s\<lparr>dk := (dk s)\<lparr>io := fs\<rparr>\<rparr>)
      | Fails e # fs \<Rightarrow> (Inl e, s\<lparr>dk := (dk s)\<lparr>io := fs\<rparr>\<rparr>)
      | Runs_And_Fails e # fs \<Rightarrow> (Inl e, snd (f (s\<lparr>dk := (dk s)\<lparr>io := fs\<rparr>\<rparr>))))"

definition depot_effect :: "(depot \<Rightarrow> depot) \<Rightarrow> (depot, unit) st" where
  "depot_effect f = depot_op (\<lambda>s. (Inr (), f s))"

definition quiet_depot :: "(depot, unit) st" where
  "quiet_depot = depot_effect (\<lambda>s. s)"

definition on_disk :: "(disk, 'a) st \<Rightarrow> (depot, 'a) st" where
  "on_disk m s = (case m (dk s) of (r, d) \<Rightarrow> (r, s\<lparr>dk := d\<rparr>))"

definition put_staged :: "string \<Rightarrow> spool_file \<Rightarrow> depot \<Rightarrow> depot" where
  "put_staged name c s = s\<lparr>staged := alist_set name c (staged s)\<rparr>"

definition drop_staged :: "string \<Rightarrow> depot \<Rightarrow> depot" where
  "drop_staged name s = s\<lparr>staged := alist_pop name (staged s)\<rparr>"

text \<open>\<open>os.replace\<close> within the queue.\<close>

definition rename_staged :: "string \<Rightarrow> string \<Rightarrow> depot \<Rightarrow> depot" where
  "rename_staged tmp name s =
     (case map_of (staged s) tmp of None \<Rightarrow> s | Some c \<Rightarrow> put_staged name c (drop_staged tmp s))"

definition add_loss :: "string \<Rightarrow> string \<Rightarrow> depot \<Rightarrow> depot" where
  "add_loss kind detail s = s\<lparr>losses := losses s @ [(kind, detail)]\<rparr>"

text \<open>\<open>endswith((".batch", ".tmp"))\<close>.\<close>

definition staged_payload :: "string \<Rightarrow> bool" where
  "staged_payload name \<longleftrightarrow> ends_with name ''.batch'' \<or> ends_with name ''.tmp''"

definition staged_orphan :: "string \<Rightarrow> bool" where
  "staged_orphan name \<longleftrightarrow> starts_with name ''.'' \<and> ends_with name ''.tmp''"

definition staged_usage :: "depot \<Rightarrow> nat \<times> int" where
  "staged_usage s =
     (let fs = filter (\<lambda>nc. staged_payload (fst nc)) (staged s) in
      (length fs, sum_list (map (\<lambda>nc. utf8_len (raw (snd nc))) fs)))"

section \<open>Staging a batch\<close>

record client_config =
  cl_capture :: config_file
  cl_policy :: bool
  cl_depth :: "nat option"
  cl_stage_to :: bool
  cl_only :: bool
  cl_pid :: nat
  cl_ns :: nat

definition STAGED_MAX_BATCHES :: nat where
  "STAGED_MAX_BATCHES = 2000"

definition STAGED_MAX_BYTES :: int where
  "STAGED_MAX_BYTES = 32 * 1024 * 1024"

definition empty_file :: spool_file where
  "empty_file = \<lparr>raw = [], parsed = Not_Json\<rparr>"

definition batch_name :: "client_config \<Rightarrow> string \<Rightarrow> string \<Rightarrow> string" where
  "batch_name cl lead tg = nat_text (cl_ns cl) @ ''-'' @ lead @ tg @ ''.batch''"

definition temp_name :: "client_config \<Rightarrow> string \<Rightarrow> string" where
  "temp_name cl name = ''.'' @ name @ ''.'' @ nat_text (cl_pid cl) @ ''.tmp''"

text \<open>\<open>except BaseException: unlink; raise\<close>, which a kill does not reach.\<close>

definition or_unlink :: "string \<Rightarrow> (depot, 'a) st \<Rightarrow> (depot, 'a) st" where
  "or_unlink tmp m s =
     (case m s of (Inr x, t) \<Rightarrow> (Inr x, t)
      | (Inl e, t) \<Rightarrow>
          if e = Killed then (Inl Killed, t)
          else (case catching is_os_error (depot_effect (drop_staged tmp)) (\<lambda>e'. ret ()) t of
              (Inr u, v) \<Rightarrow> (Inl e, v) | (Inl e', v) \<Rightarrow> (Inl e', v)))"

definition create_temp :: "string \<Rightarrow> (depot, unit) st" where
  "create_temp tmp = depot_op (\<lambda>s.
     if map_of (staged s) tmp \<noteq> None then (Inl (Os_Error ''file exists''), s) else (Inr (), put_staged tmp empty_file s))"

text \<open>The answer is whether there was room.\<close>

definition stage :: "client_config \<Rightarrow> spool_file \<Rightarrow> string \<Rightarrow> string \<Rightarrow> (depot, bool) st" where
  "stage cl f lead tg =
     (let name = batch_name cl lead tg; tmp = temp_name cl name in
      andthen quiet_depot (\<lambda>_. andthen quiet_depot (\<lambda>_. andthen quiet_depot (\<lambda>_.
      andthen (depot_op (\<lambda>s. (Inr (staged_usage s), s))) (\<lambda>(count, size).
        if STAGED_MAX_BATCHES \<le> count \<or> STAGED_MAX_BYTES < size + (utf8_len (raw f) - 1) then ret False
        else andthen (create_temp tmp) (\<lambda>_.
          or_unlink tmp (
            andthen quiet_depot (\<lambda>_.
            andthen (depot_effect (put_staged tmp f)) (\<lambda>_.
            andthen quiet_depot (\<lambda>_.
            andthen (depot_effect (rename_staged tmp name)) (\<lambda>_.
            andthen quiet_depot (\<lambda>_. ret True))))))))))))"

text \<open>Best-effort: whatever goes wrong, the exit stays.\<close>

definition record_loss :: "string \<Rightarrow> string \<Rightarrow> (depot, unit) st" where
  "record_loss kind detail = catching (\<lambda>e. e \<noteq> Killed) (depot_effect (add_loss kind detail)) (\<lambda>e. ret ())"

definition lossy :: "string \<Rightarrow> string \<Rightarrow> (depot, nat) st" where
  "lossy kind detail = andthen (record_loss kind detail) (\<lambda>_. ret 3)"

definition staged_file :: "world \<Rightarrow> obj list \<Rightarrow> spool_file" where
  "staged_file w events = file_of w (JObj [(''events'', JArr (map JObj events))])"

definition stage_pending :: "world \<Rightarrow> client_config \<Rightarrow> obj list \<Rightarrow> (depot, nat) st" where
  "stage_pending w cl finalized =
     (if \<not> cl_stage_to cl then ret 5
      else if \<not> cl_policy cl then lossy ''stage_refused'' ''capture policy module unavailable''
      else case apply_to_batch (w_sha w) (cl_capture cl) finalized of
          Inl (Config_Invalid m) \<Rightarrow> lossy ''stage_refused'' ''capture.json unreadable or invalid''
        | Inl _ \<Rightarrow> ret 2
        | Inr captured \<Rightarrow>
            catching is_os_error
             (andthen (stage cl (staged_file w captured) (text_of (fld (hd finalized) ''event_id''))
                 (case cl_depth cl of None \<Rightarrow> [] | Some d \<Rightarrow> name_tag d (map JObj captured))) (\<lambda>room.
               if room then ret 7 else lossy ''staged_full'' ''staged queue full''))
             (\<lambda>e. lossy ''stage_failed'' ''staged write failed''))"

section \<open>The daemon's answer\<close>

definition refusal :: "string \<Rightarrow> json" where
  "refusal kind = JObj [(''ok'', JBool False), (''code'', JStr kind)]"

definition status_text :: "emit_status \<Rightarrow> string" where
  "status_text st = (case st of Committed \<Rightarrow> ''committed'' | Duplicate \<Rightarrow> ''duplicate'' | Spooled \<Rightarrow> ''spooled'')"

definition result_json :: "emit_outcome \<Rightarrow> json" where
  "result_json oc = JObj ([(''event_id'', JStr (eo_id oc)), (''status'', JStr (status_text (eo_status oc)))]
     @ (case eo_detail oc of None \<Rightarrow> [] | Some d \<Rightarrow> if d = [] then [] else [(''detail'', JStr d)]))"

definition emit_request :: "json \<Rightarrow> json list option" where
  "emit_request j = (case jget j ''events'' of JArr es \<Rightarrow> if es \<noteq> [] \<and> list_all is_obj es then Some es else None | _ \<Rightarrow> None)"

text \<open>The reply, where the request came to one; a newer database also ends the daemon, after its answer.\<close>

definition reply_for :: "plane_error + emit_outcome list \<Rightarrow> json option" where
  "reply_for r =
     (case r of
        Inl (Capture_Invalid m) \<Rightarrow> Some (refusal ''capture_config'')
      | Inl (Contract_Error m) \<Rightarrow> Some (refusal ''contract_violation'')
      | Inl (Spool_Write_Err m) \<Rightarrow> Some (refusal ''total_failure'')
      | Inl (Downgrade_Err m) \<Rightarrow> Some (refusal ''downgrade'')
      | Inl Killed \<Rightarrow> None
      | Inl _ \<Rightarrow> Some (refusal ''internal'')
      | Inr outcomes \<Rightarrow> Some (JObj [(''ok'', JBool True), (''results'', JArr (map result_json outcomes))]))"

definition handle :: "world \<Rightarrow> emit_config \<Rightarrow> json \<Rightarrow> disk \<Rightarrow> json option \<times> disk" where
  "handle w ec j s =
     (case emit_request j of None \<Rightarrow> (Some (refusal ''bad_request''), s)
      | Some events \<Rightarrow> (case emit_batch w ec False None events s of (r, t) \<Rightarrow> (reply_for r, t)))"

section \<open>The client\<close>

text \<open>What becomes of the request: not delivered, delivered with its answer lost or late, answered.\<close>

datatype link = Unreachable | Reply_Lost | Answered

definition client_finalize :: "world \<Rightarrow> obj \<Rightarrow> obj act" where
  "client_finalize w e =
     andthen (if truthy (fld e ''event_id'') then ret e
       else andthen (mint_hex w) (\<lambda>h. ret (alist_set ''event_id'' (JStr (''ev_'' @ h)) e))) (\<lambda>a.
     if truthy (fld a ''occurred_at'') then ret a
     else andthen (now_iso w) (\<lambda>now. ret (alist_set ''occurred_at'' (JStr now) a)))"

fun finalize_each :: "world \<Rightarrow> obj list \<Rightarrow> obj list act" where
  "finalize_each w [] = ret []"
| "finalize_each w (e # es) = andthen (client_finalize w e) (\<lambda>a. andthen (finalize_each w es) (\<lambda>as. ret (a # as)))"

text \<open>An acknowledgement is believed only where it names every event of the batch, in order.\<close>

definition result_fits :: "json \<Rightarrow> obj \<Rightarrow> bool" where
  "result_fits r e \<longleftrightarrow> is_obj r \<and> jget r ''event_id'' = fld e ''event_id''
     \<and> jget r ''status'' \<in> JStr ` {''committed'', ''duplicate'', ''spooled''}"

definition verdict :: "world \<Rightarrow> client_config \<Rightarrow> obj list \<Rightarrow> json \<Rightarrow> (depot, nat) st" where
  "verdict w cl finalized resp =
     (if truthy (jget resp ''ok'') then
        (case jget resp ''results'' of
           JArr results \<Rightarrow>
             if \<not> list_all2 result_fits results finalized then stage_pending w cl finalized
             else ret (if \<exists>r \<in> set results. jget r ''status'' = JStr ''spooled'' then 6 else 0)
         | _ \<Rightarrow> stage_pending w cl finalized)
      else if jget resp ''code'' = JStr ''downgrade'' then stage_pending w cl finalized
      else if jget resp ''code'' = JStr ''capture_config'' then
        (if cl_stage_to cl then lossy ''stage_refused'' ''capture.json unreadable or invalid'' else ret 3)
      else if jget resp ''code'' \<in> JStr ` {''contract_violation'', ''bad_request''} then ret 2
      else if jget resp ''code'' = JStr ''total_failure'' then ret 3
      else stage_pending w cl finalized)"

definition send :: "world \<Rightarrow> client_config \<Rightarrow> emit_config \<Rightarrow> link \<Rightarrow> obj list \<Rightarrow> (depot, nat) st" where
  "send w cl ec lk finalized s =
     (if lk = Unreachable then stage_pending w cl finalized s
      else case handle w ec (JObj [(''events'', JArr (map JObj finalized))]) (dk s) of (reply, d) \<Rightarrow>
        (case (lk, reply) of
           (Answered, Some resp) \<Rightarrow> verdict w cl finalized resp (s\<lparr>dk := d\<rparr>)
         | _ \<Rightarrow> stage_pending w cl finalized (s\<lparr>dk := d\<rparr>)))"

text \<open>\<open>parsed["events"] if isinstance(parsed, dict) else parsed\<close>, a non-empty list of objects.\<close>

definition batch_of :: "json \<Rightarrow> obj list option" where
  "batch_of j =
     (case (if is_obj j then jget j ''events'' else j) of
        JArr es \<Rightarrow> if es \<noteq> [] \<and> list_all is_obj es then Some (map obj_of es) else None
      | _ \<Rightarrow> None)"

definition client :: "world \<Rightarrow> client_config \<Rightarrow> emit_config \<Rightarrow> link \<Rightarrow> json \<Rightarrow> (depot, nat) st" where
  "client w cl ec lk j =
     (case batch_of j of None \<Rightarrow> ret 2
      | Some events \<Rightarrow>
          andthen (on_disk (on_db (finalize_each w events))) (\<lambda>finalized.
            if cl_only cl then andthen (stage_pending w cl finalized) (\<lambda>x. ret (if x = 7 then 6 else x))
            else send w cl ec lk finalized))"

section \<open>Replaying the queue\<close>

record replay_config =
  rp_emit :: emit_config
  rp_approved :: "(string \<times> string) list option"
  rp_max :: "nat option"
  rp_late :: "nat \<Rightarrow> bool"
  rp_aged :: "string \<Rightarrow> bool"
  rp_gone :: "nat \<Rightarrow> bool"

record replay_report =
  rr_attempted :: nat
  rr_committed :: nat
  rr_duplicates :: nat
  rr_spooled :: nat
  rr_quarantined :: nat
  rr_lost :: nat
  rr_limited :: bool
  rr_refused :: "string list"
  rr_error :: "plane_error option"

text \<open>\<open>Path.stem\<close>, and the name a set-aside batch gets.\<close>

definition path_stem :: "string \<Rightarrow> string" where
  "path_stem name =
     (let suffix = after_last CHR ''.'' name; i = length name - length suffix - 1 in
      if suffix \<noteq> [] \<and> length suffix < length name \<and> 0 < i then take i name else name)"

definition quarantine_name :: "string \<Rightarrow> string" where
  "quarantine_name name = dropWhile (\<lambda>c. c = CHR ''.'') (path_stem name) @ ''.json''"

text \<open>\<open>_ORPHAN_WRITER.fullmatch\<close>: the pid in a temp's name.\<close>

definition orphan_writer :: "string \<Rightarrow> nat option" where
  "orphan_writer name =
     (if \<not> ends_with name ''.tmp'' then None
      else let body = take (length name - 4) name; pid = after_last CHR ''.'' body; front = take (length body - length pid) body in
        if pid = [] \<or> \<not> list_all is_digit pid \<or> \<not> ends_with front ''.batch.'' \<or> CHR ''/'' \<in> set front then None
        else (case Option.bind (after_text ''.'' (take (length front - 7) front)) after_digits of
            Some (c # lead) \<Rightarrow> if c = CHR ''-'' \<and> lead \<noteq> [] then map_option nat (unsigned_value pid) else None
          | _ \<Rightarrow> None))"

definition never_written :: "replay_config \<Rightarrow> string \<Rightarrow> spool_file \<Rightarrow> bool" where
  "never_written cfg name c \<longleftrightarrow> raw c = [] \<and> (case orphan_writer name of None \<Rightarrow> False | Some pid \<Rightarrow> 1 < pid \<and> rp_gone cfg pid)"

text \<open>The row first; without it the file stays for the quarantine.\<close>

definition count_lost_stage :: "string \<Rightarrow> (depot, bool) st" where
  "count_lost_stage name =
     catching is_os_error
       (andthen (depot_effect (add_loss ''stage_empty'' name)) (\<lambda>_.
        andthen (catching is_os_error (depot_effect (drop_staged name)) (\<lambda>e. ret ())) (\<lambda>_. ret True)))
       (\<lambda>e. ret False)"

definition move_staged :: "string \<Rightarrow> depot \<Rightarrow> depot" where
  "move_staged name s =
     (case map_of (staged s) name of None \<Rightarrow> s
      | Some c \<Rightarrow> drop_staged name (s\<lparr>dk := (dk s)\<lparr>quar := alist_set (quarantine_name name) c (quar (dk s))\<rparr>\<rparr>))"

definition quarantine_staged :: "string \<Rightarrow> string \<Rightarrow> (depot, unit) st" where
  "quarantine_staged name reason =
     andthen quiet_depot (\<lambda>_.
     andthen (depot_effect (\<lambda>s. s\<lparr>dk := (dk s)\<lparr>reasons := alist_set (quarantine_name name) reason (reasons (dk s))\<rparr>\<rparr>)) (\<lambda>_.
     andthen quiet_depot (\<lambda>_.
     andthen (depot_effect (move_staged name)) (\<lambda>_.
     andthen quiet_depot (\<lambda>_. quiet_depot)))))"

definition read_staged :: "string \<Rightarrow> (depot, spool_file) st" where
  "read_staged name = depot_op (\<lambda>s.
     case map_of (staged s) name of None \<Rightarrow> (Inl (Os_Error ''no such file''), s) | Some c \<Rightarrow> (Inr c, s))"

text \<open>\<open>json.loads(content)["events"]\<close>, a non-empty list.\<close>

definition batch_events :: "spool_file \<Rightarrow> plane_error + json list" where
  "batch_events c =
     (case parsed c of
        Loaded (JObj kvs) \<Rightarrow>
          (case map_of kvs ''events'' of
             None \<Rightarrow> Inl (Key_Err ''events'')
           | Some (JArr es) \<Rightarrow> if es = [] then Inl (Value_Err ''staged events must be a non-empty list'') else Inr es
           | Some _ \<Rightarrow> Inl (Value_Err ''staged events must be a non-empty list''))
      | Loaded _ \<Rightarrow> Inl (Type_Err ''indices must be integers'')
      | Not_Json \<Rightarrow> Inl (Value_Err ''no JSON'')
      | Not_Text \<Rightarrow> Inl (Value_Err ''invalid start byte''))"

datatype fate = Not_Approved | Lost_Stage | Replayed "emit_outcome list" | Set_Aside | Paused plane_error

text \<open>The \<open>try\<close>: reading, checking and emitting one file.\<close>

definition replay_attempt :: "world \<Rightarrow> replay_config \<Rightarrow> string \<Rightarrow> (depot, fate) st" where
  "replay_attempt w cfg name =
     andthen (read_staged name) (\<lambda>c.
       if (case rp_approved cfg of None \<Rightarrow> False | Some a \<Rightarrow> map_of a name \<noteq> Some (w_sha w (raw c))) then ret Not_Approved
       else andthen (if ends_with name ''.tmp'' \<and> never_written cfg name c then count_lost_stage name else ret False) (\<lambda>lost.
         if lost then ret Lost_Stage
         else andthen (lift (batch_events c)) (\<lambda>events.
           andthen (on_disk (emit_batch w (rp_emit cfg) (rp_approved cfg \<noteq> None) None events)) (\<lambda>outs. ret (Replayed outs)))))"

definition replay_failed :: "string \<Rightarrow> plane_error \<Rightarrow> (depot, fate) st" where
  "replay_failed name e =
     (case e of
        Downgrade_Err m \<Rightarrow> raise e
      | Killed \<Rightarrow> raise e
      | Contract_Error m \<Rightarrow> andthen (quarantine_staged name ''contract violation on replay'') (\<lambda>_. ret Set_Aside)
      | Value_Err m \<Rightarrow> andthen (quarantine_staged name ''malformed batch on replay'') (\<lambda>_. ret Set_Aside)
      | Canon_Error m \<Rightarrow> andthen (quarantine_staged name ''malformed batch on replay'') (\<lambda>_. ret Set_Aside)
      | Key_Err m \<Rightarrow> andthen (quarantine_staged name ''malformed batch on replay'') (\<lambda>_. ret Set_Aside)
      | Type_Err m \<Rightarrow> andthen (quarantine_staged name ''malformed batch on replay'') (\<lambda>_. ret Set_Aside)
      | _ \<Rightarrow> ret (Paused e))"

text \<open>A replayed file is removed, missing or not; \<open>after_batch\<close> checkpoints the WAL.\<close>

definition replay_file :: "world \<Rightarrow> replay_config \<Rightarrow> string \<Rightarrow> (depot, fate) st" where
  "replay_file w cfg name s =
     (case replay_attempt w cfg name s of
        (Inl e, t) \<Rightarrow> replay_failed name e t
      | (Inr (Replayed outs), t) \<Rightarrow> andthen (depot_effect (drop_staged name)) (\<lambda>_. ret (Replayed outs)) t
      | (Inr x, t) \<Rightarrow> (Inr x, t))"

definition counted :: "string \<Rightarrow> fate \<Rightarrow> replay_report \<Rightarrow> replay_report" where
  "counted name x rep =
     (let rep = rep\<lparr>rr_attempted := Suc (rr_attempted rep)\<rparr> in
      case x of
        Not_Approved \<Rightarrow> rep\<lparr>rr_refused := rr_refused rep @ [name]\<rparr>
      | Lost_Stage \<Rightarrow> rep\<lparr>rr_lost := Suc (rr_lost rep)\<rparr>
      | Set_Aside \<Rightarrow> rep\<lparr>rr_quarantined := Suc (rr_quarantined rep)\<rparr>
      | Paused e \<Rightarrow> rep\<lparr>rr_error := Some e\<rparr>
      | Replayed outs \<Rightarrow>
          if list_ex (\<lambda>oc. eo_status oc = Spooled) outs then rep\<lparr>rr_spooled := Suc (rr_spooled rep)\<rparr>
          else if list_all (\<lambda>oc. eo_status oc = Duplicate) outs then rep\<lparr>rr_duplicates := Suc (rr_duplicates rep)\<rparr>
          else rep\<lparr>rr_committed := Suc (rr_committed rep)\<rparr>)"

definition replay_stops :: "replay_config \<Rightarrow> nat \<Rightarrow> (depot, bool) st" where
  "replay_stops cfg attempted s =
     (if (case rp_max cfg of None \<Rightarrow> False | Some m \<Rightarrow> m \<le> attempted) then (Inr True, s)
      else (Inr (rp_late cfg (looks (dk s))), s\<lparr>dk := (dk s)\<lparr>looks := Suc (looks (dk s))\<rparr>\<rparr>))"

fun replay_each_file :: "world \<Rightarrow> replay_config \<Rightarrow> string list \<Rightarrow> replay_report \<Rightarrow> (depot, replay_report) st" where
  "replay_each_file w cfg [] rep = ret rep"
| "replay_each_file w cfg (name # names) rep =
     (if (case rp_approved cfg of None \<Rightarrow> False | Some a \<Rightarrow> map_of a name = None) then replay_each_file w cfg names rep
      else andthen (replay_stops cfg (rr_attempted rep)) (\<lambda>stop.
        if stop then ret (rep\<lparr>rr_limited := True\<rparr>)
        else andthen (replay_file w cfg name) (\<lambda>x.
          case x of Paused e \<Rightarrow> ret (counted name x rep) | _ \<Rightarrow> replay_each_file w cfg names (counted name x rep))))"

text \<open>The order of a pass: batches that may hold a transmission, the other batches, the aged orphans.\<close>

definition replay_order :: "replay_config \<Rightarrow> string list \<Rightarrow> string list" where
  "replay_order cfg names =
     sort_key (\<lambda>n. (\<not> may_hold_any_transmission n, n)) (filter (\<lambda>n. ends_with n ''.batch'') names)
     @ sort (filter (\<lambda>n. staged_orphan n \<and> rp_aged cfg n) names)"

definition new_report :: "replay_config \<Rightarrow> string list \<Rightarrow> replay_report" where
  "new_report cfg batches =
     \<lparr>rr_attempted = 0, rr_committed = 0, rr_duplicates = 0, rr_spooled = 0, rr_quarantined = 0, rr_lost = 0, rr_limited = False,
      rr_refused = (case rp_approved cfg of None \<Rightarrow> [] | Some a \<Rightarrow> sort (filter (\<lambda>n. n \<notin> set batches) (remdups (map fst a)))),
      rr_error = None\<rparr>"

definition list_staged :: "replay_config \<Rightarrow> (depot, string list option) st" where
  "list_staged cfg =
     catching is_os_error
       (andthen quiet_depot (\<lambda>_. depot_op (\<lambda>s. (Inr (Some (replay_order cfg (map fst (staged s)))), s))))
       (\<lambda>e. ret None)"

definition replay_staged :: "world \<Rightarrow> replay_config \<Rightarrow> (depot, replay_report) st" where
  "replay_staged w cfg =
     andthen (list_staged cfg) (\<lambda>batches.
       case batches of None \<Rightarrow> ret ((new_report cfg [])\<lparr>rr_refused := [], rr_error := Some (Os_Error ''staged queue'')\<rparr>)
       | Some names \<Rightarrow> replay_each_file w cfg names (new_report cfg names))"

end
