(* ===== verification/Staged_Safety.thy ===== *)
theory Staged_Safety
  imports Staged
begin

text \<open>
  What the staged queue keeps. A batch is the list of the classes and ids of its events; it is kept
  when a staged file carries it, when a file of the spool or of the quarantine does, or when its
  events are in the database. \<open>life\<close> lets clients, replays and drains follow one another in any
  order, with any faults and kills.

  Names carry random ids, nanoseconds and pids, so that no two batches share one. That is said by a
  \<open>book\<close>, an assignment of batches to names: \<open>orderly\<close> states hold under each name only what the
  book has there.
\<close>

section \<open>Batches and names\<close>

type_synonym pairs = "(json \<times> json) list"
type_synonym book = "string \<Rightarrow> (pairs \<times> pairs) option"

definition stands :: "pairs \<Rightarrow> spool_file \<Rightarrow> bool" where
  "stands I c \<longleftrightarrow> batch_ids c = Some (I, []) \<or> batch_ids c = Some ([], I)"

definition stored_in :: "pairs \<Rightarrow> disk \<Rightarrow> bool" where
  "stored_in I d \<longleftrightarrow> (\<exists>n. \<exists>c \<in> held n d. stands I c) \<or> list_all (pair_in (db (conn d))) I"

definition kept :: "pairs \<Rightarrow> depot \<Rightarrow> bool" where
  "kept I s \<longleftrightarrow> (\<exists>n c. map_of (staged s) n = Some c \<and> batch_ids c = Some ([], I)) \<or> stored_in I (dk s)"

text \<open>Every event has an id, as the client gives it one.\<close>

definition identified :: "pairs \<Rightarrow> bool" where
  "identified I \<longleftrightarrow> list_all (\<lambda>ti. truthy (snd ti)) I"

text \<open>A staged file is entered under the name it would be set aside with and under those it can be spooled with.\<close>

definition entered :: "book \<Rightarrow> nat \<Rightarrow> string \<Rightarrow> spool_file \<Rightarrow> bool" where
  "entered book d n c \<longleftrightarrow> (raw c = [] \<longrightarrow> batch_ids c = None) \<and> book (quarantine_name n) = batch_ids c
     \<and> (\<forall>es cs. batch_events c = Inr es \<longrightarrow> list_all2 carries es (map JObj cs)
          \<longrightarrow> book (spool_name d (map JObj cs)) = Some (request_ids (map JObj cs), []))"

definition filed :: "book \<Rightarrow> disk \<Rightarrow> bool" where
  "filed book d \<longleftrightarrow> saved (conn d) = None \<and> (\<forall>n. \<forall>c \<in> held n d. batch_ids c = book n)"

definition orderly :: "book \<Rightarrow> nat \<Rightarrow> depot \<Rightarrow> bool" where
  "orderly book d s \<longleftrightarrow> filed book (dk s) \<and> (\<forall>n c. map_of (staged s) n = Some c \<longrightarrow> entered book d n c)"

definition preserves :: "book \<Rightarrow> nat \<Rightarrow> depot \<Rightarrow> depot \<Rightarrow> bool" where
  "preserves book d s s' \<longleftrightarrow> (orderly book d s \<longrightarrow> orderly book d s' \<and> (\<forall>I. identified I \<longrightarrow> kept I s \<longrightarrow> kept I s'))"

lemma preserves_preorder: "transp (preserves book d)" "reflp (preserves book d)"
  by (auto intro!: transpI reflpI simp: preserves_def)

lemmas preserves_trans = transpD [OF preserves_preorder(1)]

lemma preserves_refl [simp]: "preserves book d s s"
  using preserves_preorder(2) by (rule reflpD)

section \<open>Ids\<close>

lemma request_ids_simps [simp]: "request_ids [] = []"
  "request_ids (r # rs) = (jget r ''event_type'', jget r ''event_id'') # request_ids rs"
  by (simp_all add: request_ids_def)

lemma carried_ids: "list_all2 carries rs cs \<Longrightarrow> identified (request_ids rs) \<Longrightarrow> request_ids cs = request_ids rs"
  by (induction rule: list_all2_induct) (auto simp: carries_def identified_def)

lemma carried_complete: "list_all2 carries rs cs \<Longrightarrow> identified (request_ids cs)"
  by (induction rule: list_all2_induct) (auto simp: carries_def identified_def)

lemma batch_events_ids: "batch_events c = Inr es \<Longrightarrow> batch_ids c = Some (I, J) \<Longrightarrow> J = request_ids es"
  by (auto simp: batch_events_def batch_ids_def staged_events_def jget.simps split: loaded.splits json.splits option.splits if_splits)

lemma spooled_ids: "batch_ids (spooled_file w now captured msg) = Some (request_ids (map JObj captured), [])"
proof -
  have "staged_events (spool_entry now rs msg) = []" for rs by (simp add: staged_events_def spool_entry_def jget.simps)
  then show ?thesis by (simp add: batch_ids_def spooled_requests)
qed

lemma staged_ids: "batch_ids (staged_file w es) = Some ([], request_ids (map JObj es))"
  by (simp add: batch_ids_def staged_file_def file_of_def requests_of_def staged_events_def jget.simps)

lemma pair_in_grows: "(\<And>it. event_in d it \<Longrightarrow> event_in d' it) \<Longrightarrow> pair_in d p \<Longrightarrow> pair_in d' p"
  by (auto simp: pair_in_def)

lemma pairs_in_grow:
  "(\<And>it. event_in d it \<Longrightarrow> event_in d' it) \<Longrightarrow> list_all (pair_in d) I \<Longrightarrow> list_all (pair_in d') I"
  using pair_in_grows by (metis list_all_iff)

section \<open>An emission, by its files\<close>

definition spools :: "world \<Rightarrow> nat \<Rightarrow> json list \<Rightarrow> disk \<Rightarrow> disk \<Rightarrow> bool" where
  "spools w n reqs d d' \<longleftrightarrow> claims d' = claims d \<and> quar d' = quar d \<and> (\<exists>captured now msg. list_all2 carries reqs (map JObj captured)
     \<and> pend d' = alist_set (spool_name n (map JObj captured)) (spooled_file w now captured msg) (pend d))"

lemma validated_pairs:
  "validate_all (validate_request sha x) rs = Some items \<Longrightarrow> list_all (event_in d) items \<Longrightarrow> list_all (pair_in d) (request_ids rs)"
  using validated_in requests_in by metis

lemma emission:
  assumes e: "emit_batch w ec rc None reqs d = (r, d')" and idle: "saved (conn d) = None"
  shows "saved (conn d') = None \<and> (\<forall>it. event_in (db (conn d)) it \<longrightarrow> event_in (db (conn d')) it)
    \<and> (same_files d d' \<or> spools w (em_depth ec) reqs d d')"
proof -
  from emit_outcome [OF e idle] show ?thesis
  proof (elim disjE exE conjE)
    fix captured items t
    assume l: "list_all2 carries reqs (map JObj captured)" and t: "same_files d t" "same_db (conn d) (conn t)"
      and dl: "delivered w ec rc captured items t r d'"
    from dl t(1) l have "same_files d d' \<or> spools w (em_depth ec) reqs d d'"
      unfolding delivered_def wrote_def spools_def by (auto simp: same_files_def)
    with dl t show ?thesis by (auto simp: delivered_def same_db_def)
  qed simp
qed

lemma emission_stores:
  assumes e: "emit_batch w ec rc None reqs d = (Inr outs, d')" and idle: "saved (conn d) = None"
    and c: "identified (request_ids reqs)"
  shows "stored_in (request_ids reqs) d'"
proof -
  from emit_outcome [OF e idle] obtain captured items t where l: "list_all2 carries reqs (map JObj captured)"
    and v: "validate_all (validate_request (w_sha w) (w_lax w)) (map JObj captured) = Some items"
    and dl: "delivered w ec rc captured items t (Inr outs) d'" by auto
  note ids = carried_ids [OF l c]
  show ?thesis
  proof (cases "list_all (event_in (db (conn d'))) items")
    case True
    with validated_pairs [OF v] show ?thesis by (simp add: stored_in_def ids)
  next
    case False
    with dl obtain n now msg where "spooled_file w now captured msg \<in> held n d'" by (auto simp: delivered_def held_def)
    moreover have "stands (request_ids reqs) (spooled_file w now captured msg)" by (simp add: stands_def spooled_ids ids)
    ultimately show ?thesis unfolding stored_in_def by blast
  qed
qed

lemma held_spools:
  assumes "spools w n reqs d d'"
  shows "\<exists>captured now msg. list_all2 carries reqs (map JObj captured)
    \<and> (\<forall>m c. c \<in> held m d' \<longrightarrow> c \<in> held m d \<or> m = spool_name n (map JObj captured) \<and> c = spooled_file w now captured msg)
    \<and> (\<forall>m. held m d \<noteq> {} \<longrightarrow> held m d' \<noteq> {})"
proof -
  from assms obtain captured now msg where s: "list_all2 carries reqs (map JObj captured)" "claims d' = claims d" "quar d' = quar d"
    "pend d' = alist_set (spool_name n (map JObj captured)) (spooled_file w now captured msg) (pend d)"
    by (auto simp: spools_def)
  have "held m d' \<noteq> {}" if "held m d \<noteq> {}" for m
  proof -
    from that obtain x where x: "x \<in> held m d" by blast
    show ?thesis
    proof (cases "m = spool_name n (map JObj captured)")
      case True
      then have "spooled_file w now captured msg \<in> held m d'" by (simp add: held_def s alist_set_new)
      then show ?thesis by blast
    next
      case False
      with x have "x \<in> held m d'" by (auto simp: held_def s alist_set_other)
      then show ?thesis by blast
    qed
  qed
  moreover have "c \<in> held m d \<or> m = spool_name n (map JObj captured) \<and> c = spooled_file w now captured msg"
    if "c \<in> held m d'" for m c
    using that by (auto simp: held_def s dest: alist_set_sub)
  ultimately show ?thesis using s(1) by blast
qed

lemma held_same: "same_files d d' \<Longrightarrow> held n d' = held n d"
  by (simp add: same_files_def held_def)

text \<open>What is stored stays stored where no name loses its files and the database only grows.\<close>

lemma stored_stays:
  assumes "filed book d" "filed book d'" "\<And>n. held n d \<noteq> {} \<Longrightarrow> held n d' \<noteq> {}"
    "\<And>it. event_in (db (conn d)) it \<Longrightarrow> event_in (db (conn d')) it" "stored_in I d"
  shows "stored_in I d'"
proof (cases "list_all (pair_in (db (conn d))) I")
  case True
  then show ?thesis using pairs_in_grow [OF assms(4)] by (simp add: stored_in_def)
next
  case False
  with assms(5) obtain n c where c: "c \<in> held n d" "stands I c" by (auto simp: stored_in_def)
  with assms(3) obtain c' where c': "c' \<in> held n d'" by blast
  from c c' assms(1,2) have "batch_ids c' = batch_ids c" by (auto simp: filed_def)
  with c c' show ?thesis unfolding stored_in_def stands_def by metis
qed

section \<open>Operations on the queue\<close>

lemma depot_op_cases:
  assumes "depot_op f s = (r, s')"
  obtains (failed) e fs where "r = Inl e" "s' = s\<lparr>dk := (dk s)\<lparr>io := fs\<rparr>\<rparr>"
    | (worked) fs where "s' = snd (f (s\<lparr>dk := (dk s)\<lparr>io := fs\<rparr>\<rparr>))" "r = fst (f (s\<lparr>dk := (dk s)\<lparr>io := fs\<rparr>\<rparr>)) \<or> (\<exists>e. r = Inl e)"
proof (cases "io (dk s)")
  case Nil
  then have "s = s\<lparr>dk := (dk s)\<lparr>io := []\<rparr>\<rparr>" by simp
  then have "f s = f (s\<lparr>dk := (dk s)\<lparr>io := []\<rparr>\<rparr>)" by simp
  with Nil assms show thesis using worked [of "[]"] by (auto simp: depot_op_def)
next
  case (Cons a fs)
  with assms show thesis using failed worked [of fs]
    by (cases a) (auto simp: depot_op_def split: prod.splits)
qed

lemma depot_effect_Inr: "depot_effect f s = (Inr u, s') \<Longrightarrow> \<exists>fs. s' = f (s\<lparr>dk := (dk s)\<lparr>io := fs\<rparr>\<rparr>)"
  unfolding depot_effect_def by (elim depot_op_cases) auto

lemma depot_op_keeps:
  assumes "\<And>s fs. R s (s\<lparr>dk := (dk s)\<lparr>io := fs\<rparr>\<rparr>)" "\<And>s fs. R s (snd (f (s\<lparr>dk := (dk s)\<lparr>io := fs\<rparr>\<rparr>)))"
  shows "keeps R (depot_op f)"
  using assms by (intro keepsI) (metis depot_op_cases)

lemma depot_effect_at:
  assumes "depot_effect f s = (r, s')" "\<And>fs. R s (s\<lparr>dk := (dk s)\<lparr>io := fs\<rparr>\<rparr>)" "\<And>fs. R s (f (s\<lparr>dk := (dk s)\<lparr>io := fs\<rparr>\<rparr>))"
  shows "R s s'"
  using assms(1) unfolding depot_effect_def by (cases rule: depot_op_cases) (use assms(2,3) in auto)

lemma depot_effect_keeps:
  "(\<And>s fs. R s (s\<lparr>dk := (dk s)\<lparr>io := fs\<rparr>\<rparr>)) \<Longrightarrow> (\<And>s fs. R s (f (s\<lparr>dk := (dk s)\<lparr>io := fs\<rparr>\<rparr>))) \<Longrightarrow> keeps R (depot_effect f)"
  by (intro keepsI) (erule depot_effect_at)

lemma held_io [simp]: "held n (d\<lparr>io := fs\<rparr>) = held n d" "held n (d\<lparr>looks := k\<rparr>) = held n d" "held n (d\<lparr>reasons := x\<rparr>) = held n d"
  by (simp_all add: held_def)

lemma stored_io [simp]: "stored_in I (d\<lparr>io := fs\<rparr>) = stored_in I d" "stored_in I (d\<lparr>looks := k\<rparr>) = stored_in I d"
    "stored_in I (d\<lparr>reasons := x\<rparr>) = stored_in I d"
  by (simp_all add: stored_in_def)

lemma filed_io [simp]: "filed book (d\<lparr>io := fs\<rparr>) = filed book d" "filed book (d\<lparr>looks := k\<rparr>) = filed book d"
    "filed book (d\<lparr>reasons := x\<rparr>) = filed book d"
  by (simp_all add: filed_def)

lemma preserves_disk:
  assumes "filed book (dk s) \<Longrightarrow> filed book d' \<and> (\<forall>I. stored_in I (dk s) \<longrightarrow> stored_in I d')"
  shows "preserves book d s (s\<lparr>dk := d'\<rparr>)"
  using assms by (auto simp: preserves_def orderly_def kept_def)

lemma preserves_io [simp]: "preserves book d s (s\<lparr>dk := (dk s)\<lparr>io := fs\<rparr>\<rparr>)"
  by (rule preserves_disk) simp

lemma quiet_depot_keeps: "keeps (preserves book d) quiet_depot"
  unfolding quiet_depot_def by (rule depot_effect_keeps) simp_all

lemma drop_staged_preserves:
  assumes "\<And>c I. map_of (staged s) n = Some c \<Longrightarrow> identified I \<Longrightarrow> batch_ids c = Some ([], I) \<Longrightarrow> stored_in I (dk s)"
  shows "preserves book d s (drop_staged n s)"
proof -
  have st: "map_of (staged (drop_staged n s)) m = (if m = n then None else map_of (staged s) m)" "dk (drop_staged n s) = dk s" for m
    by (simp_all add: drop_staged_def)
  have "kept I (drop_staged n s)" if i: "identified I" and k: "kept I s" for I
  proof (cases "stored_in I (dk s)")
    case False
    with k obtain m c where m: "map_of (staged s) m = Some c" "batch_ids c = Some ([], I)" by (auto simp: kept_def)
    with assms [OF _ i] False have "m \<noteq> n" by auto
    with m show ?thesis by (auto simp: kept_def st)
  qed (simp add: kept_def st)
  then show ?thesis by (simp add: preserves_def orderly_def st)
qed

lemma preserves_after_io: "preserves book d (s\<lparr>dk := (dk s)\<lparr>io := fs\<rparr>\<rparr>) s' \<Longrightarrow> preserves book d s s'"
  using preserves_trans preserves_io by blast

lemma move_staged_preserves: "preserves book d s (move_staged n s)"
proof (cases "map_of (staged s) n")
  case None
  then show ?thesis by (simp add: move_staged_def)
next
  case (Some c)
  let ?q = "quarantine_name n"
  let ?d = "(dk s)\<lparr>quar := alist_set ?q c (quar (dk s))\<rparr>"
  have has: "c \<in> held ?q ?d" by (simp add: held_def alist_set_new)
  have sub: "x \<in> held m (dk s) \<or> m = ?q \<and> x = c" if "x \<in> held m ?d" for m x
    using that by (auto simp: held_def dest: alist_set_sub)
  have mono: "held m ?d \<noteq> {}" if "held m (dk s) \<noteq> {}" for m
  proof (cases "m = ?q")
    case False
    from that obtain x where "x \<in> held m (dk s)" by blast
    with False have "x \<in> held m ?d" by (auto simp: held_def alist_set_other)
    then show ?thesis by blast
  qed (use has in blast)
  have "preserves book d s (s\<lparr>dk := ?d\<rparr>)" unfolding preserves_def
  proof (intro impI conjI allI)
    assume o: "orderly book d s"
    with Some have c: "book ?q = batch_ids c" by (auto simp: orderly_def entered_def)
    have f: "filed book ?d" using o sub c by (fastforce simp: filed_def orderly_def)
    with o show "orderly book d (s\<lparr>dk := ?d\<rparr>)" by (simp add: orderly_def)
    fix I assume "kept I s"
    moreover have "stored_in I (dk s) \<Longrightarrow> stored_in I ?d"
      using o f mono by (intro stored_stays [of book "dk s" ?d]) (auto simp: orderly_def)
    ultimately show "kept I (s\<lparr>dk := ?d\<rparr>)" by (auto simp: kept_def)
  qed
  moreover have "preserves book d (s\<lparr>dk := ?d\<rparr>) (drop_staged n (s\<lparr>dk := ?d\<rparr>))"
  proof (rule drop_staged_preserves)
    fix c' I assume "map_of (staged (s\<lparr>dk := ?d\<rparr>)) n = Some c'" "batch_ids c' = Some ([], I)"
    with Some have "stands I c" by (simp add: stands_def)
    with has show "stored_in I (dk (s\<lparr>dk := ?d\<rparr>))" unfolding stored_in_def by auto
  qed
  ultimately show ?thesis using preserves_trans by (simp add: move_staged_def Some)
qed

lemmas queue_rules = keeps_andthen preserves_preorder quiet_depot_keeps keeps_now [OF preserves_preorder(2)] keeps_if

lemma quarantine_staged_keeps: "keeps (preserves book d) (quarantine_staged n reason)"
proof -
  have noted: "keeps (preserves book d) (depot_effect (\<lambda>s. s\<lparr>dk := (dk s)\<lparr>reasons := alist_set (quarantine_name n) reason (reasons (dk s))\<rparr>\<rparr>))"
    by (rule depot_effect_keeps) (auto intro!: preserves_disk)
  have moved: "keeps (preserves book d) (depot_effect (move_staged n))"
    by (rule depot_effect_keeps) (simp, rule preserves_after_io [OF move_staged_preserves])
  show ?thesis unfolding quarantine_staged_def by (intro queue_rules noted moved)
qed

lemma replay_failed_keeps: "keeps (preserves book d) (replay_failed n e)"
  unfolding replay_failed_def by (cases e) (simp_all del: raise_simp ret_simp, (intro queue_rules quarantine_staged_keeps)+)

section \<open>A replay\<close>

text \<open>The door, called from the queue: the spool entry it may write is one the book has.\<close>

lemma emit_preserves:
  assumes e: "emit_batch w ec rc None es (dk s) = (r, d')" and dd: "em_depth ec = d"
    and bk: "\<And>cs. list_all2 carries es (map JObj cs) \<Longrightarrow> book (spool_name d (map JObj cs)) = Some (request_ids (map JObj cs), [])"
  shows "preserves book d s (s\<lparr>dk := d'\<rparr>)"
proof (rule preserves_disk)
  assume f: "filed book (dk s)"
  then have "saved (conn (dk s)) = None" by (simp add: filed_def)
  from emission [OF e this] have sv: "saved (conn d') = None"
    and gr: "\<And>it. event_in (db (conn (dk s))) it \<Longrightarrow> event_in (db (conn d')) it"
    and files: "same_files (dk s) d' \<or> spools w d es (dk s) d'" unfolding dd by auto
  from files have "filed book d' \<and> (\<forall>n. held n (dk s) \<noteq> {} \<longrightarrow> held n d' \<noteq> {})"
  proof
    assume "same_files (dk s) d'"
    with f sv show ?thesis by (simp add: filed_def held_same)
  next
    assume "spools w d es (dk s) d'"
    from held_spools [OF this] obtain captured now msg where l: "list_all2 carries es (map JObj captured)"
      and h: "\<And>m c. c \<in> held m d' \<Longrightarrow> c \<in> held m (dk s) \<or> m = spool_name d (map JObj captured) \<and> c = spooled_file w now captured msg"
      and m: "\<forall>n. held n (dk s) \<noteq> {} \<longrightarrow> held n d' \<noteq> {}" by blast
    have "batch_ids c = book n" if "c \<in> held n d'" for n c
      using h [OF that] f bk [OF l] by (auto simp: filed_def spooled_ids)
    with sv m show ?thesis by (simp add: filed_def)
  qed
  with stored_stays [OF f _ _ gr] show "filed book d' \<and> (\<forall>I. stored_in I (dk s) \<longrightarrow> stored_in I d')" by blast
qed

lemma count_lost_preserves:
  assumes "count_lost_stage n s = (r, s')" and e: "\<And>c. map_of (staged s) n = Some c \<Longrightarrow> batch_ids c = None"
  shows "preserves book d s s'"
proof -
  have noted: "preserves book d s t \<and> staged t = staged s" if "depot_effect (add_loss k n) s = (q, t)" for k q t
    using that by (rule depot_effect_at) (auto simp: add_loss_def preserves_def orderly_def kept_def)
  have dropped: "preserves book d t u" if "staged t = staged s" "depot_effect (drop_staged n) t = (q, u)" for t q u
    using that(2) by (rule depot_effect_at)
      (auto intro!: preserves_after_io [OF drop_staged_preserves] simp: that(1) e)
  have cleared: "preserves book d t u" if "staged t = staged s" "catching is_os_error (depot_effect (drop_staged n)) (\<lambda>e. ret ()) t = (q, u)" for t q u
    using that dropped by (fastforce simp: catching_def split: prod.splits sum.splits if_splits)
  let ?m = "andthen (depot_effect (add_loss ''stage_empty'' n)) (\<lambda>_. andthen (catching is_os_error (depot_effect (drop_staged n)) (\<lambda>e. ret ())) (\<lambda>_. ret True))"
  have "preserves book d s t" if "?m s = (q, t)" for q t
    using that
  proof (cases rule: andthen_cases)
    case (went x u)
    note n = noted [OF went(1)]
    from went(2) obtain y where "catching is_os_error (depot_effect (drop_staged n)) (\<lambda>e. ret ()) u = (y, t)"
      by (auto elim: andthen_cases)
    from cleared [OF _ this] n show ?thesis using preserves_trans by blast
  qed (use noted in blast)
  with assms(1) show ?thesis by (auto simp: count_lost_stage_def catching_def split: prod.splits sum.splits if_splits)
qed

text \<open>A lost stage that could not be counted is still there.\<close>

lemma count_lost_not:
  assumes "count_lost_stage n s = (Inr lost, s')" "\<not> lost" "map_of (staged s) n = Some c"
  shows "map_of (staged s') n = Some c"
proof -
  have noted: "staged t = staged s" if "depot_effect (add_loss k n) s = (q, t)" for k q t
    using that by (rule depot_effect_at [where R = "\<lambda>s t. staged t = staged s"]) (simp_all add: add_loss_def)
  let ?k = "\<lambda>_. andthen (catching is_os_error (depot_effect (drop_staged n)) (\<lambda>e. ret ())) (\<lambda>_. ret True)"
  have cleared: "\<not> is_os_error e" if "catching is_os_error (depot_effect (drop_staged n)) (\<lambda>e. ret ()) t = (Inl e, u)" for t e u
    using that by (auto simp: catching_def split: prod.splits sum.splits if_splits)
  from assms(1,2) obtain e where "andthen (depot_effect (add_loss ''stage_empty'' n)) ?k s = (Inl e, s')" "is_os_error e"
    by (auto simp: count_lost_stage_def catching_def andthen_Inr split: prod.splits sum.splits if_splits)
  then have "\<exists>q. depot_effect (add_loss ''stage_empty'' n) s = (q, s')"
    by (cases rule: andthen_cases) (use cleared in \<open>auto elim!: andthen_cases\<close>)
  with noted assms(3) show ?thesis by auto
qed

text \<open>After the attempt a file is there with its batch stored, or everything is as before.\<close>

lemma read_staged_found: "read_staged n s = (Inr c, t) \<Longrightarrow> map_of (staged s) n = Some c \<and> (\<exists>fs. t = s\<lparr>dk := (dk s)\<lparr>io := fs\<rparr>\<rparr>)"
  unfolding read_staged_def by (elim depot_op_cases) (auto split: option.splits)

lemma read_staged_keeps: "keeps (preserves book d) (read_staged n)"
  unfolding read_staged_def by (rule depot_op_keeps) (auto split: option.split)

lemma replay_emits:
  assumes e: "andthen (lift (batch_events c)) (\<lambda>es. andthen (on_disk (emit_batch w ec rc None es)) (\<lambda>outs. ret (Replayed outs))) s = (r, t)"
    and o: "orderly book d s" and dd: "em_depth ec = d" and c: "map_of (staged s) n = Some c"
  shows "preserves book d s t \<and> staged t = staged s
    \<and> (\<forall>outs. r = Inr (Replayed outs) \<longrightarrow> (\<forall>I. identified I \<longrightarrow> batch_ids c = Some ([], I) \<longrightarrow> stored_in I (dk t)))"
proof (cases "batch_events c")
  case (Inl x)
  with e show ?thesis by (auto simp: andthen_def)
next
  case (Inr es)
  obtain q d' where em: "emit_batch w ec rc None es (dk s) = (q, d')" by (cases "emit_batch w ec rc None es (dk s)")
  with e Inr have t: "t = s\<lparr>dk := d'\<rparr>" and q: "\<And>outs. r = Inr (Replayed outs) \<Longrightarrow> q = Inr outs"
    by (auto simp: andthen_def on_disk_def split: sum.splits)
  from o c Inr have bk: "\<And>cs. list_all2 carries es (map JObj cs) \<Longrightarrow> book (spool_name d (map JObj cs)) = Some (request_ids (map JObj cs), [])"
    by (auto simp: orderly_def entered_def)
  have "preserves book d s t" unfolding t by (rule emit_preserves [OF em dd bk])
  moreover have "stored_in I (dk t)" if "r = Inr (Replayed outs)" "identified I" "batch_ids c = Some ([], I)" for outs I
  proof -
    from batch_events_ids [OF Inr that(3)] have I: "I = request_ids es" .
    from o have "saved (conn (dk s)) = None" by (simp add: orderly_def filed_def)
    from emission_stores [OF em [unfolded q [OF that(1)]] this] that(2) show ?thesis by (simp add: I t)
  qed
  ultimately show ?thesis by (auto simp: t)
qed

lemma replay_attempt_on:
  assumes a: "replay_attempt w cfg n s = (r, t)" and o: "orderly book d s" and dd: "em_depth (rp_emit cfg) = d"
  shows "preserves book d s t \<and> (\<forall>outs. r = Inr (Replayed outs) \<longrightarrow>
    (\<forall>c I. map_of (staged t) n = Some c \<longrightarrow> identified I \<longrightarrow> batch_ids c = Some ([], I) \<longrightarrow> stored_in I (dk t)))"
  using a unfolding replay_attempt_def
proof (cases rule: andthen_cases)
  case (stopped e)
  then show ?thesis using keepsD [OF read_staged_keeps] by blast
next
  case (went c u)
  from read_staged_found [OF went(1)] obtain fs where c: "map_of (staged s) n = Some c" and u: "u = s\<lparr>dk := (dk s)\<lparr>io := fs\<rparr>\<rparr>" by blast
  have su: "preserves book d s u" by (simp add: u)
  with o have ou: "orderly book d u" by (simp add: preserves_def)
  from c have cu: "map_of (staged u) n = Some c" by (simp add: u)
  let ?emit = "andthen (lift (batch_events c)) (\<lambda>es. andthen (on_disk (emit_batch w (rp_emit cfg) (rp_approved cfg \<noteq> None) None es)) (\<lambda>outs. ret (Replayed outs)))"
  consider (no) "r = Inr Not_Approved" "t = u" | (emit) "?emit u = (r, t)"
    | (count) "ends_with n ''.tmp'' \<and> never_written cfg n c"
        "andthen (count_lost_stage n) (\<lambda>lost. if lost then ret Lost_Stage else ?emit) u = (r, t)"
    using went(2) by (cases "ends_with n ''.tmp'' \<and> never_written cfg n c") (auto simp: andthen_def [of "ret False"] split: if_splits)
  then show ?thesis
  proof cases
    case no
    with su show ?thesis by simp
  next
    case emit
    from replay_emits [OF emit ou dd cu] cu su show ?thesis using preserves_trans by auto
  next
    case count
    from count(1) have em: "raw c = []" by (simp add: never_written_def)
    with ou cu have "batch_ids c = None" by (auto simp: orderly_def entered_def)
    with cu have none: "\<And>x. map_of (staged u) n = Some x \<Longrightarrow> batch_ids x = None" by simp
    from count(2) show ?thesis
    proof (cases rule: andthen_cases)
      case (stopped e)
      from count_lost_preserves [OF stopped(1) none] su stopped(2) show ?thesis using preserves_trans by blast
    next
      case inner: (went lost v)
      have uv: "preserves book d u v" by (rule count_lost_preserves [OF inner(1) none])
      with ou have ov: "orderly book d v" by (simp add: preserves_def)
      show ?thesis
      proof (cases lost)
        case True
        with inner(2) have "r = Inr Lost_Stage" "t = v" by simp_all
        with preserves_trans [OF su uv] show ?thesis by simp
      next
        case False
        with inner(2) have e: "?emit v = (r, t)" by simp
        have "map_of (staged v) n = Some c" using inner(1) False cu by (rule count_lost_not)
        from replay_emits [OF e ov dd this] this preserves_trans [OF su uv] show ?thesis using preserves_trans by auto
      qed
    qed
  qed
qed

lemma replay_file_on:
  assumes a: "replay_file w cfg n s = (r, t)" and dd: "em_depth (rp_emit cfg) = d"
  shows "preserves book d s t"
proof -
  have "preserves book d s t" if o: "orderly book d s"
  proof -
    obtain q u where u: "replay_attempt w cfg n s = (q, u)" by (cases "replay_attempt w cfg n s")
    note at = replay_attempt_on [OF u o dd]
    consider e where "replay_failed n e u = (r, t)" | "t = u"
      | outs where "q = Inr (Replayed outs)" "andthen (depot_effect (drop_staged n)) (\<lambda>_. ret (Replayed outs)) u = (r, t)"
      using a by (cases q) (auto simp: replay_file_def u split: fate.splits)
    then show ?thesis
    proof cases
      case (1 e)
      from keepsD [OF replay_failed_keeps 1] at show ?thesis using preserves_trans by blast
    next
      case (3 outs)
      from 3(2) obtain z where "depot_effect (drop_staged n) u = (z, t)" by (auto elim: andthen_cases)
      moreover have "preserves book d u (drop_staged n (u\<lparr>dk := (dk u)\<lparr>io := fs\<rparr>\<rparr>))" for fs
        by (rule preserves_after_io [OF drop_staged_preserves]) (use at 3(1) in auto)
      ultimately have "preserves book d u t" by (rule depot_effect_at [where R = "preserves book d", OF _ preserves_io])
      with at show ?thesis using preserves_trans by blast
    qed (use at in simp)
  qed
  then show ?thesis by (simp add: preserves_def)
qed

lemma replay_stops_keeps: "keeps (preserves book d) (replay_stops cfg k)"
  by (rule keepsI) (auto simp: replay_stops_def intro!: preserves_disk split: if_splits)

lemma replay_each_keeps:
  assumes dd: "em_depth (rp_emit cfg) = d"
  shows "keeps (preserves book d) (replay_each_file w cfg ns rep)"
proof (induction ns arbitrary: rep)
  case (Cons n ns)
  have f: "keeps (preserves book d) (replay_file w cfg n)" by (rule keepsI) (rule replay_file_on [OF _ dd])
  have k: "keeps (preserves book d) (case x of Paused e \<Rightarrow> ret (counted n x rep) | _ \<Rightarrow> replay_each_file w cfg ns (counted n x rep))" for x rep
    using Cons.IH by (cases x) (simp_all del: ret_simp, intro queue_rules)
  show ?case unfolding replay_each_file.simps
    by (intro queue_rules f k replay_stops_keeps Cons.IH)
qed (simp del: ret_simp add: queue_rules)

lemma replay_staged_keeps:
  assumes "em_depth (rp_emit cfg) = d"
  shows "keeps (preserves book d) (replay_staged w cfg)"
proof -
  have "keeps (preserves book d) (depot_op (\<lambda>s. (Inr (Some (replay_order cfg (map fst (staged s)))), s)))"
    by (rule depot_op_keeps) simp_all
  then have l: "keeps (preserves book d) (list_staged cfg)" unfolding list_staged_def
    by (intro queue_rules catching_keeps)
  have "keeps (preserves book d) (case b of None \<Rightarrow> ret ((new_report cfg [])\<lparr>rr_refused := [], rr_error := Some (Os_Error ''staged queue'')\<rparr>)
      | Some names \<Rightarrow> replay_each_file w cfg names (new_report cfg names))" for b
    using replay_each_keeps [OF assms] by (cases b) (simp_all del: ret_simp, intro queue_rules)
  with l show ?thesis unfolding replay_staged_def by (intro queue_rules)
qed

section \<open>A drain\<close>

lemma drain_preserves:
  assumes "drain w h cfg (dk s) = (r, d')"
  shows "preserves book d s (s\<lparr>dk := d'\<rparr>)"
proof (rule preserves_disk)
  assume f: "filed book (dk s)"
  then have ok: "spool_ok same_events (dk s)" by (auto simp: filed_def spool_ok_def same_events_def)
  from events.drain_kept [OF assms] ok have ok': "spool_ok same_events d'"
    and sf: "\<And>n c. safe same_events n c (dk s) \<Longrightarrow> safe same_events n c d'"
    and h: "\<And>n c'. c' \<in> held n d' \<Longrightarrow> \<exists>c \<in> held n (dk s). same_events c c'" by (auto simp: keeps_batches_def)
  from f h have "\<forall>n. \<forall>c \<in> held n d'. batch_ids c = book n" by (fastforce simp: filed_def same_events_def)
  with ok' have "filed book d'" by (simp add: filed_def spool_ok_def)
  moreover have "stored_in I d'" if st: "stored_in I (dk s)" for I
  proof -
    consider (db) "list_all (pair_in (db (conn (dk s)))) I" | (on_file) n c where "c \<in> held n (dk s)" "stands I c"
      using st by (auto simp: stored_in_def)
    then show ?thesis
    proof cases
      case db
      show ?thesis
      proof (cases "I = []")
        case False
        define c where "c = staged_file w []\<lparr>parsed := Loaded (JObj [(''requests'', JArr (map (\<lambda>(t, i). JObj [(''event_type'', t), (''event_id'', i)]) I))])\<rparr>"
        have ids: "request_ids (map (\<lambda>(t, i). JObj [(''event_type'', t), (''event_id'', i)]) I) = I" by (induction I) (auto simp: jget.simps)
        have b: "batch_ids c = Some (I, [])" by (simp add: c_def batch_ids_def requests_of_def staged_events_def jget.simps ids)
        with db False have "safe same_events n c (dk s)" for n by (simp add: safe_def in_db_pairs)
        from sf [OF this] b show ?thesis unfolding safe_def stored_in_def stands_def same_events_def in_db_pairs by fastforce
      qed (simp add: stored_in_def)
    next
      case on_file
      then have "safe same_events n c (dk s)" unfolding safe_def using events.sim_refl by blast
      from sf [OF this] on_file(2) show ?thesis
        unfolding safe_def stored_in_def stands_def same_events_def in_db_pairs by fastforce
    qed
  qed
  ultimately show "filed book d' \<and> (\<forall>I. stored_in I (dk s) \<longrightarrow> stored_in I d')" by blast
qed

section \<open>A client\<close>

text \<open>What a client does to the rest: names keep their files, but for a temp of its own, and the database grows.\<close>

definition grows :: "string set \<Rightarrow> depot \<Rightarrow> depot \<Rightarrow> bool" where
  "grows T s s' \<longleftrightarrow> dom (map_of (staged s)) - T \<subseteq> dom (map_of (staged s'))
     \<and> (saved (conn (dk s)) = None \<longrightarrow> saved (conn (dk s')) = None \<and> (\<forall>n. held n (dk s) \<noteq> {} \<longrightarrow> held n (dk s') \<noteq> {})
          \<and> (\<forall>it. event_in (db (conn (dk s))) it \<longrightarrow> event_in (db (conn (dk s'))) it))"

lemma grows_preorder: "transp (grows T)" "reflp (grows T)"
proof -
  have "grows T a c" if g: "grows T a b" "grows T b c" for a b c
  proof -
    from g have "dom (map_of (staged a)) - T \<subseteq> dom (map_of (staged c))" unfolding grows_def by blast
    with g show ?thesis unfolding grows_def by simp
  qed
  then show "transp (grows T)" by (rule transpI)
qed (simp add: reflpI grows_def)

lemma grows_mono: "grows T s s' \<Longrightarrow> T \<subseteq> U \<Longrightarrow> grows U s s'"
  by (auto simp: grows_def)

lemma grows_new: "grows {n} s s' \<Longrightarrow> map_of (staged s) n = None \<Longrightarrow> grows {} s s'"
  by (auto simp: grows_def)

lemma grows_io [simp]: "grows T s (s\<lparr>dk := (dk s)\<lparr>io := fs\<rparr>\<rparr>)" "grows T (s\<lparr>dk := (dk s)\<lparr>io := fs\<rparr>\<rparr>) s' = grows T s s'"
  by (simp_all add: grows_def)

lemma put_staged_grows: "grows T s (put_staged n f s)"
  by (auto simp: grows_def put_staged_def)

lemma drop_staged_grows: "grows {n} s (drop_staged n s)"
  by (auto simp: grows_def drop_staged_def)

lemma rename_staged_grows: "grows {t} s (rename_staged t n s)"
  by (auto simp: grows_def rename_staged_def put_staged_def drop_staged_def split: option.split if_splits)

lemma add_loss_grows: "grows T s (add_loss k x s)"
  by (simp add: grows_def add_loss_def)

lemmas grows_rules = keeps_andthen grows_preorder keeps_now [OF grows_preorder(2)] keeps_if

lemma effect_grows: "(\<And>s. grows T s (f s)) \<Longrightarrow> keeps (grows T) (depot_effect f)"
  by (rule depot_effect_keeps) (simp, metis grows_io(2))

lemma quiet_grows: "keeps (grows T) quiet_depot"
  unfolding quiet_depot_def by (rule effect_grows) (simp add: grows_def)

lemma or_unlink_grows:
  assumes "keeps (grows {n}) m"
  shows "keeps (grows {n}) (or_unlink n m)"
proof (rule keepsI)
  fix s r s' assume o: "or_unlink n m s = (r, s')"
  obtain q t where m: "m s = (q, t)" by (cases "m s")
  note st = keepsD [OF assms m]
  have "keeps (grows {n}) (catching is_os_error (depot_effect (drop_staged n)) (\<lambda>e'. ret ()))"
    by (intro catching_keeps grows_rules effect_grows drop_staged_grows)
  note u = keepsD [OF this]
  show "grows {n} s s'"
  proof (cases "s' = t")
    case False
    with o m obtain z where "catching is_os_error (depot_effect (drop_staged n)) (\<lambda>e'. ret ()) t = (z, s')"
      by (cases "catching is_os_error (depot_effect (drop_staged n)) (\<lambda>e'. ret ()) t")
        (auto simp: or_unlink_def split: sum.splits if_splits)
    from u [OF this] st show ?thesis using transpD [OF grows_preorder(1)] by blast
  qed (use st in simp)
qed

lemma create_temp_new: "create_temp n s = (Inr u, t) \<Longrightarrow> map_of (staged s) n = None"
  unfolding create_temp_def by (elim depot_op_cases) (auto split: if_splits)

lemma create_temp_grows: "keeps (grows T) (create_temp n)"
proof -
  have "grows T s (put_staged n empty_file (s\<lparr>dk := (dk s)\<lparr>io := fs\<rparr>\<rparr>))" for s fs
    using put_staged_grows [of T "s\<lparr>dk := (dk s)\<lparr>io := fs\<rparr>\<rparr>"] by simp
  then show ?thesis unfolding create_temp_def by (intro depot_op_keeps) auto
qed

text \<open>The guarded part of a stage.\<close>

abbreviation stage_write :: "string \<Rightarrow> string \<Rightarrow> spool_file \<Rightarrow> (depot, bool) st" where
  "stage_write tmp name f \<equiv> andthen quiet_depot (\<lambda>_. andthen (depot_effect (put_staged tmp f)) (\<lambda>_. andthen quiet_depot (\<lambda>_.
     andthen (depot_effect (rename_staged tmp name)) (\<lambda>_. andthen quiet_depot (\<lambda>_. ret True)))))"

lemma created_grows:
  assumes "andthen (create_temp tmp) (\<lambda>_. or_unlink tmp (stage_write tmp name f)) s = (r, s')"
  shows "grows {} s s'"
  using assms
proof (cases rule: andthen_cases)
  case (stopped e)
  then show ?thesis using keepsD [OF create_temp_grows] by blast
next
  case (went x t)
  have "keeps (grows {tmp}) (stage_write tmp name f)"
    by (intro grows_rules quiet_grows effect_grows put_staged_grows rename_staged_grows)
  from keepsD [OF or_unlink_grows [OF this] went(2)] have "grows {tmp} t s'" .
  moreover have "grows {tmp} s t" using keepsD [OF create_temp_grows went(1)] .
  ultimately have "grows {tmp} s s'" using transpD [OF grows_preorder(1)] by blast
  then show ?thesis using create_temp_new [OF went(1)] by (rule grows_new)
qed

lemma stage_grows: "keeps (grows {}) (stage cl f lead tg)"
proof -
  have listing: "keeps (grows {}) (depot_op (\<lambda>s. (Inr (staged_usage s), s)))" by (rule depot_op_keeps) simp_all
  have "keeps (grows {}) (andthen (create_temp tmp) (\<lambda>_. or_unlink tmp (stage_write tmp name f)))" for tmp name
    by (rule keepsI) (rule created_grows)
  then show ?thesis unfolding stage_def Let_def
    by (intro grows_rules quiet_grows listing) (auto split: prod.split intro!: grows_rules simp del: ret_simp)
qed

lemma record_loss_grows: "keeps (grows {}) (record_loss k x)"
  unfolding record_loss_def by (intro catching_keeps grows_rules effect_grows add_loss_grows)

lemma lossy_grows: "keeps (grows {}) (lossy k x)"
  unfolding lossy_def by (intro grows_rules record_loss_grows)

lemma stage_pending_grows: "keeps (grows {}) (stage_pending w cl fin)"
proof -
  have "keeps (grows {}) (catching is_os_error (andthen (stage cl f lead tg) (\<lambda>room. if room then ret 7 else lossy a b)) (\<lambda>e. lossy x y))"
    for f lead tg a b x y
    by (intro catching_keeps grows_rules stage_grows lossy_grows)
  then show ?thesis unfolding stage_pending_def
    by (auto simp del: ret_simp split: sum.split capture_error.split intro!: grows_rules lossy_grows)
qed

text \<open>A batch that was staged is in the queue, as it was captured.\<close>

lemma quiet_depot_Inr: "quiet_depot s = (Inr u, t) \<Longrightarrow> staged t = staged s"
  unfolding quiet_depot_def by (drule depot_effect_Inr) auto

lemma stage_write_done: "stage_write tmp name f s = (Inr True, s') \<Longrightarrow> map_of (staged s') name = Some f"
proof -
  assume "stage_write tmp name f s = (Inr True, s')"
  then obtain a b c e where q: "depot_effect (put_staged tmp f) a = (Inr (), b)" "quiet_depot b = (Inr (), c)"
    "depot_effect (rename_staged tmp name) c = (Inr (), e)" "quiet_depot e = (Inr (), s')"
    by (auto simp: andthen_Inr)
  from depot_effect_Inr [OF q(1)] have "map_of (staged b) tmp = Some f" by (auto simp: put_staged_def)
  then have "map_of (staged c) tmp = Some f" using quiet_depot_Inr [OF q(2)] by simp
  with depot_effect_Inr [OF q(3)] have "map_of (staged e) name = Some f"
    by (auto simp: rename_staged_def put_staged_def drop_staged_def)
  then show ?thesis using quiet_depot_Inr [OF q(4)] by simp
qed

lemma or_unlink_Inr: "or_unlink n m s = (Inr x, t) \<longleftrightarrow> m s = (Inr x, t)"
  by (auto simp: or_unlink_def split: prod.splits sum.splits if_splits)

lemma stage_answer:
  "andthen (create_temp tmp) (\<lambda>_. or_unlink tmp (stage_write tmp name f)) s = (Inr True, s') \<Longrightarrow> map_of (staged s') name = Some f"
  by (elim andthen_cases) (auto simp: or_unlink_Inr dest: stage_write_done)

lemma stage_done: "stage cl f lead tg s = (Inr True, s') \<Longrightarrow> \<exists>n. map_of (staged s') n = Some f"
proof -
  assume "stage cl f lead tg s = (Inr True, s')"
  then obtain t where "andthen (create_temp (temp_name cl (batch_name cl lead tg)))
      (\<lambda>_. or_unlink (temp_name cl (batch_name cl lead tg)) (stage_write (temp_name cl (batch_name cl lead tg)) (batch_name cl lead tg) f)) t
      = (Inr True, s')"
    unfolding stage_def Let_def andthen_Inr [where m = quiet_depot] andthen_Inr [where m = "depot_op (\<lambda>s. (Inr (staged_usage s), s))"]
    by (auto split: prod.splits if_splits)
  from stage_answer [OF this] show ?thesis by blast
qed

lemma stage_event_ids:
  "stage_event sha cfg e = Inr e' \<Longrightarrow> jget (JObj e') ''event_type'' = jget (JObj e) ''event_type'' \<and> jget (JObj e') ''event_id'' = jget (JObj e) ''event_id''"
  by (auto simp: stage_event_def simp del: jget.simps split: if_splits sum.splits option.splits dest!: apply_capture_shape)

lemma batch_capture_ids: "apply_to_batch sha cfg es = Inr es' \<Longrightarrow> request_ids (map JObj es') = request_ids (map JObj es)"
  by (induction es arbitrary: es') (auto simp del: jget.simps split: sum.splits dest: stage_event_ids)

lemma lossy_code: "lossy k x s = (Inr y, s') \<Longrightarrow> y = 3"
  by (auto simp: lossy_def andthen_Inr)

definition in_queue :: "pairs \<Rightarrow> depot \<Rightarrow> bool" where
  "in_queue I s \<longleftrightarrow> (\<exists>n c. map_of (staged s) n = Some c \<and> batch_ids c = Some ([], I))"

lemma stage_pending_code: "stage_pending w cl fin s = (Inr y, s') \<Longrightarrow> y \<in> {2, 3, 5} \<or> y = 7 \<and> in_queue (request_ids (map JObj fin)) s'"
proof -
  assume a: "stage_pending w cl fin s = (Inr y, s')"
  show ?thesis
  proof (cases "cl_stage_to cl \<and> cl_policy cl")
    case False
    with a show ?thesis by (auto simp: stage_pending_def dest: lossy_code split: if_splits)
  next
    case True
    show ?thesis
    proof (cases "apply_to_batch (w_sha w) (cl_capture cl) fin")
      case (Inl e)
      with a True show ?thesis by (cases e) (auto simp: stage_pending_def dest: lossy_code)
    next
      case (Inr captured)
      let ?m = "andthen (stage cl (staged_file w captured) (text_of (fld (hd fin) ''event_id''))
          (case cl_depth cl of None \<Rightarrow> [] | Some d \<Rightarrow> name_tag d (map JObj captured)))
          (\<lambda>room. if room then ret 7 else lossy ''staged_full'' ''staged queue full'')"
      from a True Inr have c: "catching is_os_error ?m (\<lambda>e. lossy ''stage_failed'' ''staged write failed'') s = (Inr y, s')"
        by (simp add: stage_pending_def)
      then consider "y = 3" | "?m s = (Inr y, s')"
        by (auto simp: catching_def split: prod.splits sum.splits if_splits dest: lossy_code)
      then show ?thesis
      proof cases
        case 2
        then obtain room t where st: "stage cl (staged_file w captured) (text_of (fld (hd fin) ''event_id''))
            (case cl_depth cl of None \<Rightarrow> [] | Some d \<Rightarrow> name_tag d (map JObj captured)) s = (Inr room, t)"
          and k: "(if room then ret 7 else lossy ''staged_full'' ''staged queue full'') t = (Inr y, s')"
          by (auto simp: andthen_Inr)
        show ?thesis
        proof (cases room)
          case False
          with k show ?thesis by (auto dest: lossy_code)
        next
          case True
          from stage_done [OF st [unfolded True [THEN eqTrueI]]] k True obtain n where
            "map_of (staged s') n = Some (staged_file w captured)" "y = 7" by auto
          with staged_ids [of w captured] batch_capture_ids [OF Inr] show ?thesis unfolding in_queue_def by auto
        qed
      qed simp
    qed
  qed
qed

section \<open>The socket\<close>

lemma handle_grows:
  assumes "handle w ec j (dk s) = (reply, d')"
  shows "grows {} s (s\<lparr>dk := d'\<rparr>)"
proof -
  from assms have "d' = dk s \<or> (\<exists>es r. emit_batch w ec False None es (dk s) = (r, d'))"
    by (auto simp: handle_def split: option.splits prod.splits)
  then show ?thesis
  proof
    assume "\<exists>es r. emit_batch w ec False None es (dk s) = (r, d')"
    then obtain es r where e: "emit_batch w ec False None es (dk s) = (r, d')" by blast
    show ?thesis
    proof (cases "saved (conn (dk s)) = None")
      case True
      from emission [OF e True] show ?thesis
        using held_spools [of w "em_depth ec" es "dk s" d'] held_same [of "dk s" d'] by (auto simp: grows_def)
    qed (auto simp: grows_def)
  qed (simp add: grows_def)
qed

text \<open>A positive reply means that the batch is stored.\<close>

lemma handle_ok:
  assumes h: "handle w ec (JObj [(''events'', JArr (map JObj fin))]) d = (Some resp, d')" and ok: "truthy (jget resp ''ok'')"
    and idle: "saved (conn d) = None" and i: "identified (request_ids (map JObj fin))"
  shows "stored_in (request_ids (map JObj fin)) d'"
proof -
  have no: "\<not> truthy (jget (refusal k) ''ok'')" for k by (simp add: refusal_def jget.simps)
  have ev: "emit_request (JObj [(''events'', JArr (map JObj fin))]) \<in> {None, Some (map JObj fin)}"
    by (simp add: emit_request_def jget.simps)
  with h ok no obtain r where e: "emit_batch w ec False None (map JObj fin) d = (r, d')" and r: "reply_for r = Some resp"
    by (auto simp: handle_def split: option.splits prod.splits)
  from r ok no obtain outs where "r = Inr outs" by (auto simp: reply_for_def split: sum.splits plane_error.splits)
  from emission_stores [OF e [unfolded this] idle i] show ?thesis .
qed

lemma verdict_grows: "keeps (grows {}) (verdict w cl fin resp)"
  unfolding verdict_def
  by (auto simp del: ret_simp split: json.split intro!: grows_rules stage_pending_grows lossy_grows)

lemma send_grows: "keeps (grows {}) (send w cl ec lk fin)"
proof (rule keepsI)
  fix s r s' assume a: "send w cl ec lk fin s = (r, s')"
  obtain reply d where h: "handle w ec (JObj [(''events'', JArr (map JObj fin))]) (dk s) = (reply, d)"
    by (cases "handle w ec (JObj [(''events'', JArr (map JObj fin))]) (dk s)")
  from a h consider "stage_pending w cl fin s = (r, s')" | "stage_pending w cl fin (s\<lparr>dk := d\<rparr>) = (r, s')"
    | resp where "verdict w cl fin resp (s\<lparr>dk := d\<rparr>) = (r, s')"
    by (auto simp: send_def split: if_splits link.splits option.splits)
  then show "grows {} s s'"
  proof cases
    case 1
    then show ?thesis by (rule keepsD [OF stage_pending_grows])
  next
    case 2
    from keepsD [OF stage_pending_grows this] handle_grows [OF h] show ?thesis using transpD [OF grows_preorder(1)] by blast
  next
    case 3
    from keepsD [OF verdict_grows this] handle_grows [OF h] show ?thesis using transpD [OF grows_preorder(1)] by blast
  qed
qed

lemma verdict_code:
  "verdict w cl fin resp s = (Inr y, s') \<Longrightarrow> y \<in> {0, 6, 7}
     \<Longrightarrow> y \<noteq> 7 \<and> s' = s \<and> truthy (jget resp ''ok'') \<or> in_queue (request_ids (map JObj fin)) s'"
  unfolding verdict_def
  by (auto split: json.splits if_splits dest: stage_pending_code lossy_code)

lemma send_code:
  assumes a: "send w cl ec lk fin s = (Inr y, s')" "y \<in> {0, 6, 7}" and idle: "saved (conn (dk s)) = None"
    and i: "identified (request_ids (map JObj fin))"
  shows "kept (request_ids (map JObj fin)) s'"
proof -
  obtain reply d where h: "handle w ec (JObj [(''events'', JArr (map JObj fin))]) (dk s) = (reply, d)"
    by (cases "handle w ec (JObj [(''events'', JArr (map JObj fin))]) (dk s)")
  from a(1) h consider (pending) t where "stage_pending w cl fin t = (Inr y, s')"
    | (judged) resp where "reply = Some resp" "verdict w cl fin resp (s\<lparr>dk := d\<rparr>) = (Inr y, s')"
    by (auto simp: send_def split: if_splits link.splits option.splits)
  then show ?thesis
  proof cases
    case pending
    with stage_pending_code [OF pending] a(2) show ?thesis by (auto simp: in_queue_def kept_def)
  next
    case judged
    from verdict_code [OF judged(2) a(2)] handle_ok [OF h [unfolded judged(1)] _ idle i] show ?thesis
      by (auto simp: in_queue_def kept_def)
  qed
qed

lemma client_finalize_carries: "client_finalize w e s = (Inr r, s') \<Longrightarrow> carries (JObj e) (JObj r)"
  by (auto simp: client_finalize_def andthen_Inr carries_def simp del: jget.simps split: if_splits)

lemma finalize_each_carries: "finalize_each w es s = (Inr fin, s') \<Longrightarrow> list_all2 carries (map JObj es) (map JObj fin)"
  by (induction es arbitrary: s fin) (auto simp: andthen_Inr dest: client_finalize_carries)

lemma finalize_each_keeps: "keeps same_db (finalize_each w es)"
proof (induction es)
  case (Cons e es)
  have "keeps same_db (client_finalize w e)" unfolding client_finalize_def by (intro read_rules keeps_mint)
  with Cons show ?case unfolding finalize_each.simps by (intro read_rules)
next
  case Nil
  show ?case unfolding finalize_each.simps by (intro keeps_now frame_preorders)
qed

lemma finalize_on_disk:
  assumes "on_disk (on_db (finalize_each w es)) s = (r, t)"
  shows "grows {} s t \<and> saved (conn (dk t)) = saved (conn (dk s))"
proof -
  from assms obtain c where f: "finalize_each w es (conn (dk s)) = (r, c)" and t: "t = s\<lparr>dk := (dk s)\<lparr>conn := c\<rparr>\<rparr>"
    by (auto simp: on_disk_def on_db_def split: prod.splits)
  from keepsD [OF finalize_each_keeps f] have "db c = db (conn (dk s))" "saved c = saved (conn (dk s))" by (simp_all add: same_db_def)
  then show ?thesis by (simp add: t grows_def held_def)
qed

lemma client_cases:
  assumes "client w cl ec lk j s = (r, s')"
  obtains (refused) "r = Inr 2" "s' = s" | (stopped) x q where "on_disk (on_db (finalize_each w x)) s = (q, s')" "\<exists>e. r = Inl e"
    | (only) x fin t q where "batch_of j = Some x" "on_disk (on_db (finalize_each w x)) s = (Inr fin, t)"
        "stage_pending w cl fin t = (q, s')" "case q of Inl e \<Rightarrow> r = Inl e | Inr y \<Rightarrow> r = Inr (if y = 7 then 6 else y)"
    | (sent) x fin t where "batch_of j = Some x" "on_disk (on_db (finalize_each w x)) s = (Inr fin, t)" "send w cl ec lk fin t = (r, s')"
proof (cases "batch_of j")
  case None
  with assms show thesis using refused by (simp add: client_def)
next
  case (Some x)
  with assms have a: "andthen (on_disk (on_db (finalize_each w x))) (\<lambda>fin.
      if cl_only cl then andthen (stage_pending w cl fin) (\<lambda>y. ret (if y = 7 then 6 else y)) else send w cl ec lk fin) s = (r, s')"
    by (simp add: client_def)
  then show thesis
  proof (cases rule: andthen_cases)
    case (went fin t)
    show thesis
    proof (cases "cl_only cl")
      case True
      with went(2) have "andthen (stage_pending w cl fin) (\<lambda>y. ret (if y = 7 then 6 else y)) t = (r, s')" by simp
      then show thesis using only [OF Some went(1)] by (cases rule: andthen_cases) auto
    next
      case False
      with went sent [OF Some] show thesis by simp
    qed
  qed (use stopped in blast)
qed

lemma client_grows:
  assumes "client w cl ec lk j s = (r, s')"
  shows "grows {} s s'"
  using assms
proof (cases rule: client_cases)
  case refused
  then show ?thesis using grows_preorder(2) by (simp add: reflpD)
next
  case (only x fin t q)
  from finalize_on_disk [OF only(2)] keepsD [OF stage_pending_grows only(3)] show ?thesis
    using transpD [OF grows_preorder(1)] by blast
next
  case (sent x fin t)
  from finalize_on_disk [OF sent(2)] keepsD [OF send_grows sent(3)] show ?thesis
    using transpD [OF grows_preorder(1)] by blast
qed (use finalize_on_disk in blast)

lemma client_receipt:
  assumes c: "client w cl ec lk j s = (Inr exit, s')" "exit \<in> {0, 6, 7}" and idle: "saved (conn (dk s)) = None"
  shows "\<exists>events fin. batch_of j = Some events \<and> list_all2 carries (map JObj events) (map JObj fin)
    \<and> identified (request_ids (map JObj fin)) \<and> kept (request_ids (map JObj fin)) s'"
  using c(1)
proof (cases rule: client_cases)
  case refused
  with c(2) show ?thesis by simp
next
  case (only x fin t q)
  from only(2) have "\<exists>c c'. finalize_each w x c = (Inr fin, c')" by (auto simp: on_disk_def on_db_def split: prod.splits)
  then have l: "list_all2 carries (map JObj x) (map JObj fin)" using finalize_each_carries by blast
  from only(4) obtain y where y: "q = Inr y" "exit = (if y = 7 then 6 else y)" by (cases q) auto
  from stage_pending_code [OF only(3) [unfolded y(1)]] y(2) c(2) have "in_queue (request_ids (map JObj fin)) s'"
    by (auto split: if_splits)
  with only(1) l carried_complete [OF l] show ?thesis unfolding in_queue_def kept_def by blast
next
  case (sent x fin t)
  from sent(2) have "\<exists>c c'. finalize_each w x c = (Inr fin, c')" by (auto simp: on_disk_def on_db_def split: prod.splits)
  then have l: "list_all2 carries (map JObj x) (map JObj fin)" using finalize_each_carries by blast
  have "saved (conn (dk t)) = None" using finalize_on_disk [OF sent(2)] idle by simp
  from send_code [OF sent(3) c(2) this carried_complete [OF l]] sent(1) l carried_complete [OF l] show ?thesis by blast
qed simp

section \<open>The life of the queues\<close>

text \<open>
  Clients, replays and drains, one after another. A client brings a new name: the state it leaves
  has to be in the book's order.
\<close>

inductive life :: "world \<Rightarrow> book \<Rightarrow> nat \<Rightarrow> depot \<Rightarrow> depot \<Rightarrow> bool" for w book d where
  drained_once: "drain w h cfg (dk s) = (r, d') \<Longrightarrow> life w book d s (s\<lparr>dk := d'\<rparr>)"
| replayed_once: "replay_staged w cfg s = (r, s') \<Longrightarrow> em_depth (rp_emit cfg) = d \<Longrightarrow> life w book d s s'"
| called_once: "client w cl ec lk j s = (r, s') \<Longrightarrow> orderly book d s' \<Longrightarrow> life w book d s s'"

lemma orderly_entered: "orderly book d s \<Longrightarrow> map_of (staged s) n = Some c \<Longrightarrow> book (quarantine_name n) = batch_ids c"
  by (simp add: orderly_def entered_def)

lemma client_preserves:
  assumes c: "client w cl ec lk j s = (r, s')" and o: "orderly book d s'"
  shows "preserves book d s s'"
  unfolding preserves_def
proof (intro impI conjI allI)
  assume os: "orderly book d s"
  note g = client_grows [OF c]
  from os o have f: "filed book (dk s)" "filed book (dk s')" by (simp_all add: orderly_def)
  then have idle: "saved (conn (dk s)) = None" by (simp add: filed_def)
  fix I assume "identified I" "kept I s"
  then consider (queue) n c where "map_of (staged s) n = Some c" "batch_ids c = Some ([], I)" | (store) "stored_in I (dk s)"
    by (auto simp: kept_def)
  then show "kept I s'"
  proof cases
    case queue
    with g obtain c' where c': "map_of (staged s') n = Some c'" by (auto simp: grows_def dom_def)
    from orderly_entered [OF os queue(1)] orderly_entered [OF o c'] have "batch_ids c' = batch_ids c" by simp
    with c' queue(2) show ?thesis unfolding kept_def by auto
  next
    case store
    have "stored_in I (dk s')" using f _ _ store by (rule stored_stays) (use g idle in \<open>auto simp: grows_def\<close>)
    then show ?thesis by (simp add: kept_def)
  qed
qed (rule o)

lemma life_preserves: "life w book d s s' \<Longrightarrow> preserves book d s s'"
proof (induction rule: life.induct)
  case (drained_once h cfg s r d')
  then show ?case by (rule drain_preserves)
next
  case (replayed_once cfg s r s')
  then show ?case using keepsD [OF replay_staged_keeps] by blast
next
  case (called_once cl ec lk j s r s')
  then show ?case by (rule client_preserves)
qed

lemma lives_preserve: "(life w book d)\<^sup>*\<^sup>* s s' \<Longrightarrow> preserves book d s s'"
  by (induction rule: rtranclp_induct) (use life_preserves preserves_trans in \<open>auto\<close>)

section \<open>Properties\<close>

text \<open>
  C2. What a client's exit promises is kept. When the socket client ends with 0, 6 or 7, whatever
  became of its request, and then clients, replays of the staged queue and drains of the spool
  follow in any number and order, with any fault in a statement or a file operation and any kill,
  the batch is still somewhere: a staged file carries all its events, a file of the spool or of the
  quarantine does, or each of them is in the database. The batch is the events as they came, in
  order, each with its class and the id it had or was given. Names are taken to be used for
  one batch only.
\<close>

theorem receipt_kept:
  assumes "client w cl ec lk j s = (Inr exit, s1)" "exit \<in> {0, 6, 7}" "saved (conn (dk s)) = None"
    and "orderly book d s1" "(life w book d)\<^sup>*\<^sup>* s1 s2"
  shows "\<exists>events fin. batch_of j = Some events \<and> list_all2 carries (map JObj events) (map JObj fin)
    \<and> kept (request_ids (map JObj fin)) s2"
proof -
  from client_receipt [OF assms(1,2,3)] lives_preserve [OF assms(5)] assms(4) show ?thesis unfolding preserves_def by blast
qed

text \<open>A receipt is committed, the daemon's answer is lost, the client stages the batch and the daemon replays it.\<close>

definition sample_client :: client_config where
  "sample_client = \<lparr>cl_capture = Absent, cl_policy = True, cl_depth = Some 3, cl_stage_to = True, cl_only = False, cl_pid = 77, cl_ns = 123\<rparr>"

definition sample_depot :: depot where
  "sample_depot = \<lparr>dk = sample_disk [], staged = [], losses = []\<rparr>"

definition sample_batch :: json where
  "sample_batch = JObj [(''events'', JArr sample_reports)]"

definition sample_replay :: replay_config where
  "sample_replay = \<lparr>rp_emit = sample_emit, rp_approved = None, rp_max = None, rp_late = (\<lambda>_. False), rp_aged = (\<lambda>_. False), rp_gone = (\<lambda>_. True)\<rparr>"

definition sample_called :: "(plane_error + nat) \<times> depot" where
  "sample_called = client sample_world sample_client sample_emit Reply_Lost sample_batch sample_depot"

definition well_named :: "string \<times> spool_file \<Rightarrow> bool" where
  "well_named nc = (hd (quarantine_name (fst nc)) = CHR ''1'' \<and> raw (snd nc) \<noteq> []
     \<and> (case batch_ids (snd nc) of None \<Rightarrow> False
       | Some (a, b) \<Rightarrow> a = [] \<and> length b = 1 \<and> is_str (snd (hd b)) \<and> text_of (snd (hd b)) \<noteq> [] \<and> hd (text_of (snd (hd b))) = CHR ''e''))"

lemma sample_called_once:
  "(case sample_called of (r, s) \<Rightarrow> (case r of Inr y \<Rightarrow> y = 7 | Inl e \<Rightarrow> False, pend (dk s) = [], claims (dk s) = [], quar (dk s) = [],
      saved (conn (dk s)) = None, length (staged s), list_all well_named (staged s))) = (True, True, True, True, True, 1, True)"
  by code_simp

text \<open>One staged file and nothing else: a book has it under its name, and what it is spooled as elsewhere.\<close>

lemma is_str_text: "is_str j \<longleftrightarrow> j = JStr (text_of j)"
  by (cases j) (auto simp: text_of_def)

lemma one_staged_orderly:
  assumes "saved (conn (dk s)) = None" "pend (dk s) = []" "claims (dk s) = []" "quar (dk s) = []" "staged s = [nc]" "well_named nc"
  shows "\<exists>book. orderly book d s"
proof -
  obtain n c where nc: "nc = (n, c)" by (cases nc)
  from assms(6) nc obtain t i where ids: "batch_ids c = Some ([], [(t, JStr i)])" and i: "i \<noteq> []" "hd i = CHR ''e''"
    and q: "hd (quarantine_name n) = CHR ''1''" and rw: "raw c \<noteq> []"
    by (auto simp: well_named_def length_Suc_conv is_str_text split: option.splits)
  let ?I = "[(t, JStr i)]"
  let ?book = "\<lambda>m. if m = quarantine_name n then Some ([], ?I) else Some (?I, [])"
  have "?book (spool_name d (map JObj cs)) = Some (request_ids (map JObj cs), [])"
    if es: "batch_events c = Inr es" and l: "list_all2 carries es (map JObj cs)" for es cs
  proof -
    from batch_events_ids [OF es ids] have I: "request_ids es = ?I" by simp
    have "identified ?I" using i by (simp add: identified_def)
    with carried_ids [OF l] I have r: "request_ids (map JObj cs) = ?I" by simp
    then obtain x where cs: "cs = [x]" "jget (JObj x) ''event_id'' = JStr i" by (cases cs) (auto simp: request_ids_def)
    then have "hd (spool_name d (map JObj cs)) = CHR ''e''" using i by (simp add: spool_name_def text_of_def)
    then have "spool_name d (map JObj cs) \<noteq> quarantine_name n" using q by auto
    then show ?thesis by (simp add: r)
  qed
  then have "entered ?book d n c" using rw ids by (simp add: entered_def)
  moreover have "held m (dk s) = {}" for m by (simp add: held_def assms)
  ultimately have "orderly ?book d s" by (simp add: orderly_def filed_def assms nc)
  then show ?thesis by blast
qed

lemma receipt_kept_witness:
  "\<exists>events fin. batch_of sample_batch = Some events \<and> list_all2 carries (map JObj events) (map JObj fin)
    \<and> kept (request_ids (map JObj fin)) (snd (replay_staged sample_world sample_replay (snd sample_called)))"
proof -
  obtain r s where c: "sample_called = (r, s)" by (cases sample_called)
  from sample_called_once [unfolded c] have f: "case r of Inr y \<Rightarrow> y = 7 | Inl e \<Rightarrow> False" "pend (dk s) = []" "claims (dk s) = []" "quar (dk s) = []"
    "saved (conn (dk s)) = None" "length (staged s) = 1" "list_all well_named (staged s)" by simp_all
  from f(1) have r: "r = Inr 7" by (cases r) auto
  from f(6,7) obtain nc where "staged s = [nc]" "well_named nc" by (auto simp: length_Suc_conv)
  with f one_staged_orderly obtain book where o: "orderly book 3 s" by metis
  from c r have cl: "client sample_world sample_client sample_emit Reply_Lost sample_batch sample_depot = (Inr 7, s)"
    by (simp add: sample_called_def)
  have idle: "saved (conn (dk sample_depot)) = None" by (simp add: sample_depot_def sample_disk_def fresh_simps)
  obtain q t where rp: "replay_staged sample_world sample_replay s = (q, t)" by (cases "replay_staged sample_world sample_replay s")
  have "life sample_world book 3 s t"
    using rp by (rule replayed_once) (simp add: sample_replay_def sample_emit_def)
  then have "(life sample_world book 3)\<^sup>*\<^sup>* s t" by (rule r_into_rtranclp)
  from receipt_kept [OF cl _ idle o this] show ?thesis by (simp add: c rp)
qed

section \<open>The bound\<close>

text \<open>A replay only takes files away; a stage adds one where there is room.\<close>

definition usage :: "(string \<times> spool_file) list \<Rightarrow> nat \<times> int" where
  "usage fs = (length (filter (staged_payload \<circ> fst) fs), sum_list (map (\<lambda>nc. utf8_len (raw (snd nc))) (filter (staged_payload \<circ> fst) fs)))"

definition room :: "nat \<Rightarrow> int \<Rightarrow> depot \<Rightarrow> bool" where
  "room k b s \<longleftrightarrow> fst (staged_usage s) + k \<le> STAGED_MAX_BATCHES \<and> snd (staged_usage s) + b \<le> STAGED_MAX_BYTES + 1"

lemma staged_usage_usage: "staged_usage s = usage (staged s)"
  by (simp add: staged_usage_def usage_def Let_def comp_def)

lemma usage_simps: "usage [] = (0, 0)"
  "usage ((n, c) # fs) = (if staged_payload n then (Suc (fst (usage fs)), utf8_len (raw c) + snd (usage fs)) else usage fs)"
  by (simp_all add: usage_def)

lemma usage_nonneg: "0 \<le> snd (usage fs)"
  by (induction fs) (auto simp: usage_simps utf8_len_nonneg add_nonneg_nonneg)

lemma usage_set:
  "fst (usage (alist_set n c fs)) \<le> Suc (fst (usage fs)) \<and> snd (usage (alist_set n c fs)) \<le> snd (usage fs) + utf8_len (raw c)
     \<and> (map_of fs n \<noteq> None \<longrightarrow> fst (usage (alist_set n c fs)) = fst (usage fs))"
  by (induction n c fs rule: alist_set.induct) (auto simp: usage_simps utf8_len_nonneg)

lemma usage_pop: "fst (usage (alist_pop n fs)) \<le> fst (usage fs) \<and> snd (usage (alist_pop n fs)) \<le> snd (usage fs)"
  by (induction fs) (auto simp: usage_simps alist_pop_def utf8_len_nonneg add_increasing)

lemma usage_taken:
  "map_of fs n = Some c \<Longrightarrow> staged_payload n
     \<Longrightarrow> Suc (fst (usage (alist_pop n fs))) \<le> fst (usage fs) \<and> snd (usage (alist_pop n fs)) + utf8_len (raw c) \<le> snd (usage fs)"
proof (induction fs)
  case (Cons kv fs)
  obtain k x where kv: "kv = (k, x)" by (cases kv)
  show ?case
  proof (cases "k = n")
    case True
    with Cons.prems usage_pop [of n fs] show ?thesis by (simp add: kv usage_simps alist_pop_def)
  next
    case False
    with Cons show ?thesis by (auto simp: kv usage_simps alist_pop_def)
  qed
qed simp

lemma room_io [simp]: "room k b (s\<lparr>dk := d\<rparr>) = room k b s"
  by (simp add: room_def staged_usage_usage)

lemma temp_payload: "staged_payload (temp_name cl n)"
  by (simp add: staged_payload_def temp_name_def ends_with_def)

lemma effect_either:
  assumes "depot_effect f s = (r, s')"
  obtains fs where "s' = s\<lparr>dk := (dk s)\<lparr>io := fs\<rparr>\<rparr> \<or> s' = f (s\<lparr>dk := (dk s)\<lparr>io := fs\<rparr>\<rparr>)"
  using assms unfolding depot_effect_def by (elim depot_op_cases) auto

lemma quiet_room: "quiet_depot s = (r, s') \<Longrightarrow> staged s' = staged s"
  unfolding quiet_depot_def by (elim effect_either) auto

definition has_room :: "string \<Rightarrow> nat \<Rightarrow> int \<Rightarrow> spool_file \<Rightarrow> depot \<Rightarrow> bool" where
  "has_room tmp k b f s \<longleftrightarrow> room k b s \<and> map_of (staged s) tmp = Some f"

lemma put_room:
  assumes "has_room tmp 0 (utf8_len (raw f)) x s" "depot_effect (put_staged tmp f) s = (r, s')"
  shows "room 0 0 s' \<and> (r = Inr () \<longrightarrow> has_room tmp 0 0 f s')"
proof -
  let ?s = "put_staged tmp f s"
  from assms(1) usage_set [of tmp f "staged s"] have r: "room 0 0 ?s"
    by (auto simp: has_room_def room_def staged_usage_usage put_staged_def)
  from assms(1) utf8_len_nonneg [of "raw f"] have r0: "room 0 0 s" by (simp add: has_room_def room_def)
  from assms(2) obtain fs where "s' = s\<lparr>dk := (dk s)\<lparr>io := fs\<rparr>\<rparr> \<or> s' = put_staged tmp f (s\<lparr>dk := (dk s)\<lparr>io := fs\<rparr>\<rparr>)" by (rule effect_either)
  with r r0 have "room 0 0 s'" by (auto simp: room_def staged_usage_usage put_staged_def)
  moreover have "map_of (staged s') tmp = Some f" if "r = Inr ()"
    using depot_effect_Inr [OF assms(2) [unfolded that]] by (auto simp: put_staged_def)
  ultimately show ?thesis by (simp add: has_room_def)
qed

lemma rename_room:
  assumes "has_room tmp 0 0 f s" "staged_payload tmp"
  shows "room 0 0 (rename_staged tmp name s)"
  using usage_taken [of "staged s" tmp f] usage_set [of name f "alist_pop tmp (staged s)"] assms
  by (auto simp: has_room_def room_def staged_usage_usage rename_staged_def put_staged_def drop_staged_def)

lemma drop_room: "room k b s \<Longrightarrow> room k b (drop_staged n s)"
  using usage_pop [of n "staged s"] by (auto simp: room_def staged_usage_usage drop_staged_def)

lemma stage_write_room:
  assumes a: "stage_write tmp name f s = (r, s')" and h: "has_room tmp 0 (utf8_len (raw f)) x s" and t: "staged_payload tmp"
  shows "room 0 0 s'"
proof -
  have r0: "room 0 0 s" using h utf8_len_nonneg [of "raw f"] by (simp add: has_room_def room_def)
  have same: "room 0 0 v" if "room 0 0 u" "quiet_depot u = (q, v)" for u v q
    using that quiet_room [OF that(2)] by (simp add: room_def staged_usage_usage)
  from a show ?thesis
  proof (cases rule: andthen_cases)
    case s1: (went x1 t1)
    from quiet_room [OF s1(1)] h have h1: "has_room tmp 0 (utf8_len (raw f)) x t1" by (simp add: has_room_def room_def staged_usage_usage)
    from s1(2) show ?thesis
    proof (cases rule: andthen_cases)
      case s2: (went x2 t2)
      with put_room [OF h1 s2(1)] have h2: "has_room tmp 0 0 f t2" by simp
      from s2(2) show ?thesis
      proof (cases rule: andthen_cases)
        case s3: (went x3 t3)
        from quiet_room [OF s3(1)] h2 have h3: "has_room tmp 0 0 f t3" by (simp add: has_room_def room_def staged_usage_usage)
        have ren: "room 0 0 v" if "depot_effect (rename_staged tmp name) t3 = (q, v)" for q v
          using that rename_room [OF _ t, of f _ name] h3
          by (elim effect_either) (auto simp: has_room_def)
        from s3(2) show ?thesis
        proof (cases rule: andthen_cases)
          case s4: (went x4 t4)
          from s4(2) obtain q where "quiet_depot t4 = (q, s')" by (auto elim: andthen_cases)
          from same [OF ren [OF s4(1)] this] show ?thesis .
        qed (use ren in blast)
      qed (use same h2 in \<open>auto simp: has_room_def\<close>)
    qed (use put_room [OF h1] in blast)
  qed (use same r0 in blast)
qed

lemma or_unlink_room:
  assumes "or_unlink n m s = (r, s')" "\<And>q t. m s = (q, t) \<Longrightarrow> room k b t"
  shows "room k b s'"
proof -
  obtain q t where m: "m s = (q, t)" by (cases "m s")
  have drop: "room k b v" if "catching is_os_error (depot_effect (drop_staged n)) (\<lambda>e'. ret ()) t = (z, v)" for z v
  proof -
    from that have "\<exists>y. depot_effect (drop_staged n) t = (y, v)" by (auto simp: catching_def split: prod.splits sum.splits if_splits)
    then show ?thesis using assms(2) [OF m] drop_room by (auto elim!: effect_either)
  qed
  show ?thesis
  proof (cases "s' = t")
    case False
    with assms(1) m obtain z where "catching is_os_error (depot_effect (drop_staged n)) (\<lambda>e'. ret ()) t = (z, s')"
      by (cases "catching is_os_error (depot_effect (drop_staged n)) (\<lambda>e'. ret ()) t")
        (auto simp: or_unlink_def split: sum.splits if_splits)
    then show ?thesis by (rule drop)
  qed (use assms(2) m in blast)
qed

lemma create_room:
  assumes "create_temp tmp s = (r, t)" "room 1 b s" "staged_payload tmp" "0 \<le> b"
  shows "room 0 0 t \<and> (r = Inr () \<longrightarrow> has_room tmp 0 b empty_file t)"
proof -
  have p: "room 0 b (put_staged tmp empty_file (s\<lparr>dk := (dk s)\<lparr>io := fs\<rparr>\<rparr>))" for fs
    using usage_set [of tmp empty_file "staged s"] assms(2) by (auto simp: room_def staged_usage_usage put_staged_def empty_file_def)
  have w: "room 0 b u \<Longrightarrow> room 0 0 u" "room 1 b u \<Longrightarrow> room 0 0 u" for u using assms(4) by (auto simp: room_def)
  from assms(1) show ?thesis unfolding create_temp_def
  proof (cases rule: depot_op_cases)
    case (failed e fs)
    with assms(2) w show ?thesis by simp
  next
    case (worked fs)
    with p [of fs] assms(2) w show ?thesis
      by (cases "map_of (staged s) tmp") (auto simp: has_room_def put_staged_def)
  qed
qed

text \<open>The bound is kept.\<close>

definition stays_bounded :: "depot \<Rightarrow> depot \<Rightarrow> bool" where
  "stays_bounded s s' \<longleftrightarrow> (room 0 0 s \<longrightarrow> room 0 0 s')"

lemma within_preorder: "transp stays_bounded" "reflp stays_bounded"
  by (auto intro!: transpI reflpI simp: stays_bounded_def)

lemma quiet_within: "keeps stays_bounded quiet_depot"
  by (rule keepsI) (auto simp: stays_bounded_def room_def staged_usage_usage dest: quiet_room)

lemmas within_rules = keeps_andthen within_preorder quiet_within keeps_now [OF within_preorder(2)] keeps_if

lemma stage_within: "keeps stays_bounded (stage cl f lead tg)"
proof -
  let ?tmp = "temp_name cl (batch_name cl lead tg)" and ?name = "batch_name cl lead tg"
  let ?go = "\<lambda>(count, size). if STAGED_MAX_BATCHES \<le> count \<or> STAGED_MAX_BYTES < size + (utf8_len (raw f) - 1) then ret False
        else andthen (create_temp ?tmp) (\<lambda>_. or_unlink ?tmp (stage_write ?tmp ?name f))"
  have go: "room 0 0 s'" if g: "?go (staged_usage t) u = (r, s')" and u: "room 0 0 u" "staged u = staged t" for t u r s'
  proof (cases "STAGED_MAX_BATCHES \<le> fst (staged_usage t) \<or> STAGED_MAX_BYTES < snd (staged_usage t) + (utf8_len (raw f) - 1)")
    case True
    with g u show ?thesis by (auto simp: split_def)
  next
    case False
    with u have rm: "room 1 (utf8_len (raw f)) u" by (auto simp: room_def staged_usage_usage)
    from False g have "andthen (create_temp ?tmp) (\<lambda>_. or_unlink ?tmp (stage_write ?tmp ?name f)) u = (r, s')" by (simp add: split_def)
    then show ?thesis
    proof (cases rule: andthen_cases)
      case (went x v)
      from create_room [OF went(1) rm temp_payload utf8_len_nonneg] have h: "has_room ?tmp 0 (utf8_len (raw f)) empty_file v" by simp
      show ?thesis using went(2) by (rule or_unlink_room) (rule stage_write_room [OF _ h temp_payload])
    qed (use create_room [OF _ rm temp_payload utf8_len_nonneg] in blast)
  qed
  have listed: "room 0 0 s'" if l: "andthen (depot_op (\<lambda>s. (Inr (staged_usage s), s))) ?go t = (r, s')" and t: "room 0 0 t" for t r s'
    using l
  proof (cases rule: andthen_cases)
    case (stopped e)
    then show ?thesis using t by (auto elim: depot_op_cases)
  next
    case (went x u)
    from went(1) obtain fs where "x = staged_usage t" "u = t\<lparr>dk := (dk t)\<lparr>io := fs\<rparr>\<rparr>"
      by (elim depot_op_cases) (auto simp: staged_usage_usage)
    with go [of t u] went(2) t show ?thesis by simp
  qed
  then have "keeps stays_bounded (andthen (depot_op (\<lambda>s. (Inr (staged_usage s), s))) ?go)" by (intro keepsI) (simp add: stays_bounded_def)
  note inner = this
  show ?thesis unfolding stage_def Let_def
    by (rule inner | rule keeps_andthen [OF within_preorder(1) quiet_within])+
qed

lemma same_staged_within: "staged s' = staged s \<Longrightarrow> stays_bounded s s'"
  by (simp add: stays_bounded_def room_def staged_usage_usage)

lemma effect_within: "(\<And>s. stays_bounded s (f s)) \<Longrightarrow> keeps stays_bounded (depot_effect f)"
proof (rule keepsI)
  fix s r s' assume f: "\<And>s. stays_bounded s (f s)" and e: "depot_effect f s = (r, s')"
  from e obtain fs where "s' = s\<lparr>dk := (dk s)\<lparr>io := fs\<rparr>\<rparr> \<or> s' = f (s\<lparr>dk := (dk s)\<lparr>io := fs\<rparr>\<rparr>)" by (rule effect_either)
  then show "stays_bounded s s'" using f [of "s\<lparr>dk := (dk s)\<lparr>io := fs\<rparr>\<rparr>"] by (auto simp: stays_bounded_def)
qed

lemma drop_within: "stays_bounded s (drop_staged n s)"
  using drop_room by (simp add: stays_bounded_def)

lemma move_within: "stays_bounded s (move_staged n s)"
proof (cases "map_of (staged s) n")
  case (Some c)
  then show ?thesis
    using drop_within [of "s\<lparr>dk := (dk s)\<lparr>quar := alist_set (quarantine_name n) c (quar (dk s))\<rparr>\<rparr>" n]
    by (simp add: move_staged_def stays_bounded_def)
qed (simp add: move_staged_def stays_bounded_def)

lemma loss_within: "keeps stays_bounded (depot_effect (add_loss k x))"
  by (rule effect_within) (simp add: same_staged_within add_loss_def)

lemma lossy_within: "keeps stays_bounded (lossy k x)"
  unfolding lossy_def record_loss_def by (intro within_rules catching_keeps loss_within)

lemma stage_pending_within: "keeps stays_bounded (stage_pending w cl fin)"
proof -
  have "keeps stays_bounded (catching is_os_error (andthen (stage cl f lead tg) (\<lambda>room. if room then ret 7 else lossy a b)) (\<lambda>e. lossy x y))"
    for f lead tg a b x y
    by (intro catching_keeps within_rules stage_within lossy_within)
  then show ?thesis unfolding stage_pending_def
    by (auto simp del: ret_simp split: sum.split capture_error.split intro!: within_rules lossy_within)
qed

lemma verdict_within: "keeps stays_bounded (verdict w cl fin resp)"
  unfolding verdict_def
  by (auto simp del: ret_simp split: json.split intro!: within_rules stage_pending_within lossy_within)

lemma send_within: "keeps stays_bounded (send w cl ec lk fin)"
proof (rule keepsI)
  fix s r s' assume a: "send w cl ec lk fin s = (r, s')"
  obtain reply d where h: "handle w ec (JObj [(''events'', JArr (map JObj fin))]) (dk s) = (reply, d)"
    by (cases "handle w ec (JObj [(''events'', JArr (map JObj fin))]) (dk s)")
  have same: "stays_bounded s (s\<lparr>dk := d\<rparr>)" by (simp add: same_staged_within)
  from a h consider "stage_pending w cl fin s = (r, s')" | "stage_pending w cl fin (s\<lparr>dk := d\<rparr>) = (r, s')"
    | resp where "verdict w cl fin resp (s\<lparr>dk := d\<rparr>) = (r, s')"
    by (auto simp: send_def split: if_splits link.splits option.splits)
  then show "stays_bounded s s'"
    by cases (use same in \<open>auto dest!: keepsD [OF stage_pending_within] keepsD [OF verdict_within] simp: stays_bounded_def\<close>)
qed

lemma on_disk_within: "keeps stays_bounded (on_disk m)"
  by (rule keepsI) (auto simp: on_disk_def intro: same_staged_within split: prod.splits)

lemma client_within: "keeps stays_bounded (client w cl ec lk j)"
  unfolding client_def
  by (auto simp del: ret_simp split: option.split intro!: within_rules on_disk_within stage_pending_within send_within)

lemma quarantine_staged_within: "keeps stays_bounded (quarantine_staged n reason)"
  unfolding quarantine_staged_def
  by (intro within_rules effect_within move_within) (rule same_staged_within, simp)

lemma replay_failed_within: "keeps stays_bounded (replay_failed n e)"
  unfolding replay_failed_def by (cases e) (simp_all del: raise_simp ret_simp, (intro within_rules quarantine_staged_within)+)

lemma replay_file_within: "keeps stays_bounded (replay_file w cfg n)"
proof -
  have read: "keeps stays_bounded (read_staged n)" unfolding read_staged_def
    by (rule depot_op_keeps) (auto intro: same_staged_within split: option.split)
  have count: "keeps stays_bounded (count_lost_stage n)" unfolding count_lost_stage_def
    by (intro catching_keeps within_rules loss_within effect_within drop_within)
  have attempt: "keeps stays_bounded (replay_attempt w cfg n)" unfolding replay_attempt_def
    by (intro within_rules read count on_disk_within)
  have drop: "keeps stays_bounded (andthen (depot_effect (drop_staged n)) (\<lambda>_. ret (Replayed outs)))" for outs
    by (intro within_rules effect_within drop_within)
  show ?thesis
  proof (rule keepsI)
    fix s r s' assume f: "replay_file w cfg n s = (r, s')"
    obtain q t where t: "replay_attempt w cfg n s = (q, t)" by (cases "replay_attempt w cfg n s")
    with f consider "s' = t" | e where "replay_failed n e t = (r, s')"
      | outs where "andthen (depot_effect (drop_staged n)) (\<lambda>_. ret (Replayed outs)) t = (r, s')"
      by (cases q) (auto simp: replay_file_def split: fate.splits)
    then show "stays_bounded s s'"
      by cases (use keepsD [OF attempt t] keepsD [OF replay_failed_within] keepsD [OF drop] in \<open>auto simp: stays_bounded_def\<close>)
  qed
qed

lemma replay_within: "keeps stays_bounded (replay_staged w cfg)"
proof -
  have stops: "keeps stays_bounded (replay_stops cfg k)" for k
    by (rule keepsI) (auto simp: replay_stops_def intro: same_staged_within split: if_splits)
  have each: "keeps stays_bounded (replay_each_file w cfg ns rep)" for ns rep
  proof (induction ns arbitrary: rep)
    case (Cons n ns)
    have "keeps stays_bounded (case x of Paused e \<Rightarrow> ret (counted n x rep) | _ \<Rightarrow> replay_each_file w cfg ns (counted n x rep))" for x rep
      using Cons.IH by (cases x) (simp_all del: ret_simp, intro within_rules)
    with Cons.IH show ?case unfolding replay_each_file.simps by (intro within_rules stops replay_file_within)
  qed (simp del: ret_simp add: within_rules)
  have "keeps stays_bounded (depot_op (\<lambda>s. (Inr (Some (replay_order cfg (map fst (staged s)))), s)))"
    by (rule depot_op_keeps) (auto intro: same_staged_within)
  then have l: "keeps stays_bounded (list_staged cfg)" unfolding list_staged_def by (intro within_rules catching_keeps)
  have "keeps stays_bounded (case b of None \<Rightarrow> ret ((new_report cfg [])\<lparr>rr_refused := [], rr_error := Some (Os_Error ''staged queue'')\<rparr>)
      | Some names \<Rightarrow> replay_each_file w cfg names (new_report cfg names))" for b
    using each by (cases b) (simp_all del: ret_simp, intro within_rules)
  with l show ?thesis unfolding replay_staged_def by (intro within_rules)
qed



section \<open>What goes wrong\<close>

lemma bad_batch_raises:
  assumes "es \<noteq> []" "\<not> is_obj (hd es)"
  shows "emit_batch w ec False None es d = (Inl (Attr_Err ''object has no attribute get''), d)"
proof -
  obtain e rest where e: "es = e # rest" "\<not> is_obj e" using assms by (cases es) auto
  have "prepare_each w (em_capture ec) None es (conn d) = (Inl (Attr_Err ''object has no attribute get''), conn d)"
    using e by (cases e) auto
  then show ?thesis by (simp add: emit_batch_def andthen_def on_db_def)
qed


definition bad_file :: spool_file where
  "bad_file = file_of sample_world (JObj [(''events'', JArr [JInt 1])])"

definition blocked_depot :: depot where
  "blocked_depot = sample_depot\<lparr>staged := [(''2-b.batch'', staged_file sample_world (map obj_of sample_reports)), (''1-a.batch'', bad_file)]\<rparr>"


text \<open>
  A stage whose last step fails, the fsync of the directory after the rename, ends with 3 ("NOT
  recorded") and counts a loss, and the file is in the queue all the same, to be replayed.
\<close>

lemma loss_counted_yet_staged:
  "(case client sample_world sample_client sample_emit Unreachable sample_batch
      (sample_depot\<lparr>dk := (sample_disk [])\<lparr>io := replicate 9 Runs @ [Fails (Os_Error ''fsync'')]\<rparr>\<rparr>) of
    (r, s) \<Rightarrow> (case r of Inr y \<Rightarrow> y = 3 | Inl e \<Rightarrow> False, map fst (losses s), map (staged_payload \<circ> fst) (staged s)))
   = (True, [''stage_failed''], [True])"
  by code_simp

end
