(* ===== verification/Expiry.thy ===== *)
theory Expiry
  imports Emit Task_State
begin

text \<open>
  The sweep that expires forgotten assignments (\<open>claudlobby/plane/expiry.py\<close>,
  \<open>commands/plane_expire.py\<close>, with the clauses of \<open>plane/queries.py\<close> it is made of): it reads
  which assignments are open, past their deadline and quiet, and emits an \<open>expired\<close> event for
  each, on the condition that the same reading still holds under the write lock.

  SQLite's \<open>strftime('%s', x)\<close> and the subtraction of days from an instant are given from outside.
  A comparison with NULL is false.
\<close>

section \<open>What the sweep reads\<close>

record clock =
  ck_epoch :: "string \<Rightarrow> int option"
  ck_ago :: "string \<Rightarrow> int \<Rightarrow> string"

definition sql_eq :: "json \<Rightarrow> json \<Rightarrow> bool" where
  "sql_eq u v \<longleftrightarrow> u \<noteq> JNull \<and> u = v"

definition task_events :: "plane_db \<Rightarrow> row list" where
  "task_events d = filter (\<lambda>t. col t ''kind'' = JStr ''task'') (tables d ''events'')"

definition names_assignment :: "row \<Rightarrow> row \<Rightarrow> bool" where
  "names_assignment a t \<longleftrightarrow> sql_eq (col t ''assignment_id'') (col a ''assignment_id'')"

text \<open>\<open>NON_TERMINAL_CLAUSE\<close>: no terminal event names the assignment, no later cancellation its task.\<close>

definition closes :: "row \<Rightarrow> row \<Rightarrow> bool" where
  "closes a t \<longleftrightarrow> names_assignment a t \<and> col t ''event'' \<in> JStr ` set TERMINAL_TASK_EVENTS"

definition cancels_task :: "row \<Rightarrow> row \<Rightarrow> bool" where
  "cancels_task a t \<longleftrightarrow> col t ''emitter'' = JStr ''claudlobby.tasks.v1'' \<and> col t ''event'' = JStr ''cancelled''
     \<and> col t ''assignment_id'' = JNull \<and> sql_eq (col t ''work_item_id'') (col a ''work_item_id'') \<and> seq_of a < seq_of t"

definition non_terminal :: "plane_db \<Rightarrow> row \<Rightarrow> bool" where
  "non_terminal d a \<longleftrightarrow> \<not> list_ex (closes a) (task_events d) \<and> \<not> list_ex (cancels_task a) (task_events d)"

text \<open>\<open>EFFECTIVE_DEADLINE_SQL\<close>: the newest move of the deadline, else the one promised; an empty text is none.\<close>

definition text_or_null :: "json \<Rightarrow> string option" where
  "text_or_null v = (case v of JStr s \<Rightarrow> if s = [] then None else Some s | _ \<Rightarrow> None)"

definition newest_deadline_fact :: "plane_db \<Rightarrow> row \<Rightarrow> row option" where
  "newest_deadline_fact d a =
     (case sort_key seq_of (filter (\<lambda>t. col t ''event'' = JStr ''deadline_changed'' \<and> names_assignment a t) (task_events d)) of
        [] \<Rightarrow> None | ts \<Rightarrow> Some (last ts))"

definition effective_deadline :: "plane_db \<Rightarrow> row \<Rightarrow> string option" where
  "effective_deadline d a =
     (case newest_deadline_fact d a of Some t \<Rightarrow> text_or_null (col t ''deadline'') | None \<Rightarrow> text_or_null (col a ''expected_by''))"

definition deadline_passed :: "clock \<Rightarrow> plane_db \<Rightarrow> row \<Rightarrow> string \<Rightarrow> bool" where
  "deadline_passed ck d a bound =
     (case effective_deadline d a of None \<Rightarrow> False
      | Some x \<Rightarrow> (case (ck_epoch ck x, ck_epoch ck bound) of (Some i, Some j) \<Rightarrow> i < j | _ \<Rightarrow> False))"

text \<open>No task event on it has landed since the cutoff; landing times compare as texts.\<close>

definition heard_since :: "string \<Rightarrow> row \<Rightarrow> row \<Rightarrow> bool" where
  "heard_since cutoff a t \<longleftrightarrow> names_assignment a t \<and> (case col t ''ingested_at'' of JStr x \<Rightarrow> cutoff \<le> x | _ \<Rightarrow> False)"

definition quiet_since :: "plane_db \<Rightarrow> row \<Rightarrow> string \<Rightarrow> bool" where
  "quiet_since d a cutoff \<longleftrightarrow> \<not> list_ex (heard_since cutoff a) (task_events d)"

definition is_expirable :: "clock \<Rightarrow> plane_db \<Rightarrow> string \<Rightarrow> row \<Rightarrow> bool" where
  "is_expirable ck d cutoff a \<longleftrightarrow> non_terminal d a \<and> deadline_passed ck d a cutoff \<and> quiet_since d a cutoff"

definition fleet_alias :: "plane_db \<Rightarrow> row \<Rightarrow> string option" where
  "fleet_alias d a = map_option i_alias (find (\<lambda>i. col a ''fleet_uid'' = JStr (i_uid i)) (identities d))"

record expiry_row =
  er_assignment :: string
  er_work_item :: string
  er_deadline :: string
  er_fleet :: "string option"

definition expiry_row_of :: "plane_db \<Rightarrow> row \<Rightarrow> expiry_row" where
  "expiry_row_of d a =
     \<lparr>er_assignment = text_of (col a ''assignment_id''), er_work_item = text_of (col a ''work_item_id''),
      er_deadline = (case effective_deadline d a of None \<Rightarrow> [] | Some x \<Rightarrow> x), er_fleet = fleet_alias d a\<rparr>"

record expiry_plan =
  ep_cutoff :: string
  ep_rows :: "expiry_row list"
  ep_unattributed :: "string list"

definition attributed :: "expiry_row \<Rightarrow> bool" where
  "attributed r = (case er_fleet r of None \<Rightarrow> False | Some f \<Rightarrow> f \<noteq> [])"

text \<open>The query's rows, by deadline, in a dictionary by assignment.\<close>

definition seen_rows :: "clock \<Rightarrow> string \<Rightarrow> plane_db \<Rightarrow> (string \<times> expiry_row) list" where
  "seen_rows ck cutoff d =
     fold (\<lambda>r acc. alist_set (er_assignment r) r acc)
       (sort_key er_deadline (map (expiry_row_of d) (filter (is_expirable ck d cutoff) (tables d ''assignments'')))) []"

definition expirable :: "clock \<Rightarrow> string \<Rightarrow> int \<Rightarrow> plane_db \<Rightarrow> plane_error + expiry_plan" where
  "expirable ck now after_days d =
     (if after_days < 0 then Inl (Value_Err ''expiry horizon cannot be negative'')
      else let cutoff = ck_ago ck now after_days; rows = map snd (seen_rows ck cutoff d) in
        Inr \<lparr>ep_cutoff = cutoff, ep_rows = filter attributed rows,
             ep_unattributed = map er_assignment (filter (\<lambda>r. \<not> attributed r) rows)\<rparr>)"

text \<open>\<open>require_expirable\<close>, as a condition on the database: each planned row is among the current ones, unchanged.\<close>

definition require_expirable :: "clock \<Rightarrow> expiry_row list \<Rightarrow> string \<Rightarrow> int \<Rightarrow> plane_db \<Rightarrow> bool" where
  "require_expirable ck planned now after_days d =
     (case expirable ck now after_days d of Inl e \<Rightarrow> False
      | Inr plan \<Rightarrow> list_all (\<lambda>r. map_of (map (\<lambda>x. (er_assignment x, x)) (rev (ep_rows plan))) (er_assignment r) = Some r) planned)"

section \<open>The sweep\<close>

definition expired_event :: "world \<Rightarrow> string \<Rightarrow> int \<Rightarrow> expiry_row \<Rightarrow> json" where
  "expired_event w stamp after_days r =
     JObj [(''event_type'', JStr ''task''), (''emitter'', JStr ''attention-expiry''),
       (''fleet'', case er_fleet r of None \<Rightarrow> JNull | Some f \<Rightarrow> JStr f), (''occurred_at'', JStr stamp),
       (''event_id'', JStr (derive_uid (w_sha w) ''ev'' (er_assignment r @ '':expired''))),
       (''payload'', JObj
         [(''work_item_id'', JStr (er_work_item r)), (''assignment_id'', JStr (er_assignment r)), (''event'', JStr ''expired''),
          (''summary'', JStr (''expired by the attention sweep: >'' @ int_text after_days @ ''d past expected_by '' @ er_deadline r))])]"

definition expired_events :: "world \<Rightarrow> string \<Rightarrow> int \<Rightarrow> expiry_row list \<Rightarrow> json list" where
  "expired_events w stamp after_days rows = map (expired_event w stamp after_days) rows"

text \<open>What the command answers; its other failures leave it as they are.\<close>

datatype sweep_answer =
    Bad_Horizon
  | Would_Expire nat
  | Expired nat
  | Selection_Changed
  | Commit_Unknown
  | Still_Pending

text \<open>The rows of the selected fleets.\<close>

definition scope_rows :: "string list \<Rightarrow> expiry_plan \<Rightarrow> expiry_row list" where
  "scope_rows fleets found = filter (\<lambda>r. er_fleet r \<in> Some ` set fleets) (ep_rows found)"

text \<open>\<open>d\<close> is the database when the selection was read, before the write lock.\<close>

definition sweep :: "world \<Rightarrow> emit_config \<Rightarrow> clock \<Rightarrow> string list \<Rightarrow> string \<Rightarrow> int \<Rightarrow> bool \<Rightarrow> plane_db \<Rightarrow> (disk, sweep_answer) st" where
  "sweep w ec ck fleets stamp days dry_run d =
     (if days < 0 \<or> 36500 < days then ret Bad_Horizon
      else andthen (lift (expirable ck stamp days d)) (\<lambda>found.
        let rows = scope_rows fleets found in
        if dry_run then ret (Would_Expire (length rows))
        else if rows = [] then ret (Expired 0)
        else (\<lambda>s. case emit_batch w ec True (Some (require_expirable ck rows stamp days)) (expired_events w stamp days rows) s of
            (Inr outcomes, s') \<Rightarrow>
              (Inr (if list_ex (\<lambda>x. eo_status x = Spooled) outcomes then Still_Pending
                    else if length outcomes \<noteq> length rows then Commit_Unknown else Expired (length rows)), s')
          | (Inl e, s') \<Rightarrow>
              (case e of Precondition_Failed m \<Rightarrow> (Inr Selection_Changed, s')
               | Os_Error m \<Rightarrow> (Inr Commit_Unknown, s')
               | _ \<Rightarrow> if is_sqlite_error e then (Inr Commit_Unknown, s') else (Inl e, s')))))"

end
