(* ===== verification/Expiry_Safety.thy ===== *)
theory Expiry_Safety
  imports Expiry
begin

text \<open>
  What the sweep promises: an assignment is expired only when it is forgotten at the moment the
  event is committed, whatever the earlier reading said, and an expired one leaves the open set.
\<close>

declare jget.simps [simp del]

section \<open>The row of a task event\<close>

definition task_fact :: "plane_db \<Rightarrow> obj \<Rightarrow> bool" where
  "task_fact d p \<longleftrightarrow> (\<exists>t \<in> set (task_events d). col t ''event'' = fld p ''event'' \<and> col t ''assignment_id'' = fld p ''assignment_id'')"

definition task_in :: "plane_db \<Rightarrow> item \<Rightarrow> bool" where
  "task_in d it \<longleftrightarrow> (fst (snd it) = ''task'' \<longrightarrow> task_fact d (snd (snd it)))"

definition grows :: "plane_db \<Rightarrow> plane_db \<Rightarrow> bool" where
  "grows d d' \<longleftrightarrow> set (tables d ''events'') \<subseteq> set (tables d' ''events'')"

lemma grows_refl: "grows d d" by (simp add: grows_def)

lemma grows_trans: "grows d d1 \<Longrightarrow> grows d1 d' \<Longrightarrow> grows d d'" by (auto simp: grows_def)

lemma task_in_grows: "grows d d' \<Longrightarrow> task_in d it \<Longrightarrow> task_in d' it"
  by (auto simp: grows_def task_in_def task_fact_def task_events_def)

lemma adds_grow: "adds_nothing d d' \<Longrightarrow> grows d d'" "adds_row e f n d d' \<Longrightarrow> grows d d'"
  by (auto simp: adds_nothing_def adds_row_def grows_def)

lemma lands_grow: "lands now eis rs d d' \<Longrightarrow> grows d d'"
  by (induction rule: lands.induct) (auto intro: adds_grow grows_trans)

lemma task_values_cols:
  assumes "task_values prt p s = (Inr r, s')"
  shows "map_of r ''kind'' = Some (JStr ''task'')" "map_of r ''event'' = Some (fld p ''event'')"
    "map_of r ''assignment_id'' = Some (fld p ''assignment_id'')"
  using assms by (auto simp: task_values_def andthen_Inr)

lemma merged_col: "map_of r c = Some v \<Longrightarrow> col (merge_row base r) c = v"
  by (simp add: merge_row_def jget.simps map_add_def)

lemma task_item_row:
  assumes "ingest_item w now h (e, (env, ''task'', p)) s = (Inr res, s')"
  shows "task_in (db s') (env, ''task'', p)"
proof -
  from assms obtain seq s1 f s2 t r s3 where
    tr: "row_source w now h ''task'' p From_Payload s2 = (Inr (t, r), s3)"
    and ins: "insert_row t (merge_row (envelope seq e env h f now) r) s3 = (Inr (), s')"
    by (auto simp: ingest_item_def override_of_def ingest_row_def andthen_Inr)
  from tr have t: "t = ''events''" and v: "task_values (party w now h) p s2 = (Inr r, s3)"
    by (auto simp: row_source_def family_values_def with_table_Inr)
  let ?r = "merge_row (envelope seq e env h f now) r"
  from insert_row_Inr [OF ins] have "?r \<in> set (tables (db s') ''events'')" by (auto simp: t)
  with task_values_cols [OF v, THEN merged_col] show ?thesis
    by (auto simp: task_in_def task_fact_def task_events_def)
qed

lemma item_grows:
  assumes "ingest_item w now h ei s = (Inr res, s')" "classed (snd ei)"
  shows "grows (db s) (db s')"
proof -
  obtain e env cls p where ei: "ei = (e, (env, cls, p))" by (cases ei) auto
  with assms(2) have "fld env ''event_type'' = JStr cls" by (simp add: classed_def)
  from ingest_item_adds [OF assms(1) [unfolded ei] this] show ?thesis using adds_grow by blast
qed

lemma each_task_rows:
  "each_act (ingest_item w now h) prepared s = (Inr rs, s') \<Longrightarrow> list_all (\<lambda>ei. classed (snd ei)) prepared
     \<Longrightarrow> list_all (\<lambda>ei. task_in (db s') (snd ei)) prepared"
proof (induction prepared arbitrary: s rs)
  case (Cons ei eis)
  obtain e env cls p where ei: "ei = (e, (env, cls, p))" by (cases ei) auto
  from Cons.prems(1) obtain r t rs' where r: "ingest_item w now h ei s = (Inr r, t)"
    and e: "each_act (ingest_item w now h) eis t = (Inr rs', s')" unfolding each_act_Inr by blast
  have "task_in (db t) (snd ei)"
  proof (cases "cls = ''task''")
    case True
    with task_item_row [OF r [unfolded ei True]] ei show ?thesis by simp
  qed (simp add: ei task_in_def)
  moreover have "grows (db t) (db s')" using each_lands [OF _ e] Cons.prems(2) by (auto intro: lands_grow)
  ultimately show ?case using Cons.IH [OF e] Cons.prems(2) task_in_grows by simp
qed simp

section \<open>The condition of a batch\<close>

text \<open>
  A batch that is answered met its condition on the database it was committed to, or every event
  of it had been recorded before.
\<close>

definition admitted :: "(plane_db \<Rightarrow> bool) \<Rightarrow> item list \<Rightarrow> session \<Rightarrow> session \<Rightarrow> bool" where
  "admitted P items s s' \<longleftrightarrow> P (db s) \<and> list_all (task_in (db s')) items \<or> list_all (event_in (db s)) items \<or> doubtful s"

lemma transaction_admitted:
  assumes t: "transaction w now h (Some P) prepared s = (Inr rs, s')" and c: "list_all (\<lambda>ei. classed (snd ei)) prepared"
    and idle: "saved s = None"
  shows "P (db s) \<and> list_all (\<lambda>ei. task_in (db s') (snd ei)) prepared"
proof -
  from t obtain s1 s2 s3 where b: "begin_immediate s = (Inr (), s1)" and p: "check_precondition (Some P) s1 = (Inr (), s2)"
    and e: "each_act (ingest_item w now h) prepared s2 = (Inr rs, s3)" and m: "commit s3 = (Inr (), s')"
    by (auto simp: transaction_def andthen_Inr)
  from begin_cases [OF b idle] have "db s1 = db s" by simp
  with p have "P (db s)" by (auto simp: check_precondition_def andthen_Inr dest!: query_Inr split: if_splits)
  moreover from m have "db s' = db s3" by (auto simp: commit_def split: list.splits fault.splits)
  ultimately show ?thesis using each_task_rows [OF e c] by simp
qed

lemma commit_or_verify_admitted:
  assumes r: "commit_or_verify w now h (Some P) prepared s = (Inr rs, s')" and c: "list_all (\<lambda>ei. classed (snd ei)) prepared"
    and idle: "saved s = None"
  shows "P (db s) \<and> list_all (\<lambda>ei. task_in (db s') (snd ei)) prepared \<or> again prepared rs (db s) \<or> in_doubt s"
proof -
  obtain q t where t: "transaction w now h (Some P) prepared (s\<lparr>memo := []\<rparr>) = (q, t)" by (cases "transaction w now h (Some P) prepared (s\<lparr>memo := []\<rparr>)")
  show ?thesis
  proof (cases q)
    case (Inr x)
    with r t have "x = rs" "t = s'" by (auto simp: commit_or_verify_def)
    with transaction_admitted [OF t [unfolded Inr] c] idle show ?thesis by simp
  next
    case (Inl e)
    with r t have v: "verify_duplicates w h prepared (rollback_if_open t) = (Inr rs, s')"
      by (auto simp: commit_or_verify_def split: plane_error.splits if_splits)
    have "db (rollback_if_open t) = db s \<or> in_doubt s"
      using transaction_outcome [OF t _ c] idle Inl rollback_simps [of t] by (auto simp: in_doubt_def)
    with verify_answers [OF v c] show ?thesis by auto
  qed
qed

lemma ingest_admitted:
  assumes i: "ingest_many w h (Some P) items s = (Inr rs, s')" and idle: "saved s = None" and c: "list_all classed items"
  shows "admitted P items s s'"
proof -
  from i obtain now s1 prepared s2 where n: "now_iso w s = (Inr now, s1)" and p: "each_act (prepare w) items s1 = (Inr prepared, s2)"
    and cv: "commit_or_verify w now h (Some P) prepared s2 = (Inr rs, s')"
    by (auto simp: ingest_many_def andthen_Inr split: if_splits)
  have k: "keeps same_db (each_act (prepare w) items)" by (intro keeps_each frame_preorders prepare_keeps)
  have same: "same_db s s2" by (rule transpD [OF frame_preorders(3) keepsD [OF keeps_mint(2) n] keepsD [OF k p]])
  then have idle2: "saved s2 = None" and db2: "db s2 = db s" and d2: "in_doubt s2 \<Longrightarrow> doubtful s"
    using idle in_doubt_mono by (auto simp: same_db_def doubtful_def)
  note pf = each_prepare [OF p]
  then have items: "items = map snd prepared" by (simp add: prepared_for_def)
  from commit_or_verify_admitted [OF cv prepared_classed [OF pf c] idle2] show ?thesis
    using prepared_events [OF pf again_events] d2 by (auto simp: admitted_def db2 items list_all_iff)
qed

lemma admitted_frame:
  assumes "same_db s t" "same_db u s'" "admitted P items t u" shows "admitted P items s s'"
  using assms doubtful_mono by (auto simp: admitted_def same_db_def)

lemma attempt_admitted:
  assumes a: "attempt w cfg (Some P) items s = (Inr rs, s')" and idle: "saved s = None" and c: "list_all classed items"
  shows "admitted P items s s'"
proof -
  have pf: "keeps same_db (if em_borrowed cfg then ret () else preflight_schema cfg)" by (intro read_rules preflight_keeps)
  let ?body = "andthen (require_current_schema cfg) (\<lambda>_. andthen (lift (em_host cfg)) (\<lambda>host. ingest_many w host (Some P) items))"
  from a obtain x y s1 s2 where 1: "(if em_borrowed cfg then ret () else preflight_schema cfg) s = (Inr x, s1)"
    and 2: "stmt s1 = (Inr y, s2)" and b: "closing cfg ?body s2 = (Inr rs, s')"
    unfolding attempt_def andthen_Inr by blast
  from b obtain s5 where body: "?body s2 = (Inr rs, s5)" and cl: "same_db s5 s'"
    by (auto simp: closing_def same_db_def split: prod.splits sum.splits if_splits dest!: keepsD [OF keeps_stmt])
  from body obtain z host s3 where 3: "require_current_schema cfg s2 = (Inr z, s3)"
    and i: "ingest_many w host (Some P) items s3 = (Inr rs, s5)" by (auto simp: andthen_Inr)
  have st: "same_db s s3"
    by (rule transpD [OF frame_preorders(3) keepsD [OF pf 1]
        transpD [OF frame_preorders(3) keepsD [OF keeps_stmt 2] keepsD [OF require_keeps 3]]])
  with idle have "saved s3 = None" by (simp add: same_db_def)
  from admitted_frame [OF st cl ingest_admitted [OF i this c]] show ?thesis .
qed

lemma deliver_admitted:
  "deliver k w cfg True (Some P) captured items s = (Inr outs, s') \<Longrightarrow> saved (conn s) = None \<Longrightarrow> list_all classed items
     \<Longrightarrow> admitted P items (conn s) (conn s') \<and> list_all (\<lambda>x. eo_status x \<noteq> Spooled) outs"
proof (induction k arbitrary: s)
  case 0
  then obtain q t where t: "on_db (attempt w cfg (Some P) items) s = (q, t)" and a: "after_attempt w cfg True captured None q t = (Inr outs, s')"
    by (auto split: prod.splits)
  from a obtain rs where "q = Inr rs" "t = s'" "outs = map outcome_of rs" by (auto simp: after_attempt_def split: sum.splits plane_error.splits if_splits)
  with t attempt_admitted [OF _ 0(2,3)] outcome_status show ?case by (auto simp: on_db_def split: prod.splits)
next
  case (Suc k)
  then obtain q t where t: "on_db (attempt w cfg (Some P) items) s = (q, t)"
    and a: "after_attempt w cfg True captured (Some (deliver k w cfg True (Some P) captured items)) q t = (Inr outs, s')"
    by (auto split: prod.splits)
  from on_db_attempt [OF t Suc.prems(2,3)] have tq: "tried items (conn s) q (conn t)" by simp
  show ?case
  proof (cases q)
    case (Inr rs)
    with a have "t = s'" "outs = map outcome_of rs" by (simp_all add: after_attempt_def)
    with t Inr attempt_admitted [OF _ Suc.prems(2,3)] outcome_status show ?thesis by (auto simp: on_db_def split: prod.splits)
  next
    case (Inl e)
    with a have d: "deliver k w cfg True (Some P) captured items t = (Inr outs, s')"
      by (auto simp: after_attempt_def split: plane_error.splits if_splits)
    from tq have idle: "saved (conn t) = None" and dm: "doubtful (conn t) \<Longrightarrow> doubtful (conn s)"
      and db: "db (conn t) = db (conn s) \<or> doubtful (conn s)" using doubtful_mono by (auto simp: tried_def Inl)
    from Suc.IH [OF d idle Suc.prems(3)] dm db show ?thesis by (auto simp: admitted_def)
  qed
qed

text \<open>With a condition the door answers only what it committed.\<close>

lemma emit_admitted:
  assumes e: "emit_batch w cfg True (Some P) reqs s = (Inr outs, s')" and idle: "saved (conn s) = None"
  obtains captured items t where "prepare_each w (em_capture cfg) None reqs (conn s) = (Inr (captured, items), t)"
    "admitted P items (conn s) (conn s')" "list_all (event_in (db (conn s'))) items" "list_all (\<lambda>x. eo_status x \<noteq> Spooled) outs"
proof -
  from e obtain captured items c where p: "prepare_each w (em_capture cfg) None reqs (conn s) = (Inr (captured, items), c)"
    and d: "deliver (LOCK_RETRY_ATTEMPTS - 1) w cfg True (Some P) captured items (s\<lparr>conn := c\<rparr>) = (Inr outs, s')"
    by (auto simp: emit_batch_def andthen_Inr on_db_def split: prod.splits)
  from keepsD [OF prepare_each_keeps p] have k: "same_db (conn s) c" .
  with idle have idle': "saved (conn (s\<lparr>conn := c\<rparr>)) = None" by (simp add: same_db_def)
  from prepare_each_carries [OF p] have cl: "list_all classed items" using validate_all_classed by blast
  note da = deliver_admitted [OF d idle' cl]
  from k da have a: "admitted P items (conn s) (conn s')" using admitted_frame [of "conn s" c "conn s'" "conn s'"] by (simp add: same_db_def)
  have "outs = [] \<Longrightarrow> captured = [] \<Longrightarrow> items = []" using prepare_each_carries [OF p] by simp
  with deliver_outcome [OF d idle' cl] da have "list_all (event_in (db (conn s'))) items"
    by (cases outs) (auto simp: delivered_def)
  with p a da show thesis using that by blast
qed

section \<open>What the sweep's events become\<close>

definition expiry_id :: "world \<Rightarrow> expiry_row \<Rightarrow> string" where
  "expiry_id w r = derive_uid (w_sha w) ''ev'' (er_assignment r @ '':expired'')"

definition expires :: "world \<Rightarrow> expiry_row \<Rightarrow> item \<Rightarrow> bool" where
  "expires w r it \<longleftrightarrow> fst (snd it) = ''task'' \<and> fld (snd (snd it)) ''event'' = JStr ''expired''
     \<and> fld (snd (snd it)) ''assignment_id'' = JStr (er_assignment r) \<and> fld (fst it) ''event_id'' = JStr (expiry_id w r)"

text \<open>The fields that the sweep sets come through the capture policy and the contract.\<close>

definition asks_expiry :: "world \<Rightarrow> expiry_row \<Rightarrow> obj \<Rightarrow> bool" where
  "asks_expiry w r kvs \<longleftrightarrow> fld kvs ''event_type'' = JStr ''task'' \<and> fld kvs ''event_id'' = JStr (expiry_id w r)
     \<and> (\<exists>p. fld kvs ''payload'' = JObj p \<and> fld p ''event'' = JStr ''expired'' \<and> fld p ''assignment_id'' = JStr (er_assignment r))"

lemma fld_map_of: "fld kvs n = JStr s \<Longrightarrow> map_of kvs n = Some (JStr s)" "fld kvs n = JObj o' \<Longrightarrow> map_of kvs n = Some (JObj o')"
  by (auto simp: jget.simps split: option.splits)

lemma text_read: "read_value x t (JStr s) = Some v \<Longrightarrow> t \<in> {FStr, FMatch P, FOneOf vs, FOpt (FMatch P)} \<Longrightarrow> v = JStr s"
  by (auto simp: text_if_def split: if_splits)

lemma validated_expiry:
  assumes v: "validate_request sha x (JObj kvs) = Inr it" and a: "asks_expiry w r kvs"
  shows "expires w r it"
proof -
  obtain env fam p where it: "it = (env, fam, p)" by (cases it) auto
  note v = v [unfolded it]
  obtain m where r: "read_fields x EmitRequest_fields kvs = Some env" and fam: "fam = text_of (fld env ''event_type'')"
    and m: "map_of FAMILIES fam = Some m" by (rule validate_request_cases [OF v]) auto
  from a obtain pk where pk: "fld kvs ''payload'' = JObj pk" "fld pk ''event'' = JStr ''expired''"
    "fld pk ''assignment_id'' = JStr (er_assignment r)" by (auto simp: asks_expiry_def)
  have d: "distinct (field_names EmitRequest_fields)" using envelope_well_declared by (simp add: well_declared_def)
  have t: "fld env ''event_type'' = JStr ''task''" and e: "fld env ''event_id'' = JStr (expiry_id w r)" and pl: "fld env ''payload'' = JObj pk"
    using read_fields_value [OF r d, of "''event_type''" FStr None] read_fields_value [OF r d, of "''event_id''" "FOpt (FMatch (id_of ''event''))" "Some JNull"]
      read_fields_value [OF r d, of "''payload''" FDict None] a pk
    by (auto simp: EmitRequest_fields_def asks_expiry_def field_value_def fld_map_of text_if_def split: if_splits)
  have fam': "fam = ''task''" using fam t by (simp add: text_of_def)
  have mv: "model_validate sha x (plain_model TaskEvent_fields) (JObj pk) = Some p"
    using v fam' t pl unfolding validate_request_def
    by (auto simp: Let_def FAMILIES_def text_of_def split: option.splits if_splits)
  then have rp: "read_fields x TaskEvent_fields pk = Some p"
    by (auto simp: model_validate_def plain_model_def no_after_def split: if_splits bind_splits)
  have dp: "distinct (field_names TaskEvent_fields)" by (simp add: TaskEvent_fields_def field_names_def)
  have "fld p ''event'' = JStr ''expired''" "fld p ''assignment_id'' = JStr (er_assignment r)"
    using read_fields_value [OF rp dp, of "''event''" "FOneOf TASK_EVENTS" None]
      read_fields_value [OF rp dp, of "''assignment_id''" "FOpt (FMatch (id_of ''assignment''))" "Some JNull"] pk
    by (auto simp: TaskEvent_fields_def field_value_def fld_map_of text_if_def split: if_splits)
  with fam' e show ?thesis by (simp add: it expires_def)
qed

lemma captured_expiry:
  assumes "apply_capture sha kvs modes = Inr (Some c)" "asks_expiry w r kvs" shows "asks_expiry w r c"
proof -
  from assms(2) have t: "event_type kvs = ''task''" by (simp add: asks_expiry_def event_type_def)
  with assms obtain p where "payload_of kvs = Inr p" "c = with_payload kvs (drop_fields [''summary'', ''reason'', ''question''] p)"
    by (auto simp: apply_capture_def Let_def split: sum.splits if_splits)
  with assms(2) show ?thesis by (auto simp: asks_expiry_def payload_of_def jget_drop_fields split: json.splits)
qed

lemma finalized_expiry:
  assumes "finalize w kvs s = (Inr r', t)" "asks_expiry w r kvs" shows "asks_expiry w r r'"
proof -
  have "truthy (JStr (expiry_id w r))" by (simp add: expiry_id_def derive_uid_def)
  with assms show ?thesis by (auto simp: finalize_def andthen_Inr asks_expiry_def split: if_splits)
qed

lemma expired_event_asks: "\<exists>kvs. expired_event w stamp days r = JObj kvs \<and> asks_expiry w r kvs"
  by (simp add: expired_event_def asks_expiry_def expiry_id_def jget.simps)

lemma prepared_expiry:
  "prepare_each w cfg modes (map (expired_event w stamp days) rows) s = (Inr (cs, items), s') \<Longrightarrow> list_all2 (expires w) rows items"
proof (induction rows arbitrary: modes s cs items)
  case (Cons r rows)
  obtain kvs where kvs: "expired_event w stamp days r = JObj kvs" "asks_expiry w r kvs" using expired_event_asks by blast
  from Cons.prems kvs(1) obtain r' t modes' it c u cs' its' where f: "finalize w kvs s = (Inr r', t)"
    and v: "validate_item w (case modes' of None \<Rightarrow> [] | Some ms \<Rightarrow> ms) r' = Inr (it, c)"
    and p: "prepare_each w cfg modes' (map (expired_event w stamp days) rows) u = (Inr (cs', its'), s')" and e: "items = it # its'"
    by (auto simp: andthen_Inr split: json.splits)
  have "asks_expiry w r c"
    using v finalized_expiry [OF f kvs(2)] captured_expiry
    by (auto simp: validate_item_def split: sum.splits option.splits)
  with validate_item_valid [OF v] validated_expiry have "expires w r it" by blast
  with Cons.IH [OF p] e show ?case by simp
qed simp

section \<open>What the condition says\<close>

text \<open>A row of the plan is one of an assignment that is open, overdue and quiet.\<close>

definition forgotten :: "clock \<Rightarrow> plane_db \<Rightarrow> string \<Rightarrow> expiry_row \<Rightarrow> bool" where
  "forgotten ck d cutoff r \<longleftrightarrow> list_ex (\<lambda>a. is_expirable ck d cutoff a \<and> expiry_row_of d a = r) (tables d ''assignments'')"

definition left_open :: "plane_db \<Rightarrow> string \<Rightarrow> bool" where
  "left_open d aid \<longleftrightarrow> list_ex (\<lambda>a. col a ''assignment_id'' = JStr aid \<and> non_terminal d a) (tables d ''assignments'')"

lemma alist_set_values: "snd ` set (alist_set k v xs) \<subseteq> insert v (snd ` set xs)"
  by (induction k v xs rule: alist_set.induct) auto

lemma seen_sub: "snd ` set (fold (\<lambda>r acc. alist_set (er_assignment r) r acc) rs acc) \<subseteq> set rs \<union> snd ` set acc"
proof (induction rs arbitrary: acc)
  case (Cons r rs)
  from Cons.IH [of "alist_set (er_assignment r) r acc"] alist_set_values [of "er_assignment r" r acc] show ?case by auto
qed simp

lemma seen_forgotten: "r \<in> snd ` set (seen_rows ck cutoff d) \<Longrightarrow> forgotten ck d cutoff r"
  using seen_sub unfolding seen_rows_def by (fastforce simp: forgotten_def list_ex_iff)

lemma required_forgotten:
  assumes "require_expirable ck rows stamp days d" shows "list_all (forgotten ck d (ck_ago ck stamp days)) rows"
proof -
  from assms obtain plan where p: "expirable ck stamp days d = Inr plan"
    and a: "list_all (\<lambda>r. map_of (map (\<lambda>x. (er_assignment x, x)) (rev (ep_rows plan))) (er_assignment r) = Some r) rows"
    by (auto simp: require_expirable_def split: sum.splits)
  have "r \<in> set (ep_rows plan)" if "map_of (map (\<lambda>x. (er_assignment x, x)) (rev (ep_rows plan))) k = Some r" for r k
    using map_of_SomeD [OF that] by auto
  moreover have "set (ep_rows plan) \<subseteq> snd ` set (seen_rows ck (ck_ago ck stamp days) d)"
    using p by (auto simp: expirable_def Let_def split: if_splits)
  ultimately show ?thesis using a seen_forgotten unfolding list_all_iff by blast
qed

lemma expired_closes:
  assumes "expires w r it" "task_in d it" shows "\<not> left_open d (er_assignment r)"
proof -
  from assms obtain t where "t \<in> set (task_events d)" "col t ''event'' = JStr ''expired''" "col t ''assignment_id'' = JStr (er_assignment r)"
    by (auto simp: expires_def task_in_def task_fact_def)
  then show ?thesis
    by (auto simp: left_open_def list_ex_iff non_terminal_def closes_def names_assignment_def sql_eq_def TERMINAL_TASK_EVENTS_def)
qed

lemma expired_recorded: "expires w r it \<Longrightarrow> event_in d it \<Longrightarrow> recorded d (expiry_id w r) ''task''"
  by (auto simp: expires_def event_in_def text_of_def expiry_id_def derive_uid_def)

lemma list_all2_transfer:
  "list_all2 R xs ys \<Longrightarrow> list_all Q ys \<Longrightarrow> (\<And>x y. R x y \<Longrightarrow> Q y \<Longrightarrow> P x) \<Longrightarrow> list_all P xs"
  by (induction rule: list_all2_induct) auto

section \<open>Properties\<close>

text \<open>
  C14. Nothing is expired on a stale reading. When the sweep says that it expired assignments, each
  of them was open, past its deadline for the whole horizon and quiet for as long in the very
  database that its event was committed to, whatever the database said when the selection was
  read, and has left the open set; or its \<open>expired\<close> event had been recorded by an earlier sweep.
  Every event it reports is in the ledger, and none was spooled for a later replay.
\<close>

theorem sweep_expires_under_lock:
  assumes "sweep w ec ck fleets stamp days False d0 s = (Inr (Expired n), s')" "expirable ck stamp days d0 = Inr plan"
    and "saved (conn s) = None" "\<not> doubtful (conn s)"
  shows "n = length (scope_rows fleets plan)
    \<and> list_all (\<lambda>r. recorded (db (conn s')) (expiry_id w r) ''task'') (scope_rows fleets plan)
    \<and> (list_all (\<lambda>r. recorded (db (conn s)) (expiry_id w r) ''task'') (scope_rows fleets plan)
       \<or> list_all (\<lambda>r. forgotten ck (db (conn s)) (ck_ago ck stamp days) r \<and> \<not> left_open (db (conn s')) (er_assignment r))
           (scope_rows fleets plan))"
proof (cases "scope_rows fleets plan = []")
  case True
  with assms(1,2) show ?thesis by (auto simp: sweep_def andthen_def Let_def split: if_splits)
next
  case False
  let ?rows = "scope_rows fleets plan"
  from assms(1,2) False obtain outs where n: "n = length ?rows"
    and e: "emit_batch w ec True (Some (require_expirable ck ?rows stamp days)) (expired_events w stamp days ?rows) s = (Inr outs, s')"
    by (auto simp: sweep_def andthen_def Let_def split: if_splits prod.splits sum.splits plane_error.splits)
  obtain captured items t where p: "prepare_each w (em_capture ec) None (expired_events w stamp days ?rows) (conn s) = (Inr (captured, items), t)"
    and a: "admitted (require_expirable ck ?rows stamp days) items (conn s) (conn s')" and i: "list_all (event_in (db (conn s'))) items"
    by (rule emit_admitted [OF e assms(3)])
  note x = prepared_expiry [OF p [unfolded expired_events_def]]
  have rec: "list_all (\<lambda>r. recorded d (expiry_id w r) ''task'') ?rows" if "list_all (event_in d) items" for d
    using list_all2_transfer [OF x that expired_recorded] .
  have "list_all (\<lambda>r. \<not> left_open (db (conn s')) (er_assignment r)) ?rows" if "list_all (task_in (db (conn s'))) items"
    using list_all2_transfer [OF x that expired_closes] .
  with a assms(4) rec required_forgotten have "list_all (\<lambda>r. recorded (db (conn s)) (expiry_id w r) ''task'') ?rows
    \<or> list_all (\<lambda>r. forgotten ck (db (conn s)) (ck_ago ck stamp days) r \<and> \<not> left_open (db (conn s')) (er_assignment r)) ?rows"
    by (auto simp: admitted_def list_all_iff)
  with n rec [OF i] show ?thesis by blast
qed

text \<open>An assignment nobody closed, its fleet known, the clock a year later; days are counted from outside.\<close>

definition sample_assignment :: row where
  "sample_assignment =
     [(''ingest_seq'', JInt 1), (''assignment_id'', JStr (''asg_'' @ sample_hex)), (''work_item_id'', JStr (''wi_'' @ sample_hex)),
      (''expected_by'', JStr ''2026-01-01''), (''fleet_uid'', JStr ''fleet_1'')]"

definition overdue_db :: plane_db where
  "overdue_db = empty_db\<lparr>
     tables := (\<lambda>t. if t = ''assignments'' then [sample_assignment] else []), next_seq := 2,
     identities := [\<lparr>i_uid = ''fleet_1'', i_kind = ''fleet'', i_alias = ''studio'', i_parent = None, i_provisional = False,
       i_first_seen = ''2026'', i_last_seen = ''2026''\<rparr>]\<rparr>"

definition sample_clock :: clock where
  "sample_clock = \<lparr>ck_epoch = (\<lambda>t. Some (if t = ''2026-01-01'' then 0 else 100)), ck_ago = (\<lambda>now days. ''2026-12-01'')\<rparr>"

definition sweep_world :: world where
  "sweep_world = sample_world\<lparr>w_sha := (\<lambda>_. replicate 32 CHR ''a'')\<rparr>"

definition overdue_disk :: disk where
  "overdue_disk = (sample_disk [])\<lparr>conn := fresh_session\<lparr>db := overdue_db\<rparr>\<rparr>"

definition sample_sweep :: "(plane_error + sweep_answer) \<times> disk" where
  "sample_sweep = sweep sweep_world sample_emit sample_clock [''studio''] ''2026-12-08'' 7 False overdue_db overdue_disk"

definition sample_plan :: expiry_plan where
  "sample_plan = projr (expirable sample_clock ''2026-12-08'' 7 overdue_db)"

lemma sample_sweep_once: "fst sample_sweep = Inr (Expired 1)"
  by code_simp

lemma sample_planned: "expirable sample_clock ''2026-12-08'' 7 overdue_db = Inr sample_plan"
  by code_simp

lemma sample_scope: "map er_assignment (scope_rows [''studio''] sample_plan) = [''asg_'' @ sample_hex]"
  by code_simp

lemma sweep_expires_under_lock_witness:
  "left_open (db (conn overdue_disk)) (''asg_'' @ sample_hex) \<and> \<not> left_open (db (conn (snd sample_sweep))) (''asg_'' @ sample_hex)"
proof -
  have s: "sweep sweep_world sample_emit sample_clock [''studio''] ''2026-12-08'' 7 False overdue_db overdue_disk = (Inr (Expired 1), snd sample_sweep)"
    using sample_sweep_once unfolding sample_sweep_def by (metis prod.collapse)
  have idle: "saved (conn overdue_disk) = None" "\<not> doubtful (conn overdue_disk)"
    by (simp_all add: overdue_disk_def sample_disk_def fresh_session_def doubtful_def in_doubt_def)
  from sample_scope obtain r where r: "scope_rows [''studio''] sample_plan = [r]" "er_assignment r = ''asg_'' @ sample_hex" by auto
  have "\<not> recorded (db (conn overdue_disk)) e c" for e c
    by (simp add: overdue_disk_def overdue_db_def recorded_def empty_db_def)
  with sweep_expires_under_lock [OF s sample_planned idle] r have "\<not> left_open (db (conn (snd sample_sweep))) (''asg_'' @ sample_hex)"
    by simp
  moreover have "left_open (db (conn overdue_disk)) (''asg_'' @ sample_hex)" by code_simp
  ultimately show ?thesis by simp
qed



end
