(* ===== verification/Receipts.thy ===== *)
theory Receipts
  imports Wire_Models
begin

text \<open>
  The retained history of one request (\<open>claudlobby/request_receipts.py\<close>): what was asked and with
  which frozen identities, which of its stages were attempted, and for a message every native send
  with what was seen of it. A receipt is a JSON file that is written whole; an effect is preceded by
  a write that says its outcome is unknown.

  The store is used under the lock of its request; one process holds it. Whether a text is an
  instant with a time zone is given from outside (\<open>datetime.fromisoformat\<close>).
\<close>

section \<open>Records\<close>

record expected_fact =
  ef_event :: string
  ef_family :: string
  ef_sha :: string
  ef_fields :: "string list"

record stage_plan =
  sp_kind :: string
  sp_facts :: "expected_fact list"

record native_destination =
  nd_root :: string
  nd_fleet :: string
  nd_socket :: string
  nd_session :: string
  nd_tmux :: string

record message_route =
  mr_activation :: "string option"
  mr_plan :: "string option"
  mr_release :: "string option"
  mr_caller_fleet :: "string option"
  mr_peer_fleet :: string
  mr_caller :: string
  mr_recipient :: string
  mr_manager_uid :: string
  mr_manager :: string
  mr_peer_dest :: native_destination
  mr_manager_dest :: native_destination
  mr_revision :: "string option"
  mr_fingerprint :: "string option"

record recorded_reply =
  rp_activation :: "string option"
  rp_plan :: "string option"
  rp_release :: "string option"
  rp_caller_fleet :: string
  rp_caller :: string
  rp_recipient :: string
  rp_parent :: string
  rp_revision :: "string option"
  rp_fingerprint :: "string option"

datatype route = Native message_route | Recorded recorded_reply

record request_intent =
  ri_operation :: string
  ri_version :: int
  ri_host :: string
  ri_fleet :: string
  ri_caller :: string
  ri_recipient :: "string option"
  ri_semantic :: string
  ri_stages :: "stage_plan list"
  ri_task :: "string option"
  ri_assignment :: "string option"
  ri_message :: "string option"
  ri_route :: "route option"
  ri_expected_by :: "string option"

record stage_outcome =
  so_status :: string
  so_attempt :: int

record transport_observation =
  to_status :: string
  to_sha :: "string option"
  to_bytes :: "int option"
  to_code :: "int option"

record message_attempt =
  ma_no :: int
  ma_event :: string
  ma_seen :: "transport_observation option"
  ma_fact :: "expected_fact option"
  ma_recording :: string

record request_receipt =
  rr_id :: string
  rr_intent :: request_intent
  rr_stages :: "stage_outcome list"
  rr_attempt :: int
  rr_attempts :: "message_attempt list"
  rr_version :: int

definition FORMAT_VERSION :: int where
  "FORMAT_VERSION = 1"

definition prepared_outcome :: stage_outcome where
  "prepared_outcome = \<lparr>so_status = ''prepared'', so_attempt = 0\<rparr>"

section \<open>The same route\<close>

text \<open>Selection stamps are provenance; every party and native target stays fixed.\<close>

definition same_native_route :: "route option \<Rightarrow> route option \<Rightarrow> bool" where
  "same_native_route frozen current =
     (case (frozen, current) of
        (None, None) \<Rightarrow> True
      | (Some (Native f), Some (Native c)) \<Rightarrow>
          f\<lparr>mr_activation := mr_activation c, mr_plan := mr_plan c, mr_release := mr_release c,
            mr_revision := mr_revision c, mr_fingerprint := mr_fingerprint c\<rparr> = c
      | (Some (Recorded f), Some (Recorded c)) \<Rightarrow>
          f\<lparr>rp_activation := rp_activation c, rp_plan := rp_plan c, rp_release := rp_release c,
            rp_revision := rp_revision c, rp_fingerprint := rp_fingerprint c\<rparr> = c
      | _ \<Rightarrow> False)"

section \<open>Vocabulary\<close>

definition OPERATIONS :: "string list" where
  "OPERATIONS =
    [''task.permission.request'', ''task.permission.approve'', ''task.permission.decline'', ''task.permission.revoke'',
     ''task.admit'', ''task.assign'', ''task.withdraw'', ''task.reassign'', ''task.escalate'', ''task.nudge'', ''task.recheck'',
     ''task.feedback'', ''assignment.deliver'', ''assignment.reschedule'', ''assignment.accept'', ''assignment.progress'',
     ''assignment.block'', ''assignment.return'', ''assignment.complete'', ''assignment.fail'', ''message.send'',
     ''message.reply'', ''fleet.reports.submit'', ''fleet.reports.ack'', ''checkin.record'', ''workstream.open'',
     ''workstream.progress'', ''workstream.renew'', ''workstream.block'', ''workstream.unblock'', ''workstream.close'',
     ''workstream.prune'']"

definition STATUSES :: "(string \<times> string list) list" where
  "STATUSES =
    [(''recording'', [''prepared'', ''unknown'', ''committed'', ''unrecorded'']),
     (''delivery'', [''prepared'', ''unknown'', ''received'', ''submitted'', ''failed'']),
     (''notification'', [''prepared'', ''unknown'', ''received'', ''submitted'', ''failed''])]"

definition status_of_kind :: "string \<Rightarrow> string \<Rightarrow> bool" where
  "status_of_kind kind status = (case map_of STATUSES kind of None \<Rightarrow> False | Some ss \<Rightarrow> status \<in> set ss)"

definition FACT_FAMILIES :: "string list" where
  "FACT_FAMILIES = [''communication'', ''transmission'', ''work_item'', ''assignment'', ''task'', ''system'',
     ''workstream'', ''workstream_event'']"

definition NATIVE_STAGES :: "(string \<times> string) list" where
  "NATIVE_STAGES =
    [(''message.send'', ''delivery''), (''message.reply'', ''delivery''), (''fleet.reports.submit'', ''delivery''),
     (''assignment.deliver'', ''delivery''), (''task.nudge'', ''notification''), (''task.recheck'', ''notification''),
     (''task.feedback'', ''notification''), (''assignment.progress'', ''notification''),
     (''assignment.block'', ''notification''), (''assignment.return'', ''notification''),
     (''assignment.complete'', ''notification''), (''assignment.fail'', ''notification'')]"

definition STRICT_NATIVE :: "string list" where
  "STRICT_NATIVE = [''task.nudge'', ''task.recheck'', ''task.feedback'', ''assignment.deliver'', ''assignment.progress'',
     ''assignment.block'', ''assignment.return'', ''assignment.complete'', ''assignment.fail'']"

definition O1_NATIVE :: "string list" where
  "O1_NATIVE = [''message.send'', ''message.reply'', ''fleet.reports.submit'']"

definition is_recorded :: "request_intent \<Rightarrow> bool" where
  "is_recorded i = (case ri_route i of Some (Recorded r) \<Rightarrow> True | _ \<Rightarrow> False)"

text \<open>The kind of the stage that a native send belongs to; a recorded reply has none.\<close>

definition native_stage :: "request_intent \<Rightarrow> string option" where
  "native_stage i = (if is_recorded i then None else map_of NATIVE_STAGES (ri_operation i))"

definition is_message :: "request_intent \<Rightarrow> bool" where
  "is_message i \<longleftrightarrow> \<not> is_recorded i \<and> ri_operation i \<in> set O1_NATIVE"

section \<open>Texts\<close>

definition all_and_some :: "(char \<Rightarrow> bool) \<Rightarrow> string \<Rightarrow> bool" where
  "all_and_some P s \<longleftrightarrow> s \<noteq> [] \<and> list_all P s"

definition name_char :: "char \<Rightarrow> bool" where
  "name_char c \<longleftrightarrow> is_ident_char c \<or> c = CHR ''-''"

definition digest_text :: "string \<Rightarrow> bool" where
  "digest_text s \<longleftrightarrow> length s = 64 \<and> list_all is_hex s"

text \<open>\<open>str(UUID(s)) == s\<close>: the canonical form.\<close>

definition canonical_uuid :: "string \<Rightarrow> bool" where
  "canonical_uuid s \<longleftrightarrow> length s = 36 \<and> list_all (\<lambda>(i, c). if i \<in> {8, 13, 18, 23} then c = CHR ''-'' else is_hex c) (enumerate 0 s)"

definition human_alias :: "string \<Rightarrow> bool" where
  "human_alias s \<longleftrightarrow> starts_with s ''human:''
     \<and> all_and_some (\<lambda>c. \<not> is_space c \<and> c \<noteq> CHR '':'' \<and> c \<noteq> CHR ''/'') (drop 6 s)"

definition bot_fleet :: "string \<Rightarrow> string" where
  "bot_fleet s = takeWhile (\<lambda>c. c \<noteq> CHR ''/'') (drop 4 s)"

definition bot_name :: "string \<Rightarrow> string" where
  "bot_name s = after_last CHR ''/'' s"

definition bot_alias :: "string \<Rightarrow> bool" where
  "bot_alias s \<longleftrightarrow> all_and_some name_char (bot_fleet s) \<and> all_and_some name_char (bot_name s)
     \<and> s = ''bot:'' @ bot_fleet s @ ''/'' @ bot_name s"

definition field_name :: "string \<Rightarrow> bool" where
  "field_name s = (case s of [] \<Rightarrow> False
     | c # cs \<Rightarrow> 97 \<le> code c \<and> code c \<le> 122
         \<and> list_all (\<lambda>c. (97 \<le> code c \<and> code c \<le> 122) \<or> is_digit c \<or> c = CHR ''_'') cs)"

definition socket_name :: "string \<Rightarrow> bool" where
  "socket_name s = (case s of [] \<Rightarrow> False
     | c # cs \<Rightarrow> (is_ascii_letter c \<or> is_digit c) \<and> list_all (\<lambda>c. name_char c \<or> c = CHR ''.'') cs)"

definition stamp_name :: "string \<Rightarrow> bool" where
  "stamp_name s \<longleftrightarrow> socket_name s \<and> length s \<le> 128"

definition revision_text :: "string \<Rightarrow> bool" where
  "revision_text s \<longleftrightarrow> (length s = 40 \<or> length s = 64) \<and> list_all is_hex s"

text \<open>\<open>os.path.normpath\<close>.\<close>

fun split_slash :: "string \<Rightarrow> string \<Rightarrow> string list" where
  "split_slash w [] = [w]"
| "split_slash w (c # cs) = (if c = CHR ''/'' then w # split_slash [] cs else split_slash (w @ [c]) cs)"

definition norm_comp :: "bool \<Rightarrow> string list \<Rightarrow> string \<Rightarrow> string list" where
  "norm_comp rooted done c =
     (if c = [] \<or> c = ''.'' then done
      else if c \<noteq> ''..'' \<or> \<not> rooted \<and> done = [] \<or> done \<noteq> [] \<and> last done = ''..'' then done @ [c]
      else butlast done)"

definition normpath :: "string \<Rightarrow> string" where
  "normpath p =
     (if p = [] then ''.''
      else let rooted = starts_with p ''/'';
               slashes = (if \<not> rooted then [] else if starts_with p ''//'' \<and> \<not> starts_with p ''///'' then ''//'' else ''/'');
               path = slashes @ join ''/'' (fold (\<lambda>c acc. norm_comp rooted acc c) (split_slash [] p) []) in
           if path = [] then ''.'' else path)"

definition canonical_path :: "string \<Rightarrow> bool" where
  "canonical_path p \<longleftrightarrow> starts_with p ''/'' \<and> normpath p = p"

section \<open>What is a receipt\<close>

definition opt_ok :: "('a \<Rightarrow> bool) \<Rightarrow> 'a option \<Rightarrow> bool" where
  "opt_ok P x = (case x of None \<Rightarrow> True | Some y \<Rightarrow> P y)"

definition some_ok :: "('a \<Rightarrow> bool) \<Rightarrow> 'a option \<Rightarrow> bool" where
  "some_ok P x = (case x of None \<Rightarrow> False | Some y \<Rightarrow> P y)"

definition fact_ok :: "expected_fact \<Rightarrow> bool" where
  "fact_ok f \<longleftrightarrow> id_of ''event'' (ef_event f) \<and> digest_text (ef_sha f) \<and> ef_family f \<in> set FACT_FAMILIES
     \<and> distinct (ef_fields f) \<and> list_all field_name (ef_fields f)"

definition native_destination_ok :: "native_destination \<Rightarrow> bool" where
  "native_destination_ok d \<longleftrightarrow> canonical_path (nd_root d) \<and> canonical_path (nd_tmux d)
     \<and> all_and_some name_char (nd_fleet d) \<and> socket_name (nd_socket d) \<and> all_and_some name_char (nd_session d)"

definition selection_stamp_ok :: "string option list \<Rightarrow> string option \<Rightarrow> string option \<Rightarrow> bool" where
  "selection_stamp_ok sealed revision fingerprint =
     (if revision \<noteq> None \<or> fingerprint \<noteq> None
      then list_all (\<lambda>v. v = None) sealed \<and> some_ok revision_text revision \<and> some_ok digest_text fingerprint
      else list_all (some_ok stamp_name) sealed)"

definition message_route_ok :: "request_intent \<Rightarrow> message_route \<Rightarrow> bool" where
  "message_route_ok i r \<longleftrightarrow> ri_recipient i \<noteq> None \<and> ri_message i \<noteq> None
     \<and> selection_stamp_ok [mr_activation r, mr_plan r, mr_release r] (mr_revision r) (mr_fingerprint r)
     \<and> id_of ''fleet'' (mr_peer_fleet r)
     \<and> (if starts_with (mr_caller r) ''human:''
        then mr_caller_fleet r = None \<and> human_alias (mr_caller r)
          \<and> ri_operation i \<in> {''message.send'', ''message.reply'', ''task.nudge'', ''task.recheck'', ''task.feedback''}
        else some_ok (id_of ''fleet'') (mr_caller_fleet r) \<and> bot_alias (mr_caller r))
     \<and> id_of ''actor'' (mr_manager_uid r) \<and> bot_alias (mr_recipient r) \<and> bot_alias (mr_manager r)
     \<and> native_destination_ok (mr_peer_dest r) \<and> native_destination_ok (mr_manager_dest r)
     \<and> nd_root (mr_peer_dest r) = nd_root (mr_manager_dest r)
     \<and> nd_fleet (mr_peer_dest r) = bot_fleet (mr_recipient r) \<and> nd_session (mr_peer_dest r) = bot_name (mr_recipient r)
     \<and> nd_fleet (mr_manager_dest r) = bot_fleet (mr_manager r) \<and> nd_session (mr_manager_dest r) = bot_name (mr_manager r)"

definition recorded_reply_ok :: "request_intent \<Rightarrow> recorded_reply \<Rightarrow> bool" where
  "recorded_reply_ok i r \<longleftrightarrow> ri_operation i = ''message.reply'' \<and> ri_recipient i \<noteq> None \<and> ri_message i \<noteq> None
     \<and> selection_stamp_ok [rp_activation r, rp_plan r, rp_release r] (rp_revision r) (rp_fingerprint r)
     \<and> id_of ''fleet'' (rp_caller_fleet r) \<and> id_of ''msg'' (rp_parent r) \<and> bot_alias (rp_caller r) \<and> human_alias (rp_recipient r)
     \<and> Some (rp_parent r) \<noteq> ri_message i \<and> map sp_kind (ri_stages i) = [''recording'']"

definition identities_ok :: "request_intent \<Rightarrow> bool" where
  "identities_ok i \<longleftrightarrow> ri_operation i \<in> set OPERATIONS \<and> ri_version i = 1
     \<and> id_of ''host'' (ri_host i) \<and> id_of ''fleet'' (ri_fleet i) \<and> id_of ''actor'' (ri_caller i)
     \<and> opt_ok (id_of ''actor'') (ri_recipient i) \<and> opt_ok (id_of ''work_item'') (ri_task i)
     \<and> opt_ok (id_of ''assignment'') (ri_assignment i) \<and> opt_ok (id_of ''msg'') (ri_message i)
     \<and> digest_text (ri_semantic i)"

definition default_deadline_ok :: "(string \<Rightarrow> bool) \<Rightarrow> request_intent \<Rightarrow> bool" where
  "default_deadline_ok aware i = opt_ok (\<lambda>t. ri_operation i \<in> {''task.assign'', ''task.reassign''} \<and> aware t) (ri_expected_by i)"

definition plans_of_kind :: "string \<Rightarrow> request_intent \<Rightarrow> nat" where
  "plans_of_kind k i = length (filter (\<lambda>p. sp_kind p = k) (ri_stages i))"

definition route_ok :: "request_intent \<Rightarrow> bool" where
  "route_ok i \<longleftrightarrow>
     (case ri_route i of
        Some (Recorded r) \<Rightarrow> recorded_reply_ok i r
      | Some (Native r) \<Rightarrow> native_stage i \<noteq> None \<and> message_route_ok i r
      | None \<Rightarrow> \<not> is_message i)
     \<and> (case native_stage i of None \<Rightarrow> True | Some k \<Rightarrow> ri_route i \<noteq> None \<longrightarrow> plans_of_kind k i = 1)
     \<and> (is_message i \<longrightarrow> plans_of_kind ''delivery'' i = 1
          \<and> list_all (\<lambda>p. list_all (\<lambda>f. ef_family f \<noteq> ''transmission'') (sp_facts p)) (ri_stages i))"

definition feedback_ok :: "request_intent \<Rightarrow> bool" where
  "feedback_ok i \<longleftrightarrow> (ri_operation i = ''task.feedback'' \<longrightarrow>
     (case ri_route i of
        Some (Native r) \<Rightarrow> ri_task i \<noteq> None \<and> mr_caller_fleet r = None \<and> starts_with (mr_caller r) ''human:''
          \<and> ri_recipient i = Some (mr_manager_uid r) \<and> mr_recipient r = mr_manager r \<and> mr_peer_fleet r = ri_fleet i
          \<and> (case ri_stages i of
               [p, q] \<Rightarrow> sp_kind p = ''recording'' \<and> sp_kind q = ''notification''
                 \<and> map ef_family (sp_facts p) = [''communication''] \<and> sp_facts q = []
             | _ \<Rightarrow> False)
      | _ \<Rightarrow> False))"

definition outcome_ok :: "int \<Rightarrow> stage_plan \<Rightarrow> stage_outcome \<Rightarrow> bool" where
  "outcome_ok n p out \<longleftrightarrow> status_of_kind (sp_kind p) (so_status out) \<and> (sp_kind p = ''recording'' \<longrightarrow> sp_facts p \<noteq> [])
     \<and> 0 \<le> so_attempt out \<and> so_attempt out \<le> n \<and> (so_status out = ''prepared'' \<longleftrightarrow> so_attempt out = 0)"

definition observation_ok :: "transport_observation \<Rightarrow> bool" where
  "observation_ok t \<longleftrightarrow> to_status t \<in> {''submitted'', ''failed'', ''unknown''} \<and> (to_sha t = None \<longleftrightarrow> to_bytes t = None)
     \<and> opt_ok (\<lambda>s. starts_with s ''sha256:'' \<and> digest_text (drop 7 s)) (to_sha t) \<and> opt_ok (\<lambda>n. 0 \<le> n) (to_bytes t)
     \<and> (to_status t = ''submitted'' \<longrightarrow> to_code t = Some 0)
     \<and> (to_status t = ''failed'' \<longrightarrow> to_code t = None \<and> to_sha t = None)"

definition scoped_fields :: "expected_fact \<Rightarrow> bool" where
  "scoped_fields f \<longleftrightarrow> {''event_id'', ''host_uid'', ''fleet_uid'', ''emitter''} \<subseteq> set (ef_fields f)"

definition attempt_ok :: "message_attempt \<Rightarrow> bool" where
  "attempt_ok m \<longleftrightarrow> id_of ''event'' (ma_event m) \<and> opt_ok observation_ok (ma_seen m) \<and> status_of_kind ''recording'' (ma_recording m)
     \<and> (case ma_fact m of
          Some f \<Rightarrow> ef_event f = ma_event m \<and> ef_family f = ''transmission'' \<and> scoped_fields f \<and> fact_ok f \<and> ma_seen m \<noteq> None
        | None \<Rightarrow> ma_recording m = ''prepared'')"

fun increasing_within :: "int \<Rightarrow> int \<Rightarrow> int list \<Rightarrow> bool" where
  "increasing_within prev bound [] = True"
| "increasing_within prev bound (n # ns) = (prev < n \<and> n \<le> bound \<and> increasing_within n bound ns)"

definition plan_events :: "request_intent \<Rightarrow> string list" where
  "plan_events i = concat (map (\<lambda>p. map ef_event (sp_facts p)) (ri_stages i))"

definition stage_of_kind :: "string \<Rightarrow> request_receipt \<Rightarrow> stage_outcome option" where
  "stage_of_kind k r = map_option snd (find (\<lambda>(p, out). sp_kind p = k) (zip (ri_stages (rr_intent r)) (rr_stages r)))"

definition delivery_agrees :: "request_receipt \<Rightarrow> stage_outcome \<Rightarrow> message_attempt \<Rightarrow> bool" where
  "delivery_agrees r delivery latest \<longleftrightarrow> ma_no latest = rr_attempt r \<and> so_attempt delivery = ma_no latest
     \<and> (let expected = (case ma_seen latest of Some t \<Rightarrow> to_status t | None \<Rightarrow> ''unknown'') in
        so_status delivery \<in> (if expected = ''submitted'' then {''submitted'', ''received''} else {expected}))"

definition attempts_ok :: "request_receipt \<Rightarrow> bool" where
  "attempts_ok r \<longleftrightarrow>
     (case native_stage (rr_intent r) of
        None \<Rightarrow> rr_attempts r = []
      | Some k \<Rightarrow>
          (ri_route (rr_intent r) = None \<longrightarrow> rr_attempts r = [])
          \<and> (is_message (rr_intent r) \<longrightarrow> int (length (rr_attempts r)) = rr_attempt r)
          \<and> increasing_within 0 (rr_attempt r) (map ma_no (rr_attempts r)) \<and> list_all attempt_ok (rr_attempts r)
          \<and> distinct (plan_events (rr_intent r) @ map ma_event (rr_attempts r))
          \<and> (rr_attempts r \<noteq> [] \<longrightarrow>
               some_ok (\<lambda>delivery. delivery_agrees r delivery (last (rr_attempts r))) (stage_of_kind k r)))"

definition valid :: "(string \<Rightarrow> bool) \<Rightarrow> request_receipt \<Rightarrow> bool" where
  "valid aware r \<longleftrightarrow> rr_version r = FORMAT_VERSION \<and> canonical_uuid (rr_id r)
     \<and> identities_ok (rr_intent r) \<and> default_deadline_ok aware (rr_intent r) \<and> route_ok (rr_intent r) \<and> feedback_ok (rr_intent r)
     \<and> 0 \<le> rr_attempt r \<and> list_all2 (outcome_ok (rr_attempt r)) (ri_stages (rr_intent r)) (rr_stages r)
     \<and> list_all (\<lambda>p. list_all fact_ok (sp_facts p)) (ri_stages (rr_intent r)) \<and> distinct (plan_events (rr_intent r))
     \<and> attempts_ok r"

section \<open>The file\<close>

definition text_or :: "string option \<Rightarrow> json" where
  "text_or x = (case x of None \<Rightarrow> JNull | Some s \<Rightarrow> JStr s)"

definition int_or :: "int option \<Rightarrow> json" where
  "int_or x = (case x of None \<Rightarrow> JNull | Some n \<Rightarrow> JInt n)"

definition fact_json :: "expected_fact \<Rightarrow> json" where
  "fact_json f = JObj [(''event_id'', JStr (ef_event f)), (''family'', JStr (ef_family f)),
     (''projection_sha256'', JStr (ef_sha f)), (''fields'', JArr (map JStr (ef_fields f)))]"

definition plan_json :: "stage_plan \<Rightarrow> json" where
  "plan_json p = JObj [(''kind'', JStr (sp_kind p)), (''facts'', JArr (map fact_json (sp_facts p)))]"

definition destination_json :: "native_destination \<Rightarrow> json" where
  "destination_json d = JObj [(''root'', JStr (nd_root d)), (''fleet'', JStr (nd_fleet d)), (''socket'', JStr (nd_socket d)),
     (''session'', JStr (nd_session d)), (''tmux_tmpdir'', JStr (nd_tmux d))]"

text \<open>The Git stamp is written only where there is one.\<close>

definition git_stamp :: "string option \<Rightarrow> string option \<Rightarrow> obj" where
  "git_stamp revision fingerprint =
     (if revision = None \<and> fingerprint = None then []
      else [(''revision'', text_or revision), (''config_fingerprint'', text_or fingerprint)])"

fun route_json :: "route \<Rightarrow> json" where
  "route_json (Native r) = JObj ([(''activation_id'', text_or (mr_activation r)), (''plan_id'', text_or (mr_plan r)),
     (''release_id'', text_or (mr_release r)), (''caller_fleet_uid'', text_or (mr_caller_fleet r)),
     (''peer_fleet_uid'', JStr (mr_peer_fleet r)), (''caller_alias'', JStr (mr_caller r)),
     (''recipient_alias'', JStr (mr_recipient r)), (''manager_uid'', JStr (mr_manager_uid r)),
     (''manager_alias'', JStr (mr_manager r)), (''peer_destination'', destination_json (mr_peer_dest r)),
     (''manager_destination'', destination_json (mr_manager_dest r))] @ git_stamp (mr_revision r) (mr_fingerprint r))"
| "route_json (Recorded r) = JObj ([(''activation_id'', text_or (rp_activation r)), (''plan_id'', text_or (rp_plan r)),
     (''release_id'', text_or (rp_release r)), (''caller_fleet_uid'', JStr (rp_caller_fleet r)),
     (''caller_alias'', JStr (rp_caller r)), (''recipient_alias'', JStr (rp_recipient r)),
     (''parent_message_id'', JStr (rp_parent r))] @ git_stamp (rp_revision r) (rp_fingerprint r))"

definition intent_json :: "request_intent \<Rightarrow> json" where
  "intent_json i = JObj [(''operation'', JStr (ri_operation i)), (''operation_version'', JInt (ri_version i)),
     (''host_uid'', JStr (ri_host i)), (''fleet_uid'', JStr (ri_fleet i)), (''caller_uid'', JStr (ri_caller i)),
     (''recipient_uid'', text_or (ri_recipient i)), (''semantic_sha256'', JStr (ri_semantic i)),
     (''stages'', JArr (map plan_json (ri_stages i))), (''task_id'', text_or (ri_task i)),
     (''assignment_id'', text_or (ri_assignment i)), (''message_id'', text_or (ri_message i)),
     (''route'', case ri_route i of None \<Rightarrow> JNull | Some r \<Rightarrow> route_json r), (''expected_by'', text_or (ri_expected_by i))]"

definition outcome_json :: "stage_outcome \<Rightarrow> json" where
  "outcome_json out = JObj [(''status'', JStr (so_status out)), (''attempt'', JInt (so_attempt out))]"

definition observation_json :: "transport_observation \<Rightarrow> json" where
  "observation_json t = JObj [(''status'', JStr (to_status t)), (''wire_sha256'', text_or (to_sha t)),
     (''wire_bytes'', int_or (to_bytes t)), (''native_returncode'', int_or (to_code t))]"

definition attempt_json :: "message_attempt \<Rightarrow> json" where
  "attempt_json m = JObj [(''attempt_no'', JInt (ma_no m)), (''transmission_event_id'', JStr (ma_event m)),
     (''observation'', case ma_seen m of None \<Rightarrow> JNull | Some t \<Rightarrow> observation_json t),
     (''transmission_fact'', case ma_fact m of None \<Rightarrow> JNull | Some f \<Rightarrow> fact_json f),
     (''recording_status'', JStr (ma_recording m))]"

definition receipt_payload :: "request_receipt \<Rightarrow> json" where
  "receipt_payload r = JObj [(''request_id'', JStr (rr_id r)), (''intent'', intent_json (rr_intent r)),
     (''stages'', JArr (map outcome_json (rr_stages r))), (''attempt'', JInt (rr_attempt r)),
     (''message_attempts'', JArr (map attempt_json (rr_attempts r))), (''format_version'', JInt (rr_version r))]"

section \<open>Reading the file\<close>

text \<open>A value is read as its type or refused; an object has the declared keys, no other and no fewer.\<close>

definition read_list :: "(json \<Rightarrow> 'a option) \<Rightarrow> json \<Rightarrow> 'a list option" where
  "read_list d v = (case v of JArr vs \<Rightarrow> those (map d vs) | _ \<Rightarrow> None)"

definition read_opt :: "(json \<Rightarrow> 'a option) \<Rightarrow> json \<Rightarrow> 'a option option" where
  "read_opt d v = (if v = JNull then Some None else map_option Some (d v))"

fun read_int :: "json \<Rightarrow> int option" where
  "read_int (JInt i) = Some i"
| "read_int _ = None"

definition has_keys :: "string list \<Rightarrow> json \<Rightarrow> bool" where
  "has_keys ks v = (case v of JObj kvs \<Rightarrow> distinct (map fst kvs) \<and> set (map fst kvs) = set ks | _ \<Rightarrow> False)"

definition read_fact :: "json \<Rightarrow> expected_fact option" where
  "read_fact v =
     (if has_keys [''event_id'', ''family'', ''projection_sha256'', ''fields''] v then
        Option.bind (as_str (jget v ''event_id'')) (\<lambda>event. Option.bind (as_str (jget v ''family'')) (\<lambda>family.
        Option.bind (as_str (jget v ''projection_sha256'')) (\<lambda>sha. Option.bind (read_list as_str (jget v ''fields'')) (\<lambda>fields.
          Some \<lparr>ef_event = event, ef_family = family, ef_sha = sha, ef_fields = fields\<rparr>))))
      else None)"

definition read_plan :: "json \<Rightarrow> stage_plan option" where
  "read_plan v =
     (if has_keys [''kind'', ''facts''] v then
        Option.bind (as_str (jget v ''kind'')) (\<lambda>kind. Option.bind (read_list read_fact (jget v ''facts'')) (\<lambda>facts.
          Some \<lparr>sp_kind = kind, sp_facts = facts\<rparr>))
      else None)"

definition read_destination :: "json \<Rightarrow> native_destination option" where
  "read_destination v =
     (if has_keys [''root'', ''fleet'', ''socket'', ''session'', ''tmux_tmpdir''] v then
        Option.bind (as_str (jget v ''root'')) (\<lambda>root. Option.bind (as_str (jget v ''fleet'')) (\<lambda>fleet.
        Option.bind (as_str (jget v ''socket'')) (\<lambda>socket. Option.bind (as_str (jget v ''session'')) (\<lambda>session.
        Option.bind (as_str (jget v ''tmux_tmpdir'')) (\<lambda>tmux.
          Some \<lparr>nd_root = root, nd_fleet = fleet, nd_socket = socket, nd_session = session, nd_tmux = tmux\<rparr>)))))
      else None)"

text \<open>A route without either key of the Git stamp has none; with one of them it has both.\<close>

definition GIT_KEYS :: "string list" where
  "GIT_KEYS = [''revision'', ''config_fingerprint'']"

definition route_keys :: "json \<Rightarrow> string list \<Rightarrow> string list" where
  "route_keys v ks = (if \<not> jhas v ''revision'' \<and> \<not> jhas v ''config_fingerprint'' then ks else ks @ GIT_KEYS)"

definition NATIVE_KEYS :: "string list" where
  "NATIVE_KEYS = [''activation_id'', ''plan_id'', ''release_id'', ''caller_fleet_uid'', ''peer_fleet_uid'', ''caller_alias'',
     ''recipient_alias'', ''manager_uid'', ''manager_alias'', ''peer_destination'', ''manager_destination'']"

definition RECORDED_KEYS :: "string list" where
  "RECORDED_KEYS = [''activation_id'', ''plan_id'', ''release_id'', ''caller_fleet_uid'', ''caller_alias'', ''recipient_alias'',
     ''parent_message_id'']"

definition read_native :: "json \<Rightarrow> message_route option" where
  "read_native v =
     (if has_keys (route_keys v NATIVE_KEYS) v then
        Option.bind (read_opt as_str (jget v ''activation_id'')) (\<lambda>activation. Option.bind (read_opt as_str (jget v ''plan_id'')) (\<lambda>plan.
        Option.bind (read_opt as_str (jget v ''release_id'')) (\<lambda>release.
        Option.bind (read_opt as_str (jget v ''caller_fleet_uid'')) (\<lambda>caller_fleet.
        Option.bind (as_str (jget v ''peer_fleet_uid'')) (\<lambda>peer_fleet. Option.bind (as_str (jget v ''caller_alias'')) (\<lambda>caller.
        Option.bind (as_str (jget v ''recipient_alias'')) (\<lambda>recipient. Option.bind (as_str (jget v ''manager_uid'')) (\<lambda>manager_uid.
        Option.bind (as_str (jget v ''manager_alias'')) (\<lambda>manager.
        Option.bind (read_destination (jget v ''peer_destination'')) (\<lambda>peer_dest.
        Option.bind (read_destination (jget v ''manager_destination'')) (\<lambda>manager_dest.
        Option.bind (read_opt as_str (jget v ''revision'')) (\<lambda>revision.
        Option.bind (read_opt as_str (jget v ''config_fingerprint'')) (\<lambda>fingerprint.
          Some \<lparr>mr_activation = activation, mr_plan = plan, mr_release = release, mr_caller_fleet = caller_fleet,
            mr_peer_fleet = peer_fleet, mr_caller = caller, mr_recipient = recipient, mr_manager_uid = manager_uid,
            mr_manager = manager, mr_peer_dest = peer_dest, mr_manager_dest = manager_dest, mr_revision = revision,
            mr_fingerprint = fingerprint\<rparr>)))))))))))))
      else None)"

definition read_recorded :: "json \<Rightarrow> recorded_reply option" where
  "read_recorded v =
     (if has_keys (route_keys v RECORDED_KEYS) v then
        Option.bind (read_opt as_str (jget v ''activation_id'')) (\<lambda>activation. Option.bind (read_opt as_str (jget v ''plan_id'')) (\<lambda>plan.
        Option.bind (read_opt as_str (jget v ''release_id'')) (\<lambda>release. Option.bind (as_str (jget v ''caller_fleet_uid'')) (\<lambda>caller_fleet.
        Option.bind (as_str (jget v ''caller_alias'')) (\<lambda>caller. Option.bind (as_str (jget v ''recipient_alias'')) (\<lambda>recipient.
        Option.bind (as_str (jget v ''parent_message_id'')) (\<lambda>parent.
        Option.bind (read_opt as_str (jget v ''revision'')) (\<lambda>revision.
        Option.bind (read_opt as_str (jget v ''config_fingerprint'')) (\<lambda>fingerprint.
          Some \<lparr>rp_activation = activation, rp_plan = plan, rp_release = release, rp_caller_fleet = caller_fleet,
            rp_caller = caller, rp_recipient = recipient, rp_parent = parent, rp_revision = revision,
            rp_fingerprint = fingerprint\<rparr>)))))))))
      else None)"

definition read_route :: "json \<Rightarrow> route option" where
  "read_route v = (if jhas v ''peer_destination'' then map_option Native (read_native v) else map_option Recorded (read_recorded v))"

definition INTENT_KEYS :: "string list" where
  "INTENT_KEYS = [''operation'', ''operation_version'', ''host_uid'', ''fleet_uid'', ''caller_uid'', ''recipient_uid'',
     ''semantic_sha256'', ''stages'', ''task_id'', ''assignment_id'', ''message_id'', ''route'']"

text \<open>A receipt from before the frozen deadline has none.\<close>

definition read_intent :: "json \<Rightarrow> request_intent option" where
  "read_intent v =
     (if has_keys (if jhas v ''expected_by'' then INTENT_KEYS @ [''expected_by''] else INTENT_KEYS) v then
        Option.bind (as_str (jget v ''operation'')) (\<lambda>operation. Option.bind (read_int (jget v ''operation_version'')) (\<lambda>version.
        Option.bind (as_str (jget v ''host_uid'')) (\<lambda>host. Option.bind (as_str (jget v ''fleet_uid'')) (\<lambda>fleet.
        Option.bind (as_str (jget v ''caller_uid'')) (\<lambda>caller. Option.bind (read_opt as_str (jget v ''recipient_uid'')) (\<lambda>recipient.
        Option.bind (as_str (jget v ''semantic_sha256'')) (\<lambda>semantic. Option.bind (read_list read_plan (jget v ''stages'')) (\<lambda>stages.
        Option.bind (read_opt as_str (jget v ''task_id'')) (\<lambda>task. Option.bind (read_opt as_str (jget v ''assignment_id'')) (\<lambda>assignment.
        Option.bind (read_opt as_str (jget v ''message_id'')) (\<lambda>message. Option.bind (read_opt read_route (jget v ''route'')) (\<lambda>rt.
        Option.bind (read_opt as_str (jget v ''expected_by'')) (\<lambda>expected_by.
          Some \<lparr>ri_operation = operation, ri_version = version, ri_host = host, ri_fleet = fleet, ri_caller = caller,
            ri_recipient = recipient, ri_semantic = semantic, ri_stages = stages, ri_task = task, ri_assignment = assignment,
            ri_message = message, ri_route = rt, ri_expected_by = expected_by\<rparr>)))))))))))))
      else None)"

definition read_outcome :: "json \<Rightarrow> stage_outcome option" where
  "read_outcome v =
     (if has_keys [''status'', ''attempt''] v then
        Option.bind (as_str (jget v ''status'')) (\<lambda>status. Option.bind (read_int (jget v ''attempt'')) (\<lambda>attempt.
          Some \<lparr>so_status = status, so_attempt = attempt\<rparr>))
      else None)"

definition read_observation :: "json \<Rightarrow> transport_observation option" where
  "read_observation v =
     (if has_keys [''status'', ''wire_sha256'', ''wire_bytes'', ''native_returncode''] v then
        Option.bind (as_str (jget v ''status'')) (\<lambda>status. Option.bind (read_opt as_str (jget v ''wire_sha256'')) (\<lambda>sha.
        Option.bind (read_opt read_int (jget v ''wire_bytes'')) (\<lambda>bytes. Option.bind (read_opt read_int (jget v ''native_returncode'')) (\<lambda>rc.
          Some \<lparr>to_status = status, to_sha = sha, to_bytes = bytes, to_code = rc\<rparr>))))
      else None)"

definition read_attempt :: "json \<Rightarrow> message_attempt option" where
  "read_attempt v =
     (if has_keys [''attempt_no'', ''transmission_event_id'', ''observation'', ''transmission_fact'', ''recording_status''] v then
        Option.bind (read_int (jget v ''attempt_no'')) (\<lambda>n. Option.bind (as_str (jget v ''transmission_event_id'')) (\<lambda>event.
        Option.bind (read_opt read_observation (jget v ''observation'')) (\<lambda>seen.
        Option.bind (read_opt read_fact (jget v ''transmission_fact'')) (\<lambda>fact.
        Option.bind (as_str (jget v ''recording_status'')) (\<lambda>recording.
          Some \<lparr>ma_no = n, ma_event = event, ma_seen = seen, ma_fact = fact, ma_recording = recording\<rparr>)))))
      else None)"

definition read_receipt :: "json \<Rightarrow> request_receipt option" where
  "read_receipt v =
     (if has_keys [''request_id'', ''intent'', ''stages'', ''attempt'', ''message_attempts'', ''format_version''] v then
        Option.bind (as_str (jget v ''request_id'')) (\<lambda>rid. Option.bind (read_intent (jget v ''intent'')) (\<lambda>intent.
        Option.bind (read_list read_outcome (jget v ''stages'')) (\<lambda>stages. Option.bind (read_int (jget v ''attempt'')) (\<lambda>attempt.
        Option.bind (read_list read_attempt (jget v ''message_attempts'')) (\<lambda>attempts.
        Option.bind (read_int (jget v ''format_version'')) (\<lambda>version.
          Some \<lparr>rr_id = rid, rr_intent = intent, rr_stages = stages, rr_attempt = attempt, rr_attempts = attempts,
            rr_version = version\<rparr>))))))
      else None)"

definition decode :: "(string \<Rightarrow> bool) \<Rightarrow> json \<Rightarrow> request_receipt option" where
  "decode aware v = (case read_receipt v of None \<Rightarrow> None | Some r \<Rightarrow> if valid aware r then Some r else None)"

section \<open>What is written is read back\<close>

text \<open>A codec of values that are never null: what it writes it reads, and so do lists of them and options.\<close>

locale codec =
  fixes enc :: "'a \<Rightarrow> json" and dec :: "json \<Rightarrow> 'a option"
  assumes dec_enc: "dec (enc x) = Some x"
    and not_null: "enc x \<noteq> JNull"
begin

lemma read_back_list: "read_list dec (JArr (map enc xs)) = Some xs"
proof -
  have "those (map dec (map enc xs)) = Some xs" by (induction xs) (simp_all add: dec_enc)
  then show ?thesis by (simp add: read_list_def)
qed

lemma read_back_opt: "read_opt dec (case x of None \<Rightarrow> JNull | Some y \<Rightarrow> enc y) = Some x"
  by (cases x) (simp_all add: read_opt_def dec_enc not_null)

end

lemmas object_reads = has_keys_def jget.simps

interpretation texts: codec JStr as_str by unfold_locales simp_all

interpretation numbers: codec JInt read_int by unfold_locales simp_all

lemmas text_or_back = texts.read_back_opt [folded text_or_def]
lemmas int_or_back = numbers.read_back_opt [folded int_or_def]

interpretation fact_codec: codec fact_json read_fact
  by unfold_locales (simp_all add: fact_json_def read_fact_def object_reads texts.read_back_list)

interpretation plan_codec: codec plan_json read_plan
  by unfold_locales (simp_all add: plan_json_def read_plan_def object_reads fact_codec.read_back_list)

interpretation destination_codec: codec destination_json read_destination
  by unfold_locales (simp_all add: destination_json_def read_destination_def object_reads insert_commute)

interpretation outcome_codec: codec outcome_json read_outcome
  by unfold_locales (simp_all add: outcome_json_def read_outcome_def object_reads)

interpretation observation_codec: codec observation_json read_observation
  by unfold_locales (simp_all add: observation_json_def read_observation_def object_reads text_or_back int_or_back)

interpretation attempt_codec: codec attempt_json read_attempt
  by unfold_locales (simp_all add: attempt_json_def read_attempt_def object_reads observation_codec.read_back_opt
      fact_codec.read_back_opt)

lemma null_back [simp]: "read_opt d JNull = Some None"
  by (simp add: read_opt_def)

lemma native_back: "read_route (route_json (Native r)) = Some (Native r)"
  by (cases "mr_revision r = None \<and> mr_fingerprint r = None")
    (auto simp: read_route_def read_native_def route_keys_def NATIVE_KEYS_def GIT_KEYS_def git_stamp_def object_reads
      text_or_back destination_codec.dec_enc)

lemma recorded_back: "read_route (route_json (Recorded r)) = Some (Recorded r)"
  by (cases "rp_revision r = None \<and> rp_fingerprint r = None")
    (auto simp: read_route_def read_recorded_def route_keys_def RECORDED_KEYS_def GIT_KEYS_def git_stamp_def object_reads
      text_or_back)

interpretation route_codec: codec route_json read_route
proof
  fix r show "read_route (route_json r) = Some r" by (cases r) (simp_all only: native_back recorded_back)
  show "route_json r \<noteq> JNull" by (cases r) simp_all
qed

interpretation intent_codec: codec intent_json read_intent
  by unfold_locales (simp_all add: intent_json_def read_intent_def object_reads INTENT_KEYS_def insert_commute text_or_back
      plan_codec.read_back_list route_codec.read_back_opt)

interpretation receipt_codec: codec receipt_payload read_receipt
  by unfold_locales (simp_all add: receipt_payload_def read_receipt_def object_reads intent_codec.dec_enc
      outcome_codec.read_back_list attempt_codec.read_back_list)

end
