(* ===== verification/Request_Store.thy ===== *)
theory Request_Store
  imports Receipts
begin

text \<open>
  The operations on a receipt (\<open>RequestStore\<close> in \<open>claudlobby/request_receipts.py\<close>), with the file
  that holds it and what may go wrong when it is written, and what the life of a receipt keeps.
\<close>

declare jget.simps [simp del]

section \<open>The file\<close>

datatype receipt_error = Receipt_Invalid string | Receipt_Conflict string | Receipt_Os

datatype stored = Not_Json | Document json

text \<open>A write fails before the file is replaced, or after: the directory is not synced then.\<close>

datatype save_fault = Saves | Not_Replaced | Not_Synced

record request_store =
  st_id :: string
  st_fleet :: string
  st_root :: string
  st_file :: "stored option"
  st_faults :: "save_fault list"

definition route_elsewhere :: "request_store \<Rightarrow> request_receipt \<Rightarrow> bool" where
  "route_elsewhere s r = (case ri_route (rr_intent r) of Some (Native m) \<Rightarrow> nd_root (mr_peer_dest m) \<noteq> st_root s | _ \<Rightarrow> False)"

definition decode_receipt :: "(string \<Rightarrow> bool) \<Rightarrow> string \<Rightarrow> string \<Rightarrow> json \<Rightarrow> receipt_error + request_receipt" where
  "decode_receipt aware rid fleet v =
     (case decode aware v of None \<Rightarrow> Inl (Receipt_Invalid ''invalid or unsupported request receipt'')
      | Some r \<Rightarrow> if rr_id r \<noteq> rid \<or> ri_fleet (rr_intent r) \<noteq> fleet
          then Inl (Receipt_Conflict ''receipt identity differs from its scoped path'') else Inr r)"

definition load :: "(string \<Rightarrow> bool) \<Rightarrow> request_store \<Rightarrow> receipt_error + request_receipt option" where
  "load aware s =
     (case st_file s of None \<Rightarrow> Inr None
      | Some Not_Json \<Rightarrow> Inl (Receipt_Invalid ''invalid request receipt'')
      | Some (Document v) \<Rightarrow>
          (case decode_receipt aware (st_id s) (st_fleet s) v of Inl e \<Rightarrow> Inl e
           | Inr r \<Rightarrow> if route_elsewhere s r then Inl (Receipt_Conflict ''message route belongs to another request root'')
               else Inr (Some r)))"

definition written :: "request_receipt \<Rightarrow> request_store \<Rightarrow> request_store" where
  "written r s = s\<lparr>st_file := Some (Document (receipt_payload r))\<rparr>"

definition save :: "(string \<Rightarrow> bool) \<Rightarrow> request_receipt \<Rightarrow> request_store \<Rightarrow> (receipt_error + request_receipt) \<times> request_store" where
  "save aware r s =
     (if \<not> valid aware r then (Inl (Receipt_Invalid ''request receipt''), s)
      else if route_elsewhere s r then (Inl (Receipt_Conflict ''message route belongs to another request root''), s)
      else case st_faults s of
          [] \<Rightarrow> (Inr r, written r s)
        | Saves # fs \<Rightarrow> (Inr r, written r (s\<lparr>st_faults := fs\<rparr>))
        | Not_Replaced # fs \<Rightarrow> (Inl Receipt_Os, s\<lparr>st_faults := fs\<rparr>)
        | Not_Synced # fs \<Rightarrow> (Inl Receipt_Os, written r (s\<lparr>st_faults := fs\<rparr>)))"

section \<open>Operations\<close>

definition prepare_request :: "(string \<Rightarrow> bool) \<Rightarrow> request_intent \<Rightarrow> request_store \<Rightarrow> (receipt_error + request_receipt) \<times> request_store" where
  "prepare_request aware intent s =
     (let candidate = \<lparr>rr_id = st_id s, rr_intent = intent, rr_stages = map (\<lambda>_. prepared_outcome) (ri_stages intent),
        rr_attempt = 0, rr_attempts = [], rr_version = FORMAT_VERSION\<rparr> in
      if \<not> valid aware candidate then (Inl (Receipt_Invalid ''request receipt''), s)
      else if ri_fleet intent \<noteq> st_fleet s then (Inl (Receipt_Conflict ''request belongs to a different fleet''), s)
      else case load aware s of
          Inl e \<Rightarrow> (Inl e, s)
        | Inr (Some previous) \<Rightarrow>
            (if rr_intent previous \<noteq> intent then Inl (Receipt_Conflict ''request UUID already has different semantics or identities'')
             else Inr previous, s)
        | Inr None \<Rightarrow> save aware candidate s)"

datatype change = Kept | Written request_receipt

type_synonym receipt_op = "request_receipt \<Rightarrow> receipt_error + change"

text \<open>An operation on the receipt that there is.\<close>

definition update :: "(string \<Rightarrow> bool) \<Rightarrow> receipt_op \<Rightarrow> request_store \<Rightarrow> (receipt_error + request_receipt) \<times> request_store" where
  "update aware f s =
     (case load aware s of
        Inl e \<Rightarrow> (Inl e, s)
      | Inr None \<Rightarrow> (Inl (Receipt_Invalid ''prepare a durable request before effects''), s)
      | Inr (Some r) \<Rightarrow>
          (case f r of Inl e \<Rightarrow> (Inl e, s) | Inr Kept \<Rightarrow> (Inr r, s) | Inr (Written r') \<Rightarrow> save aware r' s))"

definition begin_attempt :: receipt_op where
  "begin_attempt r =
     (if ri_operation (rr_intent r) \<in> set O1_NATIVE \<and> \<not> is_recorded (rr_intent r)
      then Inl (Receipt_Invalid ''reserve a message attempt and delivery outcome atomically'')
      else if rr_attempts r \<noteq> [] then Inl (Receipt_Conflict ''a native notification cannot return to the recording stage'')
      else Inr (Written (r\<lparr>rr_attempt := rr_attempt r + 1\<rparr>)))"

text \<open>\<open>_native_required\<close> and the place of the stage of native sends; a valid receipt with a route has it.\<close>

definition native_index :: "request_receipt \<Rightarrow> receipt_error + nat" where
  "native_index r =
     (case ri_route (rr_intent r) of
        Some (Native m) \<Rightarrow>
          (case map_of NATIVE_STAGES (ri_operation (rr_intent r)) of
             None \<Rightarrow> Inl (Receipt_Invalid ''native attempt requires a frozen message route'')
           | Some k \<Rightarrow>
               (case find_index (\<lambda>p. sp_kind p = k) (ri_stages (rr_intent r)) of
                  None \<Rightarrow> Inl (Receipt_Invalid ''no native stage'') | Some i \<Rightarrow> Inr i))
      | _ \<Rightarrow> Inl (Receipt_Invalid ''native attempt requires a frozen message route''))"

definition new_attempt :: "int \<Rightarrow> string \<Rightarrow> message_attempt" where
  "new_attempt n event = \<lparr>ma_no = n, ma_event = event, ma_seen = None, ma_fact = None, ma_recording = ''prepared''\<rparr>"

definition begin_native_attempt :: "string \<Rightarrow> bool \<Rightarrow> receipt_op" where
  "begin_native_attempt event retry_uncertain r =
     (case native_index r of Inl e \<Rightarrow> Inl e
      | Inr i \<Rightarrow>
          (let old = so_status (rr_stages r ! i); n = rr_attempt r + 1 in
           if \<not> id_of ''event'' event then Inl (Receipt_Invalid ''invalid receipt identity'')
           else if ri_operation (rr_intent r) \<in> set STRICT_NATIVE \<and> so_status (rr_stages r ! 0) \<noteq> ''committed''
           then Inl (Receipt_Conflict ''strict notification requires committed recording'')
           else if old \<noteq> ''prepared'' \<and> \<not> (old \<in> {''unknown'', ''failed''} \<and> retry_uncertain)
           then Inl (Receipt_Conflict ''message send requires an explicit uncertain retry or has already submitted'')
           else if event \<in> set (plan_events (rr_intent r)) \<or> event \<in> set (map ma_event (rr_attempts r))
           then Inl (Receipt_Conflict ''message event ID is already reserved'')
           else Inr (Written (r\<lparr>rr_attempt := n, rr_stages := (rr_stages r)[i := \<lparr>so_status = ''unknown'', so_attempt = n\<rparr>],
             rr_attempts := rr_attempts r @ [new_attempt n event]\<rparr>))))"

text \<open>\<open>_message_attempt\<close>: the place of the attempt of a number.\<close>

definition attempt_index :: "int \<Rightarrow> request_receipt \<Rightarrow> receipt_error + nat" where
  "attempt_index n r =
     (case find_index (\<lambda>m. ma_no m = n) (rr_attempts r) of None \<Rightarrow> Inl (Receipt_Invalid ''unknown native attempt'') | Some j \<Rightarrow> Inr j)"

text \<open>The operations on one native attempt.\<close>

definition on_attempt :: "int \<Rightarrow> (nat \<Rightarrow> nat \<Rightarrow> message_attempt \<Rightarrow> receipt_op) \<Rightarrow> receipt_op" where
  "on_attempt n f r =
     (case native_index r of Inl e \<Rightarrow> Inl e
      | Inr i \<Rightarrow> (case attempt_index n r of Inl e \<Rightarrow> Inl e | Inr j \<Rightarrow> f i j (rr_attempts r ! j) r))"

definition put_attempt :: "nat \<Rightarrow> message_attempt \<Rightarrow> request_receipt \<Rightarrow> request_receipt" where
  "put_attempt j m r = r\<lparr>rr_attempts := (rr_attempts r)[j := m]\<rparr>"

definition observe_message_transport :: "int \<Rightarrow> transport_observation \<Rightarrow> receipt_op" where
  "observe_message_transport n seen = on_attempt n (\<lambda>i j m r.
     case ma_seen m of
       Some t \<Rightarrow> if t \<noteq> seen then Inl (Receipt_Conflict ''message transport observation is immutable'') else Inr Kept
     | None \<Rightarrow>
         if j \<noteq> length (rr_attempts r) - 1 \<or> so_attempt (rr_stages r ! i) \<noteq> n
         then Inl (Receipt_Conflict ''a later attempt superseded this delivery stage'')
         else Inr (Written ((put_attempt j (m\<lparr>ma_seen := Some seen\<rparr>) r)
           \<lparr>rr_stages := (rr_stages r)[i := \<lparr>so_status = to_status seen, so_attempt = n\<rparr>]\<rparr>)))"

definition prepare_message_transmission :: "int \<Rightarrow> expected_fact \<Rightarrow> receipt_op" where
  "prepare_message_transmission n expected = on_attempt n (\<lambda>i j m r.
     if ma_seen m = None then Inl (Receipt_Invalid ''retained native observation and expected fact are required'')
     else if ef_event expected \<noteq> ma_event m \<or> ef_family expected \<noteq> ''transmission''
     then Inl (Receipt_Conflict ''transmission fact differs from its reserved event'')
     else case ma_fact m of
         Some f \<Rightarrow> if f \<noteq> expected then Inl (Receipt_Conflict ''prepared transmission fact is immutable'') else Inr Kept
       | None \<Rightarrow> Inr (Written (put_attempt j (m\<lparr>ma_fact := Some expected\<rparr>) r)))"

definition stage_message_transmission :: "int \<Rightarrow> receipt_op" where
  "stage_message_transmission n = on_attempt n (\<lambda>i j m r.
     if ma_fact m = None \<or> ma_recording m \<notin> {''prepared'', ''unrecorded''}
     then Inl (Receipt_Conflict ''transmission requires a prepared fact and reconciliation'')
     else Inr (Written (put_attempt j (m\<lparr>ma_recording := ''unknown''\<rparr>) r)))"

definition message_transmission_outcome :: "int \<Rightarrow> string \<Rightarrow> receipt_op" where
  "message_transmission_outcome n status = on_attempt n (\<lambda>i j m r.
     if status \<notin> {''unknown'', ''committed'', ''unrecorded''} \<or> ma_recording m \<noteq> ''unknown''
     then Inl (Receipt_Conflict ''transmission recording needs a staged, reconciled outcome'')
     else Inr (Written (put_attempt j (m\<lparr>ma_recording := status\<rparr>) r)))"

definition put_stage :: "nat \<Rightarrow> stage_outcome \<Rightarrow> request_receipt \<Rightarrow> request_receipt" where
  "put_stage i out r = r\<lparr>rr_stages := (rr_stages r)[i := out]\<rparr>"

definition stage_request :: "nat \<Rightarrow> bool \<Rightarrow> receipt_op" where
  "stage_request i retry_uncertain r =
     (if length (rr_stages r) \<le> i then Inl (Receipt_Invalid ''unknown request stage'')
      else let kind = sp_kind (ri_stages (rr_intent r) ! i); old = rr_stages r ! i;
               allowed = (so_status old = ''prepared'' \<or> kind = ''recording'' \<and> so_status old = ''unrecorded''
                 \<or> kind \<noteq> ''recording'' \<and> so_status old \<in> {''unknown'', ''failed''} \<and> retry_uncertain);
               same_message_recording_attempt = (ri_operation (rr_intent r) \<in> set O1_NATIVE \<and> kind = ''recording''
                 \<and> so_status old = ''unrecorded'' \<and> rr_attempt r = so_attempt old \<and> 0 < so_attempt old) in
        if \<not> allowed \<or> rr_attempt r \<le> so_attempt old \<and> \<not> same_message_recording_attempt
        then Inl (Receipt_Conflict ''stage requires reconciliation or an explicit uncertain retry in a new attempt'')
        else Inr (Written (put_stage i \<lparr>so_status = ''unknown'', so_attempt = rr_attempt r\<rparr> r)))"

definition outcome_request :: "nat \<Rightarrow> string \<Rightarrow> receipt_op" where
  "outcome_request i status r =
     (if length (rr_stages r) \<le> i then Inl (Receipt_Invalid ''unknown request stage'')
      else let kind = sp_kind (ri_stages (rr_intent r) ! i); old = rr_stages r ! i in
        if \<not> status_of_kind kind status \<or> status = ''prepared'' then Inl (Receipt_Invalid ''invalid observed outcome'')
        else if so_status old \<noteq> status \<and> so_status old \<noteq> ''unknown'' \<and> \<not> (so_status old = ''submitted'' \<and> status = ''received'')
        then Inl (Receipt_Conflict ''observed outcome would overwrite a completed stage'')
        else Inr (Written (put_stage i (old\<lparr>so_status := status\<rparr>) r)))"

end
