(* ===== verification/Request_Safety.thy ===== *)
theory Request_Safety
  imports Request_Store
begin

text \<open>
  What the life of a receipt keeps, whatever operations are asked of it and wherever its writes
  fail: what was frozen stays, what was observed stays, and no native send is reserved after one
  that went out.
\<close>

section \<open>How a receipt grows\<close>

definition stage_kept :: "stage_outcome \<Rightarrow> stage_outcome \<Rightarrow> bool" where
  "stage_kept x y \<longleftrightarrow> (so_status x = ''committed'' \<longrightarrow> so_status y = ''committed'')
     \<and> (so_status x = ''submitted'' \<longrightarrow> so_status y \<in> {''submitted'', ''received''})
     \<and> (so_status x = ''received'' \<longrightarrow> so_status y = ''received'')
     \<and> (so_status x \<noteq> ''prepared'' \<longrightarrow> so_status y \<noteq> ''prepared'')"

definition attempt_kept :: "message_attempt \<Rightarrow> message_attempt \<Rightarrow> bool" where
  "attempt_kept x y \<longleftrightarrow> ma_no y = ma_no x \<and> ma_event y = ma_event x
     \<and> (ma_seen x \<noteq> None \<longrightarrow> ma_seen y = ma_seen x) \<and> (ma_fact x \<noteq> None \<longrightarrow> ma_fact y = ma_fact x)
     \<and> (ma_recording x = ''committed'' \<longrightarrow> ma_recording y = ''committed'')"

text \<open>The native message went out: its stage says so.\<close>

definition sent :: "request_receipt \<Rightarrow> bool" where
  "sent r \<longleftrightarrow> (case native_index r of Inl e \<Rightarrow> False | Inr i \<Rightarrow> so_status (rr_stages r ! i) \<in> {''submitted'', ''received''})"

definition evolves :: "request_receipt \<Rightarrow> request_receipt \<Rightarrow> bool" where
  "evolves r r' \<longleftrightarrow> rr_id r' = rr_id r \<and> rr_intent r' = rr_intent r \<and> rr_attempt r \<le> rr_attempt r'
     \<and> list_all2 stage_kept (rr_stages r) (rr_stages r')
     \<and> (\<exists>old new. rr_attempts r' = old @ new \<and> list_all2 attempt_kept (rr_attempts r) old \<and> (sent r \<longrightarrow> new = []))"

lemma stage_kept_refl: "stage_kept x x" by (simp add: stage_kept_def)

lemma stage_kept_trans: "stage_kept x y \<Longrightarrow> stage_kept y z \<Longrightarrow> stage_kept x z" by (auto simp: stage_kept_def)

lemma attempt_kept_refl: "attempt_kept x x" by (simp add: attempt_kept_def)

lemma attempt_kept_trans: "attempt_kept x y \<Longrightarrow> attempt_kept y z \<Longrightarrow> attempt_kept x z"
  by (auto simp: attempt_kept_def)

lemma list_all2_update: "(\<And>x. R x x) \<Longrightarrow> (i < length xs \<Longrightarrow> R (xs ! i) y) \<Longrightarrow> list_all2 R xs (xs[i := y])"
  unfolding list_all2_conv_all_nth by (cases "i < length xs") (auto simp: nth_list_update)

lemma native_index_kept:
  assumes "rr_intent r' = rr_intent r" shows "native_index r' = native_index r"
  unfolding native_index_def assms ..

lemma native_indexE:
  assumes "native_index r = Inr i"
  obtains m k where "ri_route (rr_intent r) = Some (Native m)" "map_of NATIVE_STAGES (ri_operation (rr_intent r)) = Some k"
    "find_index (\<lambda>p. sp_kind p = k) (ri_stages (rr_intent r)) = Some i"
  using assms by (auto simp: native_index_def split: option.splits route.splits)

lemma evolves_refl: "evolves r r"
  unfolding evolves_def
  by (intro conjI exI [of _ "rr_attempts r"] exI [of _ "[]"] list_all2_refl) (simp_all add: stage_kept_refl attempt_kept_refl)

lemma sent_kept:
  assumes "rr_intent r' = rr_intent r" "list_all2 stage_kept (rr_stages r) (rr_stages r')" "length (rr_stages r) = length (ri_stages (rr_intent r))"
    and "sent r" shows "sent r'"
proof -
  from assms(4) obtain i where i: "native_index r = Inr i" and s: "so_status (rr_stages r ! i) \<in> {''submitted'', ''received''}"
    by (auto simp: sent_def split: sum.splits)
  from i have "i < length (ri_stages (rr_intent r))" by (rule native_indexE) (use find_index_Some in blast)
  with assms(2,3) have "stage_kept (rr_stages r ! i) (rr_stages r' ! i)" by (simp add: list_all2_conv_all_nth)
  with s i assms(1) native_index_kept [OF assms(1)] show ?thesis by (auto simp: sent_def stage_kept_def)
qed

lemma valid_lengths: "valid aware r \<Longrightarrow> length (rr_stages r) = length (ri_stages (rr_intent r))"
  by (auto simp: valid_def dest: list_all2_lengthD)

lemma evolves_trans:
  assumes "evolves r r1" "evolves r1 r2" "valid aware r"
  shows "evolves r r2"
proof -
  have l: "length (rr_stages r) = length (ri_stages (rr_intent r))" using valid_lengths [OF assms(3)] .
  from assms(1) obtain old new where 1: "rr_attempts r1 = old @ new" "list_all2 attempt_kept (rr_attempts r) old" "sent r \<longrightarrow> new = []"
    by (auto simp: evolves_def)
  from assms(2) obtain old' new' where 2: "rr_attempts r2 = old' @ new'" "list_all2 attempt_kept (rr_attempts r1) old'" "sent r1 \<longrightarrow> new' = []"
    by (auto simp: evolves_def)
  from 2(2) 1(1) obtain a b where ab: "old' = a @ b" "list_all2 attempt_kept old a" "list_all2 attempt_kept new b"
    by (metis list_all2_append1)
  have "sent r \<Longrightarrow> sent r1" using sent_kept [of r1 r] assms(1) l by (simp add: evolves_def)
  with 1(3) 2(3) ab(3) have "sent r \<Longrightarrow> b @ new' = []" by auto
  moreover have "list_all2 attempt_kept (rr_attempts r) a" by (rule list_all2_trans [OF attempt_kept_trans 1(2) ab(2)])
  moreover have "list_all2 stage_kept (rr_stages r) (rr_stages r2)"
  proof (rule list_all2_trans [OF stage_kept_trans])
    show "list_all2 stage_kept (rr_stages r) (rr_stages r1)" "list_all2 stage_kept (rr_stages r1) (rr_stages r2)"
      using assms(1,2) by (simp_all add: evolves_def)
  qed
  moreover have "rr_id r2 = rr_id r" "rr_intent r2 = rr_intent r" "rr_attempt r \<le> rr_attempt r2"
    using assms(1,2) by (simp_all add: evolves_def)
  moreover have "rr_attempts r2 = a @ b @ new'" using 2(1) ab(1) by simp
  ultimately show ?thesis unfolding evolves_def by blast
qed

text \<open>An evolution that keeps the number of attempts, or adds one while nothing went out.\<close>

lemma evolvesI:
  assumes "rr_id r' = rr_id r" "rr_intent r' = rr_intent r" "rr_attempt r \<le> rr_attempt r'"
    and "list_all2 stage_kept (rr_stages r) (rr_stages r')" "list_all2 attempt_kept (rr_attempts r) (rr_attempts r')"
  shows "evolves r r'"
  using assms unfolding evolves_def by (intro conjI exI [of _ "rr_attempts r'"] exI [of _ "[]"]) simp_all

section \<open>Each operation\<close>

inductive receipt_op_of :: "receipt_op \<Rightarrow> bool" where
  "receipt_op_of begin_attempt"
| "receipt_op_of (begin_native_attempt event retry)"
| "receipt_op_of (observe_message_transport n seen)"
| "receipt_op_of (prepare_message_transmission n expected)"
| "receipt_op_of (stage_message_transmission n)"
| "receipt_op_of (message_transmission_outcome n status)"
| "receipt_op_of (stage_request i retry)"
| "receipt_op_of (outcome_request i status)"

lemma on_attemptE:
  assumes "on_attempt n f r = Inr c"
  obtains i j where "native_index r = Inr i" "j < length (rr_attempts r)" "ma_no (rr_attempts r ! j) = n" "f i j (rr_attempts r ! j) r = Inr c"
  using assms by (auto simp: on_attempt_def attempt_index_def split: sum.splits option.splits dest!: find_index_Some)

lemma put_attempt_evolves: "(j < length (rr_attempts r) \<Longrightarrow> attempt_kept (rr_attempts r ! j) m) \<Longrightarrow> evolves r (put_attempt j m r)"
  by (intro evolvesI) (auto simp: put_attempt_def list_all2_update attempt_kept_refl list_all2_refl stage_kept_refl)

lemma put_stage_evolves: "(i < length (rr_stages r) \<Longrightarrow> stage_kept (rr_stages r ! i) out) \<Longrightarrow> evolves r (put_stage i out r)"
  by (intro evolvesI) (auto simp: put_stage_def list_all2_update attempt_kept_refl list_all2_refl stage_kept_refl)

lemma stage_of_kind_at:
  assumes "find_index (\<lambda>p. sp_kind p = k) ps = Some i" "length os = length ps"
  shows "map_option snd (find (\<lambda>(p, out). sp_kind p = k) (zip ps os)) = Some (os ! i)"
  using assms
proof (induction ps arbitrary: os i)
  case (Cons p ps)
  then show ?case by (cases os) (auto split: if_splits)
qed simp

text \<open>In a valid receipt with attempts the native stage is that of the last one.\<close>

lemma native_delivery:
  assumes v: "valid aware r" and i: "native_index r = Inr i" and a: "rr_attempts r \<noteq> []"
  shows "delivery_agrees r (rr_stages r ! i) (last (rr_attempts r))"
proof -
  from i obtain m k where k: "ri_route (rr_intent r) = Some (Native m)" "map_of NATIVE_STAGES (ri_operation (rr_intent r)) = Some k"
    "find_index (\<lambda>p. sp_kind p = k) (ri_stages (rr_intent r)) = Some i" by (rule native_indexE)
  have "native_stage (rr_intent r) = Some k" using k by (simp add: native_stage_def is_recorded_def)
  moreover have "stage_of_kind k r = Some (rr_stages r ! i)"
    unfolding stage_of_kind_def by (rule stage_of_kind_at [OF k(3) valid_lengths [OF v]])
  ultimately show ?thesis using v a by (simp add: valid_def attempts_ok_def some_ok_def)
qed

lemma native_delivery_attempts:
  assumes v: "valid aware r" and i: "native_index r = Inr i" and j: "j < length (rr_attempts r)"
  shows "attempt_ok (rr_attempts r ! j)"
proof -
  from j have "rr_attempts r \<noteq> []" by auto
  with v j show ?thesis by (auto simp: valid_def attempts_ok_def list_all_length split: option.splits)
qed

lemma begin_native_evolves:
  assumes "begin_native_attempt event retry r = Inr (Written r')"
  shows "evolves r r'"
proof -
  from assms obtain i where i: "native_index r = Inr i" and n: "so_status (rr_stages r ! i) \<in> {''prepared'', ''unknown'', ''failed''}"
    and r': "r' = r\<lparr>rr_attempt := rr_attempt r + 1, rr_stages := (rr_stages r)[i := \<lparr>so_status = ''unknown'', so_attempt = rr_attempt r + 1\<rparr>],
      rr_attempts := rr_attempts r @ [new_attempt (rr_attempt r + 1) event]\<rparr>"
    by (auto simp: begin_native_attempt_def Let_def split: sum.splits if_splits)
  from i n have "\<not> sent r" by (auto simp: sent_def)
  moreover have "list_all2 stage_kept (rr_stages r) (rr_stages r')"
    using n unfolding r' by (auto intro!: list_all2_update stage_kept_refl simp: stage_kept_def)
  ultimately show ?thesis
    by (auto simp: evolves_def r' attempt_kept_refl list_all2_refl intro: exI [of _ "rr_attempts r"])
qed

lemma observe_evolves:
  assumes o': "observe_message_transport n seen r = Inr (Written r')" and v: "valid aware r" and v': "valid aware r'"
  shows "evolves r r'"
proof -
  from o' obtain i j where i: "native_index r = Inr i" and j: "j < length (rr_attempts r)" "ma_no (rr_attempts r ! j) = n"
    and w: "(case ma_seen (rr_attempts r ! j) of
       Some t \<Rightarrow> if t \<noteq> seen then Inl (Receipt_Conflict ''message transport observation is immutable'') else Inr Kept
     | None \<Rightarrow>
         if j \<noteq> length (rr_attempts r) - 1 \<or> so_attempt (rr_stages r ! i) \<noteq> n
         then Inl (Receipt_Conflict ''a later attempt superseded this delivery stage'')
         else Inr (Written ((put_attempt j ((rr_attempts r ! j)\<lparr>ma_seen := Some seen\<rparr>) r)
           \<lparr>rr_stages := (rr_stages r)[i := \<lparr>so_status = to_status seen, so_attempt = n\<rparr>]\<rparr>))) = Inr (Written r')"
    unfolding observe_message_transport_def by (rule on_attemptE) blast
  from w have l: "ma_seen (rr_attempts r ! j) = None" "j = length (rr_attempts r) - 1"
    and r': "r' = (put_attempt j ((rr_attempts r ! j)\<lparr>ma_seen := Some seen\<rparr>) r)
           \<lparr>rr_stages := (rr_stages r)[i := \<lparr>so_status = to_status seen, so_attempt = n\<rparr>]\<rparr>"
    by (auto split: option.splits if_splits)
  from j have "rr_attempts r \<noteq> []" by auto
  with native_delivery [OF v i this] l have "so_status (rr_stages r ! i) = ''unknown''" by (simp add: delivery_agrees_def last_conv_nth)
  moreover have "to_status seen \<noteq> ''prepared''"
    using native_delivery_attempts [OF v', of i j] native_index_kept [of r' r] i j
    by (auto simp: r' put_attempt_def opt_ok_def attempt_ok_def observation_ok_def)
  ultimately have "stage_kept (rr_stages r ! i) \<lparr>so_status = to_status seen, so_attempt = n\<rparr>" by (simp add: stage_kept_def)
  moreover have "attempt_kept (rr_attempts r ! j) ((rr_attempts r ! j)\<lparr>ma_seen := Some seen\<rparr>)" using l by (simp add: attempt_kept_def)
  ultimately show ?thesis
    by (intro evolvesI) (auto simp: r' put_attempt_def list_all2_update attempt_kept_refl stage_kept_refl)
qed

lemma stage_evolves:
  assumes "stage_request i retry r = Inr (Written r')" shows "evolves r r'"
proof -
  from assms have r': "r' = put_stage i \<lparr>so_status = ''unknown'', so_attempt = rr_attempt r\<rparr> r"
    and s: "so_status (rr_stages r ! i) \<in> {''prepared'', ''unrecorded'', ''unknown'', ''failed''}"
    by (auto simp: stage_request_def Let_def split: if_splits)
  from s show ?thesis unfolding r' by (intro put_stage_evolves) (auto simp: stage_kept_def)
qed

lemma outcome_evolves:
  assumes "outcome_request i status r = Inr (Written r')" shows "evolves r r'"
proof -
  from assms have r': "r' = put_stage i ((rr_stages r ! i)\<lparr>so_status := status\<rparr>) r" and n: "status \<noteq> ''prepared''"
    and s: "so_status (rr_stages r ! i) = status \<or> so_status (rr_stages r ! i) = ''unknown''
      \<or> so_status (rr_stages r ! i) = ''submitted'' \<and> status = ''received''"
    by (auto simp: outcome_request_def Let_def split: if_splits)
  from s n show ?thesis unfolding r' by (intro put_stage_evolves) (auto simp: stage_kept_def)
qed

lemma begin_evolves: "begin_attempt r = Inr (Written r') \<Longrightarrow> evolves r r'"
  by (auto simp: begin_attempt_def list_all2_refl stage_kept_refl attempt_kept_refl intro!: evolvesI split: if_splits)

lemma transmission_evolves:
  "prepare_message_transmission n expected r = Inr (Written r') \<Longrightarrow> evolves r r'"
  "stage_message_transmission n r = Inr (Written r') \<Longrightarrow> evolves r r'"
  "message_transmission_outcome n status r = Inr (Written r') \<Longrightarrow> evolves r r'"
  unfolding prepare_message_transmission_def stage_message_transmission_def message_transmission_outcome_def
  by (erule on_attemptE; auto simp: attempt_kept_def intro!: put_attempt_evolves split: option.splits if_splits)+

lemma op_evolves:
  "receipt_op_of f \<Longrightarrow> f r = Inr (Written r') \<Longrightarrow> valid aware r \<Longrightarrow> valid aware r' \<Longrightarrow> evolves r r'"
  by (induction rule: receipt_op_of.induct)
    (auto intro: begin_evolves begin_native_evolves observe_evolves transmission_evolves stage_evolves outcome_evolves)

section \<open>The life of a receipt\<close>

definition fits_store :: "(string \<Rightarrow> bool) \<Rightarrow> request_store \<Rightarrow> request_receipt \<Rightarrow> bool" where
  "fits_store aware s r \<longleftrightarrow> valid aware r \<and> rr_id r = st_id s \<and> ri_fleet (rr_intent r) = st_fleet s \<and> \<not> route_elsewhere s r"

lemma load_written: "fits_store aware s r \<Longrightarrow> load aware (written r s) = Inr (Some r)"
  by (simp add: fits_store_def load_def written_def decode_receipt_def decode_def receipt_codec.dec_enc route_elsewhere_def split: option.splits route.splits)

lemma load_fits: "load aware s = Inr (Some r) \<Longrightarrow> fits_store aware s r"
  by (auto simp: load_def fits_store_def decode_receipt_def decode_def split: option.splits stored.splits sum.splits if_splits)

lemma elsewhere_faults [simp]: "route_elsewhere (s\<lparr>st_faults := fs\<rparr>) r = route_elsewhere s r"
  by (simp add: route_elsewhere_def split: option.split route.split)

lemma load_faults [simp]: "load aware (s\<lparr>st_faults := fs\<rparr>) = load aware s"
  by (simp add: load_def split: option.split stored.split sum.split)

lemma fits_faults [simp]: "fits_store aware (s\<lparr>st_faults := fs\<rparr>) r = fits_store aware s r"
  by (simp add: fits_store_def)

text \<open>A write that fits leaves the old file or the new one, and says the new one only when it is there.\<close>

lemma save_load:
  assumes "save aware r s = (q, s')" "rr_id r = st_id s" "ri_fleet (rr_intent r) = st_fleet s"
  shows "(load aware s' = load aware s \<and> (\<exists>e. q = Inl e)) \<or> (valid aware r \<and> load aware s' = Inr (Some r) \<and> (q = Inr r \<or> (\<exists>e. q = Inl e)))"
proof (cases "fits_store aware s r")
  case True
  have w: "load aware (written r (s\<lparr>st_faults := fs\<rparr>)) = Inr (Some r)" "load aware (written r s) = Inr (Some r)" for fs
    using load_written [of aware s r] load_written [of aware "s\<lparr>st_faults := fs\<rparr>" r] True by simp_all
  from True have v: "valid aware r" "\<not> route_elsewhere s r" by (simp_all add: fits_store_def)
  from assms(1) v show ?thesis
    unfolding save_def by (cases "st_faults s"; cases "hd (st_faults s)") (auto simp: w)
next
  case False
  with assms(2,3) have "\<not> valid aware r \<or> route_elsewhere s r" by (simp add: fits_store_def)
  with assms(1) show ?thesis by (auto simp: save_def split: if_splits)
qed

inductive store_step :: "(string \<Rightarrow> bool) \<Rightarrow> request_store \<Rightarrow> request_store \<Rightarrow> bool" for aware where
  prepares: "prepare_request aware intent (s\<lparr>st_faults := fs\<rparr>) = (q, s') \<Longrightarrow> store_step aware s s'"
| updates: "receipt_op_of f \<Longrightarrow> update aware f (s\<lparr>st_faults := fs\<rparr>) = (q, s') \<Longrightarrow> store_step aware s s'"

lemma update_load:
  assumes u: "update aware f s = (q, s')" and f: "receipt_op_of f"
  shows "load aware s' = load aware s \<and> (\<forall>r. q = Inr r \<longrightarrow> load aware s = Inr (Some r))
    \<or> (\<exists>r r'. load aware s = Inr (Some r) \<and> load aware s' = Inr (Some r') \<and> f r = Inr (Written r') \<and> evolves r r' \<and> (\<forall>x. q = Inr x \<longrightarrow> x = r'))"
proof (cases "\<exists>r r'. load aware s = Inr (Some r) \<and> f r = Inr (Written r')")
  case False
  with u show ?thesis by (auto simp: update_def split: sum.splits option.splits change.splits)
next
  case True
  then obtain r r' where r: "load aware s = Inr (Some r)" "f r = Inr (Written r')" by blast
  with u have sv: "save aware r' s = (q, s')" by (simp add: update_def)
  from load_fits [OF r(1)] have fit: "fits_store aware s r" .
  have same: "rr_id r' = rr_id r \<and> rr_intent r' = rr_intent r"
    using f r(2) by (induction rule: receipt_op_of.induct)
      (auto simp: begin_attempt_def begin_native_attempt_def observe_message_transport_def stage_request_def outcome_request_def
        prepare_message_transmission_def stage_message_transmission_def message_transmission_outcome_def Let_def put_stage_def put_attempt_def
        split: if_splits sum.splits option.splits elim!: on_attemptE)
  with save_load [OF sv] fit r op_evolves [OF f r(2)] show ?thesis by (auto simp: fits_store_def)
qed

lemma save_Inr: "save aware r s = (Inr x, s') \<Longrightarrow> x = r"
  by (auto simp: save_def split: if_splits list.splits save_fault.splits)

lemma update_written:
  assumes u: "update aware f s = (Inr r, s')" and f: "receipt_op_of f" and k: "\<And>r0. f r0 \<noteq> Inr Kept"
  shows "\<exists>r0. f r0 = Inr (Written r) \<and> load aware s' = Inr (Some r)"
proof -
  from u k obtain r0 r1 where l: "load aware s = Inr (Some r0)" "f r0 = Inr (Written r1)" and sv: "save aware r1 s = (Inr r, s')"
    by (auto simp: update_def split: sum.splits option.splits change.splits)
  from save_Inr [OF sv] have r: "r = r1" .
  from load_fits [OF l(1)] have fit: "fits_store aware s r0" .
  have "valid aware r1" using sv by (auto simp: save_def split: if_splits)
  with op_evolves [OF f l(2)] fit have "rr_id r1 = st_id s" "ri_fleet (rr_intent r1) = st_fleet s"
    by (auto simp: fits_store_def evolves_def)
  from save_load [OF sv this] r l(2) show ?thesis by auto
qed

lemma prepare_load:
  assumes "prepare_request aware intent s = (q, s')"
  shows "load aware s' = load aware s \<or> load aware s = Inr None \<and> (\<exists>r. load aware s' = Inr (Some r) \<and> rr_attempts r = []
    \<and> rr_intent r = intent)"
  using assms save_load by (auto simp: prepare_request_def Let_def split: if_splits sum.splits option.splits) fastforce+

lemma step_evolves:
  assumes "store_step aware s s'" "load aware s = Inr (Some r)"
  shows "\<exists>r'. load aware s' = Inr (Some r') \<and> evolves r r'"
  using assms
proof (induction rule: store_step.induct)
  case (prepares intent fs s q s')
  from prepare_load [OF prepares(1)] prepares(2) evolves_refl show ?case by auto
next
  case (updates f fs s q s')
  from update_load [OF updates(2,1)] updates(3) evolves_refl show ?case by auto
qed

lemma life_evolves:
  assumes "(store_step aware)\<^sup>*\<^sup>* s s'" "load aware s = Inr (Some r)"
  shows "\<exists>r'. load aware s' = Inr (Some r') \<and> evolves r r'"
  using assms(1)
proof (induction rule: rtranclp_induct)
  case base
  with assms(2) evolves_refl show ?case by blast
next
  case (step t u)
  then obtain r1 where r1: "load aware t = Inr (Some r1)" "evolves r r1" by blast
  from step_evolves [OF step(2) r1(1)] obtain r2 where "load aware u = Inr (Some r2)" "evolves r1 r2" by blast
  moreover have "valid aware r" using load_fits [OF assms(2)] by (simp add: fits_store_def)
  ultimately show ?case using evolves_trans [OF r1(2)] by blast
qed

section \<open>Strict notifications\<close>

definition strict_ok :: "request_receipt \<Rightarrow> bool" where
  "strict_ok r \<longleftrightarrow> (ri_operation (rr_intent r) \<in> set STRICT_NATIVE \<and> rr_attempts r \<noteq> []
     \<longrightarrow> rr_stages r \<noteq> [] \<and> so_status (rr_stages r ! 0) = ''committed'')"

lemma begin_native_strict:
  assumes "begin_native_attempt event retry r = Inr (Written r')" "valid aware r"
  shows "strict_ok r'"
proof -
  from assms(1) obtain i where i: "native_index r = Inr i" and n: "so_status (rr_stages r ! i) \<in> {''prepared'', ''unknown'', ''failed''}"
    and c: "ri_operation (rr_intent r) \<in> set STRICT_NATIVE \<longrightarrow> so_status (rr_stages r ! 0) = ''committed''"
    and r': "r' = r\<lparr>rr_attempt := rr_attempt r + 1, rr_stages := (rr_stages r)[i := \<lparr>so_status = ''unknown'', so_attempt = rr_attempt r + 1\<rparr>],
      rr_attempts := rr_attempts r @ [new_attempt (rr_attempt r + 1) event]\<rparr>"
    by (auto simp: begin_native_attempt_def Let_def split: sum.splits if_splits)
  from i have "i < length (ri_stages (rr_intent r))" by (rule native_indexE) (use find_index_Some in blast)
  with valid_lengths [OF assms(2)] have "rr_stages r \<noteq> []" by auto
  with n c show ?thesis by (cases "i = 0") (auto simp: strict_ok_def r')
qed

lemma other_ops_strict:
  assumes "evolves r r'" "length (rr_attempts r') = length (rr_attempts r)" "strict_ok r"
  shows "strict_ok r'"
proof (cases "rr_attempts r = []")
  case True
  with assms(2) show ?thesis by (simp add: strict_ok_def)
next
  case False
  with assms show ?thesis by (cases "rr_stages r"; cases "rr_stages r'") (auto simp: strict_ok_def evolves_def stage_kept_def)
qed

lemma op_lengths:
  "receipt_op_of f \<Longrightarrow> f r = Inr (Written r') \<Longrightarrow>
     (\<exists>event retry. f = begin_native_attempt event retry) \<or> length (rr_attempts r') = length (rr_attempts r)"
proof (induction rule: receipt_op_of.induct)
  case (2 event retry)
  then show ?case by blast
qed (auto simp: begin_attempt_def observe_message_transport_def stage_request_def
    outcome_request_def prepare_message_transmission_def stage_message_transmission_def message_transmission_outcome_def
    Let_def put_stage_def put_attempt_def split: if_splits sum.splits option.splits elim!: on_attemptE)

lemma op_strict:
  assumes "receipt_op_of f" "f r = Inr (Written r')" "valid aware r" "evolves r r'" "strict_ok r"
  shows "strict_ok r'"
  using op_lengths [OF assms(1,2)] assms(2-5) begin_native_strict other_ops_strict by blast

definition strict_store :: "(string \<Rightarrow> bool) \<Rightarrow> request_store \<Rightarrow> bool" where
  "strict_store aware s \<longleftrightarrow> (case load aware s of Inl e \<Rightarrow> False | Inr None \<Rightarrow> True | Inr (Some r) \<Rightarrow> strict_ok r)"

lemma step_strict: "store_step aware s s' \<Longrightarrow> strict_store aware s \<Longrightarrow> strict_store aware s'"
proof (induction rule: store_step.induct)
  case (prepares intent fs t q u)
  from prepare_load [OF prepares(1)] prepares(2) show ?case by (auto simp: strict_store_def strict_ok_def)
next
  case (updates f fs t q u)
  from update_load [OF updates(2,1)] show ?case
  proof (elim disjE exE conjE)
    fix r r' assume l: "load aware (t\<lparr>st_faults := fs\<rparr>) = Inr (Some r)" "load aware u = Inr (Some r')" "f r = Inr (Written r')" "evolves r r'"
    moreover have "valid aware r" using load_fits [OF l(1)] by (simp add: fits_store_def)
    moreover have "strict_ok r" using l(1) updates(3) by (simp add: strict_store_def)
    ultimately have "strict_ok r'" using op_strict [OF updates(1)] by blast
    with l(2) show ?thesis by (simp add: strict_store_def)
  qed (use updates(3) in \<open>simp add: strict_store_def\<close>)
qed

section \<open>Properties\<close>

text \<open>
  C39. The file of a receipt says all of it: what is written for a valid receipt is read back as
  the same receipt, its route, stages, frozen facts and native attempts included, so that nothing
  the store relies on is lost by a restart.
\<close>

theorem receipt_read_back:
  assumes "valid aware r" shows "decode aware (receipt_payload r) = Some r"
  using assms by (simp add: decode_def receipt_codec.dec_enc)

text \<open>
  C38. What a receipt retains stays. Whatever operations follow and wherever their writes fail, the
  file goes on holding a receipt of the same request and intent; a committed, submitted or
  received stage never falls back, nor does an attempted one become unattempted; native attempts are only appended,
  and what was observed and frozen of one is never revised.
\<close>

theorem receipt_history_kept:
  assumes "(store_step aware)\<^sup>*\<^sup>* s s'" "load aware s = Inr (Some r)"
  shows "\<exists>r'. load aware s' = Inr (Some r') \<and> evolves r r'"
  using assms by (rule life_evolves)

text \<open>
  C8. Nothing is sent twice after it went out. Once the native stage of a request is submitted or
  received, no later sequence of operations reserves another send, the reservation is refused
  whatever the caller asks, and the stage keeps saying that the message went out.
\<close>

theorem no_second_send:
  assumes "(store_step aware)\<^sup>*\<^sup>* s s'" "load aware s = Inr (Some r)" "sent r"
  shows "\<exists>r'. load aware s' = Inr (Some r') \<and> sent r' \<and> map ma_event (rr_attempts r') = map ma_event (rr_attempts r)
    \<and> (\<exists>e. begin_native_attempt event retry r' = Inl e)"
proof -
  from life_evolves [OF assms(1,2)] obtain r' where r': "load aware s' = Inr (Some r')" "evolves r r'" by blast
  have "valid aware r" using load_fits [OF assms(2)] by (simp add: fits_store_def)
  with r'(2) assms(3) valid_lengths have s: "sent r'" using sent_kept [of r' r] by (auto simp: evolves_def)
  then have "\<exists>e. begin_native_attempt event retry r' = Inl e"
    by (auto simp: sent_def begin_native_attempt_def Let_def split: sum.splits)
  moreover from r'(2) assms(3) have "list_all2 attempt_kept (rr_attempts r) (rr_attempts r')" by (auto simp: evolves_def)
  then have "map ma_event (rr_attempts r') = map ma_event (rr_attempts r)"
    by (induction rule: list_all2_induct) (simp_all add: attempt_kept_def)
  ultimately show ?thesis using r'(1) s by blast
qed

text \<open>
  C15. Nobody is notified of what was not recorded. A request that began without a receipt and whose
  operation is one of the strict ones has a native attempt only after its recording stage was
  proved committed, and the receipt still says so.
\<close>

theorem strict_send_after_commit:
  assumes "(store_step aware)\<^sup>*\<^sup>* s s'" "st_file s = None" "load aware s' = Inr (Some r)"
    and "ri_operation (rr_intent r) \<in> set STRICT_NATIVE" "rr_attempts r \<noteq> []"
  shows "so_status (rr_stages r ! 0) = ''committed''"
proof -
  have "strict_store aware s'" using assms(1)
  proof (induction rule: rtranclp_induct)
    case base
    with assms(2) show ?case by (simp add: strict_store_def load_def)
  qed (rule step_strict)
  with assms(3-5) show ?thesis by (simp add: strict_store_def strict_ok_def)
qed

text \<open>
  An effect is never without its trace. When a stage was marked before its effect, the file
  says that its outcome is unknown, and however the process goes on or is killed, no later reading
  of the file shows the stage as not attempted.
\<close>

theorem effect_leaves_trace:
  assumes "update aware (stage_request i retry) s = (Inr r, s1)" "(store_step aware)\<^sup>*\<^sup>* s1 s'"
  shows "load aware s1 = Inr (Some r) \<and> so_status (rr_stages r ! i) = ''unknown'' \<and> so_attempt (rr_stages r ! i) = rr_attempt r
    \<and> (\<exists>r'. load aware s' = Inr (Some r') \<and> so_status (rr_stages r' ! i) \<noteq> ''prepared'')"
proof -
  have "stage_request i retry r0 \<noteq> Inr Kept" for r0 by (simp add: stage_request_def Let_def)
  from update_written [OF assms(1) receipt_op_of.intros(7) this] obtain r0 where r0: "load aware s1 = Inr (Some r)"
    "stage_request i retry r0 = Inr (Written r)" by blast
  then have i: "i < length (rr_stages r)" "so_status (rr_stages r ! i) = ''unknown''" "so_attempt (rr_stages r ! i) = rr_attempt r"
    by (auto simp: stage_request_def Let_def put_stage_def split: if_splits)
  from life_evolves [OF assms(2) r0(1)] obtain r' where r': "load aware s' = Inr (Some r')" "evolves r r'" by blast
  from r'(2) i have "stage_kept (rr_stages r ! i) (rr_stages r' ! i)" by (auto simp: evolves_def list_all2_conv_all_nth)
  with i r0(1) r'(1) show ?thesis by (auto simp: stage_kept_def)
qed

section \<open>A nudge from beginning to end\<close>

definition sample_destination :: native_destination where
  "sample_destination = \<lparr>nd_root = ''/r'', nd_fleet = ''studio'', nd_socket = ''sock'', nd_session = ''lead'', nd_tmux = ''/t''\<rparr>"

definition sample_route :: message_route where
  "sample_route = \<lparr>mr_activation = Some ''a1'', mr_plan = Some ''p1'', mr_release = Some ''r1'',
     mr_caller_fleet = None, mr_peer_fleet = ''fleet_'' @ sample_hex, mr_caller = ''human:ann'',
     mr_recipient = ''bot:studio/lead'', mr_manager_uid = ''actor_'' @ sample_hex, mr_manager = ''bot:studio/lead'',
     mr_peer_dest = sample_destination, mr_manager_dest = sample_destination, mr_revision = None, mr_fingerprint = None\<rparr>"

definition sample_fact :: expected_fact where
  "sample_fact = \<lparr>ef_event = ''ev_'' @ sample_hex, ef_family = ''task'', ef_sha = sample_hex @ sample_hex, ef_fields = [''event_id'']\<rparr>"

definition sample_nudge :: request_intent where
  "sample_nudge = \<lparr>ri_operation = ''task.nudge'', ri_version = 1, ri_host = ''host_'' @ sample_hex, ri_fleet = ''fleet_'' @ sample_hex,
     ri_caller = ''actor_'' @ sample_hex, ri_recipient = Some (''actor_'' @ sample_hex), ri_semantic = sample_hex @ sample_hex,
     ri_stages = [\<lparr>sp_kind = ''recording'', sp_facts = [sample_fact]\<rparr>, \<lparr>sp_kind = ''notification'', sp_facts = []\<rparr>],
     ri_task = Some (''wi_'' @ sample_hex), ri_assignment = None, ri_message = Some (''msg_'' @ sample_hex),
     ri_route = Some (Native sample_route), ri_expected_by = None\<rparr>"

definition sample_store :: request_store where
  "sample_store = \<lparr>st_id = ''01234567-89ab-cdef-0123-456789abcdef'', st_fleet = ''fleet_'' @ sample_hex, st_root = ''/r'',
     st_file = None, st_faults = []\<rparr>"

definition send_event :: string where
  "send_event = ''ev_'' @ replicate 32 CHR ''a''"

definition nudge_receipt :: "stage_outcome list \<Rightarrow> int \<Rightarrow> message_attempt list \<Rightarrow> request_receipt" where
  "nudge_receipt outs n ms = \<lparr>rr_id = st_id sample_store, rr_intent = sample_nudge, rr_stages = outs, rr_attempt = n,
     rr_attempts = ms, rr_version = FORMAT_VERSION\<rparr>"

text \<open>The parts of validity that do not change.\<close>

lemma sample_frozen:
  "canonical_uuid (st_id sample_store) \<and> identities_ok sample_nudge \<and> default_deadline_ok (\<lambda>_. True) sample_nudge
   \<and> route_ok sample_nudge \<and> feedback_ok sample_nudge \<and> list_all (\<lambda>p. list_all fact_ok (sp_facts p)) (ri_stages sample_nudge)
   \<and> plan_events sample_nudge = [''ev_'' @ sample_hex] \<and> native_stage sample_nudge = Some ''notification'' \<and> \<not> is_message sample_nudge
   \<and> ri_route sample_nudge \<noteq> None \<and> id_of ''event'' send_event \<and> send_event \<noteq> ''ev_'' @ sample_hex"
  by (intro conjI; code_simp)

definition fine :: "stage_outcome list \<Rightarrow> int \<Rightarrow> message_attempt list \<Rightarrow> bool" where
  "fine outs n ms \<longleftrightarrow> 0 \<le> n \<and> list_all2 (outcome_ok n) (ri_stages sample_nudge) outs \<and> increasing_within 0 n (map ma_no ms)
     \<and> list_all attempt_ok ms \<and> distinct ((''ev_'' @ sample_hex) # map ma_event ms)
     \<and> (ms \<noteq> [] \<longrightarrow> some_ok (\<lambda>d. delivery_agrees (nudge_receipt outs n ms) d (last ms)) (stage_of_kind ''notification'' (nudge_receipt outs n ms)))"

lemma nudge_fits:
  assumes "fine xs n ms" shows "fits_store (\<lambda>_. True) sample_store (nudge_receipt xs n ms)"
proof -
  have i: "rr_intent (nudge_receipt xs n ms) = sample_nudge" "rr_id (nudge_receipt xs n ms) = st_id sample_store"
    "rr_stages (nudge_receipt xs n ms) = xs" "rr_attempt (nudge_receipt xs n ms) = n" "rr_attempts (nudge_receipt xs n ms) = ms"
    "rr_version (nudge_receipt xs n ms) = FORMAT_VERSION"
    by (simp_all add: nudge_receipt_def)
  have "attempts_ok (nudge_receipt xs n ms)"
    using assms sample_frozen unfolding attempts_ok_def i fine_def by auto
  moreover have "list_all2 (outcome_ok n) (ri_stages sample_nudge) xs" "0 \<le> n" using assms by (simp_all add: fine_def)
  moreover have "distinct (plan_events sample_nudge)" using sample_frozen by simp
  ultimately have "valid (\<lambda>_. True) (nudge_receipt xs n ms)" using sample_frozen unfolding valid_def i by blast
  moreover have "ri_fleet sample_nudge = st_fleet sample_store" by (simp add: sample_nudge_def sample_store_def)
  moreover have "\<not> route_elsewhere sample_store (nudge_receipt xs n ms)"
    unfolding route_elsewhere_def i by (simp add: sample_nudge_def sample_route_def sample_destination_def sample_store_def)
  ultimately show ?thesis unfolding fits_store_def i by simp
qed

lemma fits_written [simp]: "fits_store aware (written r s) r' = fits_store aware s r'"
  by (simp add: fits_store_def written_def route_elsewhere_def split: option.split route.split)

lemma written_written [simp]: "written r (written r' s) = written r s"
  by (simp add: written_def)

lemma op_written:
  assumes "receipt_op_of f" "f r = Inr (Written r')" "fits_store aware s r" "fits_store aware s r'" "st_faults s = []"
  shows "store_step aware (written r s) (written r' s)" "update aware f (written r s) = (Inr r', written r' s)"
proof -
  have "fits_store aware (written r s) r'" using assms(4) by simp
  then have nb: "valid aware r'" "\<not> route_elsewhere (written r s) r'" "st_faults (written r s) = []"
    using assms(5) by (simp_all only: fits_store_def) (simp_all add: written_def)
  have "save aware r' (written r s) = (Inr r', written r' s)"
    using nb unfolding save_def by simp
  with assms(2,3) show u: "update aware f (written r s) = (Inr r', written r' s)" by (simp add: update_def load_written)
  have "(written r s)\<lparr>st_faults := st_faults s\<rparr> = written r s" by (simp add: written_def)
  with u show "store_step aware (written r s) (written r' s)" using store_step.updates [OF assms(1)] by metis
qed

abbreviation outs :: "(string \<times> int) list \<Rightarrow> stage_outcome list" where
  "outs xs \<equiv> map (\<lambda>(st, n). \<lparr>so_status = st, so_attempt = n\<rparr>) xs"

definition sent_attempt :: "transport_observation option \<Rightarrow> message_attempt" where
  "sent_attempt seen = \<lparr>ma_no = 2, ma_event = send_event, ma_seen = seen, ma_fact = None, ma_recording = ''prepared''\<rparr>"

definition submitted_seen :: transport_observation where
  "submitted_seen = \<lparr>to_status = ''submitted'', to_sha = None, to_bytes = None, to_code = Some 0\<rparr>"

definition nudges :: "request_receipt list" where
  "nudges =
     [nudge_receipt (outs [(''prepared'', 0), (''prepared'', 0)]) 0 [],
      nudge_receipt (outs [(''prepared'', 0), (''prepared'', 0)]) 1 [],
      nudge_receipt (outs [(''unknown'', 1), (''prepared'', 0)]) 1 [],
      nudge_receipt (outs [(''committed'', 1), (''prepared'', 0)]) 1 [],
      nudge_receipt (outs [(''committed'', 1), (''unknown'', 2)]) 2 [sent_attempt None],
      nudge_receipt (outs [(''committed'', 1), (''submitted'', 2)]) 2 [sent_attempt (Some submitted_seen)]]"

lemma sample_parts:
  "ri_stages sample_nudge = [\<lparr>sp_kind = ''recording'', sp_facts = [sample_fact]\<rparr>, \<lparr>sp_kind = ''notification'', sp_facts = []\<rparr>]"
  "ri_operation sample_nudge = ''task.nudge''" "native_index (nudge_receipt xs n ms) = Inr 1" "is_recorded sample_nudge = False"
  by (simp_all add: sample_nudge_def native_index_def nudge_receipt_def NATIVE_STAGES_def is_recorded_def)

lemma sample_ids: "id_of ''event'' send_event" "send_event \<noteq> ''ev_'' @ sample_hex" "plan_events sample_nudge = [''ev_'' @ sample_hex]"
  using sample_frozen by simp_all

lemma nudges_fit: "list_all (fits_store (\<lambda>_. True) sample_store) nudges"
  unfolding nudges_def list.pred_inject
  by (intro conjI TrueI nudge_fits; use sample_ids in \<open>simp add: fine_def sample_parts outcome_ok_def status_of_kind_def STATUSES_def
      sent_attempt_def submitted_seen_def attempt_ok_def opt_ok_def observation_ok_def stage_of_kind_def delivery_agrees_def some_ok_def
      nudge_receipt_def\<close>)

abbreviation nudge :: "nat \<Rightarrow> request_receipt" where
  "nudge i \<equiv> nudges ! i"

lemma nudge_fit: "i < 6 \<Longrightarrow> fits_store (\<lambda>_. True) sample_store (nudge i)"
  using nudges_fit unfolding list_all_length by (simp add: nudges_def)

lemma prepared_nudge: "prepare_request (\<lambda>_. True) sample_nudge sample_store = (Inr (nudge 0), written (nudge 0) sample_store)"
proof -
  have c: "\<lparr>rr_id = st_id sample_store, rr_intent = sample_nudge, rr_stages = map (\<lambda>_. prepared_outcome) (ri_stages sample_nudge),
      rr_attempt = 0, rr_attempts = [], rr_version = FORMAT_VERSION\<rparr> = nudge 0"
    by (simp add: nudges_def nudge_receipt_def sample_parts prepared_outcome_def)
  have f: "valid (\<lambda>_. True) (nudge 0)" "\<not> route_elsewhere sample_store (nudge 0)" "ri_fleet sample_nudge = st_fleet sample_store"
    using nudge_fit [of 0] by (simp_all add: fits_store_def) (simp_all add: nudges_def nudge_receipt_def)
  have l: "load (\<lambda>_. True) sample_store = Inr None" "st_faults sample_store = []" by (simp_all add: load_def sample_store_def)
  show ?thesis unfolding prepare_request_def Let_def c using f l by (simp add: save_def)
qed

lemma nudge_ops:
  "begin_attempt (nudge 0) = Inr (Written (nudge 1))" "stage_request 0 False (nudge 1) = Inr (Written (nudge 2))"
  "outcome_request 0 ''committed'' (nudge 2) = Inr (Written (nudge 3))"
  "begin_native_attempt send_event False (nudge 3) = Inr (Written (nudge 4))"
  "observe_message_transport 2 submitted_seen (nudge 4) = Inr (Written (nudge 5))"
  using sample_ids
  by (simp_all add: nudges_def begin_attempt_def stage_request_def outcome_request_def begin_native_attempt_def observe_message_transport_def
      on_attempt_def attempt_index_def put_stage_def put_attempt_def sample_parts status_of_kind_def STATUSES_def new_attempt_def sent_attempt_def
      O1_NATIVE_def STRICT_NATIVE_def submitted_seen_def)
    (simp_all add: nudge_receipt_def sample_parts put_stage_def put_attempt_def new_attempt_def Let_def)

lemma nudge_step:
  assumes "receipt_op_of f" "f (nudge i) = Inr (Written (nudge (Suc i)))" "Suc i < 6"
  shows "store_step (\<lambda>_. True) (written (nudge i) sample_store) (written (nudge (Suc i)) sample_store)"
  by (rule op_written [OF assms(1,2)]) (use assms(3) nudge_fit in \<open>simp_all add: sample_store_def\<close>)

lemmas nudge_steps = nudge_step [OF receipt_op_of.intros(1), of 0] nudge_step [OF receipt_op_of.intros(7), of 0 False 1]
  nudge_step [OF receipt_op_of.intros(8), of 0 "''committed''" 2] nudge_step [OF receipt_op_of.intros(2), of send_event False 3]
  nudge_step [OF receipt_op_of.intros(3), of 2 submitted_seen 4]

lemma nudge_life: "i < 6 \<Longrightarrow> (store_step (\<lambda>_. True))\<^sup>*\<^sup>* (written (nudge 0) sample_store) (written (nudge i) sample_store)"
proof (induction i)
  case (Suc i)
  then consider "i = 0" | "i = 1" | "i = 2" | "i = 3" | "i = 4" by linarith
  then have "store_step (\<lambda>_. True) (written (nudge i) sample_store) (written (nudge (Suc i)) sample_store)"
    by cases (use nudge_steps nudge_ops in \<open>simp_all add: numeral_eq_Suc\<close>)
  with Suc show ?case by (meson Suc_lessD rtranclp.rtrancl_into_rtrancl)
qed simp

lemma nudge_loaded: "i < 6 \<Longrightarrow> load (\<lambda>_. True) (written (nudge i) sample_store) = Inr (Some (nudge i))"
  by (rule load_written) (rule nudge_fit)

lemma receipt_read_back_witness: "decode (\<lambda>_. True) (receipt_payload (nudge 5)) = Some (nudge 5)"
  by (rule receipt_read_back) (use nudge_fit [of 5] in \<open>simp add: fits_store_def\<close>)

lemma receipt_history_kept_witness:
  "\<exists>r'. load (\<lambda>_. True) (written (nudge 5) sample_store) = Inr (Some r') \<and> evolves (nudge 0) r'"
  by (rule receipt_history_kept [OF nudge_life nudge_loaded]) simp_all

lemma nudge_sent: "sent (nudge 5)"
  by (simp add: sent_def nudges_def sample_parts) (simp add: nudge_receipt_def)

lemma no_second_send_witness:
  "\<exists>e. begin_native_attempt ''ev'' True (nudge 5) = Inl e"
  using no_second_send [OF rtranclp.rtrancl_refl nudge_loaded nudge_sent, of "''ev''" True] nudge_loaded [of 5] by auto

lemma strict_send_after_commit_witness: "rr_attempts (nudge 5) \<noteq> [] \<and> so_status (rr_stages (nudge 5) ! 0) = ''committed''"
proof -
  have "store_step (\<lambda>_. True) sample_store (written (nudge 0) sample_store)"
    by (rule store_step.prepares [of _ sample_nudge "st_faults sample_store"]) (simp add: prepared_nudge)
  with nudge_life [of 5] have l: "(store_step (\<lambda>_. True))\<^sup>*\<^sup>* sample_store (written (nudge 5) sample_store)"
    by (simp add: converse_rtranclp_into_rtranclp)
  have a: "rr_attempts (nudge 5) \<noteq> []" "ri_operation (rr_intent (nudge 5)) = ''task.nudge''"
    by (simp_all add: nudges_def nudge_receipt_def sample_parts)
  show ?thesis using strict_send_after_commit [OF l _ nudge_loaded] a by (simp add: sample_store_def STRICT_NATIVE_def)
qed

lemma effect_leaves_trace_witness:
  "\<exists>r'. load (\<lambda>_. True) (written (nudge 3) sample_store) = Inr (Some r') \<and> so_status (rr_stages r' ! 0) \<noteq> ''prepared''"
proof -
  have u: "update (\<lambda>_. True) (stage_request 0 False) (written (nudge 1) sample_store) = (Inr (nudge 2), written (nudge 2) sample_store)"
    by (rule op_written(2) [OF receipt_op_of.intros(7) nudge_ops(2)]) (use nudge_fit in \<open>simp_all add: sample_store_def\<close>)
  have "store_step (\<lambda>_. True) (written (nudge 2) sample_store) (written (nudge 3) sample_store)"
    using nudge_steps(3) nudge_ops(3) by (simp add: numeral_eq_Suc)
  then have "(store_step (\<lambda>_. True))\<^sup>*\<^sup>* (written (nudge 2) sample_store) (written (nudge 3) sample_store)" by (rule r_into_rtranclp)
  from effect_leaves_trace [OF u this] show ?thesis by simp
qed

end
