(* ===== verification/Request_Facts.thy ===== *)
theory Request_Facts
  imports Request_Store Ingest_Safety
begin

text \<open>
  What proves that a request was recorded (\<open>claudlobby/request_facts.py\<close>): before an event is
  emitted its row is projected, with identities frozen beforehand, and only the hash and the names
  of its columns are kept in the receipt; afterwards the rows that are there are compared with them.
\<close>

declare jget.simps [simp del]

section \<open>Preparing\<close>

text \<open>Identities frozen beforehand: \<open>parties.__getitem__\<close> and its like for entities.\<close>

type_synonym parties = "(string \<times> string) list"
type_synonym entities = "((string \<times> string) \<times> string) list"

definition frozen :: "('k \<times> string) list \<Rightarrow> 'k \<Rightarrow> (unit, string) st" where
  "frozen m k = (case map_of m k of None \<Rightarrow> raise (Key_Err ''unfrozen identity'') | Some u \<Rightarrow> ret u)"

text \<open>\<open>json.loads(values["detail"])\<close>: a text that stands for no JSON value raises.\<close>

definition loads_detail :: "row \<Rightarrow> bool" where
  "loads_detail r \<longleftrightarrow> col r ''detail'' = JNull \<or> truthy (col r ''detail_truncated'') \<or> \<not> is_str (col r ''detail'')"

definition hash_of :: "world \<Rightarrow> row \<Rightarrow> plane_error + string" where
  "hash_of w values =
     (if loads_detail values then Inr (w_sha w (dump (w_float w) ('','', '':'') (sort_keys (JObj values))))
      else Inl (Value_Err ''JSONDecodeError''))"

definition CLOCK_COLUMNS :: "string list" where
  "CLOCK_COLUMNS = [''ingest_seq'', ''occurred_at'', ''observed_at'', ''ingested_at'']"

text \<open>The envelope without its clock, and the columns of the family.\<close>

definition projection :: "string \<Rightarrow> obj \<Rightarrow> string \<Rightarrow> string \<Rightarrow> row \<Rightarrow> row" where
  "projection event_id env host_uid fleet_uid values =
     merge_row (filter (\<lambda>(k, _). k \<notin> set CLOCK_COLUMNS) (envelope 0 event_id env host_uid (JStr fleet_uid) [])) values"

definition expected_fact :: "world \<Rightarrow> string \<Rightarrow> string \<Rightarrow> parties \<Rightarrow> entities \<Rightarrow> item \<Rightarrow> plane_error + (receipt_error + expected_fact)" where
  "expected_fact w host_uid fleet_uid parties entities it =
     (case it of (env, cls, p) \<Rightarrow>
        if \<not> truthy (fld env ''event_id'') then Inr (Inl (Receipt_Invalid ''freeze event IDs before preparing expected facts''))
        else case fst (family_values w (frozen parties) (\<lambda>kind alias. frozen entities (kind, alias)) cls p ()) of
            Inl (Key_Err m) \<Rightarrow> Inr (Inl (Receipt_Invalid ''expected fact refers to an unfrozen identity''))
          | Inl e \<Rightarrow> Inl e
          | Inr (table, values) \<Rightarrow>
              (let r = projection (text_of (fld env ''event_id'')) env host_uid fleet_uid values in
               case hash_of w r of Inl e \<Rightarrow> Inl e
               | Inr h \<Rightarrow> Inr (Inr \<lparr>ef_event = text_of (fld env ''event_id''), ef_family = text_of (fld env ''event_type''),
                   ef_sha = h, ef_fields = sort (map fst r)\<rparr>)))"

section \<open>Proving\<close>

datatype proof_status = Facts_Committed | Facts_Unrecorded | Facts_Unknown | Facts_Conflict

record fact_proof =
  fp_status :: proof_status
  fp_reason :: string
  fp_matched :: nat

record tally =
  ta_absent :: nat
  ta_matched :: nat
  ta_unavailable :: bool

text \<open>After a fact: the call raises, it answers, or the next fact is looked at.\<close>

datatype verdict = Refused string | Answered fact_proof | Counted tally

definition proof_of :: "proof_status \<Rightarrow> string \<Rightarrow> nat \<Rightarrow> fact_proof" where
  "proof_of st reason n = \<lparr>fp_status = st, fp_reason = reason, fp_matched = n\<rparr>"

definition conflict :: "string \<Rightarrow> tally \<Rightarrow> verdict" where
  "conflict reason t = Answered (proof_of Facts_Conflict reason (ta_matched t))"

definition ledger_entry :: "string \<Rightarrow> plane_db \<Rightarrow> ledger_row option" where
  "ledger_entry e d = find (\<lambda>l. l_event l = e) (ledger d)"

definition row_entry :: "string \<Rightarrow> string \<Rightarrow> plane_db \<Rightarrow> row option" where
  "row_entry table e d = find (\<lambda>r. col r ''event_id'' = JStr e) (tables d table)"

definition chosen :: "expected_fact \<Rightarrow> row \<Rightarrow> row" where
  "chosen f r = map (\<lambda>k. (k, col r k)) (ef_fields f)"

definition SCOPE_FIELDS :: "string list" where
  "SCOPE_FIELDS = [''event_id'', ''host_uid'', ''fleet_uid'', ''emitter'']"

definition compare_fact :: "world \<Rightarrow> expected_fact \<Rightarrow> ledger_row option \<Rightarrow> row option \<Rightarrow> tally \<Rightarrow> verdict" where
  "compare_fact w f found_ledger found_row t =
     (case found_ledger of
        None \<Rightarrow> if found_row \<noteq> None then conflict ''family row has no ledger entry'' t
          else Counted (t\<lparr>ta_absent := ta_absent t + 1\<rparr>)
      | Some l \<Rightarrow>
          if l_family l \<noteq> ef_family f then conflict ''event ID was committed as a different family'' t
          else case found_row of
              None \<Rightarrow> Counted (t\<lparr>ta_unavailable := True\<rparr>)
            | Some r \<Rightarrow>
                if col r ''ingest_seq'' \<noteq> JInt (l_seq l)
                   \<or> table_of (ef_family f) = ''events'' \<and> col r ''kind'' \<noteq> JStr (kind_of (ef_family f))
                then conflict ''ledger and family row disagree'' t
                else if ef_fields f = [] \<or> \<not> set SCOPE_FIELDS \<subseteq> set (ef_fields f)
                then Refused ''expected fact has no complete scoped projection''
                else if \<not> set (ef_fields f) \<subseteq> set (table_columns (table_of (ef_family f)))
                then Answered (proof_of Facts_Unknown ''projection fields are unavailable in this schema'' (ta_matched t))
                else case hash_of w (chosen f r) of
                    Inl e \<Rightarrow> conflict ''stored fact cannot be compared to its prepared projection'' t
                  | Inr h \<Rightarrow>
                      if h \<noteq> ef_sha f then conflict ''stored fact differs from prepared identities, links or content'' t
                      else Counted (t\<lparr>ta_matched := ta_matched t + 1\<rparr>))"

text \<open>The handlers of the call: storage that fails proves nothing, another \<open>ValueError\<close> or \<open>TypeError\<close> is a conflict.\<close>

definition is_value_error :: "plane_error \<Rightarrow> bool" where
  "is_value_error e = (case e of Value_Err m \<Rightarrow> True | Type_Err m \<Rightarrow> True | Contract_Error m \<Rightarrow> True | Identity_Conflict m \<Rightarrow> True
     | Canon_Error c \<Rightarrow> True | Capture_Invalid m \<Rightarrow> True | _ \<Rightarrow> False)"

definition handled :: "tally \<Rightarrow> verdict act \<Rightarrow> verdict act" where
  "handled t m s =
     (case m s of (Inr v, s') \<Rightarrow> (Inr v, s')
      | (Inl e, s') \<Rightarrow>
          if is_sqlite_error e \<or> is_os_error e
          then (Inr (Answered (proof_of Facts_Unknown ''recording proof is unavailable'' (ta_matched t))), s')
          else if is_value_error e then (Inr (conflict ''stored fact cannot be compared to its prepared projection'' t), s')
          else (Inl e, s'))"

definition inspect_fact :: "world \<Rightarrow> expected_fact \<Rightarrow> tally \<Rightarrow> verdict act" where
  "inspect_fact w f t =
     (if ef_family f \<notin> set FACT_FAMILIES then ret (Refused ''unsupported request fact family'')
      else handled t (
        andthen (query (ledger_entry (ef_event f))) (\<lambda>l.
        andthen (query (row_entry (table_of (ef_family f)) (ef_event f))) (\<lambda>r.
          ret (compare_fact w f l r t)))))"

fun inspect_all :: "world \<Rightarrow> expected_fact list \<Rightarrow> tally \<Rightarrow> verdict act" where
  "inspect_all w [] t = ret (Counted t)"
| "inspect_all w (f # fs) t =
     andthen (inspect_fact w f t) (\<lambda>v. case v of Counted t' \<Rightarrow> inspect_all w fs t' | Refused m \<Rightarrow> ret (Refused m) | Answered p \<Rightarrow> ret (Answered p))"

definition conclude :: "nat \<Rightarrow> tally \<Rightarrow> fact_proof" where
  "conclude n t =
     (if ta_absent t = n then proof_of Facts_Unrecorded ''all expected event IDs are absent'' 0
      else if 0 < ta_absent t then proof_of Facts_Conflict ''only part of the expected atomic batch exists'' (ta_matched t)
      else if ta_unavailable t then proof_of Facts_Unknown ''ledger proves prior recording but payload proof is unavailable'' (ta_matched t)
      else proof_of Facts_Committed ''all expected facts match'' (ta_matched t))"

text \<open>A deferred BEGIN fixes the snapshot that is read; a transaction the caller has is used as it is.\<close>

definition begin_reading :: "session \<Rightarrow> unit act" where
  "begin_reading s0 = (if saved s0 \<noteq> None then ret () else andthen stmt (\<lambda>_ s. (Inr (), s\<lparr>saved := Some (db s)\<rparr>)))"

definition no_tally :: tally where
  "no_tally = \<lparr>ta_absent = 0, ta_matched = 0, ta_unavailable = False\<rparr>"

definition reconcile_facts :: "world \<Rightarrow> expected_fact list \<Rightarrow> (receipt_error + fact_proof) act" where
  "reconcile_facts w facts s =
     (if facts = [] \<or> \<not> distinct (map ef_event facts)
      then (Inr (Inl (Receipt_Invalid ''expected atomic batch must contain distinct facts'')), s)
      else case handled no_tally (andthen (begin_reading s) (\<lambda>_. inspect_all w facts no_tally)) s of (r, t) \<Rightarrow>
        (case r of
           Inl e \<Rightarrow> Inl e
         | Inr (Refused m) \<Rightarrow> Inr (Inl (Receipt_Invalid m))
         | Inr (Answered p) \<Rightarrow> Inr (Inr p)
         | Inr (Counted c) \<Rightarrow> Inr (Inr (conclude (length facts) c)),
         if saved s = None then rollback_if_open t else t))"

end
