(* ===== verification/Request_Proof.thy ===== *)
theory Request_Proof
  imports Request_Facts
begin

text \<open>
  Why the proof of a request can be trusted: it says committed only of rows that are there and equal
  what was prepared, unrecorded only of events that are nowhere, and it never changes the database;
  and a batch that the write path stored is proved committed by the facts prepared for it.
\<close>

declare jget.simps [simp del]

section \<open>The memo of a batch\<close>

text \<open>What a batch has resolved it would resolve again: the memo holds bindings of the registry.\<close>

definition memo_ok :: "session \<Rightarrow> bool" where
  "memo_ok s \<longleftrightarrow> ids_ok (db s) \<and> (\<forall>k a u. map_of (memo s) (k, a) = Some u \<longrightarrow> lookup (db s) k a = Some u)"

definition keeps_memo :: "session \<Rightarrow> session \<Rightarrow> bool" where
  "keeps_memo s s' \<longleftrightarrow> (memo_ok s \<longrightarrow> memo_ok s' \<and> binds (db s) (db s'))"

definition same_memo :: "session \<Rightarrow> session \<Rightarrow> bool" where
  "same_memo s s' \<longleftrightarrow> memo s' = memo s"

lemma memo_preorders: "transp keeps_memo" "reflp keeps_memo" "transp same_memo" "reflp same_memo"
  by (auto intro!: transpI reflpI simp: keeps_memo_def same_memo_def intro: binds_trans)

lemma lookup_binds: "ids_ok d' \<Longrightarrow> binds d d' \<Longrightarrow> lookup d k a = Some u \<Longrightarrow> lookup d' k a = Some u"
  unfolding lookup_def by (auto simp: binding_kept_def elim!: binds_find)

lemma keeps_memoI: "same_memo s s' \<Longrightarrow> keeps_bindings s s' \<Longrightarrow> keeps_memo s s'"
  by (auto simp: keeps_memo_def memo_ok_def same_memo_def keeps_bindings_def intro: lookup_binds)

lemma runs_memo: "keeps same_memo m \<Longrightarrow> keeps keeps_bindings m \<Longrightarrow> keeps keeps_memo m"
  by (rule keepsI) (auto intro: keeps_memoI dest: keepsD)

lemma read_memo: "same_read s s' \<Longrightarrow> same_memo s s'" "same_read s s' \<Longrightarrow> keeps_memo s s'"
  by (auto simp: same_read_def same_memo_def intro!: keeps_memoI same_db_bindings)

lemma modify_memo: "keeps same_memo (modify f)"
  unfolding modify_def
  by (rule keeps_andthen [OF memo_preorders(3) keeps_mono [OF stmt_read read_memo(1)] keepsI]) (auto simp: same_memo_def)

lemma mint_memo: "keeps same_memo (mint_hex w)" "keeps same_memo (now_iso w)"
  by (auto intro!: keepsI simp: mint_hex_def now_iso_def same_memo_def)

lemma resolve_memo: "keeps same_memo (resolve w k a n p)"
proof -
  note rs = keeps_andthen memo_preorders mint_memo modify_memo keeps_now keeps_mono [OF keeps_query_read(1) read_memo(1)] keeps_if keeps_case
  show ?thesis unfolding resolve_def
    by (intro rs)
qed

lemma keeps_memo_resolve: "keeps keeps_memo (resolve w k a n p)"
  by (rule runs_memo [OF resolve_memo resolve_bindings])

text \<open>A resolution through the memo answers with a binding.\<close>

definition answers :: "string \<Rightarrow> string \<Rightarrow> string act \<Rightarrow> bool" where
  "answers k a m \<longleftrightarrow> (\<forall>s u s'. memo_ok s \<and> m s = (Inr u, s') \<longrightarrow> lookup (db s') k a = Some u)"

lemma answers_resolve: "answers k a (resolve w k a n p)"
  by (auto simp: answers_def dest!: resolve_answers)

lemma answers_andthen: "keeps keeps_memo m \<Longrightarrow> (\<And>x. answers k a (f x)) \<Longrightarrow> answers k a (andthen m f)"
  unfolding answers_def by (auto simp: andthen_Inr keeps_memo_def dest!: keepsD)

lemma memoized_memo:
  assumes k: "keeps keeps_memo m" and a: "answers k a m"
  shows "keeps keeps_memo (memoized (k, a) m)" "answers k a (memoized (k, a) m)"
proof -
  have new: "memo_ok (t\<lparr>memo := memo t @ [((k, a), u)]\<rparr>)" if "memo_ok t" "lookup (db t) k a = Some u" for t u
    using that by (auto simp: memo_ok_def map_add_def split: option.splits if_splits)
  have "keeps_memo s s' \<and> (\<forall>u. r = Inr u \<longrightarrow> memo_ok s \<longrightarrow> lookup (db s') k a = Some u)"
    if r: "memoized (k, a) m s = (r, s')" for s r s'
  proof (cases "map_of (memo s) (k, a)")
    case (Some u)
    with r show ?thesis using memo_preorders(2) by (auto simp: memoized_def memo_ok_def reflpD)
  next
    case None
    obtain q t where q: "m s = (q, t)" by (cases "m s")
    with r None have e: "s' = (case q of Inl e \<Rightarrow> t | Inr u \<Rightarrow> t\<lparr>memo := memo t @ [((k, a), u)]\<rparr>)" "r = q"
      by (auto simp: memoized_def andthen_def split: sum.splits)
    from keepsD [OF k q] have kt: "keeps_memo s t" .
    show ?thesis
    proof (cases q)
      case (Inl x)
      with e kt show ?thesis by simp
    next
      case (Inr u)
      with a q have "memo_ok s \<Longrightarrow> lookup (db t) k a = Some u" by (auto simp: answers_def)
      with e Inr kt new [of t u] show ?thesis by (auto simp: keeps_memo_def)
    qed
  qed
  then show "keeps keeps_memo (memoized (k, a) m)" "answers k a (memoized (k, a) m)"
    by (auto intro!: keepsI simp: answers_def)
qed

lemma resolver_memo:
  "keeps keeps_memo (fleet w n h a)" "answers ''fleet'' a (fleet w n h a)"
  "keeps keeps_memo (party w n h a)" "answers ''actor'' a (party w n h a)"
  "keeps keeps_memo (entity w n h k a)" "answers k a (entity w n h k a)"
proof -
  show f: "keeps keeps_memo (fleet w n h a)" "answers ''fleet'' a (fleet w n h a)" for a
    unfolding fleet_def resolve_fleet_def by (intro memoized_memo keeps_memo_resolve answers_resolve)+
  have n: "keeps keeps_memo (ret x)" for x :: "string option" by (rule keeps_now(1) [OF memo_preorders(2)])
  have b: "keeps keeps_memo (bot_parent w n h a)" for a
    unfolding bot_parent_def Let_def by (intro keeps_if keeps_andthen memo_preorders f keeps_now)
  show p: "keeps keeps_memo (party w n h a)" "answers ''actor'' a (party w n h a)" for a
    unfolding party_def resolve_party_def
    by (intro memoized_memo keeps_andthen answers_andthen memo_preorders b keeps_memo_resolve answers_resolve)+
  have "keeps keeps_memo (memoized (k, a) (andthen (if k = ''bot_instance'' then bot_parent w n h a else ret None) (resolve w k a n)))"
    "answers k a (memoized (k, a) (andthen (if k = ''bot_instance'' then bot_parent w n h a else ret None) (resolve w k a n)))"
    by (intro memoized_memo keeps_andthen answers_andthen memo_preorders keeps_if b n keeps_memo_resolve answers_resolve)+
  with f p show "keeps keeps_memo (entity w n h k a)" "answers k a (entity w n h k a)"
    by (auto simp: entity_def)
qed

interpretation memos: batch_frame keeps_memo
proof
  show "keeps keeps_memo (confirm u)" for u
    unfolding confirm_def by (rule runs_memo [OF modify_memo confirm_bindings [unfolded confirm_def]])
qed (auto intro: memo_preorders read_memo resolver_memo)

section \<open>Frozen identities and the registry\<close>

text \<open>Identities that are those of a database.\<close>

definition agrees :: "parties \<Rightarrow> entities \<Rightarrow> plane_db \<Rightarrow> bool" where
  "agrees ps es d \<longleftrightarrow> (\<forall>a u. map_of ps a = Some u \<longrightarrow> lookup d ''actor'' a = Some u)
     \<and> (\<forall>k a u. map_of es (k, a) = Some u \<longrightarrow> lookup d k a = Some u)"

text \<open>What a batch computes, and what is computed from identities that the database ends with, are the same.\<close>

definition simulates :: "plane_db \<Rightarrow> 'a act \<Rightarrow> (unit, 'a) st \<Rightarrow> bool" where
  "simulates d m n \<longleftrightarrow> keeps keeps_memo m \<and> (\<forall>s x s' y. memo_ok s \<longrightarrow> m s = (Inr x, s') \<longrightarrow> ids_ok d \<longrightarrow> binds (db s') d
     \<longrightarrow> fst (n ()) = Inr y \<longrightarrow> x = y)"

lemma fst_andthen_Inr: "fst (andthen n g ()) = Inr y \<longleftrightarrow> (\<exists>x. fst (n ()) = Inr x \<and> fst (g x ()) = Inr y)"
  by (auto simp: andthen_def split: prod.splits sum.splits)

lemma simulates_andthen:
  assumes "simulates d m n" "\<And>x. simulates d (f x) (g x)" shows "simulates d (andthen m f) (andthen n g)"
  unfolding simulates_def
proof (intro conjI allI impI)
  show "keeps keeps_memo (andthen m f)"
    using assms by (intro keeps_andthen memo_preorders) (simp_all add: simulates_def)
  fix s x s' y
  assume a: "memo_ok s" "andthen m f s = (Inr x, s')" "ids_ok d" "binds (db s') d" "fst (andthen n g ()) = Inr y"
  from a(2) obtain z t where z: "m s = (Inr z, t)" "f z t = (Inr x, s')" by (auto simp: andthen_Inr)
  from a(5) obtain v where v: "fst (n ()) = Inr v" "fst (g v ()) = Inr y" by (auto simp: fst_andthen_Inr)
  have k: "keeps keeps_memo m" "keeps keeps_memo (f z)" using assms by (simp_all add: simulates_def)
  from keepsD [OF k(1) z(1)] a(1) have t: "memo_ok t" by (simp add: keeps_memo_def)
  from keepsD [OF k(2) z(2)] t have "binds (db t) (db s')" by (simp add: keeps_memo_def)
  with a(4) have "binds (db t) d" using binds_trans by blast
  with assms(1) a(1,3) z(1) v(1) have "z = v" unfolding simulates_def by blast
  with assms(2) [of z] t z(2) a(3,4) v(2) show "x = y" unfolding simulates_def by blast
qed

lemma simulates_ret: "simulates d (ret x) (ret x)"
  by (auto simp: simulates_def intro: keeps_now memo_preorders)

lemma simulates_raise: "simulates d (raise e) (raise e)"
  by (auto simp: simulates_def simp del: raise_simp intro: keeps_now memo_preorders) (simp add: raise_def)

lemma simulates_if: "simulates d m n \<Longrightarrow> simulates d m' n' \<Longrightarrow> simulates d (if b then m else m') (if b then n else n')"
  by simp

lemma simulates_resolver:
  assumes "keeps keeps_memo m" "answers k a m" "\<And>u. fst (n ()) = Inr u \<Longrightarrow> lookup d k a = Some u"
  shows "simulates d m n"
  unfolding simulates_def
proof (intro conjI allI impI assms(1))
  fix s x s' y assume a: "memo_ok s" "m s = (Inr x, s')" "ids_ok d" "binds (db s') d" "fst (n ()) = Inr y"
  from assms(2) a(1,2) have "lookup (db s') k a = Some x" by (auto simp: answers_def)
  from lookup_binds [OF a(3,4) this] assms(3) [OF a(5)] show "x = y" by simp
qed

lemma frozen_Inr: "fst (frozen ps a ()) = Inr u \<longleftrightarrow> map_of ps a = Some u"
  by (auto simp: frozen_def split: option.split)

lemma frozen_simulates:
  assumes "agrees ps es d"
  shows "simulates d (party w n h a) (frozen ps a)" "simulates d (entity w n h k a) (frozen es (k, a))"
  using assms
  by (auto intro!: simulates_resolver resolver_memo simp: frozen_Inr agrees_def)

lemma simulates_prod: "(\<And>x y. simulates d (f x y) (g x y)) \<Longrightarrow> simulates d (case z of (x, y) \<Rightarrow> f x y) (case z of (x, y) \<Rightarrow> g x y)"
  by (cases z) simp

lemma family_values_simulates:
  assumes "agrees ps es d"
  shows "simulates d (family_values w (party w n h) (entity w n h) cls p)
    (family_values w (frozen ps) (\<lambda>kind alias. frozen es (kind, alias)) cls p)"
  unfolding family_values_def with_table_def communication_values_def work_item_values_def assignment_values_def task_values_def
    workstream_values_def workstream_event_values_def system_values_def system_subject_def party_of_def party_must_def
  by (intro simulates_if simulates_andthen simulates_ret simulates_raise simulates_prod frozen_simulates [OF assms])


section \<open>What a stored batch holds\<close>

text \<open>A database in which nothing of another is lost.\<close>

definition extends :: "plane_db \<Rightarrow> plane_db \<Rightarrow> bool" where
  "extends d d' \<longleftrightarrow> ids_ok d' \<and> binds d d' \<and> (\<exists>ls. ledger d' = ledger d @ ls) \<and> (\<forall>t. \<exists>rs. tables d' t = tables d t @ rs)"

lemma extends_trans: "extends a b \<Longrightarrow> extends b c \<Longrightarrow> extends a c"
  unfolding extends_def by (metis append_assoc binds_trans)

lemma find_in_append: "find P (xs @ ys) = (case find P xs of None \<Rightarrow> find P ys | Some x \<Rightarrow> Some x)"
  by (induction xs) auto

lemma entries_extend:
  "extends d d' \<Longrightarrow> ledger_entry e d = Some l \<Longrightarrow> ledger_entry e d' = Some l"
  "extends d d' \<Longrightarrow> row_entry t e d = Some r \<Longrightarrow> row_entry t e d' = Some r"
  by (auto simp: extends_def ledger_entry_def row_entry_def find_in_append split: option.splits) (metis append_Nil2 find_in_append option.simps(5))

text \<open>The event is in the ledger and its row is the one that frozen identities of the database project.\<close>

definition proven_by :: "world \<Rightarrow> string \<Rightarrow> parties \<Rightarrow> entities \<Rightarrow> plane_db \<Rightarrow> string \<times> item \<Rightarrow> bool" where
  "proven_by w h ps es d ei \<longleftrightarrow> (case ei of (e, (env, cls, p)) \<Rightarrow> \<exists>l now fl fam.
     ledger_entry e d = Some l \<and> l_family l = cls
     \<and> row_entry (table_of cls) e d = Some (merge_row (envelope (l_seq l) e env h fl now) fam)
     \<and> (truthy (fld env ''fleet'') \<longrightarrow> (\<exists>u. fl = JStr u \<and> lookup d ''fleet'' (text_of (fld env ''fleet'')) = Some u))
     \<and> (\<forall>t y. agrees ps es d \<longrightarrow> fst (family_values w (frozen ps) (\<lambda>kind alias. frozen es (kind, alias)) cls p ()) = Inr (t, y) \<longrightarrow> y = fam))"

lemma clash_event:
  assumes "clash t rows r = None" "col r ''event_id'' = JStr e"
  shows "find (\<lambda>q. col q ''event_id'' = JStr e) rows = None"
proof -
  have "''event_id'' \<in> set (unique_columns t)" by (simp add: unique_columns_def)
  with assms show ?thesis by (auto simp: clash_def find_None_iff)
qed

text \<open>One item that writes a row, whatever the database becomes afterwards.\<close>

lemma ingest_item_proven:
  assumes i: "ingest_item w now h (e, (env, cls, p)) s = (Inr r, s')" and fam: "fld env ''event_type'' = JStr cls"
    and cls: "cls \<in> set FACT_FAMILIES" and ok: "memo_ok s"
  shows "memo_ok s' \<and> extends (db s) (db s') \<and> (\<forall>d. extends (db s') d \<longrightarrow> proven_by w h ps es d (e, (env, cls, p)))"
proof -
  from cls have ov: "override_of w now h cls p = ret From_Payload"
    by (auto simp: FACT_FAMILIES_def override_of_def)
  from i have "ingest_row w now h e (env, cls, p) From_Payload s = (Inr r, s')"
    by (auto simp: ingest_item_def ov andthen_def)
  then obtain q s1 fl s2 t v s3 where
    l: "insert_ledger e cls now s = (Inr q, s1)" and f: "fleet_of w now h env s1 = (Inr fl, s2)"
    and tv: "family_values w (party w now h) (entity w now h) cls p s2 = (Inr (t, v), s3)"
    and ins: "insert_row t (merge_row (envelope q e env h fl now) v) s3 = (Inr (), s')"
    by (auto simp: ingest_row_def row_source_def fam text_of_def andthen_Inr)
  let ?l = "\<lparr>l_seq = q, l_event = e, l_family = cls, l_at = now\<rparr>" and ?r = "merge_row (envelope q e env h fl now) v"
  from insert_ledger_Inr [OF l] have 1: "e \<notin> l_event ` set (ledger (db s))" "ledger (db s1) = ledger (db s) @ [?l]"
    "tables (db s1) = tables (db s)" "identities (db s1) = identities (db s)" "memo s1 = memo s" by auto
  then have ok1: "memo_ok s1" using ok by (simp add: memo_ok_def ids_ok_def lookup_def find_identity_def)
  from keepsD [OF memos.fleet_of_keeps f] ok1 have 2: "memo_ok s2" "binds (db s1) (db s2)" by (simp_all add: keeps_memo_def)
  from keepsD [OF memos.family_values_keep tv] 2 have 3: "memo_ok s3" "binds (db s2) (db s3)" by (simp_all add: keeps_memo_def)
  from keepsD [OF facts.fleet_of_keeps f] keepsD [OF facts.family_values_keep tv]
  have same: "ledger (db s3) = ledger (db s1)" "tables (db s3) = tables (db s1)" by (simp_all add: same_facts_def)
  from insert_row_Inr [OF ins] have 4: "clash t (tables (db s3) t) ?r = None" "ledger (db s') = ledger (db s3)"
    "tables (db s') = (tables (db s3))(t := tables (db s3) t @ [?r])" "identities (db s') = identities (db s3)" "memo s' = memo s3" by auto
  then have ok': "memo_ok s'" using 3 by (simp add: memo_ok_def ids_ok_def lookup_def find_identity_def)
  from family_values_fit [OF tv] have t: "t = table_of cls" and ve: "''event_id'' \<notin> fst ` set v"
    by (auto simp: row_fits_def envelope_not_null_def list_all_iff)
  have b: "binds (db s2) (db s')" "binds (db s3) (db s')" using 3(2) 4(4) by (simp_all add: binds_def) (metis binding_kept_refl)
  have ext: "extends (db s) (db s')" unfolding extends_def
  proof (intro conjI allI)
    show "ids_ok (db s')" using ok' by (simp add: memo_ok_def)
    have "binds (db s) (db s1)" using 1(4) by (simp add: binds_def) (metis binding_kept_refl)
    with 2(2) b(1) show "binds (db s) (db s')" by (blast intro: binds_trans)
    show "\<exists>ls. ledger (db s') = ledger (db s) @ ls" using 1(2) 4(2) same(1) by simp
    show "\<exists>rs. tables (db s') x = tables (db s) x @ rs" for x using 1(3) 4(3) same(2) by simp
  qed
  have re: "col ?r ''event_id'' = JStr e" using ve by (simp add: merge_row_col envelope_ids)
  have none: "find (\<lambda>l. l_event l = e) (ledger (db s)) = None" using 1(1) by (auto simp: find_None_iff)
  have here: "ledger_entry e (db s') = Some ?l" "row_entry (table_of cls) e (db s') = Some ?r"
    using 1(2) 4(2,3) same(1) none clash_event [OF 4(1) re] re t
    by (simp_all add: ledger_entry_def row_entry_def find_in_append)
  have "proven_by w h ps es d (e, (env, cls, p))" if d: "extends (db s') d" for d
  proof -
    from d have dok: "ids_ok d" "binds (db s') d" by (simp_all add: extends_def)
    with b have db: "binds (db s2) d" "binds (db s3) d" by (blast intro: binds_trans)+
    have "\<exists>u. fl = JStr u \<and> lookup d ''fleet'' (text_of (fld env ''fleet'')) = Some u" if "truthy (fld env ''fleet'')"
    proof -
      from f that obtain u where u: "fl = JStr u" "fleet w now h (text_of (fld env ''fleet'')) s1 = (Inr u, s2)"
        by (auto simp: fleet_of_def andthen_Inr)
      with resolver_memo(2) ok1 have "lookup (db s2) ''fleet'' (text_of (fld env ''fleet'')) = Some u"
        by (fastforce simp: answers_def)
      with u(1) lookup_binds [OF dok(1) db(1)] show ?thesis by blast
    qed
    moreover have "y = v" if "agrees ps es d"
      "fst (family_values w (frozen ps) (\<lambda>kind alias. frozen es (kind, alias)) cls p ()) = Inr (t', y)" for t' y
    proof -
      from family_values_simulates [OF that(1), of w now h cls p, unfolded simulates_def] 2(1) tv dok(1) db(2) that(2)
      have "(t, v) = (t', y)" by blast
      then show ?thesis by simp
    qed
    ultimately show ?thesis
      unfolding proven_by_def prod.case using entries_extend(1) [OF d here(1)] entries_extend(2) [OF d here(2)]
      by (intro exI [of _ ?l] exI [of _ now] exI [of _ fl] exI [of _ v]) simp
  qed
  with ok' ext show ?thesis by blast
qed

lemma items_proven:
  "each_act (ingest_item w now h) prepared s = (Inr rs, s') \<Longrightarrow> memo_ok s \<Longrightarrow>
    list_all (\<lambda>ei. classed (snd ei) \<and> fst (snd (snd ei)) \<in> set FACT_FAMILIES) prepared \<Longrightarrow>
    (prepared \<noteq> [] \<longrightarrow> extends (db s) (db s')) \<and> (\<forall>d. extends (db s') d \<longrightarrow> list_all (proven_by w h ps es d) prepared)"
proof (induction prepared arbitrary: s rs)
  case (Cons ei eis)
  obtain e env cls p where ei: "ei = (e, (env, cls, p))" by (cases ei) auto
  from Cons.prems(1) obtain r t rs' where r: "ingest_item w now h ei s = (Inr r, t)"
    and es: "each_act (ingest_item w now h) eis t = (Inr rs', s')" unfolding each_act_Inr by blast
  from ingest_item_proven [OF r [unfolded ei]] Cons.prems(2,3) ei
  have 1: "memo_ok t" "extends (db s) (db t)" "\<And>d. extends (db t) d \<Longrightarrow> proven_by w h ps es d ei" by (auto simp: classed_def)
  from Cons.IH [OF es 1(1)] Cons.prems(3)
  have 2: "eis \<noteq> [] \<longrightarrow> extends (db t) (db s')" "\<And>d. extends (db s') d \<Longrightarrow> list_all (proven_by w h ps es d) eis" by auto
  have "extends (db t) (db s') \<or> s' = t" using 2(1) es by (cases eis) auto
  with 1(2) have "extends (db s) (db s')" using extends_trans by blast
  moreover have "proven_by w h ps es d ei" if "extends (db s') d" for d
    using that 1(3) \<open>extends (db t) (db s') \<or> s' = t\<close> extends_trans by blast
  ultimately show ?case using 2(2) by simp
qed simp

lemma transaction_proven:
  assumes t: "transaction w now h pre prepared s = (Inr rs, s')" and idle: "saved s = None" and ok: "memo_ok s" and ne: "prepared \<noteq> []"
    and c: "list_all (\<lambda>ei. classed (snd ei) \<and> fst (snd (snd ei)) \<in> set FACT_FAMILIES) prepared"
  shows "ids_ok (db s') \<and> (\<forall>d. extends (db s') d \<longrightarrow> list_all (proven_by w h ps es d) prepared)"
proof -
  from t obtain s1 s2 s3 where b: "begin_immediate s = (Inr (), s1)" and cp: "check_precondition pre s1 = (Inr (), s2)"
    and i: "each_act (ingest_item w now h) prepared s2 = (Inr rs, s3)" and cm: "commit s3 = (Inr (), s')"
    by (auto simp: transaction_def andthen_Inr)
  have m1: "memo s1 = memo s" "db s1 = db s" using b stmt_cases
    by (fastforce simp: begin_immediate_def andthen_Inr split: option.splits)+
  have "keeps same_read (check_precondition pre)" unfolding check_precondition_def
    by (cases pre) (simp_all, (intro keeps_andthen read_preorder keeps_query_read keeps_if keeps_now)+)
  from keepsD [OF this cp] m1 ok have ok2: "memo_ok s2" by (simp add: same_read_def same_db_def memo_ok_def)
  have d: "db s' = db s3" using cm by (auto simp: commit_def split: list.splits fault.splits)
  from items_proven [OF i ok2 c] ne have p: "extends (db s2) (db s3)" "\<forall>d. extends (db s3) d \<longrightarrow> list_all (proven_by w h ps es d) prepared"
    by auto
  then have "ids_ok (db s3)" by (simp add: extends_def)
  with p(2) d show ?thesis by simp
qed

lemma ingest_proven:
  assumes i: "ingest_many w h pre items s = (Inr rs, s')" and idle: "saved s = None" and ok: "ids_ok (db s)" and ne: "items \<noteq> []"
    and c: "list_all (\<lambda>it. classed it \<and> fst (snd it) \<in> set FACT_FAMILIES) items" and fresh: "\<not> list_all r_duplicate rs"
  obtains prepared where "prepared_for items prepared" "distinct (map fst prepared)" "ids_ok (db s')"
    "\<And>d. extends (db s') d \<Longrightarrow> list_all (proven_by w h ps es d) prepared"
proof -
  obtain now s1 where n: "now_iso w s = (Inr now, s1)" by (simp add: now_iso_def)
  obtain prepared s2 where p: "each_act (prepare w) items s1 = (Inr prepared, s2)" using each_prepare_runs by blast
  have k: "keeps same_db (each_act (prepare w) items)" by (intro keeps_each frame_preorders prepare_keeps)
  have same: "same_db s s2" by (rule transpD [OF frame_preorders(3) keepsD [OF keeps_mint(2) n] keepsD [OF k p]])
  note pf = each_prepare [OF p]
  have m: "map snd prepared = items" using pf by (simp add: prepared_for_def)
  have c': "list_all (\<lambda>ei. classed (snd ei) \<and> fst (snd (snd ei)) \<in> set FACT_FAMILIES) prepared"
    using c unfolding m [symmetric] by (simp add: list_all_iff)
  from i n p have dist: "distinct (map fst prepared)" and cv: "commit_or_verify w now h pre prepared s2 = (Inr rs, s')"
    by (auto simp: ingest_many_def andthen_def split: if_splits)
  obtain q t where t: "transaction w now h pre prepared (s2\<lparr>memo := []\<rparr>) = (q, t)" by (cases "transaction w now h pre prepared (s2\<lparr>memo := []\<rparr>)")
  have "\<exists>xs. q = Inr xs"
  proof (cases q)
    case (Inl e)
    with cv t have "verify_duplicates w h prepared (rollback_if_open t) = (Inr rs, s')"
      by (auto simp: commit_or_verify_def split: plane_error.splits if_splits)
    from verify_answers [OF this] c' have "again prepared rs (db (rollback_if_open t))" by (simp add: list_all_iff)
    then have "list_all r_duplicate rs" by (auto simp: again_def duplicate_of_def list_all_iff)
    with fresh show ?thesis by contradiction
  qed simp
  with cv t have t': "transaction w now h pre prepared (s2\<lparr>memo := []\<rparr>) = (Inr rs, s')" by (auto simp: commit_or_verify_def)
  have "ids_ok (db s') \<and> (\<forall>d. extends (db s') d \<longrightarrow> list_all (proven_by w h ps es d) prepared)"
    by (rule transaction_proven [OF t']) (use idle ok ne m same c' in \<open>auto simp: same_db_def memo_ok_def\<close>)
  with pf dist that show thesis by blast
qed

section \<open>The columns of a row\<close>

lemma values_columns:
  "communication_values prt p s = (Inr r, s') \<Longrightarrow> set (map fst r) \<subseteq> set (table_columns ''communications'') \<and> distinct (map fst r)"
  "work_item_values prt p s = (Inr r, s') \<Longrightarrow> set (map fst r) \<subseteq> set (table_columns ''work_items'') \<and> distinct (map fst r)"
  "assignment_values prt p s = (Inr r, s') \<Longrightarrow> set (map fst r) \<subseteq> set (table_columns ''assignments'') \<and> distinct (map fst r)"
  "task_values prt p s = (Inr r, s') \<Longrightarrow> set (map fst r) \<subseteq> set (table_columns ''events'') \<and> distinct (map fst r)"
  "workstream_values prt p s = (Inr r, s') \<Longrightarrow> set (map fst r) \<subseteq> set (table_columns ''workstreams'') \<and> distinct (map fst r)"
  "workstream_event_values prt p s = (Inr r, s') \<Longrightarrow> set (map fst r) \<subseteq> set (table_columns ''events'') \<and> distinct (map fst r)"
  "system_values w prt ent p s = (Inr r, s') \<Longrightarrow> set (map fst r) \<subseteq> set (table_columns ''events'') \<and> distinct (map fst r)"
  by (auto simp: communication_values_def work_item_values_def assignment_values_def task_values_def workstream_values_def
      workstream_event_values_def system_values_def andthen_Inr table_columns_def split: prod.splits)

lemma family_values_columns:
  "family_values w prt ent cls p s = (Inr (t, r), s') \<Longrightarrow>
     cls \<in> set FACT_FAMILIES \<and> set (map fst r) \<subseteq> set (table_columns t) \<and> distinct (map fst r)"
  by (auto simp: family_values_def with_table_Inr FACT_FAMILIES_def simp del: set_map split: if_splits dest: values_columns)
    (auto simp: transmission_values_def table_columns_def)

lemma fst_Inr: "fst (m ()) = Inr x \<longleftrightarrow> m () = (Inr x, ())"
  by (cases "m ()") simp

text \<open>A fact is expected of an item whose identities are all frozen.\<close>

lemma expected_factE:
  assumes "expected_fact w h fl ps es (env, cls, p) = Inr (Inr f)"
  obtains t v where "family_values w (frozen ps) (\<lambda>kind alias. frozen es (kind, alias)) cls p () = (Inr (t, v), ())"
    "truthy (fld env ''event_id'')"
    "ef_event f = text_of (fld env ''event_id'')" "ef_family f = text_of (fld env ''event_type'')"
    "hash_of w (projection (ef_event f) env h fl v) = Inr (ef_sha f)" "ef_fields f = sort (map fst (projection (ef_event f) env h fl v))"
  using assms
  by (auto simp: expected_fact_def Let_def fst_Inr split: if_splits sum.splits plane_error.splits)

text \<open>The names of the columns that are projected.\<close>

lemma map_fst_filter: "map fst (filter (\<lambda>(k, _). P k) xs) = filter P (map fst xs)"
  by (induction xs) auto

lemma envelope_names: "map fst (envelope q e env h fl now) = envelope_columns"
  by (simp add: envelope_def envelope_columns_def)

lemma projection_names:
  "map fst (projection e env h fl v) = map fst v @ filter (\<lambda>k. k \<notin> fst ` set v) (filter (\<lambda>k. k \<notin> set CLOCK_COLUMNS) envelope_columns)"
  unfolding projection_def merge_row_def map_append map_fst_filter envelope_names ..

lemma scope_names: "set SCOPE_FIELDS \<subseteq> set (filter (\<lambda>k. k \<notin> set CLOCK_COLUMNS) envelope_columns)"
  by code_simp

lemma projection_distinct: "distinct (map fst v) \<Longrightarrow> distinct (map fst (projection e env h fl v))"
proof -
  have "distinct envelope_columns" by code_simp
  then show "distinct (map fst v) \<Longrightarrow> ?thesis" unfolding projection_names by auto
qed

lemma projection_columns:
  "set (map fst v) \<subseteq> set (table_columns t) \<Longrightarrow> set (map fst (projection e env h fl v)) \<subseteq> set (table_columns t)"
  unfolding projection_names by (auto simp: table_columns_def)

lemma projection_scoped: "set SCOPE_FIELDS \<subseteq> set (map fst (projection e env h fl v))"
  unfolding projection_names using scope_names by auto

text \<open>The clock aside a stored row has the columns that were projected.\<close>

lemma projection_col:
  assumes "k \<in> fst ` set (projection e env h fl v)"
  shows "col (merge_row (envelope q e env h (JStr fl) now) v) k = col (projection e env h fl v) k"
proof (cases "k \<in> fst ` set v")
  case True
  then show ?thesis by (simp add: projection_def merge_row_col)
next
  case False
  with assms have "k \<notin> set CLOCK_COLUMNS" by (auto simp: projection_def merge_row_def)
  moreover have "col (envelope q e env h (JStr fl) now) k = col (filter (\<lambda>(k, _). k \<notin> set CLOCK_COLUMNS) (envelope 0 e env h (JStr fl) [])) k"
    if "k \<notin> set CLOCK_COLUMNS" using that by (auto simp: envelope_def CLOCK_COLUMNS_def jget.simps)
  ultimately show ?thesis using False by (simp add: projection_def merge_row_col)
qed

text \<open>Two rows with the same columns have the same hash.\<close>

lemma hash_of_same:
  assumes d: "distinct (map fst x)" "distinct (map fst y)" and s: "set x = set y"
  shows "hash_of w x = hash_of w y"
proof -
  have c: "col x k = col y k" for k
  proof -
    have "map_of x = map_of y" using d s by (metis map_of_inject_set)
    then show ?thesis by (simp add: jget.simps)
  qed
  let ?f = "\<lambda>(k :: string, v). (k, sort_keys v)"
  have mf: "map fst (map ?f xs) = map fst xs" for xs :: row by (simp add: comp_def case_prod_beta)
  have "sort_key fst (map ?f x) = sort_key fst (map ?f y)"
    by (subst sort_key_eq_iff) (simp_all only: mf d set_map s)
  then have "sort_keys (JObj x) = sort_keys (JObj y)" by (simp only: sort_keys.simps)
  then show ?thesis by (simp only: hash_of_def loads_detail_def c)
qed

lemma chosen_set:
  assumes "distinct (map fst pr)" "\<And>k. k \<in> fst ` set pr \<Longrightarrow> col r k = col pr k" "ef_fields f = sort (map fst pr)"
  shows "set (chosen f r) = set pr" "distinct (map fst (chosen f r))"
proof -
  have "(k, col r k) = (k, v)" if "(k, v) \<in> set pr" for k v
    using that assms(1,2) by (force simp: jget.simps image_iff)
  then have "set pr = (\<lambda>k. (k, col r k)) ` fst ` set pr" by (force simp: image_iff)
  then show "set (chosen f r) = set pr" by (simp add: chosen_def assms(3))
  show "distinct (map fst (chosen f r))" using assms(1) by (simp add: chosen_def assms(3) comp_def)
qed

lemma compare_proven:
  assumes p: "proven_by w h ps es d (e, (env, cls, p))" and c: "classed (env, cls, p)" and e: "e = ef_event f"
    and f: "expected_fact w h fl ps es (env, cls, p) = Inr (Inr f)" and a: "agrees ps es d"
    and fleet: "truthy (fld env ''fleet'')" "lookup d ''fleet'' (text_of (fld env ''fleet'')) = Some fl"
  shows "ef_family f \<in> set FACT_FAMILIES"
    and "compare_fact w f (ledger_entry (ef_event f) d) (row_entry (table_of (ef_family f)) (ef_event f) d) t
      = Counted (t\<lparr>ta_matched := ta_matched t + 1\<rparr>)"
proof -
  from f obtain tt v where v: "family_values w (frozen ps) (\<lambda>kind alias. frozen es (kind, alias)) cls p () = (Inr (tt, v), ())"
    and ev: "ef_event f = text_of (fld env ''event_id'')" and fam: "ef_family f = text_of (fld env ''event_type'')"
    and hash: "hash_of w (projection (ef_event f) env h fl v) = Inr (ef_sha f)"
    and fs: "ef_fields f = sort (map fst (projection (ef_event f) env h fl v))" by (rule expected_factE)
  from c fam have cls: "ef_family f = cls" by (simp add: classed_def text_of_def)
  from p obtain l now u fam' where l: "ledger_entry e d = Some l" "l_family l = cls"
    and r: "row_entry (table_of cls) e d = Some (merge_row (envelope (l_seq l) e env h u now) fam')"
    and u: "u = JStr fl" and fam': "fam' = v"
    unfolding proven_by_def using fleet a v by auto
  let ?r = "merge_row (envelope (l_seq l) e env h u now) v" and ?p = "projection (ef_event f) env h fl v"
  from family_values_fit [OF v] have fit: "tt = table_of cls" "''ingest_seq'' \<notin> fst ` set v"
    "tt = ''events'' \<Longrightarrow> col v ''kind'' = JStr (kind_of cls)" by (auto simp: row_fits_def envelope_not_null_def list_all_iff)
  from family_values_columns [OF v] have cols: "cls \<in> set FACT_FAMILIES" "set (map fst v) \<subseteq> set (table_columns tt)" "distinct (map fst v)" by auto
  have seq: "col ?r ''ingest_seq'' = JInt (l_seq l)" using fit(2) by (simp add: merge_row_col envelope_ids)
  have "''kind'' \<in> fst ` set v" if "tt = ''events''"
    using fit(3) [OF that] by (auto simp: jget.simps split: option.splits dest!: map_of_SomeD intro: rev_image_eqI)
  with fit(3) have kind: "tt = ''events'' \<Longrightarrow> col ?r ''kind'' = JStr (kind_of cls)" by (simp add: merge_row_col)
  have same: "k \<in> fst ` set ?p \<Longrightarrow> col ?r k = col ?p k" for k using projection_col [of k e] e u by simp
  note dp = projection_distinct [OF cols(3), of e env h fl, unfolded e]
  have "hash_of w (chosen f ?r) = Inr (ef_sha f)"
    using hash hash_of_same [OF _ dp, of "chosen f ?r" w] chosen_set [OF dp same fs] by simp
  moreover have "set SCOPE_FIELDS \<subseteq> set (ef_fields f)" using projection_scoped by (simp add: fs)
  moreover have "ef_fields f \<noteq> []" using calculation(2) by (auto simp: SCOPE_FIELDS_def)
  moreover have "set (ef_fields f) \<subseteq> set (table_columns (table_of cls))"
    using projection_columns [OF cols(2)] fit(1) by (simp add: fs)
  ultimately show "compare_fact w f (ledger_entry (ef_event f) d) (row_entry (table_of (ef_family f)) (ef_event f) d) t
      = Counted (t\<lparr>ta_matched := ta_matched t + 1\<rparr>)"
    using l r seq kind fit(1) unfolding cls e fam'
    by (cases "table_of cls = ''events''") (simp_all add: compare_fact_def cls)
  show "ef_family f \<in> set FACT_FAMILIES" using cls cols(1) by simp
qed

section \<open>What a reconciliation says\<close>

definition absent_in :: "plane_db \<Rightarrow> expected_fact \<Rightarrow> bool" where
  "absent_in d f \<longleftrightarrow> ledger_entry (ef_event f) d = None \<and> row_entry (table_of (ef_family f)) (ef_event f) d = None"

text \<open>The event was recorded as its family, and its row has the hash that was prepared.\<close>

definition matches :: "world \<Rightarrow> plane_db \<Rightarrow> expected_fact \<Rightarrow> bool" where
  "matches w d f \<longleftrightarrow> (\<exists>l r. ledger_entry (ef_event f) d = Some l \<and> l_family l = ef_family f
     \<and> row_entry (table_of (ef_family f)) (ef_event f) d = Some r \<and> col r ''ingest_seq'' = JInt (l_seq l)
     \<and> (table_of (ef_family f) = ''events'' \<longrightarrow> col r ''kind'' = JStr (kind_of (ef_family f)))
     \<and> set SCOPE_FIELDS \<subseteq> set (ef_fields f) \<and> hash_of w (chosen f r) = Inr (ef_sha f))"

definition decisive :: "proof_status \<Rightarrow> bool" where
  "decisive st \<longleftrightarrow> st = Facts_Committed \<or> st = Facts_Unrecorded"

lemma handled_same: "keeps same_db m \<Longrightarrow> keeps same_db (handled t m)"
  by (auto intro!: keepsI simp: handled_def dest: keepsD split: prod.splits sum.splits if_splits)

lemma inspect_fact_same: "keeps same_db (inspect_fact w f t)"
  unfolding inspect_fact_def
  by (intro keeps_if keeps_now handled_same keeps_andthen frame_preorders keeps_query)

lemma inspect_all_same: "keeps same_db (inspect_all w fs t)"
proof (induction fs arbitrary: t)
  case (Cons f fs)
  have "keeps same_db (case v of Counted t' \<Rightarrow> inspect_all w fs t' | Refused m \<Rightarrow> ret (Refused m) | Answered p \<Rightarrow> ret (Answered p))" for v
    using Cons.IH by (cases v) (auto simp del: ret_simp intro: keeps_now frame_preorders)
  then show ?case unfolding inspect_all.simps by (intro keeps_andthen frame_preorders inspect_fact_same)
qed (simp del: ret_simp add: keeps_now frame_preorders)

lemma compare_verdict:
  assumes "compare_fact w f (ledger_entry (ef_event f) d) (row_entry (table_of (ef_family f)) (ef_event f) d) t = v"
  shows "case v of
      Counted t' \<Rightarrow> absent_in d f \<and> t' = t\<lparr>ta_absent := ta_absent t + 1\<rparr> \<or> matches w d f \<and> t' = t\<lparr>ta_matched := ta_matched t + 1\<rparr>
        \<or> \<not> absent_in d f \<and> t' = t\<lparr>ta_unavailable := True\<rparr>
    | Answered p \<Rightarrow> \<not> decisive (fp_status p) | Refused m \<Rightarrow> True"
  using assms
  by (auto simp: compare_fact_def absent_in_def matches_def conflict_def proof_of_def decisive_def
      split: option.splits if_splits sum.splits)

lemma inspect_fact_verdict:
  assumes "inspect_fact w f t s = (Inr v, s')"
  shows "case v of
      Counted t' \<Rightarrow> absent_in (db s) f \<and> t' = t\<lparr>ta_absent := ta_absent t + 1\<rparr> \<or> matches w (db s) f \<and> t' = t\<lparr>ta_matched := ta_matched t + 1\<rparr>
        \<or> \<not> absent_in (db s) f \<and> t' = t\<lparr>ta_unavailable := True\<rparr>
    | Answered p \<Rightarrow> \<not> decisive (fp_status p) | Refused m \<Rightarrow> True"
proof (cases "ef_family f \<in> set FACT_FAMILIES")
  case False
  with assms show ?thesis by (auto simp: inspect_fact_def)
next
  case True
  let ?m = "andthen (query (ledger_entry (ef_event f))) (\<lambda>l. andthen (query (row_entry (table_of (ef_family f)) (ef_event f))) (\<lambda>r. ret (compare_fact w f l r t)))"
  from assms True have h: "handled t ?m s = (Inr v, s')" by (simp add: inspect_fact_def)
  obtain q u where q: "?m s = (q, u)" by (cases "?m s")
  show ?thesis
  proof (cases q)
    case (Inl e)
    with h q show ?thesis by (auto simp: handled_def conflict_def proof_of_def decisive_def split: if_splits)
  next
    case (Inr x)
    with h q have "v = x" by (simp add: handled_def)
    with q Inr have "compare_fact w f (ledger_entry (ef_event f) (db s)) (row_entry (table_of (ef_family f)) (ef_event f) (db s)) t = v"
      by (fastforce simp: andthen_Inr dest!: query_Inr)
    then show ?thesis by (rule compare_verdict)
  qed
qed

lemma inspect_all_verdict:
  assumes "inspect_all w fs t s = (Inr v, s')"
  shows "case v of
      Counted t' \<Rightarrow> ta_absent t' = ta_absent t + length (filter (absent_in (db s)) fs) \<and> (ta_unavailable t \<longrightarrow> ta_unavailable t')
        \<and> (\<not> ta_unavailable t' \<longrightarrow> (\<forall>f \<in> set fs. absent_in (db s) f \<or> matches w (db s) f))
    | Answered p \<Rightarrow> \<not> decisive (fp_status p) | Refused m \<Rightarrow> True"
  using assms
proof (induction fs arbitrary: t s)
  case (Cons f fs)
  from Cons.prems obtain x u where x: "inspect_fact w f t s = (Inr x, u)"
    and r: "(case x of Counted t' \<Rightarrow> inspect_all w fs t' | Refused m \<Rightarrow> ret (Refused m) | Answered p \<Rightarrow> ret (Answered p)) u = (Inr v, s')"
    by (auto simp: andthen_Inr)
  have u: "db u = db s" using keepsD [OF inspect_fact_same x] by (simp add: same_db_def)
  note i = inspect_fact_verdict [OF x]
  show ?case
  proof (cases x)
    case (Counted t')
    with r have "inspect_all w fs t' u = (Inr v, s')" by simp
    from Cons.IH [OF this] i Counted show ?thesis
      by (cases v) (auto simp: u matches_def absent_in_def)
  qed (use r i in auto)
qed auto

lemma begin_reading_cases:
  assumes "begin_reading s s = (r, t)"
  shows "db t = db s \<and> (saved t = saved s \<or> saved s = None \<and> saved t = Some (db s))"
  using assms stmt_cases [of s] by (auto simp: begin_reading_def andthen_def split: prod.splits sum.splits if_splits)

lemma reconcile_kept:
  assumes "reconcile_facts w facts s = (r, s')" shows "db s' = db s \<and> saved s' = saved s"
proof (cases "facts = [] \<or> \<not> distinct (map ef_event facts)")
  case True
  with assms show ?thesis by (auto simp: reconcile_facts_def)
next
  case False
  let ?m = "andthen (begin_reading s) (\<lambda>_. inspect_all w facts no_tally)"
  obtain q t where h: "handled no_tally ?m s = (q, t)" by (cases "handled no_tally ?m s")
  with False assms have s': "s' = (if saved s = None then rollback_if_open t else t)" by (simp add: reconcile_facts_def)
  obtain x u where m: "?m s = (x, u)" by (cases "?m s")
  with h have "u = t" by (auto simp: handled_def split: sum.splits if_splits)
  with m begin_reading_cases [of s] have "db t = db s \<and> (saved t = saved s \<or> saved s = None \<and> saved t = Some (db s))"
    by (cases rule: andthen_cases) (fastforce simp: same_db_def dest: keepsD [OF inspect_all_same])+
  then show ?thesis by (auto simp: s' rollback_if_open_def split: option.splits)
qed

lemma reconcile_sound:
  assumes "reconcile_facts w facts s = (Inr (Inr p), s')"
  shows "db s' = db s \<and> saved s' = saved s
    \<and> (fp_status p = Facts_Committed \<longrightarrow> (\<forall>f \<in> set facts. matches w (db s) f))
    \<and> (fp_status p = Facts_Unrecorded \<longrightarrow> (\<forall>f \<in> set facts. absent_in (db s) f))"
proof -
  let ?m = "andthen (begin_reading s) (\<lambda>_. inspect_all w facts no_tally)"
  obtain q t where h: "handled no_tally ?m s = (q, t)" by (cases "handled no_tally ?m s")
  from assms have ne: "facts \<noteq> []" by (auto simp: reconcile_facts_def)
  from assms h have q: "(\<exists>c. q = Inr (Counted c) \<and> p = conclude (length facts) c) \<or> q = Inr (Answered p)"
    by (auto simp: reconcile_facts_def split: if_splits sum.splits verdict.splits)
  obtain x u where m: "?m s = (x, u)" by (cases "?m s")
  with h have u: "u = t" by (auto simp: handled_def split: sum.splits if_splits)
  have "db s' = db s \<and> saved s' = saved s" using reconcile_kept [OF assms] .
  moreover have "(fp_status p = Facts_Committed \<longrightarrow> (\<forall>f \<in> set facts. matches w (db s) f))
    \<and> (fp_status p = Facts_Unrecorded \<longrightarrow> (\<forall>f \<in> set facts. absent_in (db s) f))"
  proof (cases x)
    case (Inl e)
    with h m q show ?thesis by (auto simp: handled_def conflict_def proof_of_def split: if_splits)
  next
    case (Inr v)
    with h m have v: "q = Inr v" by (simp add: handled_def)
    from m Inr obtain s1 where b: "begin_reading s s = (Inr (), s1)" and i: "inspect_all w facts no_tally s1 = (Inr v, u)"
      by (auto simp: andthen_Inr)
    from begin_reading_cases [OF b] have "db s1 = db s" by simp
    note i' = inspect_all_verdict [OF i, unfolded this]
    from q v show ?thesis
    proof (elim disjE exE conjE)
      fix c assume c: "q = Inr (Counted c)" "p = conclude (length facts) c"
      with i' v have a: "ta_absent c = length (filter (absent_in (db s)) facts)"
        and am: "\<not> ta_unavailable c \<longrightarrow> (\<forall>f \<in> set facts. absent_in (db s) f \<or> matches w (db s) f)" by (auto simp: no_tally_def)
      have "\<forall>f \<in> set facts. absent_in (db s) f" if "fp_status p = Facts_Unrecorded"
        using that a c(2) by (auto simp: conclude_def proof_of_def split: if_splits) (metis filter_id_conv length_filter_less nat_neq_iff)
      moreover have "\<forall>f \<in> set facts. matches w (db s) f" if "fp_status p = Facts_Committed"
        using that a am c(2) by (auto simp: conclude_def proof_of_def filter_empty_conv split: if_splits)
      ultimately show ?thesis by blast
    next
      assume "q = Inr (Answered p)"
      with i' v show ?thesis by (auto simp: decisive_def)
    qed
  qed
  ultimately show ?thesis by blast
qed

text \<open>
  C13. The proof of a request is sound: it leaves the database and the caller's transaction as they
  are, it says committed only when every prepared event is in the ledger as its family with a row of the
  same sequence number and the prepared hash, and unrecorded only when no event is in the ledger or in
  its table, wherever storage fails.
\<close>

theorem proof_is_sound:
  assumes "reconcile_facts w facts s = (Inr (Inr p), s')"
  shows "db s' = db s \<and> saved s' = saved s
    \<and> (fp_status p = Facts_Committed \<longrightarrow> (\<forall>f \<in> set facts. matches w (db s) f))
    \<and> (fp_status p = Facts_Unrecorded \<longrightarrow> (\<forall>f \<in> set facts. absent_in (db s) f))"
  using assms by (rule reconcile_sound)

section \<open>A stored batch is proved\<close>

definition proven_fact :: "world \<Rightarrow> plane_db \<Rightarrow> expected_fact \<Rightarrow> bool" where
  "proven_fact w d f \<longleftrightarrow> ef_family f \<in> set FACT_FAMILIES
     \<and> (\<forall>t. compare_fact w f (ledger_entry (ef_event f) d) (row_entry (table_of (ef_family f)) (ef_event f) d) t
         = Counted (t\<lparr>ta_matched := ta_matched t + 1\<rparr>))"

lemma calm_query: "faults s = [] \<Longrightarrow> query f s = (Inr (f (db s)), s)"
  by (simp add: query_def andthen_def stmt_def)

lemma inspect_all_proven:
  "faults s = [] \<Longrightarrow> list_all (proven_fact w (db s)) fs \<Longrightarrow>
     inspect_all w fs t s = (Inr (Counted (t\<lparr>ta_matched := ta_matched t + length fs\<rparr>)), s)"
proof (induction fs arbitrary: t)
  case (Cons f fs)
  have "inspect_fact w f t s = (Inr (Counted (t\<lparr>ta_matched := ta_matched t + 1\<rparr>)), s)"
    using Cons.prems by (simp add: inspect_fact_def handled_def andthen_def calm_query proven_fact_def)
  with Cons show ?case by (simp add: andthen_def)
qed simp

lemma reconcile_proven:
  assumes "faults s = []" "list_all (proven_fact w (db s)) facts" "facts \<noteq> []" "distinct (map ef_event facts)"
  shows "fst (reconcile_facts w facts s) = Inr (Inr (proof_of Facts_Committed ''all expected facts match'' (length facts)))"
proof -
  obtain u where u: "begin_reading s s = (Inr (), u)" "faults u = []" "db u = db s"
    using assms(1) by (cases "saved s") (auto simp: begin_reading_def andthen_def stmt_def)
  from inspect_all_proven [OF u(2), of w facts no_tally] u(3) assms(2)
  have "inspect_all w facts no_tally u = (Inr (Counted (no_tally\<lparr>ta_matched := length facts\<rparr>)), u)" by (simp add: no_tally_def)
  with u(1) assms(3,4) show ?thesis
    by (simp add: reconcile_facts_def handled_def andthen_def conclude_def no_tally_def)
qed

lemma agrees_later: "agrees ps es d \<Longrightarrow> extends d d' \<Longrightarrow> agrees ps es d'"
  unfolding agrees_def extends_def by (meson lookup_binds)

text \<open>
  C12. What was recorded is proved: when the facts expected of a batch were prepared with the identities the
  registry has, and the write path has stored the batch as new, then a reconciliation on that database, or on
  any later one in which nothing was lost, answers committed with every fact matched.
\<close>

theorem recorded_batch_is_proven:
  assumes "ingest_many w h pre items s = (Inr rs, s')" "saved s = None" "ids_ok (db s)" "list_all classed items"
    and "\<not> list_all r_duplicate rs" "facts \<noteq> []"
    and "list_all2 (\<lambda>it f. expected_fact w h fl ps es it = Inr (Inr f)) items facts"
    and "list_all (\<lambda>it. truthy (fld (fst it) ''fleet'') \<and> lookup (db s') ''fleet'' (text_of (fld (fst it) ''fleet'')) = Some fl) items"
    and "agrees ps es (db s')" "extends (db s') (db t)" "faults t = []"
  shows "fst (reconcile_facts w facts t) = Inr (Inr (proof_of Facts_Committed ''all expected facts match'' (length facts)))"
proof -
  note ef = assms(7)
  have fam: "list_all (\<lambda>it. classed it \<and> fst (snd it) \<in> set FACT_FAMILIES) items"
  proof -
    have "fst (snd it) \<in> set FACT_FAMILIES" if "it \<in> set items" for it
    proof -
      obtain env cls p where it: "it = (env, cls, p)" by (cases it) auto
      from that ef obtain f where "expected_fact w h fl ps es (env, cls, p) = Inr (Inr f)"
        by (auto simp: it list_all2_conv_all_nth in_set_conv_nth)
      then show ?thesis by (rule expected_factE) (auto simp: it dest: family_values_columns)
    qed
    with assms(4) show ?thesis by (simp add: list_all_iff)
  qed
  have ne: "items \<noteq> []" using ef assms(6) by auto
  obtain prepared where pf: "prepared_for items prepared" "distinct (map fst prepared)" "ids_ok (db s')"
    and pv: "\<And>d. extends (db s') d \<Longrightarrow> list_all (proven_by w h ps es d) prepared"
    using ingest_proven [OF assms(1,2,3) ne fam assms(5), of ps es] by blast
  from pf(1) have items: "items = map snd prepared" by (simp add: prepared_for_def)
  have each: "ef_event f = fst ei \<and> proven_fact w (db t) f"
    if "ei \<in> set prepared" and f: "expected_fact w h fl ps es (snd ei) = Inr (Inr f)" for ei f
  proof -
    obtain e env cls p where ei: "ei = (e, (env, cls, p))" by (cases ei) auto
    from f [unfolded ei snd_conv] have ev: "ef_event f = text_of (fld env ''event_id'')" "truthy (fld env ''event_id'')"
      by (auto elim: expected_factE)
    with pf(1) that(1) have e: "e = ef_event f" by (auto simp: prepared_for_def list_all_iff ei)
    have in_items: "(env, cls, p) \<in> set items" using that(1) by (force simp: items ei)
    with assms(4,8) have c: "classed (env, cls, p)" and fl: "truthy (fld env ''fleet'')"
      "lookup (db s') ''fleet'' (text_of (fld env ''fleet'')) = Some fl" by (auto simp: list_all_iff)
    have fl': "lookup (db t) ''fleet'' (text_of (fld env ''fleet'')) = Some fl"
      using lookup_binds [OF _ _ fl(2)] assms(10) by (simp add: extends_def)
    have p: "proven_by w h ps es (db t) (e, (env, cls, p))" using pv [OF assms(10)] that(1) by (simp add: list_all_iff ei)
    from compare_proven [OF p c e f [unfolded ei snd_conv] agrees_later [OF assms(9,10)] fl(1) fl'] e
    show ?thesis by (simp add: proven_fact_def ei)
  qed
  from ef items have len: "length facts = length prepared" by (auto dest: list_all2_lengthD)
  have at': "ef_event (facts ! i) = fst (prepared ! i) \<and> proven_fact w (db t) (facts ! i)" if "i < length facts" for i
    using each [of "prepared ! i" "facts ! i"] ef that len by (simp add: items list_all2_conv_all_nth)
  have "map ef_event facts = map fst prepared" using at' len by (simp add: list_eq_iff_nth_eq)
  with pf(2) have "distinct (map ef_event facts)" by simp
  moreover have "list_all (proven_fact w (db t)) facts" using at' by (simp add: list_all_length)
  ultimately show ?thesis using reconcile_proven assms(6,11) by blast
qed

section \<open>What a match pins\<close>

text \<open>A value that canonical text tells from every other.\<close>

definition plain :: "json \<Rightarrow> bool" where
  "plain v \<longleftrightarrow> no_float v \<and> keys_distinct v"

lemma plain_row: "distinct (map fst r) \<Longrightarrow> (\<And>k v. (k, v) \<in> set r \<Longrightarrow> plain v) \<Longrightarrow> plain (JObj r)"
  by (auto simp: plain_def list_all_iff)

lemma plain_col: "plain (JObj r) \<Longrightarrow> plain (col r k)"
  by (auto simp: plain_def jget.simps list_all_iff split: option.split dest!: map_of_SomeD)

lemma dump_plain:
  "no_float v \<longrightarrow> dump fl seps v = dump no_fl seps v"
  "list_all no_float vs \<longrightarrow> dump_items fl seps vs = dump_items no_fl seps vs"
  "list_all (\<lambda>(k, v). no_float v) kvs \<longrightarrow> dump_members fl seps kvs = dump_members no_fl seps kvs"
  by (induction fl seps v and fl seps vs and fl seps kvs rule: dump_dump_items_dump_members.induct) auto

lemma hash_pins:
  assumes "inj (w_sha w)" "hash_of w x = Inr q" "hash_of w y = Inr q" "plain (JObj x)" "plain (JObj y)"
  shows "same_value (JObj x) (JObj y)"
proof -
  have "w_sha w (dump (w_float w) ('','', '':'') (sort_keys (JObj x))) = w_sha w (dump (w_float w) ('','', '':'') (sort_keys (JObj y)))"
    using assms(2,3) by (auto simp: hash_of_def simp del: sort_keys.simps split: if_splits)
  with assms(1) have "dump (w_float w) ('','', '':'') (sort_keys (JObj x)) = dump (w_float w) ('','', '':'') (sort_keys (JObj y))"
    by (simp only: inj_eq)
  then have "ctext (sort_keys (JObj x)) = ctext (sort_keys (JObj y))"
    using assms(4,5) dump_plain(1) no_float_sort_keys unfolding plain_def by metis
  with ctext_prefix [of "sort_keys (JObj x)" "sort_keys (JObj y)" "[]" "[]"] assms(4,5)
  have "sort_keys (JObj x) = sort_keys (JObj y)"
    unfolding plain_def by (simp only: no_float_sort_keys ends_value_def append_Nil2) simp
  with sort_keys_same assms(4,5) show ?thesis unfolding plain_def by blast
qed

lemma same_row_col:
  assumes "same_value (JObj x) (JObj y)" "distinct (map fst x)" "distinct (map fst y)" "k \<in> fst ` set x"
  shows "same_value (col x k) (col y k)"
proof -
  from assms(4) obtain v where v: "(k, v) \<in> set x" by auto
  with assms(1) obtain u where u: "(k, u) \<in> set y" "same_value v u" by fastforce
  with v assms(2,3) show ?thesis by (simp add: jget.simps)
qed

text \<open>
  C40. A committed request has the content that was prepared: up to collisions of the hash, the row of every
  event that a proof calls committed has, in every column but the clock's, the value that was projected for
  the item when its fact was prepared.
\<close>

theorem committed_row_is_prepared:
  assumes "reconcile_facts w facts s = (Inr (Inr q), s')" "fp_status q = Facts_Committed" "f \<in> set facts"
    and "expected_fact w h fl ps es (env, cls, p) = Inr (Inr f)" "inj (w_sha w)"
    and "fst (family_values w (frozen ps) (\<lambda>kind alias. frozen es (kind, alias)) cls p ()) = Inr (t, v)"
    and "plain (JObj (projection (ef_event f) env h fl v))" "list_all (\<lambda>r. plain (JObj r)) (tables (db s) (table_of (ef_family f)))"
  shows "\<exists>r \<in> set (tables (db s) (table_of (ef_family f))). col r ''event_id'' = JStr (ef_event f)
    \<and> (\<forall>k \<in> set (ef_fields f). same_value (col r k) (col (projection (ef_event f) env h fl v) k))"
proof -
  from assms(1,2) reconcile_sound assms(3) have "matches w (db s) f" by blast
  then obtain r where r: "row_entry (table_of (ef_family f)) (ef_event f) (db s) = Some r" and h: "hash_of w (chosen f r) = Inr (ef_sha f)"
    by (auto simp: matches_def)
  from r have rt: "r \<in> set (tables (db s) (table_of (ef_family f)))" "col r ''event_id'' = JStr (ef_event f)"
    by (auto simp: row_entry_def find_Some_iff)
  let ?p = "projection (ef_event f) env h fl v"
  from assms(4,6) have hp: "hash_of w ?p = Inr (ef_sha f)" and fs: "ef_fields f = sort (map fst ?p)"
    by (auto elim!: expected_factE simp: fst_Inr)
  from assms(6) have d: "distinct (map fst ?p)" by (auto simp: fst_Inr intro!: projection_distinct dest: family_values_columns)
  have dc: "distinct (map fst (chosen f r))" using d by (simp add: chosen_def fs comp_def)
  have "plain (JObj (chosen f r))" by (rule plain_row [OF dc]) (use assms(8) rt plain_col in \<open>auto simp: chosen_def list_all_iff\<close>)
  from hash_pins [OF assms(5) h hp this assms(7)] have "same_value (JObj (chosen f r)) (JObj ?p)" .
  from same_row_col [OF this dc d] have "same_value (col r k) (col ?p k)" if "k \<in> set (ef_fields f)" for k
    using that by (force simp: chosen_def jget.simps map_of_map_restrict)
  with rt show ?thesis by blast
qed

section \<open>An example\<close>

definition proved_item :: item where
  "proved_item = ([(''event_id'', JStr ''ev_1''), (''event_type'', JStr ''system''), (''fleet'', JStr ''f''), (''emitter'', JStr ''e''),
     (''origin'', JStr ''live'')],
     ''system'', [(''event'', JStr ''permission_requested''), (''subject_kind'', JStr ''actor''), (''subject'', JStr ''bot:f/a''),
       (''data'', JObj [(''b'', JInt 1)])])"

definition proof_world :: world where
  "proof_world = sample_world\<lparr>w_hex := (\<lambda>n. [digit_char n]), w_sha := id\<rparr>"

definition recorded_session :: session where
  "recorded_session = snd (ingest_many proof_world ''h'' None [proved_item] fresh_session)"

definition sample_parties :: parties where
  "sample_parties = [(''bot:f/a'', ''actor_1'')]"

definition sample_values :: row where
  "sample_values = [(''kind'', JStr ''system''), (''event'', JStr ''permission_requested''), (''severity'', JNull),
     (''subject_kind'', JStr ''actor''), (''subject_uid'', JStr ''actor_1''), (''subject_alias'', JStr ''bot:f/a''),
     (''detail'', JObj [(''b'', JInt 1)]), (''detail_truncated'', JInt 0)]"

definition sample_fact :: expected_fact where
  "sample_fact = \<lparr>ef_event = ''ev_1'', ef_family = ''system'',
     ef_sha = ''{\"causation_id\":null,\"confidence\":null,\"correlation_id\":null,\"detail\":{\"b\":1},\"detail_truncated\":0,\"emitter\":\"e\",\"event\":\"permission_requested\",\"event_id\":\"ev_1\",\"fleet_uid\":\"fleet_0\",\"host_uid\":\"h\",\"import_batch\":null,\"kind\":\"system\",\"origin\":\"live\",\"schema_version\":\"1.0.0\",\"severity\":null,\"source_ref\":null,\"span_id\":null,\"subject_alias\":\"bot:f/a\",\"subject_kind\":\"actor\",\"subject_uid\":\"actor_1\",\"trace_id\":null}'',
     ef_fields = [''causation_id'', ''confidence'', ''correlation_id'', ''detail'', ''detail_truncated'', ''emitter'', ''event'',
       ''event_id'', ''fleet_uid'', ''host_uid'', ''import_batch'', ''kind'', ''origin'', ''schema_version'', ''severity'',
       ''source_ref'', ''span_id'', ''subject_alias'', ''subject_kind'', ''subject_uid'', ''trace_id'']\<rparr>"

lemma recorded_example:
  "fst (ingest_many proof_world ''h'' None [proved_item] fresh_session) = Inr [\<lparr>r_event = ''ev_1'', r_seq = Some 1, r_duplicate = False\<rparr>]"
  "expected_fact proof_world ''h'' ''fleet_0'' sample_parties [] proved_item = Inr (Inr sample_fact)"
  by code_simp+

lemma recorded_identities:
  "lookup (db recorded_session) ''actor'' ''bot:f/a'' = Some ''actor_1''"
  "lookup (db recorded_session) ''fleet'' ''f'' = Some ''fleet_0''"
  by code_simp+

lemma recorded_calm: "ids_ok (db recorded_session)" "faults recorded_session = []" by code_simp+

lemma ingest_example:
  "ingest_many proof_world ''h'' None [proved_item] fresh_session = (Inr [\<lparr>r_event = ''ev_1'', r_seq = Some 1, r_duplicate = False\<rparr>], recorded_session)"
  by (rule prod_eqI) (simp_all only: recorded_example(1) recorded_session_def fst_conv snd_conv)

lemma agrees_example: "agrees sample_parties [] (db recorded_session)"
  using recorded_identities(1) by (simp add: agrees_def sample_parties_def)

lemma recorded_batch_is_proven_witness:
  "fst (reconcile_facts proof_world [sample_fact] recorded_session)
     = Inr (Inr (proof_of Facts_Committed ''all expected facts match'' (length [sample_fact])))"
proof (rule recorded_batch_is_proven [OF ingest_example])
  show "saved fresh_session = None" "ids_ok (db fresh_session)" "list_all classed [proved_item]" by code_simp+
  show "list_all2 (\<lambda>it f. expected_fact proof_world ''h'' ''fleet_0'' sample_parties [] it = Inr (Inr f)) [proved_item] [sample_fact]"
    using recorded_example(2) by simp
  show "list_all (\<lambda>it. truthy (fld (fst it) ''fleet'')
      \<and> lookup (db recorded_session) ''fleet'' (text_of (fld (fst it) ''fleet'')) = Some ''fleet_0'') [proved_item]"
    using recorded_identities(2) by (simp add: proved_item_def jget.simps text_of_def)
  show "extends (db recorded_session) (db recorded_session)" using recorded_calm(1) by (simp add: extends_def)
qed (simp_all add: agrees_example recorded_calm(2))

lemma proved_example:
  "fst (reconcile_facts proof_world [sample_fact] recorded_session) = Inr (Inr (proof_of Facts_Committed ''all expected facts match'' 1))"
  by code_simp

lemma reconcile_example:
  "reconcile_facts proof_world [sample_fact] recorded_session
     = (Inr (Inr (proof_of Facts_Committed ''all expected facts match'' 1)), snd (reconcile_facts proof_world [sample_fact] recorded_session))"
  by (rule prod_eqI) (simp_all only: proved_example fst_conv snd_conv)

lemma proof_is_sound_witness:
  "db (snd (reconcile_facts proof_world [sample_fact] recorded_session)) = db recorded_session
     \<and> matches proof_world (db recorded_session) sample_fact"
  using proof_is_sound [OF reconcile_example] by (simp add: proof_of_def)

lemma values_example:
  "fst (family_values proof_world (frozen sample_parties) (\<lambda>kind alias. frozen [] (kind, alias))
      (fst (snd proved_item)) (snd (snd proved_item)) ()) = Inr (''events'', sample_values)"
  "plain (JObj (projection (ef_event sample_fact) (fst proved_item) ''h'' ''fleet_0'' sample_values))"
  "table_of (ef_family sample_fact) = ''events''" "ef_event sample_fact = ''ev_1''" "''subject_uid'' \<in> set (ef_fields sample_fact)"
  "col (projection (ef_event sample_fact) (fst proved_item) ''h'' ''fleet_0'' sample_values) ''subject_uid'' = JStr ''actor_1''"
  by code_simp+

lemma plain_example: "list_all (\<lambda>r. plain (JObj r)) (tables (db recorded_session) ''events'')" by code_simp

lemma committed_row_is_prepared_witness:
  "\<exists>r \<in> set (tables (db recorded_session) ''events''). col r ''event_id'' = JStr ''ev_1'' \<and> same_value (col r ''subject_uid'') (JStr ''actor_1'')"
proof -
  have "inj (w_sha proof_world)" by (simp add: proof_world_def)
  moreover have "expected_fact proof_world ''h'' ''fleet_0'' sample_parties [] (fst proved_item, fst (snd proved_item), snd (snd proved_item))
      = Inr (Inr sample_fact)" using recorded_example(2) by simp
  ultimately have "\<exists>r \<in> set (tables (db recorded_session) (table_of (ef_family sample_fact))). col r ''event_id'' = JStr (ef_event sample_fact)
      \<and> (\<forall>k \<in> set (ef_fields sample_fact). same_value (col r k)
          (col (projection (ef_event sample_fact) (fst proved_item) ''h'' ''fleet_0'' sample_values) k))"
    by (intro committed_row_is_prepared [OF reconcile_example _ _ _ _ values_example(1,2)])
      (simp_all add: values_example(3) plain_example proof_of_def)
  then obtain r where "r \<in> set (tables (db recorded_session) ''events'')" "col r ''event_id'' = JStr ''ev_1''"
    "same_value (col r ''subject_uid'') (col (projection (ef_event sample_fact) (fst proved_item) ''h'' ''fleet_0'' sample_values) ''subject_uid'')"
    using values_example(5) unfolding values_example(3,4) by blast
  then show ?thesis unfolding values_example(6) by blast
qed

end
