(* ===== verification/Task_Commit.thy ===== *)
theory Task_Commit
  imports Request_Facts Emit Task_State
begin

text \<open>
  How a task operation is recorded (\<open>claudlobby/task_operations.py\<close>, what every operation shares): an
  earlier receipt of the request is looked up, what it recorded is proved or the operation is
  prepared, and the events are emitted after the receipt says that their outcome is unknown.

  The desk is where an operation works: the plane with its spool, the file of the request, and what
  each look at the locks of the request and of the task finds. Whoever fails to get a lock gets an error
  from \<open>locks\<close>; while both are held nobody else writes this request or this task.
\<close>

declare jget.simps [simp del]

section \<open>Errors and steps\<close>

datatype op_error =
    Op_Receipt receipt_error
  | Op_Plane plane_error
  | Op_Query string
  | Op_Not_Found string
  | Op_Unsupported int
  | Op_Conflict string
  | Op_Unavailable string
  | Op_Recording string bool
  | Op_Unresolved "issue list"
  | Op_Context string

text \<open>\<open>TaskRecordingError\<close> has the reason, and whether the recording is known to be committed.\<close>

record desk =
  plane :: disk
  store :: request_store
  locks :: "op_error option list"

type_synonym 'a op = "desk \<Rightarrow> (op_error + 'a) \<times> desk"

definition gives :: "'a \<Rightarrow> 'a op" where
  "gives x s = (Inr x, s)"

definition refuse :: "op_error \<Rightarrow> 'a op" where
  "refuse e s = (Inl e, s)"

definition next_op :: "'a op \<Rightarrow> ('a \<Rightarrow> 'b op) \<Rightarrow> 'b op" where
  "next_op m f s = (case m s of (Inl e, s') \<Rightarrow> (Inl e, s') | (Inr x, s') \<Rightarrow> f x s')"

definition checked :: "op_error + 'a \<Rightarrow> 'a op" where
  "checked r s = (r, s)"

definition on_store :: "(request_store \<Rightarrow> (receipt_error + 'a) \<times> request_store) \<Rightarrow> 'a op" where
  "on_store f s = (case f (store s) of (r, t) \<Rightarrow> (map_sum Op_Receipt id r, s\<lparr>store := t\<rparr>))"

definition on_plane :: "(disk, 'a) st \<Rightarrow> 'a op" where
  "on_plane m s = (case m (plane s) of (r, t) \<Rightarrow> (map_sum Op_Plane id r, s\<lparr>plane := t\<rparr>))"

text \<open>A step under the reader's connection: what SQLite raises there is unavailable storage.\<close>

definition storage_error :: "op_error \<Rightarrow> op_error" where
  "storage_error e = (case e of
     Op_Plane x \<Rightarrow> if is_sqlite_error x then Op_Unavailable ''task operation Plane storage is unavailable'' else Op_Plane x
   | _ \<Rightarrow> e)"

definition under_reader :: "'a op \<Rightarrow> 'a op" where
  "under_reader m s = (case m s of (r, s') \<Rightarrow> (map_sum storage_error id r, s'))"

definition reading :: "'a act \<Rightarrow> 'a op" where
  "reading m = on_plane (on_db m)"

text \<open>A look at the locks: \<open>_locked_task\<close>'s \<open>check\<close>, and taking the task's lock.\<close>

definition check_locks :: "unit op" where
  "check_locks s =
     (case locks s of [] \<Rightarrow> (Inr (), s)
      | None # ls \<Rightarrow> (Inr (), s\<lparr>locks := ls\<rparr>)
      | Some e # ls \<Rightarrow> (Inl e, s\<lparr>locks := ls\<rparr>))"

definition take_lock :: "string \<Rightarrow> unit op" where
  "take_lock task_id =
     (if id_of ''work_item'' task_id then check_locks else refuse (Op_Query ''task lock requires a canonical task ID''))"

section \<open>The context of an operation\<close>

record task_actor =
  ac_uid :: string
  ac_alias :: string

record task_ctx =
  tc_fleet_name :: string
  tc_members :: "string list"
  tc_manager :: string
  tc_projects :: "(string \<times> string list) list"
  tc_deadline :: "int option"
  tc_host :: string
  tc_fleet :: string
  tc_caller :: task_actor
  tc_bots :: "(string \<times> task_actor) list"
  tc_caller_fleet :: "string option"

text \<open>The fleet's configuration is kept as its name, its bots, its manager, the repositories of its
  projects and the manager's dispatch deadline. \<open>__post_init__\<close>:\<close>

definition is_bot :: "string \<Rightarrow> bool" where
  "is_bot alias = starts_with alias ''bot:''"

definition context_actors :: "task_ctx \<Rightarrow> task_actor list" where
  "context_actors c = tc_caller c # map snd (tc_bots c)"

definition make_context :: "task_ctx \<Rightarrow> op_error + task_ctx" where
  "make_context c =
     (if \<not> (id_of ''host'' (tc_host c) \<and> id_of ''fleet'' (tc_fleet c) \<and> list_all (\<lambda>a. id_of ''actor'' (ac_uid a)) (context_actors c))
      then Inl (Op_Query ''operation context requires canonical frozen identities'')
      else if list_ex (\<lambda>a. ac_alias a = []) (context_actors c)
      then Inl (Op_Query ''operation context requires existing actor aliases'')
      else
        let c' = (if is_bot (ac_alias (tc_caller c)) \<and> tc_caller_fleet c = None then c\<lparr>tc_caller_fleet := Some (tc_fleet c)\<rparr> else c) in
        case tc_caller_fleet c' of None \<Rightarrow> Inr c'
        | Some f \<Rightarrow> if id_of ''fleet'' f then Inr c' else Inl (Op_Query ''operation context requires a canonical caller fleet''))"

definition own_fleet :: "task_ctx \<Rightarrow> unit op" where
  "own_fleet c =
     (if is_bot (ac_alias (tc_caller c)) \<and> tc_caller_fleet c \<noteq> Some (tc_fleet c)
      then refuse (Op_Conflict ''bot caller may change routing only within its origin fleet'') else gives ())"

definition worker :: "task_ctx \<Rightarrow> string \<Rightarrow> op_error + task_actor" where
  "worker c bot_id =
     (if bot_id \<notin> set (tc_members c) then Inl (Op_Query ''worker is not a declared member of the selected fleet'')
      else case map_of (tc_bots c) bot_id of None \<Rightarrow> Inl (Op_Query ''worker is not a declared member of the selected fleet'')
        | Some a \<Rightarrow> Inr a)"

text \<open>A reason that says something.\<close>

definition reason_given :: "string \<Rightarrow> string \<Rightarrow> unit op" where
  "reason_given field reason =
     (if strip reason = [] then refuse (Op_Query (''a nonempty '' @ field @ '' is required'')) else gives ())"

section \<open>Frozen identities\<close>

text \<open>\<open>_identities\<close>: every binding that ingest would resolve exists, is the frozen one and is not of another
  fleet. The installation's own uid is what \<open>ensure_host_uid\<close> answers.\<close>

definition parent_wanted :: "task_ctx \<Rightarrow> string \<Rightarrow> string \<Rightarrow> string option" where
  "parent_wanted c kind alias =
     (if kind = ''actor'' \<and> alias = ac_alias (tc_caller c) then tc_caller_fleet c else Some (tc_fleet c))"

definition origin_ok :: "task_ctx \<Rightarrow> plane_db \<Rightarrow> string \<Rightarrow> string \<Rightarrow> bool" where
  "origin_ok c d kind alias \<longleftrightarrow>
     \<not> (kind = ''actor'' \<and> is_bot alias \<and> alias = ac_alias (tc_caller c))
     \<or> (case find (\<lambda>i. i_kind i = ''fleet'' \<and> Some (i_uid i) = parent_wanted c kind alias) (identities d) of
          None \<Rightarrow> False | Some i \<Rightarrow> starts_with alias (''bot:'' @ i_alias i @ ''/''))"

definition identity_ok :: "task_ctx \<Rightarrow> plane_db \<Rightarrow> string \<times> string \<times> string \<Rightarrow> bool" where
  "identity_ok c d e = (case e of (kind, alias, uid) \<Rightarrow> origin_ok c d kind alias
     \<and> (case find_identity kind alias d of None \<Rightarrow> False
        | Some i \<Rightarrow> i_uid i = uid
            \<and> (kind = ''actor'' \<and> \<not> starts_with alias ''human:'' \<longrightarrow> i_parent i = None \<or> i_parent i = parent_wanted c kind alias)))"

definition identities_check :: "emit_config \<Rightarrow> task_ctx \<Rightarrow> task_actor list \<Rightarrow> unit op" where
  "identities_check cfg c actors =
     (case em_host cfg of Inl e \<Rightarrow> refuse (Op_Plane e)
      | Inr host \<Rightarrow>
          if host \<noteq> tc_host c then refuse (Op_Conflict ''host identity differs from the operation context'')
          else next_op (reading (query (\<lambda>d. list_all (identity_ok c d)
              ((''fleet'', tc_fleet_name c, tc_fleet c) # map (\<lambda>a. (''actor'', ac_alias a, ac_uid a)) actors)))) (\<lambda>ok.
            if ok then gives () else refuse (Op_Conflict ''frozen identity is absent, foreign or changed'')))"

section \<open>The request\<close>

text \<open>What a deployment fixes: the world outside, the door's settings, which texts are instants with a zone, and
  the instant a number of seconds after another.\<close>

record setting =
  se_world :: world
  se_cfg :: emit_config
  se_aware :: "string \<Rightarrow> bool"
  se_after :: "string \<Rightarrow> int \<Rightarrow> string"

text \<open>\<open>semantic_digest\<close>: the hash of the arguments with their types.\<close>

fun normalize_semantic :: "json \<Rightarrow> json" where
  "normalize_semantic (JObj kvs) = JArr [JStr ''object'', JArr (map (\<lambda>(k, v). JArr [JStr k, v])
     (sort_key fst (map (\<lambda>(k, v). (k, normalize_semantic v)) kvs)))]"
| "normalize_semantic (JArr vs) = JArr [JStr ''array'', JArr (map normalize_semantic vs)]"
| "normalize_semantic JNull = JArr [JStr ''NoneType'', JNull]"
| "normalize_semantic (JStr s) = JArr [JStr ''str'', JStr s]"
| "normalize_semantic (JInt i) = JArr [JStr ''int'', JInt i]"
| "normalize_semantic (JBool b) = JArr [JStr ''bool'', JBool b]"
| "normalize_semantic (JFloat x) = JArr [JStr ''float'', JFloat x]"

definition semantic_digest :: "world \<Rightarrow> obj \<Rightarrow> string" where
  "semantic_digest w kvs = w_sha w (dump (w_float w) ('','', '':'') (normalize_semantic (JObj kvs)))"

text \<open>\<open>same_native_route\<close>: the stamps of the selection aside, every party and target is the same.\<close>

definition unstamped :: "route \<Rightarrow> route" where
  "unstamped r = (case r of
     Native m \<Rightarrow> Native (m\<lparr>mr_activation := None, mr_plan := None, mr_release := None, mr_revision := None, mr_fingerprint := None\<rparr>)
   | Recorded m \<Rightarrow> Recorded (m\<lparr>rp_activation := None, rp_plan := None, rp_release := None, rp_revision := None, rp_fingerprint := None\<rparr>))"

definition same_native_route :: "route option \<Rightarrow> route option \<Rightarrow> bool" where
  "same_native_route old current = (map_option unstamped old = map_option unstamped current)"

definition recording_facts :: "request_receipt \<Rightarrow> expected_fact list" where
  "recording_facts r = sp_facts (ri_stages (rr_intent r) ! 0)"

definition same_request :: "task_ctx \<Rightarrow> string \<Rightarrow> string \<Rightarrow> string option \<Rightarrow> nat \<Rightarrow> bool \<Rightarrow> route option \<Rightarrow> request_receipt \<Rightarrow> bool" where
  "same_request c operation semantic recipient n notification current r \<longleftrightarrow>
     (let i = rr_intent r in
      ri_operation i = operation \<and> ri_version i = 1 \<and> ri_host i = tc_host c \<and> ri_fleet i = tc_fleet c
      \<and> ri_caller i = ac_uid (tc_caller c) \<and> ri_recipient i = recipient \<and> ri_semantic i = semantic
      \<and> map sp_kind (ri_stages i) = (if notification then [''recording'', ''notification''] else [''recording''])
      \<and> length (recording_facts r) = n \<and> same_native_route (ri_route i) current
      \<and> \<not> (notification \<and> (ri_message i = None \<or> ri_recipient i = None \<or> sp_facts (ri_stages i ! 1) \<noteq> [])))"

definition existing :: "setting \<Rightarrow> task_ctx \<Rightarrow> string \<Rightarrow> string \<Rightarrow> string option \<Rightarrow> nat \<Rightarrow> bool \<Rightarrow> route option \<Rightarrow> request_receipt option op" where
  "existing se c operation semantic recipient n notification current =
     next_op (on_store (\<lambda>s. (load (se_aware se) s, s))) (\<lambda>found.
       case found of None \<Rightarrow> gives None
       | Some r \<Rightarrow>
           if same_request c operation semantic recipient n notification current r then gives (Some r)
           else refuse (Op_Receipt (Receipt_Conflict ''request UUID already has different semantics or identities'')))"

definition reconcile :: "setting \<Rightarrow> request_receipt \<Rightarrow> fact_proof op" where
  "reconcile se r =
     next_op (reading (reconcile_facts (se_world se) (recording_facts r))) (\<lambda>q.
       case q of Inl e \<Rightarrow> refuse (Op_Receipt e) | Inr p \<Rightarrow> gives p)"

definition put_outcome :: "setting \<Rightarrow> string \<Rightarrow> request_receipt op" where
  "put_outcome se status = on_store (update (se_aware se) (outcome_request 0 status))"

text \<open>\<open>_replayed\<close>: whether an earlier invocation recorded the request; what it left open is settled.\<close>

definition replayed :: "setting \<Rightarrow> request_receipt option \<Rightarrow> bool op" where
  "replayed se previous =
     (case previous of None \<Rightarrow> gives False
      | Some r \<Rightarrow>
          next_op (reconcile se r) (\<lambda>p.
            let status = so_status (rr_stages r ! 0) in
            if fp_status p = Facts_Committed then
              (if status = ''unknown'' then next_op (put_outcome se ''committed'') (\<lambda>_. gives True)
               else if status \<noteq> ''committed''
               then refuse (Op_Receipt (Receipt_Conflict ''facts exist without a compatible recorded attempt''))
               else gives True)
            else if fp_status p = Facts_Unknown then refuse (Op_Recording (fp_reason p) False)
            else if fp_status p = Facts_Conflict \<or> status = ''committed''
            then refuse (Op_Receipt (Receipt_Conflict ''request fact proof conflicts with its durable receipt''))
            else if status = ''unknown'' then next_op (put_outcome se ''unrecorded'') (\<lambda>_. gives False)
            else gives False))"

section \<open>Events\<close>

text \<open>\<open>_raw\<close>: an event of the operation; a retry uses the id that was frozen.\<close>

definition raw_event :: "setting \<Rightarrow> task_ctx \<Rightarrow> string \<Rightarrow> string \<Rightarrow> obj \<Rightarrow> request_receipt option \<Rightarrow> nat \<Rightarrow> obj op" where
  "raw_event se c request_id family payload previous i =
     next_op (case previous of Some r \<Rightarrow> gives (ef_event (recording_facts r ! i))
        | None \<Rightarrow> next_op (reading (mint_hex (se_world se))) (\<lambda>h. gives (mint ''ev_'' h))) (\<lambda>event_id.
       gives [(''event_type'', JStr family), (''payload'', JObj payload), (''emitter'', JStr TASK_EMITTER),
         (''fleet'', JStr (tc_fleet_name c)), (''source_ref'', JStr (''request:'' @ request_id)),
         (''schema_version'', JStr PLANE_SCHEMA_VERSION), (''event_id'', JStr event_id)])"

fun all_right :: "('e + 'a) list \<Rightarrow> 'e + 'a list" where
  "all_right [] = Inr []"
| "all_right (x # xs) = (case x of Inl e \<Rightarrow> Inl e | Inr y \<Rightarrow> (case all_right xs of Inl e \<Rightarrow> Inl e | Inr ys \<Rightarrow> Inr (y # ys)))"

definition fact_of_raw :: "setting \<Rightarrow> task_ctx \<Rightarrow> parties \<Rightarrow> modes \<Rightarrow> obj \<Rightarrow> op_error + expected_fact" where
  "fact_of_raw se c ps modes req =
     (case validate_item (se_world se) modes req of Inl e \<Rightarrow> Inl (Op_Plane e)
      | Inr (it, captured) \<Rightarrow>
          (case expected_fact (se_world se) (tc_host c) (tc_fleet c) ps [] it of
             Inl e \<Rightarrow> Inl (Op_Plane e) | Inr (Inl e) \<Rightarrow> Inl (Op_Receipt e) | Inr (Inr f) \<Rightarrow> Inr f))"

text \<open>The capture configuration is only read when an event carries content.\<close>

definition modes_for :: "setting \<Rightarrow> obj list \<Rightarrow> op_error + modes" where
  "modes_for se raws =
     (if list_ex (\<lambda>r. CONTENT_FIELDS (event_type r) \<noteq> []) raws
      then (case load_modes (em_capture (se_cfg se)) of Inl e \<Rightarrow> Inl (Op_Plane e) | Inr ms \<Rightarrow> Inr ms) else Inr [])"

record task_plan =
  pl_raws :: "obj list"
  pl_task :: string
  pl_assignment :: "string option"
  pl_actors :: "task_actor list"
  pl_expected_by :: "string option"

text \<open>A later actor of the same alias wins, as in the dictionary.\<close>

definition frozen_parties :: "task_ctx \<Rightarrow> task_actor list \<Rightarrow> parties" where
  "frozen_parties c actors = rev (map (\<lambda>a. (ac_alias a, ac_uid a)) (tc_caller c # actors))"

definition plan_intent :: "task_ctx \<Rightarrow> string \<Rightarrow> string \<Rightarrow> string option \<Rightarrow> task_plan \<Rightarrow> expected_fact list \<Rightarrow> request_intent" where
  "plan_intent c operation semantic recipient p facts =
     \<lparr>ri_operation = operation, ri_version = 1, ri_host = tc_host c, ri_fleet = tc_fleet c, ri_caller = ac_uid (tc_caller c),
      ri_recipient = recipient, ri_semantic = semantic, ri_stages = [\<lparr>sp_kind = ''recording'', sp_facts = facts\<rparr>],
      ri_task = Some (pl_task p), ri_assignment = pl_assignment p, ri_message = None, ri_route = None,
      ri_expected_by = pl_expected_by p\<rparr>"

definition prepare_plan :: "setting \<Rightarrow> task_ctx \<Rightarrow> string \<Rightarrow> string \<Rightarrow> string option \<Rightarrow> task_plan \<Rightarrow> request_receipt op" where
  "prepare_plan se c operation semantic recipient p =
     next_op (checked (modes_for se (pl_raws p))) (\<lambda>modes.
     next_op (checked (all_right (map (fact_of_raw se c (frozen_parties c (pl_actors p)) modes) (pl_raws p)))) (\<lambda>facts.
       on_store (prepare_request (se_aware se) (plan_intent c operation semantic recipient p facts))))"

section \<open>Recording\<close>

text \<open>What the door says is not believed: a failure of storage leaves the recording unknown.\<close>

definition emit_recording :: "setting \<Rightarrow> obj list \<Rightarrow> unit op" where
  "emit_recording se raws s =
     (case emit_batch (se_world se) (se_cfg se) True None (map JObj raws) (plane s) of
        (Inr outs, d) \<Rightarrow> (Inr (), s\<lparr>plane := d\<rparr>)
      | (Inl e, d) \<Rightarrow> (Inl (if is_sqlite_error e \<or> is_os_error e then Op_Recording ''the door failed'' False else Op_Plane e),
          s\<lparr>plane := d\<rparr>))"

definition finish :: "setting \<Rightarrow> request_receipt op" where
  "finish se s =
     (case put_outcome se ''committed'' s of
        (Inl (Op_Receipt Receipt_Os), s') \<Rightarrow> (Inl (Op_Recording ''request outcome persistence failed'' True), s')
      | r \<Rightarrow> r)"

definition commit_plan :: "setting \<Rightarrow> request_receipt \<Rightarrow> obj list \<Rightarrow> request_receipt op" where
  "commit_plan se r raws =
     next_op check_locks (\<lambda>_.
     next_op (on_store (update (se_aware se) begin_attempt)) (\<lambda>_.
     next_op (on_store (update (se_aware se) (stage_request 0 False))) (\<lambda>_.
     next_op (emit_recording se raws) (\<lambda>_.
     next_op (reconcile se r) (\<lambda>p.
       if fp_status p = Facts_Conflict
       then refuse (Op_Receipt (Receipt_Conflict ''committed result differs from the frozen request facts''))
       else if fp_status p \<noteq> Facts_Committed then refuse (Op_Recording (fp_reason p) False)
       else finish se)))))"

text \<open>The part all operations share, from the replay on; the second value says whether it was one.\<close>

definition record_or_replay :: "setting \<Rightarrow> task_ctx \<Rightarrow> string \<Rightarrow> string \<Rightarrow> string option \<Rightarrow> request_receipt option
    \<Rightarrow> task_plan op \<Rightarrow> (request_receipt \<times> bool) op" where
  "record_or_replay se c operation semantic recipient previous plan =
     next_op (replayed se previous) (\<lambda>again.
       case (again, previous) of (True, Some r) \<Rightarrow> gives (r, True)
       | _ \<Rightarrow>
           next_op plan (\<lambda>p.
           next_op (prepare_plan se c operation semantic recipient p) (\<lambda>r.
           next_op (commit_plan se r (pl_raws p)) (\<lambda>r'. gives (r', False)))))"

text \<open>\<open>_reader\<close>: the connection and the admission of its schema.\<close>

definition open_reader :: "setting \<Rightarrow> unit op" where
  "open_reader se =
     (if em_version (se_cfg se) = None
      then refuse (Op_Plane (Runtime_Error ''task operations require an explicitly initialized Plane''))
      else (\<lambda>s. case reading (require_current_schema (se_cfg se)) s of
          (Inl (Op_Plane e), s') \<Rightarrow>
            (Inl (if is_sqlite_error e \<or> is_os_error e then Op_Unavailable ''task operation Plane storage is unavailable'' else Op_Plane e), s')
        | r \<Rightarrow> r))"

end
