(* ===== verification/Task_Operations.thy ===== *)
theory Task_Operations
  imports Task_Commit
begin

text \<open>
  The operations on tasks (\<open>claudlobby/task_operations.py\<close>): admission, assignment, acceptance,
  withdrawal, escalation, rescheduling and reassignment. Each reads the task through the reducer of
  \<open>Task_State\<close> from the plane's own tables, refuses what does not fit, and records through
  \<open>Task_Commit\<close>. A request of another operation, or one with other arguments, is refused by its receipt.
\<close>

declare jget.simps [simp del]

section \<open>Reading tasks\<close>

text \<open>The rows of the tables as the reducer takes them.\<close>

definition opt_text :: "json \<Rightarrow> string option" where
  "opt_text v = (case v of JStr s \<Rightarrow> Some s | _ \<Rightarrow> None)"

definition work_of :: "row \<Rightarrow> work_row" where
  "work_of r = \<lparr>f_seq = seq_of r, f_event_id = text_of (col r ''event_id''), f_schema = text_of (col r ''schema_version''),
     f_host = text_of (col r ''host_uid''), f_fleet = opt_text (col r ''fleet_uid''), f_emitter = text_of (col r ''emitter''),
     f_origin = text_of (col r ''origin''), f_source_ref = opt_text (col r ''source_ref''),
     f_occurred = text_of (col r ''occurred_at''), f_ingested = text_of (col r ''ingested_at''),
     wr_id = text_of (col r ''work_item_id''), wr_title = text_of (col r ''title''), wr_body = opt_text (col r ''body''),
     wr_repo = opt_text (col r ''repo''), wr_project = opt_text (col r ''project_key''),
     wr_workstream = opt_text (col r ''workstream_id''), wr_created_by = text_of (col r ''created_by_uid'')\<rparr>"

definition assign_of :: "row \<Rightarrow> assign_row" where
  "assign_of r = \<lparr>f_seq = seq_of r, f_event_id = text_of (col r ''event_id''), f_schema = text_of (col r ''schema_version''),
     f_host = text_of (col r ''host_uid''), f_fleet = opt_text (col r ''fleet_uid''), f_emitter = text_of (col r ''emitter''),
     f_origin = text_of (col r ''origin''), f_source_ref = opt_text (col r ''source_ref''),
     f_occurred = text_of (col r ''occurred_at''), f_ingested = text_of (col r ''ingested_at''),
     ar_id = text_of (col r ''assignment_id''), ar_task = text_of (col r ''work_item_id''),
     ar_assignee = text_of (col r ''assignee_uid''), ar_assigned_by = text_of (col r ''assigned_by_uid''),
     ar_expected = opt_text (col r ''expected_by''), ar_dispatch = opt_text (col r ''dispatch_msg_id'')\<rparr>"

text \<open>A detail that is kept as a value is the text of that value.\<close>

definition detail_text :: "world \<Rightarrow> json \<Rightarrow> string option" where
  "detail_text w v = (case v of JNull \<Rightarrow> None | JStr s \<Rightarrow> Some s | _ \<Rightarrow> Some (json_dumps (w_float w) v))"

definition task_event_of :: "world \<Rightarrow> row \<Rightarrow> task_event" where
  "task_event_of w r = \<lparr>f_seq = seq_of r, f_event_id = text_of (col r ''event_id''), f_schema = text_of (col r ''schema_version''),
     f_host = text_of (col r ''host_uid''), f_fleet = opt_text (col r ''fleet_uid''), f_emitter = text_of (col r ''emitter''),
     f_origin = text_of (col r ''origin''), f_source_ref = opt_text (col r ''source_ref''),
     f_occurred = text_of (col r ''occurred_at''), f_ingested = text_of (col r ''ingested_at''),
     te_task = text_of (col r ''work_item_id''), te_assignment = opt_text (col r ''assignment_id''),
     te_event = text_of (col r ''event''), te_actor = opt_text (col r ''actor_uid''), te_detail = detail_text w (col r ''detail''),
     te_deadline = opt_text (col r ''deadline''), te_successor = opt_text (col r ''successor_id'')\<rparr>"

definition tables_of :: "setting \<Rightarrow> plane_db \<Rightarrow> tables" where
  "tables_of se d =
     \<lparr>tb_version = (case em_version (se_cfg se) of None \<Rightarrow> 0 | Some v \<Rightarrow> v),
      tb_work = map work_of (tables d ''work_items''), tb_assignments = map assign_of (tables d ''assignments''),
      tb_events = map (task_event_of (se_world se)) (filter (\<lambda>r. col r ''kind'' = JStr ''task'') (tables d ''events''))\<rparr>"

text \<open>\<open>_lookup_snapshot\<close>. What \<open>_not_canonical\<close> raises for a reference that is no task or assignment of the
  fleet is one error here, without its hints.\<close>

definition lookup_snapshot :: "setting \<Rightarrow> string \<Rightarrow> string \<Rightarrow> plane_db \<Rightarrow> op_error + snapshot" where
  "lookup_snapshot se fl reference d =
     (if fl = [] then Inl (Op_Query ''fleet_uid is required'')
      else if reference = [] then Inl (Op_Query ''a canonical ID is required'')
      else case read_tasks (tables_of se d) fl None of
          Inl (Value_Error m) \<Rightarrow> Inl (Op_Plane (Value_Err m))
        | Inl (Unsupported_Schema v) \<Rightarrow> Inl (Op_Unsupported v)
        | Inr snap \<Rightarrow> Inr snap)"

definition find_task :: "setting \<Rightarrow> string \<Rightarrow> string \<Rightarrow> plane_db \<Rightarrow> op_error + task" where
  "find_task se fl task_id d =
     (case lookup_snapshot se fl task_id d of Inl e \<Rightarrow> Inl e
      | Inr snap \<Rightarrow>
          (case find (\<lambda>t. wr_id (tk_row t) = task_id) (sn_tasks snap) of
             None \<Rightarrow> Inl (Op_Not_Found ''not a task of the fleet'') | Some t \<Rightarrow> Inr t))"

definition find_assignment :: "setting \<Rightarrow> string \<Rightarrow> string \<Rightarrow> plane_db \<Rightarrow> op_error + (assignment \<times> task)" where
  "find_assignment se fl assignment_id d =
     (case lookup_snapshot se fl assignment_id d of Inl e \<Rightarrow> Inl e
      | Inr snap \<Rightarrow>
          (case find (\<lambda>(a, t). f_fleet (as_row a) = Some fl \<and> ar_id (as_row a) = assignment_id)
               (concat (map (\<lambda>t. map (\<lambda>a. (a, t)) (tk_assignments t)) (sn_tasks snap))) of
             None \<Rightarrow> Inl (Op_Not_Found ''not an assignment of the fleet'') | Some v \<Rightarrow> Inr v))"

definition show_task :: "setting \<Rightarrow> task_ctx \<Rightarrow> string \<Rightarrow> task op" where
  "show_task se c task_id = next_op (reading (query (find_task se (tc_fleet c) task_id))) checked"

definition show_assignment :: "setting \<Rightarrow> task_ctx \<Rightarrow> string \<Rightarrow> (assignment \<times> task) op" where
  "show_assignment se c assignment_id = next_op (reading (query (find_assignment se (tc_fleet c) assignment_id))) checked"

definition resolved :: "task \<Rightarrow> task op" where
  "resolved t = (case require_resolved t of Inl issues \<Rightarrow> refuse (Op_Unresolved issues) | Inr t' \<Rightarrow> gives t')"

definition current_id :: "task \<Rightarrow> string option" where
  "current_id t = map_option (\<lambda>a. ar_id (as_row a)) (tk_current t)"

section \<open>Who and what\<close>

definition provenance_alias :: "task_ctx \<Rightarrow> string option \<Rightarrow> op_error + string" where
  "provenance_alias c by_alias =
     (case by_alias of None \<Rightarrow> Inr (ac_alias (tc_caller c))
      | Some a \<Rightarrow>
          if a = ac_alias (tc_caller c) \<or> human_alias a \<or> a \<in> ac_alias ` snd ` set (tc_bots c) then Inr a
          else Inl (Op_Context ''provenance actor is not an existing selected-fleet actor''))"

text \<open>\<open>_identity\<close> of a person: the fleet they first met is history, but it must exist.\<close>

definition human_identity :: "plane_db \<Rightarrow> string \<Rightarrow> op_error + string" where
  "human_identity d alias =
     (case find_identity ''actor'' alias d of
        None \<Rightarrow> Inl (Op_Context ''existing actor identity is missing'')
      | Some i \<Rightarrow>
          if \<not> id_of ''actor'' (i_uid i) then Inl (Op_Context ''existing actor identity is missing or ambiguous'')
          else if (case i_parent i of None \<Rightarrow> False
              | Some p \<Rightarrow> \<not> id_of ''fleet'' p \<or> \<not> list_ex (\<lambda>j. i_kind j = ''fleet'' \<and> i_uid j = p) (identities d))
          then Inl (Op_Context ''human identity has an invalid parent binding'')
          else Inr (i_uid i))"

definition provenance_in :: "task_ctx \<Rightarrow> string option \<Rightarrow> plane_db \<Rightarrow> op_error + task_actor" where
  "provenance_in c by_alias d =
     (case provenance_alias c by_alias of Inl e \<Rightarrow> Inl e
      | Inr a \<Rightarrow>
          if a = ac_alias (tc_caller c) then Inr (tc_caller c)
          else if human_alias a then (case human_identity d a of Inl e \<Rightarrow> Inl e | Inr u \<Rightarrow> Inr \<lparr>ac_uid = u, ac_alias = a\<rparr>)
          else case find (\<lambda>(b, x). ac_alias x = a) (tc_bots c) of
              None \<Rightarrow> Inl (Op_Context ''no such bot'') | Some (b, x) \<Rightarrow> Inr x)"

definition provenance :: "task_ctx \<Rightarrow> string option \<Rightarrow> task_actor op" where
  "provenance c by_alias = next_op (reading (query (provenance_in c by_alias))) checked"

text \<open>\<open>_scope_links\<close>: project, workstream and repository belong to the fleet and to one another.\<close>

definition workstream_row :: "string \<Rightarrow> plane_db \<Rightarrow> row option" where
  "workstream_row ws d = find (\<lambda>r. col r ''workstream_id'' = JStr ws) (tables d ''workstreams'')"

definition project_problem :: "task_ctx \<Rightarrow> string option \<Rightarrow> string option \<Rightarrow> string option" where
  "project_problem c project repo =
     (case project of None \<Rightarrow> None
      | Some p \<Rightarrow>
          (case map_of (tc_projects c) p of None \<Rightarrow> Some ''project is not declared in the selected fleet''
           | Some repos \<Rightarrow>
               (case repo of None \<Rightarrow> None
                | Some r \<Rightarrow> if repos \<noteq> [] \<and> r \<notin> set repos then Some ''repository does not belong to the declared project'' else None)))"

definition workstream_problem :: "task_ctx \<Rightarrow> string option \<Rightarrow> string \<Rightarrow> plane_db \<Rightarrow> string option" where
  "workstream_problem c project ws d =
     (case workstream_row ws d of None \<Rightarrow> Some ''workstream does not belong to the selected fleet''
      | Some r \<Rightarrow>
          if col r ''fleet_uid'' \<noteq> JStr (tc_fleet c) then Some ''workstream does not belong to the selected fleet''
          else case opt_text (col r ''project_key'') of None \<Rightarrow> None
            | Some k \<Rightarrow>
                if map_of (tc_projects c) k = None \<or> project \<noteq> None \<and> project \<noteq> Some k
                then Some ''workstream project differs from the selected task project'' else None)"

definition no_problem :: "string option \<Rightarrow> unit op" where
  "no_problem p = (case p of None \<Rightarrow> gives () | Some m \<Rightarrow> refuse (Op_Query m))"

definition scope_links :: "task_ctx \<Rightarrow> string option \<Rightarrow> string option \<Rightarrow> string option \<Rightarrow> unit op" where
  "scope_links c project workstream repo =
     next_op (no_problem (project_problem c project repo)) (\<lambda>_.
       case workstream of None \<Rightarrow> gives ()
       | Some ws \<Rightarrow> next_op (reading (query (workstream_problem c project ws))) no_problem)"

text \<open>\<open>_checkin_decision\<close>: the decision exists in the fleet's scope.\<close>

definition alias_in_fleet :: "string \<Rightarrow> json \<Rightarrow> bool" where
  "alias_in_fleet fl v = (case v of
     JStr a \<Rightarrow> ''bot:'' @ fl @ ''/'' \<le> a \<and> a < ''bot:'' @ fl @ ''0'' | _ \<Rightarrow> False)"

definition like_human :: "json \<Rightarrow> bool" where
  "like_human v = (case v of JStr a \<Rightarrow> starts_with (map ascii_lower a) ''human:'' | _ \<Rightarrow> False)"

definition is_decision :: "task_ctx \<Rightarrow> string \<Rightarrow> plane_db \<Rightarrow> row \<Rightarrow> bool" where
  "is_decision c checkin_id d r \<longleftrightarrow>
     col r ''kind'' = JStr ''system'' \<and> col r ''event'' = JStr ''checkin_decision''
     \<and> col r ''source_ref'' = JStr (''checkin:'' @ checkin_id)
     \<and> ((case lookup d ''fleet'' (tc_fleet_name c) of None \<Rightarrow> False | Some u \<Rightarrow> col r ''fleet_uid'' = JStr u)
        \<or> col r ''fleet_uid'' = JNull \<and> alias_in_fleet (tc_fleet_name c) (col r ''subject_alias''))
     \<and> (alias_in_fleet (tc_fleet_name c) (col r ''subject_alias'')
        \<or> col r ''fleet_uid'' \<noteq> JNull \<and> like_human (col r ''subject_alias''))"

definition checkin_shaped :: "string \<Rightarrow> bool" where
  "checkin_shaped s \<longleftrightarrow> starts_with s ''ck_'' \<and> hex32 (drop 3 s)"

definition checkin_decision :: "task_ctx \<Rightarrow> string \<Rightarrow> unit op" where
  "checkin_decision c checkin_id =
     (if \<not> checkin_shaped checkin_id then refuse (Op_Query ''check-in ID must have canonical ck_<32hex> form'')
      else next_op (reading (query (\<lambda>d. list_ex (is_decision c checkin_id d) (tables d ''events'')))) (\<lambda>found.
        if found then gives () else refuse (Op_Not_Found ''check-in decision not found in the selected fleet'')))"

section \<open>Answering and performing\<close>

record op_result =
  or_request :: string
  or_task_id :: string
  or_assignment :: "string option"
  or_task :: task
  or_replayed :: bool

text \<open>The task is read again for the answer, after the lock's work is done.\<close>

definition answer :: "setting \<Rightarrow> task_ctx \<Rightarrow> (request_receipt \<times> bool) op \<Rightarrow> op_result op" where
  "answer se c m =
     next_op m (\<lambda>(r, again).
       let task_id = (case ri_task (rr_intent r) of None \<Rightarrow> [] | Some t \<Rightarrow> t) in
       next_op (show_task se c task_id) (\<lambda>t.
         gives \<lparr>or_request = rr_id r, or_task_id = task_id, or_assignment = ri_assignment (rr_intent r), or_task = t,
           or_replayed = again\<rparr>))"

text \<open>
  An operation on a task there is: \<open>early\<close> is settled before the plane is opened, \<open>first\<close> reads the task
  before its lock is taken, and the plan is made under the lock.
\<close>

definition perform :: "setting \<Rightarrow> task_ctx \<Rightarrow> string \<Rightarrow> string \<Rightarrow> string option \<Rightarrow> nat \<Rightarrow> (request_receipt option \<Rightarrow> 'e op)
    \<Rightarrow> string op \<Rightarrow> (request_receipt option \<Rightarrow> 'e \<Rightarrow> task_plan op) \<Rightarrow> op_result op" where
  "perform se c operation semantic recipient n early first plan =
     next_op (existing se c operation semantic recipient n False None) (\<lambda>previous.
     next_op (early previous) (\<lambda>x.
     next_op (open_reader se) (\<lambda>_.
       under_reader (
         next_op first (\<lambda>task_id.
         next_op (take_lock task_id) (\<lambda>_.
           answer se c (record_or_replay se c operation semantic recipient previous (plan previous x))))))))"

definition nothing_early :: "request_receipt option \<Rightarrow> unit op" where
  "nothing_early previous = gives ()"

text \<open>\<open>first.task_id\<close> of a task and of an assignment's task.\<close>

definition first_task :: "setting \<Rightarrow> task_ctx \<Rightarrow> string \<Rightarrow> string op" where
  "first_task se c task_id = next_op (show_task se c task_id) (\<lambda>t. gives (wr_id (tk_row t)))"

definition first_assignment :: "setting \<Rightarrow> task_ctx \<Rightarrow> string \<Rightarrow> string op" where
  "first_assignment se c assignment_id = next_op (show_assignment se c assignment_id) (\<lambda>(a, t). gives (wr_id (tk_row t)))"

definition plan_of :: "obj list \<Rightarrow> string \<Rightarrow> string option \<Rightarrow> task_actor list \<Rightarrow> string option \<Rightarrow> task_plan op" where
  "plan_of raws task_id assignment_id actors expected_by =
     gives \<lparr>pl_raws = raws, pl_task = task_id, pl_assignment = assignment_id, pl_actors = actors, pl_expected_by = expected_by\<rparr>"

text \<open>\<open>previous.intent.x if previous else mint()\<close>.\<close>

definition frozen_or_minted :: "setting \<Rightarrow> string \<Rightarrow> request_receipt option \<Rightarrow> (request_intent \<Rightarrow> string option) \<Rightarrow> string op" where
  "frozen_or_minted se prefix previous f =
     (case previous of Some r \<Rightarrow> gives (case f (rr_intent r) of None \<Rightarrow> [] | Some x \<Rightarrow> x)
      | None \<Rightarrow> next_op (reading (mint_hex (se_world se))) (\<lambda>h. gives (mint prefix h)))"

section \<open>Admission\<close>

definition admit :: "setting \<Rightarrow> task_ctx \<Rightarrow> string \<Rightarrow> string \<Rightarrow> string option \<Rightarrow> string option \<Rightarrow> string option \<Rightarrow> string option
    \<Rightarrow> string option \<Rightarrow> op_result op" where
  "admit se c request_id title body repo project workstream by_alias =
     next_op (checked (provenance_alias c by_alias)) (\<lambda>who.
       let semantic = semantic_digest (se_world se) [(''title'', JStr title), (''body'', text_or body), (''repo'', text_or repo),
           (''project_key'', text_or project), (''workstream_id'', text_or workstream), (''by'', JStr who)] in
       next_op (existing se c ''task.admit'' semantic None 1 False None) (\<lambda>previous.
       next_op (frozen_or_minted se ''wi_'' previous ri_task) (\<lambda>task_id.
       next_op (take_lock task_id) (\<lambda>_.
       next_op (open_reader se) (\<lambda>_.
         under_reader (answer se c (record_or_replay se c ''task.admit'' semantic None previous (
           next_op (provenance c by_alias) (\<lambda>source.
           next_op (identities_check (se_cfg se) c [tc_caller c, source]) (\<lambda>_.
           next_op (scope_links c project workstream repo) (\<lambda>_.
           next_op (raw_event se c request_id ''work_item'' [(''work_item_id'', JStr task_id), (''title'', JStr title),
               (''body'', text_or body), (''created_by'', JStr (ac_alias source)), (''repo'', text_or repo),
               (''project_key'', text_or project), (''workstream_id'', text_or workstream)] previous 0) (\<lambda>req.
             plan_of [req] task_id None [source] None))))))))))))"

section \<open>Routing\<close>

definition OPEN_ENDED :: string where
  "OPEN_ENDED = ''none''"

text \<open>\<open>_deadline\<close>: what the payload says, and the default that the receipt freezes.\<close>

definition deadline_of :: "setting \<Rightarrow> task_ctx \<Rightarrow> string option \<Rightarrow> request_receipt option \<Rightarrow> (string option \<times> string option) op" where
  "deadline_of se c expected_by previous =
     (if expected_by = Some OPEN_ENDED then gives (None, None)
      else if expected_by \<noteq> None then gives (expected_by, None)
      else case previous of Some r \<Rightarrow> gives (ri_expected_by (rr_intent r), ri_expected_by (rr_intent r))
      | None \<Rightarrow>
          (let seconds = (case tc_deadline c of None \<Rightarrow> 86400 | Some n \<Rightarrow> n) in
           if seconds < 0 then refuse (Op_Query ''observability.dispatch_deadline must be a nonnegative integer of seconds'')
           else if seconds = 0 then gives (None, None)
           else next_op (reading (now_iso (se_world se))) (\<lambda>now.
             let at' = se_after se now seconds in gives (Some at', Some at'))))"

definition assignment_event :: "setting \<Rightarrow> task_ctx \<Rightarrow> string \<Rightarrow> string \<Rightarrow> string \<Rightarrow> task_actor \<Rightarrow> task_actor \<Rightarrow> string option
    \<Rightarrow> request_receipt option \<Rightarrow> nat \<Rightarrow> obj op" where
  "assignment_event se c request_id assignment_id task_id wk source due previous i =
     raw_event se c request_id ''assignment'' [(''assignment_id'', JStr assignment_id), (''work_item_id'', JStr task_id),
       (''assignee'', JStr (ac_alias wk)), (''assigned_by'', JStr (ac_alias source)), (''expected_by'', text_or due)] previous i"

definition assign :: "setting \<Rightarrow> task_ctx \<Rightarrow> string \<Rightarrow> string \<Rightarrow> string \<Rightarrow> string option \<Rightarrow> string option \<Rightarrow> string option \<Rightarrow> op_result op" where
  "assign se c request_id task_id bot_id expected_by checkin_id by_alias =
     next_op (own_fleet c) (\<lambda>_.
     next_op (checked (worker c bot_id)) (\<lambda>wk.
     next_op (checked (provenance_alias c by_alias)) (\<lambda>who.
       if checkin_id \<noteq> None \<and> \<not> checkin_shaped (the checkin_id)
       then refuse (Op_Query ''check-in ID must have canonical ck_<32hex> form'')
       else
       let semantic = semantic_digest (se_world se) [(''task_id'', JStr task_id), (''bot_id'', JStr bot_id),
           (''expected_by'', text_or expected_by), (''checkin_id'', text_or checkin_id), (''by'', JStr who)] in
       perform se c ''task.assign'' semantic (Some (ac_uid wk)) (if checkin_id = None then 1 else 2)
         (deadline_of se c expected_by) (first_task se c task_id) (\<lambda>previous (due, default).
           next_op (show_task se c task_id) (\<lambda>t0. next_op (resolved t0) (\<lambda>t.
           if tk_state t \<noteq> Some ''queued'' \<or> tk_current t \<noteq> None then refuse (Op_Conflict ''task is not queued and unassigned'')
           else next_op (provenance c by_alias) (\<lambda>source.
             next_op (identities_check (se_cfg se) c [tc_caller c, wk, source]) (\<lambda>_.
             next_op (scope_links c (wr_project (tk_row t)) (wr_workstream (tk_row t)) (wr_repo (tk_row t))) (\<lambda>_.
             next_op (case checkin_id of None \<Rightarrow> gives () | Some ck \<Rightarrow> checkin_decision c ck) (\<lambda>_.
             next_op (frozen_or_minted se ''asg_'' previous ri_assignment) (\<lambda>assignment_id.
             next_op (assignment_event se c request_id assignment_id task_id wk source due previous 0) (\<lambda>req.
             case checkin_id of
               None \<Rightarrow> plan_of [req] task_id (Some assignment_id) [wk, source] default
             | Some ck \<Rightarrow>
                 next_op (raw_event se c request_id ''system'' [(''event'', JStr ''checkin_dispatch''), (''subject_kind'', JStr ''actor''),
                     (''subject'', JStr (ac_alias (tc_caller c))),
                     (''data'', JObj [(''checkin_id'', JStr ck), (''assignment_id'', JStr assignment_id), (''work_item_id'', JStr task_id),
                        (''task_id'', JNull)])] previous 1) (\<lambda>join.
                   plan_of [req, join] task_id (Some assignment_id) [wk, source] default)))))))))))))"

text \<open>\<open>_current_assignment\<close>: the assignment is the open one of its task.\<close>

definition current_assignment :: "assignment \<times> task \<Rightarrow> task op" where
  "current_assignment v = (case v of (a, t0) \<Rightarrow>
     next_op (resolved t0) (\<lambda>t.
       if \<not> tk_open t \<or> tk_current t \<noteq> Some a then refuse (Op_Conflict ''assignment is stale or closed'') else gives t))"

text \<open>\<open>_current_assignee\<close>: and the caller is the declared bot that has it.\<close>

definition current_assignee :: "task_ctx \<Rightarrow> assignment \<times> task \<Rightarrow> task op" where
  "current_assignee c v = (case v of (a, t0) \<Rightarrow>
     next_op (resolved t0) (\<lambda>_.
       if ar_assignee (as_row a) \<noteq> ac_uid (tc_caller c)
          \<or> \<not> list_ex (\<lambda>(b, x). b \<in> set (tc_members c) \<and> worker c b = Inr (tc_caller c)) (tc_bots c)
       then refuse (Op_Conflict ''only the declared current assignee can act'')
       else current_assignment v))"

definition task_payload :: "string \<Rightarrow> obj \<Rightarrow> obj" where
  "task_payload task_id kvs = (''work_item_id'', JStr task_id) # kvs"

definition accept :: "setting \<Rightarrow> task_ctx \<Rightarrow> string \<Rightarrow> string \<Rightarrow> op_result op" where
  "accept se c request_id assignment_id =
     (let semantic = semantic_digest (se_world se) [(''assignment_id'', JStr assignment_id)] in
      perform se c ''assignment.accept'' semantic None 1 nothing_early (first_assignment se c assignment_id) (\<lambda>previous _.
        next_op (show_assignment se c assignment_id) (\<lambda>view.
        next_op (current_assignee c view) (\<lambda>t.
          if tk_state t \<noteq> Some ''assigned'' then refuse (Op_Conflict ''assignment is already accepted'')
          else next_op (identities_check (se_cfg se) c [tc_caller c]) (\<lambda>_.
            next_op (raw_event se c request_id ''task'' (task_payload (wr_id (tk_row t)) [(''assignment_id'', JStr assignment_id),
                (''event'', JStr ''accepted''), (''actor'', JStr (ac_alias (tc_caller c)))]) previous 0) (\<lambda>req.
              plan_of [req] (wr_id (tk_row t)) (Some assignment_id) [] None))))))"

section \<open>Changing work\<close>

text \<open>What withdrawal and escalation ask of the task.\<close>

definition open_task :: "setting \<Rightarrow> task_ctx \<Rightarrow> string \<times> string \<Rightarrow> string \<Rightarrow> request_receipt option \<Rightarrow> task op" where
  "open_task se c words task_id previous =
     next_op (show_task se c task_id) (\<lambda>t0. next_op (resolved t0) (\<lambda>t.
       if \<not> tk_open t then refuse (Op_Conflict (''terminal task cannot be '' @ fst words))
       else if (case previous of None \<Rightarrow> False | Some r \<Rightarrow> ri_assignment (rr_intent r) \<noteq> current_id t)
       then refuse (Op_Conflict (snd words @ '' original assignment changed''))
       else gives t))"

definition withdraw :: "setting \<Rightarrow> task_ctx \<Rightarrow> string \<Rightarrow> string \<Rightarrow> string \<Rightarrow> string option \<Rightarrow> op_result op" where
  "withdraw se c request_id task_id reason by_alias =
     next_op (own_fleet c) (\<lambda>_.
     next_op (reason_given ''reason'' reason) (\<lambda>_.
     next_op (checked (provenance_alias c by_alias)) (\<lambda>who.
       let semantic = semantic_digest (se_world se) [(''task_id'', JStr task_id), (''reason'', JStr reason), (''by'', JStr who)] in
       perform se c ''task.withdraw'' semantic None 1 nothing_early (first_task se c task_id) (\<lambda>previous _.
         next_op (open_task se c (''withdrawn'', ''withdrawal's'') task_id previous) (\<lambda>t.
         next_op (provenance c by_alias) (\<lambda>source.
         next_op (identities_check (se_cfg se) c [tc_caller c, source]) (\<lambda>_.
         next_op (raw_event se c request_id ''task'' (task_payload task_id [(''event'', JStr ''cancelled''),
             (''actor'', JStr (ac_alias source)), (''reason'', JStr reason)]) previous 0) (\<lambda>req.
           plan_of [req] task_id (current_id t) [source] None))))))))"

definition escalate :: "setting \<Rightarrow> task_ctx \<Rightarrow> string \<Rightarrow> string \<Rightarrow> string \<Rightarrow> string option \<Rightarrow> op_result op" where
  "escalate se c request_id task_id question by_alias =
     next_op (own_fleet c) (\<lambda>_.
     next_op (reason_given ''question'' question) (\<lambda>_.
     next_op (checked (provenance_alias c by_alias)) (\<lambda>who.
       let semantic = semantic_digest (se_world se) [(''task_id'', JStr task_id), (''question'', JStr question), (''by'', JStr who)] in
       perform se c ''task.escalate'' semantic None 1 nothing_early (first_task se c task_id) (\<lambda>previous _.
         next_op (open_task se c (''escalated'', ''escalation's'') task_id previous) (\<lambda>t.
         next_op (provenance c by_alias) (\<lambda>source.
         next_op (identities_check (se_cfg se) c [tc_caller c, source]) (\<lambda>_.
         next_op (raw_event se c request_id ''task'' (task_payload task_id [(''assignment_id'', text_or (current_id t)),
             (''event'', JStr ''escalated''), (''actor'', JStr (ac_alias source)), (''by'', JStr (ac_alias source)),
             (''question'', JStr question)]) previous 0) (\<lambda>req.
           plan_of [req] task_id (current_id t) [source] None))))))))"

definition manager_or_local_person :: "task_ctx \<Rightarrow> bool" where
  "manager_or_local_person c \<longleftrightarrow>
     (case map_of (tc_bots c) (tc_manager c) of None \<Rightarrow> False
      | Some m \<Rightarrow> tc_caller c = m \<and> tc_caller_fleet c = Some (tc_fleet c))
     \<or> starts_with (ac_alias (tc_caller c)) ''human:'' \<and> tc_caller_fleet c = None"

definition reschedule :: "setting \<Rightarrow> task_ctx \<Rightarrow> string \<Rightarrow> string \<Rightarrow> string \<Rightarrow> string \<Rightarrow> string option \<Rightarrow> op_result op" where
  "reschedule se c request_id assignment_id expected_by reason by_alias =
     (if \<not> manager_or_local_person c
      then refuse (Op_Conflict ''rescheduling an assignment requires the current manager or a local person'')
      else next_op (reason_given ''reason'' reason) (\<lambda>_.
        next_op (checked (provenance_alias c by_alias)) (\<lambda>who.
        let semantic = semantic_digest (se_world se) [(''assignment_id'', JStr assignment_id), (''expected_by'', JStr expected_by),
            (''reason'', JStr reason), (''by'', JStr who)] in
        perform se c ''assignment.reschedule'' semantic None 1 nothing_early (first_assignment se c assignment_id) (\<lambda>previous _.
          next_op (show_assignment se c assignment_id) (\<lambda>view.
          next_op (current_assignment view) (\<lambda>t.
          next_op (provenance c by_alias) (\<lambda>source.
          next_op (identities_check (se_cfg se) c [tc_caller c, source]) (\<lambda>_.
          next_op (raw_event se c request_id ''task'' (task_payload (wr_id (tk_row t)) [(''assignment_id'', JStr assignment_id),
              (''event'', JStr ''deadline_changed''), (''actor'', JStr (ac_alias source)), (''by'', JStr (ac_alias source)),
              (''reason'', JStr reason), (''deadline'', if expected_by = OPEN_ENDED then JNull else JStr expected_by)]) previous 0) (\<lambda>req.
            plan_of [req] (wr_id (tk_row t)) (Some assignment_id) [source] None)))))))))"

definition reassign :: "setting \<Rightarrow> task_ctx \<Rightarrow> string \<Rightarrow> string \<Rightarrow> string \<Rightarrow> string \<Rightarrow> string option \<Rightarrow> string option \<Rightarrow> op_result op" where
  "reassign se c request_id task_id bot_id reason expected_by by_alias =
     next_op (own_fleet c) (\<lambda>_.
     next_op (reason_given ''reason'' reason) (\<lambda>_.
     next_op (checked (worker c bot_id)) (\<lambda>wk.
     next_op (checked (provenance_alias c by_alias)) (\<lambda>who.
       let semantic = semantic_digest (se_world se) [(''task_id'', JStr task_id), (''bot_id'', JStr bot_id), (''reason'', JStr reason),
           (''expected_by'', text_or expected_by), (''by'', JStr who)] in
       perform se c ''task.reassign'' semantic (Some (ac_uid wk)) 2 (deadline_of se c expected_by) (first_task se c task_id)
         (\<lambda>previous (due, default).
           next_op (show_task se c task_id) (\<lambda>t0. next_op (resolved t0) (\<lambda>t.
           case current_id t of None \<Rightarrow> refuse (Op_Conflict ''reassignment requires an open task with a current assignment'')
           | Some current \<Rightarrow>
             if \<not> tk_open t then refuse (Op_Conflict ''reassignment requires an open task with a current assignment'')
             else next_op (provenance c by_alias) (\<lambda>source.
               next_op (identities_check (se_cfg se) c [tc_caller c, wk, source]) (\<lambda>_.
               next_op (scope_links c (wr_project (tk_row t)) (wr_workstream (tk_row t)) (wr_repo (tk_row t))) (\<lambda>_.
               next_op (frozen_or_minted se ''asg_'' previous ri_assignment) (\<lambda>successor.
               next_op (raw_event se c request_id ''task'' (task_payload task_id [(''assignment_id'', JStr current),
                   (''event'', JStr ''reassigned''), (''successor_id'', JStr successor), (''actor'', JStr (ac_alias source)),
                   (''reason'', JStr reason)]) previous 0) (\<lambda>closing_req.
               next_op (assignment_event se c request_id successor task_id wk source due previous 1) (\<lambda>req.
                 plan_of [closing_req, req] task_id (Some successor) [wk, source] default)))))))))))))"

end
