(* ===== verification/Task_Safety.thy ===== *)
theory Task_Safety
  imports Task_Operations Request_Proof Request_Safety
begin

text \<open>
  What the operations on tasks promise: whatever an invocation of a request adds to the ledger was
  frozen in its receipt and marked as attempted before, an answer is given only of what is proved, and a
  request that is recorded is never recorded again.
\<close>

declare jget.simps [simp del]

section \<open>What a step keeps\<close>

definition keeps_op :: "(desk \<Rightarrow> desk \<Rightarrow> bool) \<Rightarrow> 'a op \<Rightarrow> bool" where
  "keeps_op R m \<longleftrightarrow> (\<forall>s r s'. m s = (r, s') \<longrightarrow> R s s')"

text \<open>Nothing is written but counters and what is left of locks and faults.\<close>

definition calm :: "desk \<Rightarrow> desk \<Rightarrow> bool" where
  "calm s s' \<longleftrightarrow> store s' = store s \<and> db (conn (plane s')) = db (conn (plane s)) \<and> saved (conn (plane s')) = saved (conn (plane s))"

named_theorems calm_rules \<open>steps that write nothing\<close>

lemma calm_preorder: "transp calm" "reflp calm"
  by (auto intro!: transpI reflpI simp: calm_def)

lemma calm_refl [simp]: "calm s s"
  by (simp add: calm_def)

lemma calm_trans: "calm s t \<Longrightarrow> calm t u \<Longrightarrow> calm s u"
  by (simp add: calm_def)

lemma keeps_opI: "(\<And>s r s'. m s = (r, s') \<Longrightarrow> R s s') \<Longrightarrow> keeps_op R m"
  by (simp add: keeps_op_def)

lemma keeps_opD: "keeps_op R m \<Longrightarrow> m s = (r, s') \<Longrightarrow> R s s'"
  by (simp add: keeps_op_def)

lemma next_op_cases:
  assumes "next_op m f s = (r, s')"
  obtains (stopped) e where "m s = (Inl e, s')" "r = Inl e" | (went) x t where "m s = (Inr x, t)" "f x t = (r, s')"
  using assms by (auto simp: next_op_def split: prod.splits sum.splits)

lemma next_op_Inr: "next_op m f s = (Inr y, s') \<longleftrightarrow> (\<exists>x t. m s = (Inr x, t) \<and> f x t = (Inr y, s'))"
  by (auto simp: next_op_def split: prod.splits sum.splits)

lemma gives_Inr [simp]: "gives x s = (Inr y, s') \<longleftrightarrow> y = x \<and> s' = s" by (auto simp: gives_def)

lemma refuse_Inr [simp]: "refuse e s \<noteq> (Inr y, s')" by (simp add: refuse_def)

lemma checked_Inr [simp]: "checked r s = (Inr y, s') \<longleftrightarrow> r = Inr y \<and> s' = s" by (auto simp: checked_def)

lemma on_store_Inr: "on_store f s = (Inr x, s') \<longleftrightarrow> (\<exists>t. f (store s) = (Inr x, t) \<and> s' = s\<lparr>store := t\<rparr>)"
  by (cases "f (store s)"; cases "fst (f (store s))") (auto simp: on_store_def)

lemma keeps_next:
  assumes "transp R" "keeps_op R m" "\<And>x. keeps_op R (f x)" shows "keeps_op R (next_op m f)"
proof (rule keeps_opI)
  fix s r s' assume "next_op m f s = (r, s')"
  then show "R s s'"
    by (cases rule: next_op_cases) (use assms in \<open>auto dest: keeps_opD intro: transpD\<close>)
qed

lemma keeps_here: "reflp R \<Longrightarrow> keeps_op R (gives x)" "reflp R \<Longrightarrow> keeps_op R (refuse e)" "reflp R \<Longrightarrow> keeps_op R (checked y)"
  by (auto intro!: keeps_opI simp: gives_def refuse_def checked_def reflpD)

lemma keeps_under: "keeps_op R m \<Longrightarrow> keeps_op R (under_reader m)"
  by (auto intro!: keeps_opI simp: under_reader_def dest: keeps_opD split: prod.splits)

lemma calm_now [calm_rules]: "keeps_op calm (gives x)" "keeps_op calm (refuse e)" "keeps_op calm (checked y)"
  using calm_preorder by (simp_all add: keeps_here)

lemma calm_next [calm_rules]: "keeps_op calm m \<Longrightarrow> (\<And>x. keeps_op calm (f x)) \<Longrightarrow> keeps_op calm (next_op m f)"
  by (rule keeps_next [OF calm_preorder(1)])

lemma calm_split [calm_rules]:
  "keeps_op calm m \<Longrightarrow> keeps_op calm m' \<Longrightarrow> keeps_op calm (if b then m else m')"
  "keeps_op calm n \<Longrightarrow> (\<And>x. keeps_op calm (f x)) \<Longrightarrow> keeps_op calm (case a of None \<Rightarrow> n | Some x \<Rightarrow> f x)"
  "(\<And>e. keeps_op calm (g e)) \<Longrightarrow> (\<And>x. keeps_op calm (f x)) \<Longrightarrow> keeps_op calm (case v of Inl e \<Rightarrow> g e | Inr x \<Rightarrow> f x)"
  "(\<And>x y. keeps_op calm (h x y)) \<Longrightarrow> keeps_op calm (case p of (x, y) \<Rightarrow> h x y)"
  by (simp_all split: option.split sum.split prod.split)

lemma calm_on_plane: "keeps same_db m \<Longrightarrow> keeps_op calm (reading m)"
  unfolding keeps_op_def reading_def on_plane_def on_db_def calm_def
  by (auto simp: same_db_def split: prod.splits dest: keepsD)

lemma calm_reading [calm_rules]: "keeps_op calm (reading (query f))" "keeps_op calm (reading (mint_hex w))" "keeps_op calm (reading (now_iso w))"
  by (rule calm_on_plane; rule keeps_query keeps_mint)+

lemma calm_locks [calm_rules]: "keeps_op calm check_locks" "keeps_op calm (take_lock t)"
proof -
  show "keeps_op calm check_locks"
    by (auto intro!: keeps_opI simp: check_locks_def calm_def split: list.splits option.splits)
  then show "keeps_op calm (take_lock t)" unfolding take_lock_def by (intro calm_rules)
qed

lemma calm_load: "keeps_op calm (on_store (\<lambda>s. (load a s, s)))"
  by (auto intro!: keeps_opI simp: on_store_def calm_def)

lemma calm_reconcile [calm_rules]: "keeps_op calm (reconcile se r)"
proof -
  have "keeps_op calm (reading (reconcile_facts w fs))" for w fs
    by (auto intro!: keeps_opI simp: reading_def on_plane_def on_db_def calm_def split: prod.splits dest!: reconcile_kept)
  then show ?thesis unfolding reconcile_def by (intro calm_rules)
qed

lemma calm_open [calm_rules]: "keeps_op calm (open_reader se)"
proof -
  have k: "keeps_op calm (reading (require_current_schema (se_cfg se)))" by (rule calm_on_plane) (rule require_keeps)
  show ?thesis
  proof (rule keeps_opI)
    fix s r s' assume "open_reader se s = (r, s')"
    then show "calm s s'"
      using k by (auto simp: open_reader_def refuse_def keeps_op_def split: if_splits prod.splits sum.splits op_error.splits)
  qed
qed

lemma calm_checks [calm_rules]:
  "keeps_op calm (own_fleet c)" "keeps_op calm (reason_given f r)" "keeps_op calm (identities_check cfg c actors)"
  "keeps_op calm (show_task se c t)" "keeps_op calm (show_assignment se c a)" "keeps_op calm (resolved t0)"
  "keeps_op calm (provenance c by)" "keeps_op calm (scope_links c p ws rp)" "keeps_op calm (checkin_decision c ck)"
  "keeps_op calm (raw_event se c rid fam pl prev i)" "keeps_op calm (frozen_or_minted se px prev g)"
  "keeps_op calm (deadline_of se c eb prev)" "keeps_op calm (nothing_early prev)" "keeps_op calm (plan_of raws t a2 acts eb)"
  unfolding own_fleet_def reason_given_def identities_check_def show_task_def show_assignment_def resolved_def provenance_def
    scope_links_def no_problem_def checkin_decision_def raw_event_def frozen_or_minted_def deadline_of_def Let_def nothing_early_def plan_of_def
  by (intro calm_rules)+

lemma calm_reads [calm_rules]:
  "keeps_op calm (first_task se c t)" "keeps_op calm (first_assignment se c a)" "keeps_op calm (current_assignment v)"
  "keeps_op calm (current_assignee c v)" "keeps_op calm (open_task se c ws t prev)"
  "keeps_op calm (assignment_event se c rid a t wk src due prev i)"
proof -
  show ca: "keeps_op calm (current_assignment v)" for v unfolding current_assignment_def by (intro calm_rules)
  show "keeps_op calm (first_task se c t)" "keeps_op calm (first_assignment se c a)" "keeps_op calm (current_assignee c v)"
    "keeps_op calm (open_task se c ws t prev)" "keeps_op calm (assignment_event se c rid a t wk src due prev i)"
    unfolding first_task_def first_assignment_def current_assignee_def open_task_def assignment_event_def by (intro calm_rules ca)+
qed


section \<open>The shape of the operations\<close>

text \<open>
  Where an operation does more than read, it records or replays, from a state that its reads led to;
  a reader's handler may change the error that comes out.
\<close>

definition same_answer :: "op_error + 'a \<Rightarrow> op_error + 'a \<Rightarrow> bool" where
  "same_answer q r \<longleftrightarrow> (\<forall>x. r = Inr x \<longleftrightarrow> q = Inr x)"

lemma same_answerD: "same_answer q (Inr x) \<Longrightarrow> q = Inr x"
  by (auto simp: same_answer_def)

definition records_from :: "setting \<Rightarrow> task_ctx \<Rightarrow> request_receipt option \<Rightarrow> desk \<Rightarrow> op_error + op_result \<Rightarrow> desk \<Rightarrow> bool" where
  "records_from se c previous t r s' \<longleftrightarrow> (\<exists>operation semantic recipient plan q. keeps_op calm plan
     \<and> answer se c (record_or_replay se c operation semantic recipient previous plan) t = (q, s') \<and> same_answer q r)"

definition works :: "setting \<Rightarrow> task_ctx \<Rightarrow> request_receipt option \<Rightarrow> op_result op \<Rightarrow> bool" where
  "works se c previous m \<longleftrightarrow> (\<forall>s r s'. m s = (r, s') \<longrightarrow>
     calm s s' \<and> (\<exists>e. r = Inl e) \<or> (\<exists>t. calm s t \<and> records_from se c previous t r s'))"

definition task_op :: "setting \<Rightarrow> task_ctx \<Rightarrow> op_result op \<Rightarrow> bool" where
  "task_op se c m \<longleftrightarrow> (\<forall>s r s'. m s = (r, s') \<longrightarrow>
     calm s s' \<and> (\<exists>e. r = Inl e)
     \<or> (\<exists>t previous. calm s t \<and> load (se_aware se) (store s) = Inr previous \<and> records_from se c previous t r s'))"

lemma records: "keeps_op calm plan \<Longrightarrow> works se c previous (answer se c (record_or_replay se c operation semantic recipient previous plan))"
  unfolding works_def records_from_def same_answer_def using calm_refl by blast

lemma reads:
  assumes "keeps_op calm m" "\<And>x. works se c previous (f x)" shows "works se c previous (next_op m f)"
  unfolding works_def
proof (intro allI impI)
  fix s r s' assume "next_op m f s = (r, s')"
  then show "calm s s' \<and> (\<exists>e. r = Inl e) \<or> (\<exists>t. calm s t \<and> records_from se c previous t r s')"
  proof (cases rule: next_op_cases)
    case (went x t)
    from keeps_opD [OF assms(1) went(1)] have st: "calm s t" .
    from assms(2) [of x] went(2) have "calm t s' \<and> (\<exists>e. r = Inl e) \<or> (\<exists>u. calm t u \<and> records_from se c previous u r s')"
      by (simp add: works_def)
    with st show ?thesis using calm_trans by blast
  qed (use keeps_opD [OF assms(1)] in blast)
qed

lemma under:
  assumes "works se c previous m" shows "works se c previous (under_reader m)"
  unfolding works_def
proof (intro allI impI)
  fix s r s' assume "under_reader m s = (r, s')"
  then obtain q where q: "m s = (q, s')" "r = map_sum storage_error id q" by (auto simp: under_reader_def split: prod.splits)
  have e: "same_answer q r" "(\<exists>e. q = Inl e) \<longrightarrow> (\<exists>e. r = Inl e)" unfolding q(2) same_answer_def by (cases q; auto)+
  from assms q(1) have "calm s s' \<and> (\<exists>e. q = Inl e) \<or> (\<exists>t. calm s t \<and> records_from se c previous t q s')"
    by (simp add: works_def)
  then show "calm s s' \<and> (\<exists>e. r = Inl e) \<or> (\<exists>t. calm s t \<and> records_from se c previous t r s')"
  proof (elim disjE exE conjE)
    fix t assume "calm s t" "records_from se c previous t q s'"
    moreover have "records_from se c previous t r s'"
      using calculation(2) e(1) unfolding records_from_def same_answer_def by metis
    ultimately show ?thesis by blast
  qed (use e(2) in blast)
qed

lemma map_sum_Inr: "map_sum f id r = Inr x \<longleftrightarrow> r = Inr x"
  by (cases r) auto

lemma existing_Inr:
  assumes "existing se c operation semantic recipient n notification current s = (Inr previous, t)"
  shows "calm s t \<and> load (se_aware se) (store s) = Inr previous"
  using assms unfolding existing_def next_op_Inr
proof (elim exE conjE)
  fix found u
  assume l: "on_store (\<lambda>s. (load (se_aware se) s, s)) s = (Inr found, u)"
    and f: "(case found of None \<Rightarrow> gives None | Some r \<Rightarrow>
      if same_request c operation semantic recipient n notification current r then gives (Some r)
      else refuse (Op_Receipt (Receipt_Conflict ''request UUID already has different semantics or identities''))) u = (Inr previous, t)"
  from l have "load (se_aware se) (store s) = Inr found" "u = s" by (auto simp: on_store_def map_sum_Inr)
  moreover from f have "previous = found" "t = u" by (cases found; simp split: if_splits)+
  ultimately show ?thesis by simp
qed

lemma existing_calm: "keeps_op calm (existing se c operation semantic recipient n notification current)"
  unfolding existing_def by (intro calm_rules calm_load)

lemma looks:
  assumes "\<And>previous. works se c previous (f previous)"
  shows "task_op se c (next_op (existing se c operation semantic recipient n notification current) f)"
  unfolding task_op_def
proof (intro allI impI)
  fix s r s' assume "next_op (existing se c operation semantic recipient n notification current) f s = (r, s')"
  then show "calm s s' \<and> (\<exists>e. r = Inl e)
     \<or> (\<exists>t previous. calm s t \<and> load (se_aware se) (store s) = Inr previous \<and> records_from se c previous t r s')"
  proof (cases rule: next_op_cases)
    case (went previous t)
    from existing_Inr [OF went(1)] have st: "calm s t" "load (se_aware se) (store s) = Inr previous" by simp_all
    from assms [of previous] went(2) have "calm t s' \<and> (\<exists>e. r = Inl e) \<or> (\<exists>u. calm t u \<and> records_from se c previous u r s')"
      by (simp add: works_def)
    with st show ?thesis using calm_trans by blast
  qed (use keeps_opD [OF existing_calm] in blast)
qed

lemma checks:
  assumes "keeps_op calm m" "\<And>x. task_op se c (f x)" shows "task_op se c (next_op m f)"
  unfolding task_op_def
proof (intro allI impI)
  fix s r s' assume "next_op m f s = (r, s')"
  then show "calm s s' \<and> (\<exists>e. r = Inl e)
     \<or> (\<exists>t previous. calm s t \<and> load (se_aware se) (store s) = Inr previous \<and> records_from se c previous t r s')"
  proof (cases rule: next_op_cases)
    case (went x t)
    from keeps_opD [OF assms(1) went(1)] have st: "calm s t" "store t = store s" by (simp_all add: calm_def)
    from assms(2) [of x] went(2) have "calm t s' \<and> (\<exists>e. r = Inl e)
        \<or> (\<exists>u previous. calm t u \<and> load (se_aware se) (store t) = Inr previous \<and> records_from se c previous u r s')"
      by (simp add: task_op_def)
    with st show ?thesis unfolding st(2) using calm_trans [OF st(1)] by blast
  qed (use keeps_opD [OF assms(1)] in blast)
qed

lemma stops: "task_op se c (refuse e)"
  by (auto simp: task_op_def refuse_def)

lemma task_op_if: "(b \<Longrightarrow> task_op se c m) \<Longrightarrow> (\<not> b \<Longrightarrow> task_op se c m') \<Longrightarrow> task_op se c (if b then m else m')"
  by simp

lemma perform_task:
  assumes "\<And>previous. keeps_op calm (early previous)" "keeps_op calm first" "\<And>previous x. keeps_op calm (plan previous x)"
  shows "task_op se c (perform se c operation semantic recipient n early first plan)"
  unfolding perform_def by (intro looks reads under records assms calm_rules)

lemma operations_shaped:
  "task_op se c (admit se c rid title body repo project workstream by)"
  "task_op se c (assign se c rid t wk eb ck by)"
  "task_op se c (accept se c rid a)"
  "task_op se c (withdraw se c rid t reason by)"
  "task_op se c (escalate se c rid t question by)"
  "task_op se c (reschedule se c rid a eb' reason by)"
  "task_op se c (reassign se c rid t wk reason eb by)"
  unfolding admit_def assign_def accept_def withdraw_def escalate_def reschedule_def reassign_def Let_def
  by (intro checks looks stops task_op_if perform_task reads under records calm_rules)+


section \<open>How a request grows\<close>

text \<open>Only events of a set are added to the ledger, and no transaction is left open.\<close>

definition adds_only :: "string set \<Rightarrow> session \<Rightarrow> session \<Rightarrow> bool" where
  "adds_only E s s' \<longleftrightarrow> (saved s = None \<longrightarrow> saved s' = None
     \<and> (\<forall>l \<in> set (ledger (db s')). l \<in> set (ledger (db s)) \<or> l_event l \<in> E))"

lemma adds_only_preorder: "transp (adds_only E)" "reflp (adds_only E)"
proof -
  show "transp (adds_only E)" by (rule transpI) (simp add: adds_only_def, blast)
  show "reflp (adds_only E)" by (simp add: reflp_def adds_only_def)
qed

lemma adds_only_mono: "adds_only E s s' \<Longrightarrow> E \<subseteq> F \<Longrightarrow> adds_only F s s'"
  by (auto simp: adds_only_def)

lemma same_adds_only: "db s' = db s \<Longrightarrow> saved s' = saved s \<Longrightarrow> adds_only E s s'"
  by (simp add: adds_only_def)

lemma same_db_adds_only: "same_db s s' \<Longrightarrow> adds_only E s s'"
  by (simp add: same_db_def adds_only_def)

lemma lands_ledger:
  "lands now prepared rs d d' \<Longrightarrow> l \<in> set (ledger d') \<Longrightarrow> l \<in> set (ledger d) \<or> l_event l \<in> fst ` set prepared"
  by (induction rule: lands.induct) (auto simp: adds_nothing_def adds_row_def)

definition item_ids :: "item list \<Rightarrow> string set" where
  "item_ids items = (\<lambda>it. text_of (fld (fst it) ''event_id'')) ` set items"

lemma ingest_adds_only:
  assumes "list_all classed items" "list_all (\<lambda>it. truthy (fld (fst it) ''event_id'')) items"
  shows "keeps (adds_only (item_ids items)) (ingest_many w h pre items)"
proof (rule keepsI)
  fix s r s' assume i: "ingest_many w h pre items s = (r, s')"
  show "adds_only (item_ids items) s s'" unfolding adds_only_def
  proof (intro impI)
    assume idle: "saved s = None"
    from ingest_outcome [OF i idle assms(1)] obtain now prepared where p: "prepared_for items prepared"
      and o': "batch_outcome now prepared r s s'" by blast
    from p assms(2) have ids: "fst ` set prepared \<subseteq> item_ids items"
    proof (intro subsetI)
      fix e assume "e \<in> fst ` set prepared"
      then obtain it where it: "(e, it) \<in> set prepared" by auto
      with p have "it \<in> set items" "truthy (fld (fst it) ''event_id'') \<longrightarrow> e = text_of (fld (fst it) ''event_id'')"
        by (force simp: prepared_for_def list_all_iff)+
      with assms(2) show "e \<in> item_ids items" by (auto simp: item_ids_def list_all_iff)
    qed
    have "db s' = db s \<or> (\<exists>rs. lands now prepared rs (db s) (db s'))"
      using o' by (auto simp: batch_outcome_def unchanged_or_doubt_def stored_def split: sum.splits)
    with ids lands_ledger have "\<forall>l \<in> set (ledger (db s')). l \<in> set (ledger (db s)) \<or> l_event l \<in> item_ids items" by fastforce
    with o' show "saved s' = None \<and> (\<forall>l \<in> set (ledger (db s')). l \<in> set (ledger (db s)) \<or> l_event l \<in> item_ids items)"
      by (simp add: batch_outcome_def)
  qed
qed

lemma closing_adds_only: "keeps (adds_only E) m \<Longrightarrow> keeps (adds_only E) (closing cfg m)"
proof (rule keepsI)
  fix s r s' assume m: "keeps (adds_only E) m" and c: "closing cfg m s = (r, s')"
  obtain q t where q: "m s = (q, t)" by (cases "m s")
  from keepsD [OF m q] have st: "adds_only E s t" .
  obtain x u where u: "stmt t = (x, u)" by (cases "stmt t")
  from keepsD [OF keeps_stmt u] have "adds_only E t u" by (rule same_db_adds_only)
  with st have "adds_only E s u" using transpD [OF adds_only_preorder(1)] by blast
  with st c q u show "adds_only E s s'" by (cases x) (auto simp: closing_def split: if_splits)
qed

lemma attempt_adds_only:
  assumes "list_all classed items" "list_all (\<lambda>it. truthy (fld (fst it) ''event_id'')) items"
  shows "keeps (adds_only (item_ids items)) (attempt w cfg pre items)"
proof -
  note same = keeps_mono [OF _ same_db_adds_only]
  show ?thesis unfolding attempt_def
    by (intro keeps_andthen keeps_if keeps_now adds_only_preorder closing_adds_only ingest_adds_only assms
        same [OF preflight_keeps] same [OF require_keeps] same [OF keeps_stmt])
qed

lemma deliver_adds_only:
  assumes "list_all classed items" "list_all (\<lambda>it. truthy (fld (fst it) ''event_id'')) items"
  shows "keeps (\<lambda>s s'. adds_only (item_ids items) (conn s) (conn s')) (deliver k w cfg True pre captured items)"
    (is "keeps ?R _")
proof -
  have p: "transp ?R" "reflp ?R"
    using adds_only_preorder [of "item_ids items"] unfolding transp_def reflp_def by blast+
  have a: "keeps ?R (on_db (attempt w cfg pre items))"
    by (rule keepsI) (auto simp: on_db_def split: prod.splits dest: keepsD [OF attempt_adds_only [OF assms]])
  have f: "keeps ?R (after_attempt w cfg True captured nxt r)" if "\<And>m. nxt = Some m \<Longrightarrow> keeps ?R m" for nxt r
    using that p(2) unfolding after_attempt_def
    by (auto simp del: ret_simp raise_simp split: sum.splits plane_error.splits intro!: keeps_if keeps_now)
  show ?thesis
  proof (induction k)
    case 0
    show ?case
    proof (rule keepsI)
      fix s r s' assume d: "deliver 0 w cfg True pre captured items s = (r, s')"
      obtain q t where q: "on_db (attempt w cfg pre items) s = (q, t)" by (cases "on_db (attempt w cfg pre items) s")
      with d have "after_attempt w cfg True captured None q t = (r, s')" by simp
      from transpD [OF p(1) keepsD [OF a q] keepsD [OF f this]] show "?R s s'" by simp
    qed
  next
    case (Suc k)
    show ?case
    proof (rule keepsI)
      fix s r s' assume d: "deliver (Suc k) w cfg True pre captured items s = (r, s')"
      obtain q t where q: "on_db (attempt w cfg pre items) s = (q, t)" by (cases "on_db (attempt w cfg pre items) s")
      with d have "after_attempt w cfg True captured (Some (deliver k w cfg True pre captured items)) q t = (r, s')" by simp
      from transpD [OF p(1) keepsD [OF a q] keepsD [OF f this]] Suc show "?R s s'" by simp
    qed
  qed
qed

text \<open>The ids that a batch of requests may add: those the requests come with.\<close>

definition raw_ids :: "obj list \<Rightarrow> string set" where
  "raw_ids raws = (\<lambda>r. text_of (fld r ''event_id'')) ` set raws"

lemma carried_items:
  "validate_all (validate_request sha x) cs = Some its \<Longrightarrow> list_all2 carries (map JObj raws) cs
     \<Longrightarrow> list_all (\<lambda>r. truthy (fld r ''event_id'')) raws
     \<Longrightarrow> list_all classed its \<and> list_all (\<lambda>it. truthy (fld (fst it) ''event_id'')) its \<and> item_ids its = raw_ids raws"
proof (induction raws arbitrary: cs its)
  case (Cons r raws)
  from Cons.prems(2) obtain c cs' where cs: "cs = c # cs'" "carries (JObj r) c" "list_all2 carries (map JObj raws) cs'"
    by (auto simp: list_all2_Cons1)
  from Cons.prems(1) obtain it its' where its: "its = it # its'" "validate_request sha x c = Inr it"
    "validate_all (validate_request sha x) cs' = Some its'" unfolding cs(1) by (auto split: sum.splits option.splits)
  obtain env cls p where it: "it = (env, cls, p)" by (cases it) auto
  from validate_request_ids [OF its(2) [unfolded it]] cs(2) Cons.prems(3)
  have "fld env ''event_id'' = fld r ''event_id''" "truthy (fld r ''event_id'')" by (auto simp: carries_def)
  moreover have "classed it" using validate_request_class [OF its(2) [unfolded it]] by (simp add: it classed_def)
  moreover note Cons.IH [OF its(3) cs(3)] Cons.prems(3)
  ultimately show ?case unfolding its(1) by (simp add: it item_ids_def raw_ids_def)
qed (simp_all add: item_ids_def raw_ids_def)

lemma emission_adds_only:
  assumes "list_all (\<lambda>r. truthy (fld r ''event_id'')) raws"
  shows "keeps (\<lambda>s s'. adds_only (raw_ids raws) (conn s) (conn s')) (emit_batch w cfg True None (map JObj raws))"
proof (rule keepsI)
  fix s r s' assume "emit_batch w cfg True None (map JObj raws) s = (r, s')"
  then have e: "andthen (on_db (prepare_each w (em_capture cfg) None (map JObj raws))) (\<lambda>(captured, items).
        deliver (LOCK_RETRY_ATTEMPTS - 1) w cfg True None captured items) s = (r, s')"
    by (simp add: emit_batch_def)
  have k: "same_db (conn s) (conn t)" if "on_db (prepare_each w (em_capture cfg) None (map JObj raws)) s = (q, t)" for q t
    using that by (auto simp: on_db_def split: prod.splits dest: keepsD [OF prepare_each_keeps])
  from e show "adds_only (raw_ids raws) (conn s) (conn s')"
  proof (cases rule: andthen_cases)
    case (stopped x)
    then show ?thesis using k same_db_adds_only by blast
  next
    case (went ci t)
    obtain cs its where ci: "ci = (cs, its)" by (cases ci)
    from went(1) obtain u where "prepare_each w (em_capture cfg) None (map JObj raws) (conn s) = (Inr (cs, its), u)"
      by (auto simp: on_db_def ci split: prod.splits)
    note pe = prepare_each_carries [OF this]
    from carried_items [OF conjunct1 [OF pe] conjunct2 [OF pe] assms]
    have i: "list_all classed its" "list_all (\<lambda>it. truthy (fld (fst it) ''event_id'')) its" "item_ids its = raw_ids raws" by simp_all
    from went(2) have "deliver (LOCK_RETRY_ATTEMPTS - 1) w cfg True None cs its t = (r, s')" by (simp add: ci)
    from keepsD [OF deliver_adds_only [OF i(1,2)] this] have "adds_only (raw_ids raws) (conn t) (conn s')" by (simp add: i(3))
    with same_db_adds_only [OF k [OF went(1)]] adds_only_preorder(1) show ?thesis by (meson transpD)
  qed
qed


text \<open>The events that a request may add: those frozen in its receipt, once its recording is marked as attempted.\<close>

definition attempted :: "request_receipt \<Rightarrow> bool" where
  "attempted q \<longleftrightarrow> rr_stages q \<noteq> [] \<and> so_status (rr_stages q ! 0) \<noteq> ''prepared''"

definition fact_ids :: "request_receipt \<Rightarrow> string set" where
  "fact_ids q = ef_event ` set (recording_facts q)"

definition may_add :: "setting \<Rightarrow> request_store \<Rightarrow> string set" where
  "may_add se st = (case load (se_aware se) st of Inr (Some q) \<Rightarrow> if attempted q then fact_ids q else {} | _ \<Rightarrow> {})"

lemma fact_ids_intent: "rr_intent q' = rr_intent q \<Longrightarrow> fact_ids q' = fact_ids q"
  by (simp add: fact_ids_def recording_facts_def)

lemma evolves_attempted: "evolves q q' \<Longrightarrow> attempted q \<Longrightarrow> attempted q'"
  by (cases "rr_stages q"; cases "rr_stages q'") (auto simp: evolves_def attempted_def stage_kept_def)

lemma may_add_mono:
  assumes "(store_step (se_aware se))\<^sup>*\<^sup>* s s'" shows "may_add se s \<subseteq> may_add se s'"
proof (cases "\<exists>q. load (se_aware se) s = Inr (Some q) \<and> attempted q")
  case True
  then obtain q where q: "load (se_aware se) s = Inr (Some q)" "attempted q" by blast
  from life_evolves [OF assms q(1)] obtain q' where q': "load (se_aware se) s' = Inr (Some q')" "evolves q q'" by blast
  with q evolves_attempted [OF q'(2)] fact_ids_intent [of q' q] show ?thesis by (simp add: may_add_def evolves_def)
qed (auto simp: may_add_def split: sum.split option.split)

definition grows :: "setting \<Rightarrow> desk \<Rightarrow> desk \<Rightarrow> bool" where
  "grows se s s' \<longleftrightarrow> (store_step (se_aware se))\<^sup>*\<^sup>* (store s) (store s')
     \<and> adds_only (may_add se (store s')) (conn (plane s)) (conn (plane s'))"

lemma growth_preorder: "transp (grows se)" "reflp (grows se)"
proof -
  show "reflp (grows se)" using adds_only_preorder(2) by (auto simp: reflp_def grows_def)
  show "transp (grows se)"
  proof (rule transpI)
    fix s t u assume g: "grows se s t" "grows se t u"
    then have a: "adds_only (may_add se (store u)) (conn (plane s)) (conn (plane t))"
      using may_add_mono adds_only_mono unfolding grows_def by blast
    with g show "grows se s u" using transpD [OF adds_only_preorder(1) a] unfolding grows_def by auto
  qed
qed

lemma calm_grows: "calm s s' \<Longrightarrow> grows se s s'"
  by (simp add: calm_def grows_def same_adds_only)

lemma calm_grows_op: "keeps_op calm m \<Longrightarrow> keeps_op (grows se) m"
  by (auto simp: keeps_op_def intro: calm_grows)

lemma on_store_grows:
  assumes "\<And>s r s'. f s = (r, s') \<Longrightarrow> store_step (se_aware se) s s'" shows "keeps_op (grows se) (on_store f)"
proof (rule keeps_opI)
  fix s r s' assume "on_store f s = (r, s')"
  then obtain q t where f: "f (store s) = (q, t)" "s' = s\<lparr>store := t\<rparr>" by (auto simp: on_store_def split: prod.splits)
  from assms [OF f(1)] show "grows se s s'" by (simp add: f(2) grows_def same_adds_only r_into_rtranclp)
qed

lemma update_step: "receipt_op_of f \<Longrightarrow> update a f s = (q, s') \<Longrightarrow> store_step a s s'"
  using store_step.updates [where s = s and fs = "st_faults s"] by simp

lemma prepare_step: "prepare_request a intent s = (q, s') \<Longrightarrow> store_step a s s'"
  using store_step.prepares [where s = s and fs = "st_faults s"] by simp

lemma store_grows:
  "receipt_op_of f \<Longrightarrow> keeps_op (grows se) (on_store (update (se_aware se) f))"
  "keeps_op (grows se) (on_store (prepare_request (se_aware se) intent))"
  by (rule on_store_grows, erule update_step prepare_step, assumption?)+

lemma put_outcome_grows: "keeps_op (grows se) (put_outcome se st)"
  unfolding put_outcome_def by (rule store_grows) (rule receipt_op_of.intros)

text \<open>An update that answers has written the receipt that there was.\<close>

lemma update_answers:
  assumes "update a f s = (Inr r, s')" "receipt_op_of f" "\<And>r0. f r0 \<noteq> Inr Kept" "load a s = Inr (Some r0)"
  shows "load a s' = Inr (Some r)" "f r0 = Inr (Written r)" "evolves r0 r"
proof -
  obtain r1 where r1: "f r0 = Inr (Written r1)" "save a r1 s = (Inr r, s')"
  proof (cases "f r0")
    case (Inr ch)
    with assms(1,4) assms(3) [of r0] that show ?thesis by (cases ch) (auto simp: update_def)
  qed (use assms(1,4) in \<open>simp add: update_def\<close>)
  with save_Inr show f: "f r0 = Inr (Written r)" by blast
  from update_load [OF assms(1,2)] assms(4) f show "evolves r0 r" using evolves_refl by auto
  from update_written [OF assms(1-3)] show "load a s' = Inr (Some r)" by blast
qed

lemma stage_ops_write:
  "begin_attempt r \<noteq> Inr Kept" "stage_request i b r \<noteq> Inr Kept" "outcome_request i st r \<noteq> Inr Kept"
  by (auto simp: begin_attempt_def stage_request_def outcome_request_def Let_def split: if_splits)

lemma prepare_answers:
  assumes "prepare_request a intent s = (Inr r, s')"
  shows "load a s' = Inr (Some r) \<and> rr_intent r = intent"
proof -
  let ?c = "\<lparr>rr_id = st_id s, rr_intent = intent, rr_stages = map (\<lambda>_. prepared_outcome) (ri_stages intent),
      rr_attempt = 0, rr_attempts = [], rr_version = FORMAT_VERSION\<rparr>"
  from assms have f: "ri_fleet intent = st_fleet s" by (auto simp: prepare_request_def Let_def split: if_splits)
  from assms consider "load a s = Inr (Some r)" "rr_intent r = intent" "s' = s" | "save a ?c s = (Inr r, s')"
    by (auto simp: prepare_request_def Let_def split: if_splits sum.splits option.splits)
  then show ?thesis
  proof cases
    case 2
    from save_Inr [OF 2] save_load [OF 2] f show ?thesis by auto
  qed simp
qed

section \<open>Events and their facts\<close>

lemma all_right_Inr: "all_right xs = Inr ys \<Longrightarrow> xs = map Inr ys"
  by (induction xs arbitrary: ys) (auto split: sum.splits)

lemma fact_of_raw_event:
  assumes "fact_of_raw se c ps modes req = Inr f"
  shows "truthy (fld req ''event_id'') \<and> ef_event f = text_of (fld req ''event_id'')"
proof -
  from assms obtain env cls p cap where v: "validate_item (se_world se) modes req = Inr ((env, cls, p), cap)"
    and f: "expected_fact (se_world se) (tc_host c) (tc_fleet c) ps [] (env, cls, p) = Inr (Inr f)"
    by (auto simp: fact_of_raw_def split: sum.splits)
  from validate_request_ids [OF validate_item_valid [OF v]] validate_item_carries [OF v]
  have "fld env ''event_id'' = fld req ''event_id''" by simp
  with f show ?thesis by (auto elim: expected_factE)
qed

lemma prepare_plan_answers:
  assumes "prepare_plan se c operation semantic recipient p s = (Inr r, s')"
  shows "load (se_aware se) (store s') = Inr (Some r) \<and> list_all (\<lambda>q. truthy (fld q ''event_id'')) (pl_raws p)
    \<and> fact_ids r = raw_ids (pl_raws p)"
proof -
  from assms obtain modes facts t where f: "all_right (map (fact_of_raw se c (frozen_parties c (pl_actors p)) modes) (pl_raws p)) = Inr facts"
    and o': "prepare_request (se_aware se) (plan_intent c operation semantic recipient p facts) (store s) = (Inr r, t)" "store s' = t"
    by (auto simp: prepare_plan_def next_op_Inr on_store_Inr)
  from prepare_answers [OF o'(1)] o'(2) have l: "load (se_aware se) (store s') = Inr (Some r)"
    and i: "rr_intent r = plan_intent c operation semantic recipient p facts" by simp_all
  have rf: "recording_facts r = facts" by (simp add: recording_facts_def i plan_intent_def)
  have "list_all2 (\<lambda>q f. truthy (fld q ''event_id'') \<and> ef_event f = text_of (fld q ''event_id'')) (pl_raws p) facts"
    using all_right_Inr [OF f] fact_of_raw_event
    by (auto simp: list_all2_conv_all_nth list_eq_iff_nth_eq)
  then have "list_all (\<lambda>q. truthy (fld q ''event_id'')) (pl_raws p) \<and> ef_event ` set facts = raw_ids (pl_raws p)"
    by (induction rule: list_all2_induct) (auto simp: raw_ids_def)
  with l show ?thesis by (simp add: fact_ids_def rf)
qed


section \<open>What an invocation adds\<close>

lemma emit_recording_adds:
  assumes "list_all (\<lambda>r. truthy (fld r ''event_id'')) raws" "emit_recording se raws s = (r, s')"
  shows "store s' = store s \<and> adds_only (raw_ids raws) (conn (plane s)) (conn (plane s'))"
proof -
  obtain q d where e: "emit_batch (se_world se) (se_cfg se) True None (map JObj raws) (plane s) = (q, d)"
    by (cases "emit_batch (se_world se) (se_cfg se) True None (map JObj raws) (plane s)")
  from keepsD [OF emission_adds_only [OF assms(1)] e] assms(2) e show ?thesis
    by (auto simp: emit_recording_def split: sum.splits)
qed

lemma finish_grows: "keeps_op (grows se) (finish se)"
proof (rule keeps_opI)
  fix s r s' assume f: "finish se s = (r, s')"
  obtain q where "put_outcome se ''committed'' s = (q, s')"
    using f by (auto simp: finish_def split: prod.splits sum.splits op_error.splits receipt_error.splits)
  from keeps_opD [OF put_outcome_grows this] show "grows se s s'" .
qed

text \<open>The commit of a prepared request: marked first, emitted then.\<close>

lemma commit_grows:
  assumes "load (se_aware se) (store s) = Inr (Some q)" "list_all (\<lambda>r. truthy (fld r ''event_id'')) raws" "fact_ids q = raw_ids raws"
    and "commit_plan se p raws s = (r, s')"
  shows "grows se s s'"
proof -
  note tr = transpD [OF growth_preorder(1)]
  note G = keeps_next [OF growth_preorder(1)] keeps_here [OF growth_preorder(2)]
  let ?rest = "\<lambda>p'. if fp_status p' = Facts_Conflict
       then refuse (Op_Receipt (Receipt_Conflict ''committed result differs from the frozen request facts''))
       else if fp_status p' \<noteq> Facts_Committed then refuse (Op_Recording (fp_reason p') False) else finish se"
  have last: "keeps_op (grows se) (next_op (reconcile se p) ?rest)"
    by (intro G calm_grows_op [OF calm_reconcile]) (simp add: G finish_grows)
  have mid: "grows se t u" if m: "load (se_aware se) (store t) = Inr (Some q2)" "attempted q2" "fact_ids q2 = raw_ids raws"
    "next_op (emit_recording se raws) (\<lambda>_. next_op (reconcile se p) ?rest) t = (x, u)" for t q2 x u
  proof -
    have e: "grows se t v" if "emit_recording se raws t = (y, v)" for y v
      using emit_recording_adds [OF assms(2) that] m(1-3) by (auto simp: grows_def may_add_def)
    from m(4) show ?thesis
      by (cases rule: next_op_cases) (use e tr keeps_opD [OF last] in blast)+
  qed
  have staged: "grows se t u" if m: "load (se_aware se) (store t) = Inr (Some q1)" "fact_ids q1 = raw_ids raws"
    "next_op (on_store (update (se_aware se) (stage_request 0 False))) (\<lambda>_. next_op (emit_recording se raws)
      (\<lambda>_. next_op (reconcile se p) ?rest)) t = (x, u)" for t q1 x u
    using m(3)
  proof (cases rule: next_op_cases)
    case (stopped e)
    then show ?thesis using keeps_opD [OF store_grows(1) [OF receipt_op_of.intros(7)]] by blast
  next
    case (went q2 v)
    from went(1) have o': "update (se_aware se) (stage_request 0 False) (store t) = (Inr q2, store v)" by (auto simp: on_store_Inr)
    note ua = update_answers [OF o' receipt_op_of.intros(7) stage_ops_write(2) m(1)]
    from ua(2) have "attempted q2" by (auto simp: stage_request_def Let_def put_stage_def attempted_def split: if_splits)
    moreover have "fact_ids q2 = raw_ids raws" using ua(3) m(2) fact_ids_intent [of q2 q1] by (simp add: evolves_def)
    ultimately have "grows se v u" using mid ua(1) went(2) by blast
    with keeps_opD [OF store_grows(1) [OF receipt_op_of.intros(7)] went(1)] tr show ?thesis by blast
  qed
  from assms(4) show ?thesis unfolding commit_plan_def
  proof (cases rule: next_op_cases)
    case (stopped e)
    then show ?thesis using calm_grows keeps_opD [OF calm_locks(1)] by blast
  next
    case (went u t)
    from keeps_opD [OF calm_locks(1) went(1)] have st: "calm s t" .
    with assms(1) have l: "load (se_aware se) (store t) = Inr (Some q)" by (simp add: calm_def)
    from went(2) have "grows se t s'"
    proof (cases rule: next_op_cases)
      case (stopped e)
      then show ?thesis using keeps_opD [OF store_grows(1) [OF receipt_op_of.intros(1)]] by blast
    next
      case (went q1 v)
      from went(1) have o': "update (se_aware se) begin_attempt (store t) = (Inr q1, store v)" by (auto simp: on_store_Inr)
      note ua = update_answers [OF o' receipt_op_of.intros(1) stage_ops_write(1) l]
      have "fact_ids q1 = raw_ids raws" using ua(3) assms(3) fact_ids_intent [of q1 q] by (simp add: evolves_def)
      from staged [OF ua(1) this went(2)] keeps_opD [OF store_grows(1) [OF receipt_op_of.intros(1)] went(1)] tr show ?thesis by blast
    qed
    with st calm_grows tr show ?thesis by blast
  qed
qed

lemma replayed_grows: "keeps_op (grows se) (replayed se previous)"
proof -
  note G = keeps_next [OF growth_preorder(1)] keeps_here [OF growth_preorder(2)]
  show ?thesis unfolding replayed_def Let_def
    by (cases previous) (auto intro!: G calm_grows_op [OF calm_reconcile] put_outcome_grows)
qed

lemma prepare_plan_grows: "keeps_op (grows se) (prepare_plan se c operation semantic recipient p)"
  unfolding prepare_plan_def
  by (intro keeps_next growth_preorder keeps_here store_grows)

lemma record_grows:
  assumes "keeps_op calm plan"
  shows "keeps_op (grows se) (record_or_replay se c operation semantic recipient previous plan)"
proof -
  note G = keeps_next [OF growth_preorder(1)] keeps_here [OF growth_preorder(2)]
  have commit: "keeps_op (grows se) (next_op (prepare_plan se c operation semantic recipient p)
      (\<lambda>r. next_op (commit_plan se r (pl_raws p)) (\<lambda>r'. gives (r', False))))" for p
  proof (rule keeps_opI)
    fix s x s' assume "next_op (prepare_plan se c operation semantic recipient p)
      (\<lambda>r. next_op (commit_plan se r (pl_raws p)) (\<lambda>r'. gives (r', False))) s = (x, s')"
    then show "grows se s s'"
    proof (cases rule: next_op_cases)
      case (stopped e)
      then show ?thesis using keeps_opD [OF prepare_plan_grows] by blast
    next
      case (went r t)
      note pa = prepare_plan_answers [OF went(1)]
      obtain y where "commit_plan se r (pl_raws p) t = (y, s')"
        using went(2) by (cases rule: next_op_cases) (auto simp: gives_def)
      from commit_grows [OF _ _ _ this] pa have "grows se t s'" by blast
      with keeps_opD [OF prepare_plan_grows went(1)] growth_preorder(1) show ?thesis by (blast dest: transpD)
    qed
  qed
  have "keeps_op (grows se) (case (ag, previous) of (True, Some r) \<Rightarrow> gives (r, True)
       | _ \<Rightarrow> next_op plan (\<lambda>p. next_op (prepare_plan se c operation semantic recipient p) (\<lambda>r.
           next_op (commit_plan se r (pl_raws p)) (\<lambda>r'. gives (r', False)))))" for ag
    by (cases ag; cases previous) (auto intro!: G commit calm_grows_op [OF assms])
  then show ?thesis unfolding record_or_replay_def by (intro G replayed_grows)
qed

lemma answer_grows: "keeps_op (grows se) m \<Longrightarrow> keeps_op (grows se) (answer se c m)"
  unfolding answer_def Let_def
  by (intro keeps_next [OF growth_preorder(1)]) (auto intro!: calm_grows_op [OF calm_next] calm_rules split: prod.split)

lemma task_op_grows: "task_op se c m \<Longrightarrow> keeps_op (grows se) m"
proof (rule keeps_opI)
  fix s r s' assume "task_op se c m" "m s = (r, s')"
  then show "grows se s s'" unfolding task_op_def records_from_def
    using calm_grows transpD [OF growth_preorder(1)] keeps_opD [OF answer_grows [OF record_grows]] by meson
qed


section \<open>What an answer rests on\<close>

definition settled :: "setting \<Rightarrow> desk \<Rightarrow> request_receipt \<Rightarrow> bool" where
  "settled se s r \<longleftrightarrow> (\<exists>q. load (se_aware se) (store s) = Inr (Some q) \<and> rr_id q = rr_id r \<and> rr_intent q = rr_intent r
     \<and> so_status (rr_stages q ! 0) = ''committed'' \<and> (\<forall>f \<in> set (recording_facts q). matches (se_world se) (db (conn (plane s))) f))"

lemma settled_calm: "calm s s' \<Longrightarrow> settled se s r \<Longrightarrow> settled se s' r"
  by (simp add: settled_def calm_def)

lemma settled_same: "settled se s r \<Longrightarrow> rr_id r' = rr_id r \<Longrightarrow> rr_intent r' = rr_intent r \<Longrightarrow> settled se s r'"
  by (simp add: settled_def)

lemma reading_Inr: "reading m s = (Inr x, s') \<longleftrightarrow> (\<exists>d. m (conn (plane s)) = (Inr x, d) \<and> s' = s\<lparr>plane := (plane s)\<lparr>conn := d\<rparr>\<rparr>)"
  by (cases "m (conn (plane s))"; cases "fst (m (conn (plane s)))") (auto simp: reading_def on_plane_def on_db_def)

lemma reconcile_committed:
  assumes "reconcile se r s = (Inr p, s')" "fp_status p = Facts_Committed"
  shows "\<forall>f \<in> set (recording_facts r). matches (se_world se) (db (conn (plane s'))) f"
proof -
  from assms(1) obtain d where d: "reconcile_facts (se_world se) (recording_facts r) (conn (plane s)) = (Inr (Inr p), d)"
    and s': "db (conn (plane s')) = db d"
    unfolding reconcile_def next_op_Inr reading_Inr by (elim exE conjE) (auto split: sum.splits)
  from reconcile_sound [OF d] assms(2) s' show ?thesis by simp
qed

lemma put_committed:
  assumes "put_outcome se ''committed'' s = (Inr q, s')" "load (se_aware se) (store s) = Inr (Some r)"
  shows "load (se_aware se) (store s') = Inr (Some q)" "so_status (rr_stages q ! 0) = ''committed''" "rr_id q = rr_id r"
    "rr_intent q = rr_intent r" "plane s' = plane s"
proof -
  from assms(1) have o': "update (se_aware se) (outcome_request 0 ''committed'') (store s) = (Inr q, store s')" "plane s' = plane s"
    by (auto simp: put_outcome_def on_store_Inr)
  note ua = update_answers [OF o'(1) receipt_op_of.intros(8) stage_ops_write(3) assms(2)]
  from ua(2) have "0 < length (rr_stages r)" "q = put_stage 0 ((rr_stages r ! 0)\<lparr>so_status := ''committed''\<rparr>) r"
    by (auto simp: outcome_request_def Let_def split: if_splits)
  then show "so_status (rr_stages q ! 0) = ''committed''" by (simp add: put_stage_def)
  from ua(3) show "rr_id q = rr_id r" "rr_intent q = rr_intent r" by (simp_all add: evolves_def)
  from ua(1) show "load (se_aware se) (store s') = Inr (Some q)" .
  from o'(2) show "plane s' = plane s" .
qed

text \<open>A replay answers for a receipt whose facts are proved, and leaves the database as it is.\<close>

lemma replayed_settled:
  assumes "replayed se (Some r) s = (Inr True, s')" "load (se_aware se) (store s) = Inr (Some r)"
  shows "settled se s' r"
proof -
  from assms(1) obtain p t where p: "reconcile se r s = (Inr p, t)" "fp_status p = Facts_Committed"
    and w: "(if so_status (rr_stages r ! 0) = ''unknown'' then next_op (put_outcome se ''committed'') (\<lambda>_. gives True)
               else if so_status (rr_stages r ! 0) \<noteq> ''committed''
               then refuse (Op_Receipt (Receipt_Conflict ''facts exist without a compatible recorded attempt''))
               else gives True) t = (Inr True, s')"
    by (auto simp: replayed_def next_op_Inr Let_def split: if_splits)
  from keeps_opD [OF calm_reconcile p(1)] assms(2) have l: "load (se_aware se) (store t) = Inr (Some r)" by (simp add: calm_def)
  note m = reconcile_committed [OF p]
  show ?thesis
  proof (cases "so_status (rr_stages r ! 0) = ''unknown''")
    case True
    with w obtain q where "put_outcome se ''committed'' t = (Inr q, s')" by (auto simp: next_op_Inr)
    note pc = put_committed [OF this l]
    from m have "\<forall>f \<in> set (recording_facts q). matches (se_world se) (db (conn (plane s'))) f"
      by (simp add: recording_facts_def pc(4,5))
    with pc show ?thesis unfolding settled_def by blast
  next
    case False
    with w have "s' = t" "so_status (rr_stages r ! 0) = ''committed''" by (simp_all split: if_splits)
    with l m show ?thesis unfolding settled_def by blast
  qed
qed

lemma emit_recording_store: "emit_recording se raws s = (r, s') \<Longrightarrow> store s' = store s"
  by (auto simp: emit_recording_def split: prod.splits sum.splits)

lemma finish_Inr: "finish se s = (Inr r, s') \<Longrightarrow> put_outcome se ''committed'' s = (Inr r, s')"
  by (auto simp: finish_def split: prod.splits sum.splits op_error.splits receipt_error.splits)

lemma commit_settled:
  assumes "commit_plan se p raws s = (Inr r, s')" "load (se_aware se) (store s) = Inr (Some p)"
  shows "settled se s' r"
proof -
  from assms(1) obtain t x tb y td te f tf where
    k: "check_locks s = (Inr (), t)" and
    1: "update (se_aware se) begin_attempt (store t) = (Inr x, tb)" and
    2: "update (se_aware se) (stage_request 0 False) tb = (Inr y, td)" and
    3: "emit_recording se raws (t\<lparr>store := td\<rparr>) = (Inr (), te)" and
    4: "reconcile se p te = (Inr f, tf)" "fp_status f = Facts_Committed" and 5: "finish se tf = (Inr r, s')"
    unfolding commit_plan_def next_op_Inr on_store_Inr by (auto split: if_splits)
  from keeps_opD [OF calm_locks(1) k] assms(2) have "load (se_aware se) (store t) = Inr (Some p)" by (simp add: calm_def)
  note ux = update_answers [OF 1 receipt_op_of.intros(1) stage_ops_write(1) this]
  note uy = update_answers [OF 2 receipt_op_of.intros(7) stage_ops_write(2) ux(1)]
  have "store te = td" using emit_recording_store [OF 3] by simp
  with keeps_opD [OF calm_reconcile 4(1)] uy(1) have l: "load (se_aware se) (store tf) = Inr (Some y)" by (simp add: calm_def)
  note pc = put_committed [OF finish_Inr [OF 5] l]
  have "rr_intent r = rr_intent p" using pc(4) ux(3) uy(3) by (simp add: evolves_def)
  with reconcile_committed [OF 4] pc(5) have "\<forall>f \<in> set (recording_facts r). matches (se_world se) (db (conn (plane s'))) f"
    by (simp add: recording_facts_def)
  with pc(1,2) show ?thesis unfolding settled_def by blast
qed

lemma record_settled:
  assumes "record_or_replay se c operation semantic recipient previous plan s = (Inr (r, ag), s')"
    and "load (se_aware se) (store s) = Inr previous"
  shows "settled se s' r"
proof -
  let ?again = "\<lambda>again. case (again, previous) of (True, Some r) \<Rightarrow> gives (r, True)
       | _ \<Rightarrow> next_op plan (\<lambda>p. next_op (prepare_plan se c operation semantic recipient p) (\<lambda>r.
           next_op (commit_plan se r (pl_raws p)) (\<lambda>r'. gives (r', False))))"
  from assms(1) obtain x t where x: "replayed se previous s = (Inr x, t)" "?again x t = (Inr (r, ag), s')"
    by (auto simp: record_or_replay_def next_op_Inr)
  show ?thesis
  proof (cases "x \<and> previous \<noteq> None")
    case True
    with x assms(2) replayed_settled show ?thesis by (auto split: option.splits)
  next
    case False
    then have "?again x = next_op plan (\<lambda>p. next_op (prepare_plan se c operation semantic recipient p) (\<lambda>r.
           next_op (commit_plan se r (pl_raws p)) (\<lambda>r'. gives (r', False))))"
      by (cases x; cases previous) simp_all
    with x(2) obtain p u q v where "prepare_plan se c operation semantic recipient p u = (Inr q, v)"
      and "commit_plan se q (pl_raws p) v = (Inr r, s')" by (auto simp: next_op_Inr)
    with prepare_plan_answers [of se c operation semantic recipient p u q v] commit_settled show ?thesis by blast
  qed
qed

section \<open>Invocations\<close>

inductive operation_of :: "setting \<Rightarrow> task_ctx \<Rightarrow> string \<Rightarrow> op_result op \<Rightarrow> bool" for se c rid where
  admits: "operation_of se c rid (admit se c rid title body repo project workstream by_alias)"
| assigns: "operation_of se c rid (assign se c rid task_id bot_id expected checkin by_alias)"
| accepts: "operation_of se c rid (accept se c rid assignment_id)"
| withdraws: "operation_of se c rid (withdraw se c rid task_id reason by_alias)"
| escalates: "operation_of se c rid (escalate se c rid task_id question by_alias)"
| reschedules: "operation_of se c rid (reschedule se c rid assignment_id deadline reason by_alias)"
| reassigns: "operation_of se c rid (reassign se c rid task_id bot_id reason expected by_alias)"

lemma operation_task_op: "operation_of se c rid m \<Longrightarrow> task_op se c m"
  by (induction rule: operation_of.induct) (rule operations_shaped)+

definition new_ids :: "desk \<Rightarrow> desk \<Rightarrow> string set" where
  "new_ids t u = l_event ` (set (ledger (db (conn (plane u)))) - set (ledger (db (conn (plane t)))))"

text \<open>
  The life of a request: invocations of operations, whatever they meet at the locks, and between them anybody may
  write the plane. The set is of the events that the invocations added.
\<close>

inductive history :: "setting \<Rightarrow> desk \<Rightarrow> string set \<Rightarrow> desk \<Rightarrow> bool" for se s where
  starts: "history se s {} s"
| invokes: "history se s E t \<Longrightarrow> operation_of se c (st_id (store t)) m \<Longrightarrow> m (t\<lparr>locks := ls\<rparr>) = (r, u)
    \<Longrightarrow> history se s (E \<union> new_ids t u) u"
| others: "history se s E t \<Longrightarrow> saved (conn p) = None \<Longrightarrow> history se s E (t\<lparr>plane := p, store := (store t)\<lparr>st_faults := fs\<rparr>\<rparr>)"

lemma may_add_faults [simp]: "may_add se (st\<lparr>st_faults := fs\<rparr>) = may_add se st"
  by (simp add: may_add_def)

lemma history_adds:
  assumes "history se s E t" "saved (conn (plane s)) = None"
  shows "saved (conn (plane t)) = None \<and> E \<subseteq> may_add se (store t)"
  using assms(1)
proof (induction rule: history.induct)
  case starts
  with assms(2) show ?case by simp
next
  case (invokes E t c m ls r u)
  from keeps_opD [OF task_op_grows [OF operation_task_op [OF invokes(2)]] invokes(3)]
  have g: "(store_step (se_aware se))\<^sup>*\<^sup>* (store t) (store u)" "adds_only (may_add se (store u)) (conn (plane t)) (conn (plane u))"
    by (simp_all add: grows_def)
  from g(2) invokes(4) have "saved (conn (plane u)) = None" "new_ids t u \<subseteq> may_add se (store u)"
    by (auto simp: adds_only_def new_ids_def)
  with may_add_mono [OF g(1)] invokes(4) show ?case by blast
next
  case (others E t p fs)
  then show ?case by simp
qed

text \<open>What is committed is not planned again.\<close>

lemma replayed_committed:
  assumes "replayed se (Some q) s = (y, s')" "so_status (rr_stages q ! 0) = ''committed''"
  shows "calm s s' \<and> y \<noteq> Inr False"
proof -
  from assms have r: "next_op (reconcile se q) (\<lambda>p. if fp_status p = Facts_Committed then gives True
      else if fp_status p = Facts_Unknown then refuse (Op_Recording (fp_reason p) False)
      else refuse (Op_Receipt (Receipt_Conflict ''request fact proof conflicts with its durable receipt''))) s = (y, s')"
    by (simp add: replayed_def Let_def cong: if_cong)
  then show ?thesis
    by (cases rule: next_op_cases) (auto simp: gives_def refuse_def split: if_splits dest: keeps_opD [OF calm_reconcile])
qed

lemma record_committed:
  assumes "record_or_replay se c operation semantic recipient (Some q) plan s = (y, s')" "so_status (rr_stages q ! 0) = ''committed''"
  shows "calm s s' \<and> (\<forall>v. y = Inr v \<longrightarrow> v = (q, True))"
  using assms(1) unfolding record_or_replay_def
proof (cases rule: next_op_cases)
  case (stopped e)
  with replayed_committed [OF _ assms(2)] show ?thesis by blast
next
  case (went x t)
  from replayed_committed [OF went(1) assms(2)] have "calm s t" "x = True" by simp_all
  with went(2) show ?thesis by (auto simp: gives_def)
qed

section \<open>Properties\<close>

text \<open>What there is to say of an invocation: it was refused after reads, or it recorded or replayed.\<close>

lemma task_opE:
  assumes "task_op se c m" "m s = (r, s')"
  obtains (refused) e where "calm s s'" "r = Inl e"
  | (recorded) t previous operation semantic recipient plan q where "calm s t" "load (se_aware se) (store t) = Inr previous"
    "answer se c (record_or_replay se c operation semantic recipient previous plan) t = (q, s')" "same_answer q r"
proof -
  from assms have "calm s s' \<and> (\<exists>e. r = Inl e)
     \<or> (\<exists>t previous. calm s t \<and> load (se_aware se) (store s) = Inr previous \<and> records_from se c previous t r s')"
    by (simp add: task_op_def)
  then show ?thesis
  proof (elim disjE conjE exE)
    fix t previous assume t: "calm s t" "load (se_aware se) (store s) = Inr previous" "records_from se c previous t r s'"
    from t(1,2) have "load (se_aware se) (store t) = Inr previous" by (simp add: calm_def)
    with t recorded show ?thesis unfolding records_from_def by blast
  qed (use refused in blast)
qed

lemma answer_Inr:
  assumes "answer se c m s = (Inr x, s')"
  obtains r ag u d where "m s = (Inr (r, ag), u)" "s' = u\<lparr>plane := (plane u)\<lparr>conn := d\<rparr>\<rparr>"
    "query (find_task se (tc_fleet c) (or_task_id x)) (conn (plane u)) = (Inr (Inr (or_task x)), d)"
    "or_request x = rr_id r" "or_assignment x = ri_assignment (rr_intent r)" "or_replayed x = ag"
    "or_task_id x = (case ri_task (rr_intent r) of None \<Rightarrow> [] | Some i \<Rightarrow> i)"
  using assms by (auto simp: answer_def next_op_Inr show_task_def reading_Inr Let_def)

text \<open>
  C9. A request changes the plane at most once over. Whatever sequence of operations is invoked under one
  request id, with whatever arguments, faults and locks, and whatever others write in between: the events these
  invocations added to the ledger are among those frozen in the receipt of the request, and that receipt
  had been marked as attempted on disk.
\<close>

theorem request_adds_only_its_facts:
  assumes "history se s E t" "saved (conn (plane s)) = None" "e \<in> E"
  shows "\<exists>q. load (se_aware se) (store t) = Inr (Some q) \<and> so_status (rr_stages q ! 0) \<noteq> ''prepared''
    \<and> e \<in> ef_event ` set (recording_facts q)"
  using history_adds [OF assms(1,2)] assms(3)
  by (auto simp: may_add_def attempted_def fact_ids_def split: sum.splits option.splits if_splits)

text \<open>
  C10. An operation answers only for what is proved: when it returns, the request's file says that its recording
  is committed, the answer names the task and the assignment frozen there, every frozen event is in the
  ledger with the row that was prepared for it, and the task it shows is the one read from that database.
\<close>

theorem answered_task_is_recorded:
  assumes "operation_of se c rid m" "m s = (Inr x, s')"
  shows "\<exists>q. load (se_aware se) (store s') = Inr (Some q) \<and> so_status (rr_stages q ! 0) = ''committed''
    \<and> (\<forall>f \<in> set (recording_facts q). matches (se_world se) (db (conn (plane s'))) f)
    \<and> or_request x = rr_id q \<and> or_assignment x = ri_assignment (rr_intent q)
    \<and> or_task_id x = (case ri_task (rr_intent q) of None \<Rightarrow> [] | Some i \<Rightarrow> i)
    \<and> find_task se (tc_fleet c) (or_task_id x) (db (conn (plane s'))) = Inr (or_task x)"
proof -
  from operation_task_op [OF assms(1)] assms(2) show ?thesis
  proof (cases rule: task_opE)
    case (recorded t previous operation semantic recipient plan q)
    then have "answer se c (record_or_replay se c operation semantic recipient previous plan) t = (Inr x, s')"
      using same_answerD [of q x] by simp
    then show ?thesis
    proof (rule answer_Inr)
      fix r ag u d
      assume rec: "record_or_replay se c operation semantic recipient previous plan t = (Inr (r, ag), u)"
        and s': "s' = u\<lparr>plane := (plane u)\<lparr>conn := d\<rparr>\<rparr>"
        and v: "query (find_task se (tc_fleet c) (or_task_id x)) (conn (plane u)) = (Inr (Inr (or_task x)), d)"
        and x: "or_request x = rr_id r" "or_assignment x = ri_assignment (rr_intent r)"
          "or_task_id x = (case ri_task (rr_intent r) of None \<Rightarrow> [] | Some i \<Rightarrow> i)"
      from query_Inr [OF v] s' have "calm u s'"
        "find_task se (tc_fleet c) (or_task_id x) (db (conn (plane s'))) = Inr (or_task x)" by (auto simp: calm_def)
      with settled_calm [OF _ record_settled [OF rec recorded(2)]] x show ?thesis unfolding settled_def by metis
    qed
  qed simp
qed

text \<open>
  C11. A recorded request is never recorded again: when the file of a request says that its recording is
  committed, no operation invoked under its id changes the database or the file, and whatever answers is
  a replay of that request.
\<close>

theorem recorded_request_stays:
  assumes "operation_of se c rid m" "m s = (r, s')" "load (se_aware se) (store s) = Inr (Some q)"
    and "so_status (rr_stages q ! 0) = ''committed''"
  shows "db (conn (plane s')) = db (conn (plane s)) \<and> store s' = store s \<and> (case r of Inl e \<Rightarrow> True | Inr x \<Rightarrow> or_replayed x \<and> or_request x = rr_id q)"
proof -
  from operation_task_op [OF assms(1)] assms(2) show ?thesis
  proof (cases rule: task_opE)
    case (recorded t previous operation semantic recipient plan y)
    with assms(3) have p: "previous = Some q" by (simp add: calm_def)
    have st: "calm s s'"
    proof -
      have "calm t s'" using recorded(3) unfolding answer_def p
      proof (cases rule: next_op_cases)
        case (went v u)
        obtain r' ag where v: "v = (r', ag)" by (cases v)
        have "keeps_op calm ((\<lambda>(r, ag).
          let task_id = (case ri_task (rr_intent r) of None \<Rightarrow> [] | Some t \<Rightarrow> t) in
          next_op (show_task se c task_id) (\<lambda>t. gives \<lparr>or_request = rr_id r, or_task_id = task_id,
             or_assignment = ri_assignment (rr_intent r), or_task = t, or_replayed = ag\<rparr>)) v)"
          unfolding v Let_def by (simp add: calm_rules)
        from keeps_opD [OF this went(2)] record_committed [OF went(1) assms(4)] show ?thesis using calm_trans by blast
      qed (use record_committed [OF _ assms(4)] in blast)
      with recorded(1) show ?thesis by (rule calm_trans)
    qed
    have "or_replayed x \<and> or_request x = rr_id q" if "r = Inr x" for x
    proof -
      from that recorded(3,4) have "answer se c (record_or_replay se c operation semantic recipient (Some q) plan) t = (Inr x, s')"
        using same_answerD [of y x] by (simp add: p)
      then show ?thesis by (rule answer_Inr) (use record_committed [OF _ assms(4)] in blast)
    qed
    with st show ?thesis by (auto simp: calm_def split: sum.split)
  qed (simp add: calm_def)
qed

section \<open>An admission from beginning to end\<close>

definition op_world :: world where
  "op_world = sample_world\<lparr>w_hex := (\<lambda>n. replicate 31 CHR ''a'' @ [digit_char (n mod 10)]), w_sha := (\<lambda>s. replicate 64 CHR ''a'')\<rparr>"

definition op_cfg :: emit_config where
  "op_cfg = \<lparr>em_capture = Absent, em_version = Some 14, em_host = Inr (''host_'' @ sample_hex), em_borrowed = False, em_depth = 3\<rparr>"

definition op_setting :: setting where
  "op_setting = \<lparr>se_world = op_world, se_cfg = op_cfg, se_aware = (\<lambda>_. True), se_after = (\<lambda>t n. t)\<rparr>"

definition ann :: task_actor where
  "ann = \<lparr>ac_uid = ''actor_'' @ sample_hex, ac_alias = ''human:ann''\<rparr>"

definition op_ctx :: task_ctx where
  "op_ctx = \<lparr>tc_fleet_name = ''studio'', tc_members = [''dev''], tc_manager = ''lead'', tc_projects = [], tc_deadline = None,
     tc_host = ''host_'' @ sample_hex, tc_fleet = ''fleet_'' @ sample_hex, tc_caller = ann, tc_bots = [], tc_caller_fleet = None\<rparr>"

definition op_db :: plane_db where
  "op_db = empty_db\<lparr>identities := [
     \<lparr>i_uid = ''fleet_'' @ sample_hex, i_kind = ''fleet'', i_alias = ''studio'', i_parent = None, i_provisional = False,
       i_first_seen = [], i_last_seen = []\<rparr>,
     \<lparr>i_uid = ''actor_'' @ sample_hex, i_kind = ''actor'', i_alias = ''human:ann'', i_parent = None, i_provisional = False,
       i_first_seen = [], i_last_seen = []\<rparr>]\<rparr>"

definition op_session :: "nat \<Rightarrow> nat \<Rightarrow> session" where
  "op_session n k = fresh_session\<lparr>db := op_db, minted := n, ticks := k\<rparr>"

text \<open>The desk with a session and a file.\<close>

definition desk_at :: "session \<Rightarrow> request_store \<Rightarrow> desk" where
  "desk_at c st = \<lparr>plane = \<lparr>pend = [], claims = [], quar = [], reasons = [], conn = c, io = [], looks = 0, drawn = 0\<rparr>,
    store = st, locks = []\<rparr>"

definition op_task :: string where "op_task = ''wi_'' @ replicate 31 CHR ''a'' @ ''0''"

definition op_event :: string where "op_event = ''ev_'' @ replicate 31 CHR ''a'' @ ''1''"

definition op_raw :: obj where
  "op_raw = [(''event_type'', JStr ''work_item''), (''payload'', JObj [(''work_item_id'', JStr op_task), (''title'', JStr ''fix it''),
         (''body'', JNull), (''created_by'', JStr ''human:ann''), (''repo'', JNull), (''project_key'', JNull), (''workstream_id'', JNull)]),
     (''emitter'', JStr TASK_EMITTER), (''fleet'', JStr ''studio''), (''source_ref'', JStr (''request:'' @ st_id sample_store)),
     (''schema_version'', JStr PLANE_SCHEMA_VERSION), (''event_id'', JStr op_event)]"

definition op_fact :: expected_fact where
  "op_fact = \<lparr>ef_event = op_event, ef_family = ''work_item'', ef_sha = replicate 64 CHR ''a'',
     ef_fields = [''body'', ''causation_id'', ''confidence'', ''correlation_id'', ''created_by_uid'', ''emitter'', ''event_id'',
       ''fleet_uid'', ''host_uid'', ''import_batch'', ''origin'', ''project_key'', ''repo'', ''schema_version'', ''source_ref'',
       ''span_id'', ''title'', ''trace_id'', ''work_item_id'', ''workstream_id'']\<rparr>"

definition op_plan :: task_plan where
  "op_plan = \<lparr>pl_raws = [op_raw], pl_task = op_task, pl_assignment = None, pl_actors = [ann], pl_expected_by = None\<rparr>"

definition op_intent :: request_intent where
  "op_intent = plan_intent op_ctx ''task.admit'' (replicate 64 CHR ''a'') None op_plan [op_fact]"

definition op_receipt :: "string \<Rightarrow> int \<Rightarrow> int \<Rightarrow> request_receipt" where
  "op_receipt status k n = \<lparr>rr_id = st_id sample_store, rr_intent = op_intent,
     rr_stages = [\<lparr>so_status = status, so_attempt = k\<rparr>], rr_attempt = n, rr_attempts = [], rr_version = FORMAT_VERSION\<rparr>"

lemma op_frozen:
  "canonical_uuid (st_id sample_store) \<and> identities_ok op_intent \<and> default_deadline_ok (\<lambda>_. True) op_intent \<and> route_ok op_intent
    \<and> feedback_ok op_intent \<and> fact_ok op_fact \<and> native_stage op_intent = None \<and> ri_fleet op_intent = st_fleet sample_store
    \<and> ri_route op_intent = None"
  by (intro conjI; code_simp)

lemma op_stages: "ri_stages op_intent = [\<lparr>sp_kind = ''recording'', sp_facts = [op_fact]\<rparr>]"
  by (simp add: op_intent_def plan_intent_def)

lemma op_fits:
  assumes "0 \<le> k" "k \<le> n" "status_of_kind ''recording'' status" "status = ''prepared'' \<longleftrightarrow> k = 0"
  shows "fits_store (\<lambda>_. True) sample_store (op_receipt status k n)"
proof -
  have "valid (\<lambda>_. True) (op_receipt status k n)"
    using op_frozen assms unfolding valid_def
    by (simp add: op_receipt_def op_stages outcome_ok_def plan_events_def attempts_ok_def)
  moreover have "rr_id (op_receipt status k n) = st_id sample_store" "rr_intent (op_receipt status k n) = op_intent"
    by (simp_all add: op_receipt_def)
  ultimately show ?thesis using op_frozen by (simp add: fits_store_def route_elsewhere_def)
qed

lemma op_parts:
  "id_of ''work_item'' op_task" "provenance_alias op_ctx None = Inr ''human:ann''" "provenance_in op_ctx None d = Inr ann"
  "list_all (identity_ok op_ctx op_db) ((''fleet'', tc_fleet_name op_ctx, tc_fleet op_ctx) # map (\<lambda>a. (''actor'', ac_alias a, ac_uid a)) [ann, ann])"
  "modes_for op_setting [op_raw] = Inr []" "fact_of_raw op_setting op_ctx (frozen_parties op_ctx [ann]) [] op_raw = Inr op_fact"
  by code_simp+



definition op_sent :: obj where
  "op_sent = op_raw @ [(''occurred_at'', JStr ''2026-01-00'')]"

definition op_item :: item where
  "op_item = ([(''event_type'', JStr ''work_item''), (''schema_version'', JStr ''1.0.0''), (''occurred_at'', JStr ''2026-01-00''),
       (''observed_at'', JNull), (''emitter'', JStr TASK_EMITTER), (''source_ref'', JStr (''request:'' @ st_id sample_store)),
       (''fleet'', JStr ''studio''), (''event_id'', JStr op_event), (''correlation_id'', JNull), (''causation_id'', JNull),
       (''trace_id'', JNull), (''span_id'', JNull), (''origin'', JStr ''live''), (''import_batch'', JNull), (''confidence'', JNull),
       (''payload'', fld op_raw ''payload'')],
     ''work_item'', [(''work_item_id'', JStr op_task), (''title'', JStr ''fix it''), (''created_by'', JStr ''human:ann''),
       (''workstream_id'', JNull), (''repo'', JNull), (''project_key'', JNull), (''body'', JNull)])"

lemma op_checked:
  "truthy (fld op_raw ''event_id'')" "\<not> truthy (fld op_raw ''occurred_at'')" "truthy (fld op_raw ''schema_version'')"
  "alist_set ''occurred_at'' (JStr ''2026-01-00'') op_raw = op_sent" "content_family op_sent = Inr True" "load_modes Absent = Inr []"
  "validate_item op_world [] op_sent = Inr (op_item, op_sent)" "w_now op_world 0 = ''2026-01-00''"
  by code_simp+

lemma op_session_simps [simp]:
  "db (op_session n k) = op_db" "saved (op_session n k) = None" "faults (op_session n k) = []" "minted (op_session n k) = n"
  "ticks (op_session n k) = k" "op_session n k\<lparr>minted := n'\<rparr> = op_session n' k" "op_session n k\<lparr>ticks := k'\<rparr> = op_session n k'"
  by (simp_all add: op_session_def fresh_session_def)

lemma op_prepared: "prepare_each op_world Absent None [JObj op_raw] (op_session 2 0) = (Inr ([op_sent], [op_item]), op_session 2 1)"
  by (simp add: finalize_def andthen_def now_iso_def op_checked)

lemma calm_stmt: "faults s = [] \<Longrightarrow> stmt s = (Inr (), s)"
  by (simp add: stmt_def)

lemma calm_attempt:
  assumes "faults s = []" "em_version cfg = Some SCHEMA_USER_VERSION" "em_host cfg = Inr h"
    and "ingest_many w h pre items s = (Inr rs, t)"
  shows "attempt w cfg pre items s = (Inr rs, t)"
proof -
  from keepsD [OF ingest_faults assms(4)] assms(1) have "faults t = []" by (simp add: no_new_faults_def)
  with assms show ?thesis
    by (simp add: attempt_def preflight_schema_def require_current_schema_def closing_def andthen_def calm_stmt)
qed

lemma calm_emission:
  assumes "prepare_each w (em_capture cfg) None reqs (conn s) = (Inr (cs, its), c)" "attempt w cfg None its c = (Inr rs, t)"
  shows "emit_batch w cfg True None reqs s = (Inr (map outcome_of rs), s\<lparr>conn := t\<rparr>)"
  using assms by (simp add: emit_batch_def andthen_def on_db_def LOCK_RETRY_ATTEMPTS_def eval_nat_numeral after_attempt_def)

definition op_recorded :: session where
  "op_recorded = snd (ingest_many op_world (''host_'' @ sample_hex) None [op_item] (op_session 2 1))"

text \<open>What it recorded, computed once: the ledger and the tables of tasks.\<close>

definition op_view :: "plane_db \<Rightarrow> ledger_row list \<times> row list \<times> row list \<times> row list" where
  "op_view d = (ledger d, tables d ''work_items'', tables d ''assignments'', tables d ''events'')"

definition op_end :: plane_db where
  "op_end = op_db\<lparr>ledger := [\<lparr>l_seq = 1, l_event = op_event, l_family = ''work_item'', l_at = ''2026-01-01''\<rparr>],
     tables := (tables op_db)(''work_items'' := [
       [(''work_item_id'', JStr op_task), (''title'', JStr ''fix it''), (''created_by_uid'', JStr (''actor_'' @ sample_hex)),
        (''workstream_id'', JNull), (''repo'', JNull), (''project_key'', JNull), (''body'', JNull), (''ingest_seq'', JInt 1),
        (''event_id'', JStr op_event), (''schema_version'', JStr ''1.0.0''), (''occurred_at'', JStr ''2026-01-00''),
        (''observed_at'', JNull), (''ingested_at'', JStr ''2026-01-01''), (''host_uid'', JStr (''host_'' @ sample_hex)),
        (''fleet_uid'', JStr (''fleet_'' @ sample_hex)), (''emitter'', JStr TASK_EMITTER),
        (''source_ref'', JStr (''request:'' @ st_id sample_store)), (''correlation_id'', JNull), (''causation_id'', JNull),
        (''trace_id'', JNull), (''span_id'', JNull), (''origin'', JStr ''live''), (''import_batch'', JNull), (''confidence'', JNull)]])\<rparr>"

definition op_outcome :: "(plane_error + ingest_result list) \<times> session
    \<Rightarrow> (plane_error + ingest_result list) \<times> ledger_row list \<times> row list \<times> row list \<times> row list" where
  "op_outcome = (\<lambda>(r, s). (r, op_view (db s)))"

lemma op_computed: "op_outcome (ingest_many op_world (''host_'' @ sample_hex) None [op_item] (op_session 2 1))
    = (Inr [\<lparr>r_event = op_event, r_seq = Some 1, r_duplicate = False\<rparr>], op_view op_end)"
  by code_simp

lemma op_ingested: "fst (ingest_many op_world (''host_'' @ sample_hex) None [op_item] (op_session 2 1))
    = Inr [\<lparr>r_event = op_event, r_seq = Some 1, r_duplicate = False\<rparr>]" and op_viewed: "op_view (db op_recorded) = op_view op_end"
  using op_computed by (auto simp: op_outcome_def op_recorded_def split: prod.splits)

lemma view_reads:
  assumes "op_view d = op_view d'"
  shows "ledger d = ledger d'" "ledger_entry e d = ledger_entry e d'" "row_entry ''work_items'' e d = row_entry ''work_items'' e d'"
    "find_task se fl i d = find_task se fl i d'"
proof -
  show "ledger d = ledger d'" "ledger_entry e d = ledger_entry e d'" "row_entry ''work_items'' e d = row_entry ''work_items'' e d'"
    using assms by (simp_all add: op_view_def ledger_entry_def row_entry_def)
  have "tables_of se d = tables_of se d'" using assms by (simp add: op_view_def tables_of_def)
  then show "find_task se fl i d = find_task se fl i d'" by (simp add: find_task_def lookup_snapshot_def)
qed

lemma op_found: "map l_event (ledger op_end) = [op_event]"
  "case find_task op_setting (tc_fleet op_ctx) op_task op_end of Inl e \<Rightarrow> False | Inr t \<Rightarrow> tk_state t = Some ''queued''"
  by code_simp+

lemma op_proven: "compare_fact op_world op_fact (ledger_entry op_event op_end) (row_entry ''work_items'' op_event op_end) t
    = Counted (t\<lparr>ta_matched := ta_matched t + 1\<rparr>)"
  by code_simp

lemmas op_reads = view_reads [OF op_viewed]

lemma calm_reconcile_facts:
  assumes "faults s = []" "saved s = None" "list_all (proven_fact w (db s)) facts" "facts \<noteq> []" "distinct (map ef_event facts)"
  shows "reconcile_facts w facts s = (Inr (Inr (proof_of Facts_Committed ''all expected facts match'' (length facts))), s)"
proof -
  let ?u = "s\<lparr>saved := Some (db s)\<rparr>"
  have "begin_reading s s = (Inr (), ?u)" using assms(1,2) by (simp add: begin_reading_def andthen_def calm_stmt)
  moreover have "inspect_all w facts no_tally ?u = (Inr (Counted (no_tally\<lparr>ta_matched := length facts\<rparr>)), ?u)"
    using inspect_all_proven [of ?u w facts no_tally] assms(1,3) by (simp add: no_tally_def)
  moreover have "rollback_if_open ?u = s" using assms(2) by (cases s) (simp add: rollback_if_open_def)
  ultimately show ?thesis using assms(2,4,5)
    by (simp add: reconcile_facts_def andthen_def handled_def conclude_def no_tally_def)
qed

lemma op_ingest: "ingest_many op_world (''host_'' @ sample_hex) None [op_item] (op_session 2 1)
    = (Inr [\<lparr>r_event = op_event, r_seq = Some 1, r_duplicate = False\<rparr>], op_recorded)"
  by (rule prod_eqI) (simp_all only: op_ingested op_recorded_def fst_conv snd_conv)

lemma op_recorded_calm: "faults op_recorded = []" "saved op_recorded = None"
proof -
  show "faults op_recorded = []" using keepsD [OF ingest_faults op_ingest] by (simp add: no_new_faults_def)
  have "list_all classed [op_item]" "list_all (\<lambda>it. truthy (fld (fst it) ''event_id'')) [op_item]" by code_simp+
  from keepsD [OF ingest_adds_only [OF this] op_ingest] show "saved op_recorded = None" by (simp add: adds_only_def)
qed

lemma op_emitted: "emit_recording op_setting [op_raw] (desk_at (op_session 2 0) st) = (Inr (), desk_at op_recorded st)"
proof -
  have "attempt op_world op_cfg None [op_item] (op_session 2 1) = (Inr [\<lparr>r_event = op_event, r_seq = Some 1, r_duplicate = False\<rparr>], op_recorded)"
    by (rule calm_attempt [OF _ _ _ op_ingest]) (simp_all add: op_cfg_def SCHEMA_USER_VERSION_def)
  with calm_emission [of op_world op_cfg "[JObj op_raw]" "plane (desk_at (op_session 2 0) st)"] op_prepared
  show ?thesis by (simp add: emit_recording_def op_setting_def desk_at_def op_cfg_def)
qed

lemma op_reconciled:
  "reconcile op_setting (op_receipt status k n) (desk_at op_recorded st)
     = (Inr (proof_of Facts_Committed ''all expected facts match'' 1), desk_at op_recorded st)"
proof -
  have "proven_fact op_world (db op_recorded) op_fact"
    using op_proven by (simp add: proven_fact_def op_fact_def FACT_FAMILIES_def op_reads)
  then have "reconcile_facts op_world [op_fact] op_recorded = (Inr (Inr (proof_of Facts_Committed ''all expected facts match'' 1)), op_recorded)"
    using calm_reconcile_facts [of op_recorded op_world "[op_fact]"] op_recorded_calm by simp
  then show ?thesis
    by (simp add: reconcile_def recording_facts_def op_receipt_def op_stages reading_def on_plane_def on_db_def desk_at_def
        op_setting_def next_op_def gives_def)
qed

text \<open>The steps, one by one.\<close>

abbreviation op_file :: "string \<Rightarrow> int \<Rightarrow> int \<Rightarrow> request_store" where
  "op_file status k n \<equiv> written (op_receipt status k n) sample_store"

lemma next_op_eq: "m s = (Inr x, t) \<Longrightarrow> next_op m f s = f x t"
  by (simp add: next_op_def)

lemma op_read: "faults c = [] \<Longrightarrow> reading (query f) (desk_at c st) = (Inr (f (db c)), desk_at c st)"
  by (simp add: reading_def on_plane_def on_db_def desk_at_def calm_query)

lemma op_locks: "check_locks (desk_at c st) = (Inr (), desk_at c st)" "take_lock op_task (desk_at c st) = (Inr (), desk_at c st)"
  by (simp_all add: check_locks_def take_lock_def op_parts desk_at_def)

lemma op_mints: "reading (mint_hex op_world) (desk_at (op_session n k) st)
    = (Inr (replicate 31 CHR ''a'' @ [digit_char (n mod 10)]), desk_at (op_session (Suc n) k) st)"
  by (simp add: reading_def on_plane_def on_db_def desk_at_def mint_hex_def op_world_def)

lemma op_digits: "digit_char 0 = CHR ''0''" "digit_char 1 = CHR ''1''" "digit_char (Suc 0) = CHR ''1''"
  by code_simp+

lemma op_updates:
  assumes "receipt_op_of f" "f (op_receipt status k n) = Inr (Written (op_receipt status' k' n'))"
    and "fits_store (\<lambda>_. True) sample_store (op_receipt status k n)" "fits_store (\<lambda>_. True) sample_store (op_receipt status' k' n')"
  shows "on_store (update (se_aware op_setting) f) (desk_at c (op_file status k n))
    = (Inr (op_receipt status' k' n'), desk_at c (op_file status' k' n'))"
  using op_written(2) [OF assms] by (simp add: on_store_def desk_at_def op_setting_def sample_store_def)

lemma op_stage_ops:
  "begin_attempt (op_receipt ''prepared'' 0 0) = Inr (Written (op_receipt ''prepared'' 0 1))"
  "stage_request 0 False (op_receipt ''prepared'' 0 1) = Inr (Written (op_receipt ''unknown'' 1 1))"
  "outcome_request 0 ''committed'' (op_receipt ''unknown'' 1 1) = Inr (Written (op_receipt ''committed'' 1 1))"
  using op_frozen
  by (simp_all add: begin_attempt_def stage_request_def outcome_request_def put_stage_def op_receipt_def op_stages status_of_kind_def STATUSES_def
      O1_NATIVE_def op_intent_def plan_intent_def)

lemma op_fit: "fits_store (\<lambda>_. True) sample_store (op_receipt ''prepared'' 0 0)" "fits_store (\<lambda>_. True) sample_store (op_receipt ''prepared'' 0 1)"
  "fits_store (\<lambda>_. True) sample_store (op_receipt ''unknown'' 1 1)" "fits_store (\<lambda>_. True) sample_store (op_receipt ''committed'' 1 1)"
  by (rule op_fits; simp add: status_of_kind_def STATUSES_def)+

lemma op_committed: "commit_plan op_setting (op_receipt ''prepared'' 0 0) [op_raw] (desk_at (op_session 2 0) (op_file ''prepared'' 0 0))
    = (Inr (op_receipt ''committed'' 1 1), desk_at op_recorded (op_file ''committed'' 1 1))"
proof -
  note u = op_updates [OF receipt_op_of.intros(1) op_stage_ops(1) op_fit(1,2)]
    op_updates [OF receipt_op_of.intros(7) op_stage_ops(2) op_fit(2,3)] op_updates [OF receipt_op_of.intros(8) op_stage_ops(3) op_fit(3,4)]
  show ?thesis unfolding commit_plan_def
    by (simp add: next_op_eq op_locks(1) u(1,2) op_emitted op_reconciled) (simp add: proof_of_def finish_def put_outcome_def u(3))
qed


lemma op_read_mint: "raw_event op_setting op_ctx (st_id sample_store) ''work_item''
     [(''work_item_id'', JStr op_task), (''title'', JStr ''fix it''), (''body'', text_or None), (''created_by'', JStr (ac_alias ann)),
      (''repo'', text_or None), (''project_key'', text_or None), (''workstream_id'', text_or None)] None 0 (desk_at (op_session 1 0) st)
   = (Inr op_raw, desk_at (op_session 2 0) st)"
  by (simp add: raw_event_def next_op_def op_setting_def op_mints gives_def op_raw_def op_event_def mint_def op_ctx_def op_digits text_or_def ann_def numeral_2_eq_2)

lemma op_identified: "identities_check op_cfg op_ctx [ann, ann] (desk_at (op_session n k) st) = (Inr (), desk_at (op_session n k) st)"
proof -
  have "em_host op_cfg = Inr (tc_host op_ctx)" by (simp add: op_cfg_def op_ctx_def)
  then show ?thesis using op_parts(4) by (simp add: identities_check_def next_op_def op_read gives_def)
qed

lemma op_prepares: "prepare_plan op_setting op_ctx ''task.admit'' (replicate 64 CHR ''a'') None op_plan (desk_at c sample_store)
    = (Inr (op_receipt ''prepared'' 0 0), desk_at c (op_file ''prepared'' 0 0))"
proof -
  have "prepare_request (\<lambda>_. True) op_intent sample_store = (Inr (op_receipt ''prepared'' 0 0), op_file ''prepared'' 0 0)"
  proof -
    have "\<lparr>rr_id = st_id sample_store, rr_intent = op_intent, rr_stages = map (\<lambda>_. prepared_outcome) (ri_stages op_intent),
        rr_attempt = 0, rr_attempts = [], rr_version = FORMAT_VERSION\<rparr> = op_receipt ''prepared'' 0 0"
      by (simp add: op_receipt_def op_stages prepared_outcome_def)
    moreover have "valid (\<lambda>_. True) (op_receipt ''prepared'' 0 0)" "\<not> route_elsewhere sample_store (op_receipt ''prepared'' 0 0)"
      using op_fit(1) by (simp_all add: fits_store_def)
    moreover have "load (\<lambda>_. True) sample_store = Inr None" "st_faults sample_store = []" by (simp_all add: load_def sample_store_def)
    ultimately show ?thesis using op_frozen by (simp add: prepare_request_def save_def Let_def)
  qed
  then show ?thesis
    by (simp add: prepare_plan_def next_op_eq checked_def op_plan_def op_parts(5,6) on_store_def desk_at_def)
      (simp add: op_setting_def op_intent_def op_plan_def)
qed

lemma op_shown: "\<exists>t. tk_state t = Some ''queued'' \<and> show_task op_setting op_ctx op_task (desk_at op_recorded st) = (Inr t, desk_at op_recorded st)"
proof -
  from op_found(2) obtain t where "find_task op_setting (tc_fleet op_ctx) op_task (db op_recorded) = Inr t" "tk_state t = Some ''queued''"
    by (auto simp: op_reads split: sum.splits)
  then show ?thesis by (auto simp: show_task_def next_op_def op_read op_recorded_calm checked_def)
qed

lemma op_opened: "open_reader op_setting (desk_at (op_session n k) st) = (Inr (), desk_at (op_session n k) st)"
  by (simp add: open_reader_def op_setting_def op_cfg_def reading_def on_plane_def on_db_def desk_at_def require_current_schema_def
      andthen_def calm_stmt SCHEMA_USER_VERSION_def)

lemma op_records:
  assumes "plan s = (Inr op_plan, desk_at (op_session 2 0) sample_store)"
  shows "record_or_replay op_setting op_ctx ''task.admit'' (replicate 64 CHR ''a'') None None plan s
      = (Inr (op_receipt ''committed'' 1 1, False), desk_at op_recorded (op_file ''committed'' 1 1))"
proof -
  have r: "replayed op_setting None s = (Inr False, s)" by (simp add: replayed_def gives_def)
  have c: "commit_plan op_setting (op_receipt ''prepared'' 0 0) (pl_raws op_plan) (desk_at (op_session 2 0) (op_file ''prepared'' 0 0))
      = (Inr (op_receipt ''committed'' 1 1), desk_at op_recorded (op_file ''committed'' 1 1))"
    using op_committed by (simp add: op_plan_def)
  show ?thesis unfolding record_or_replay_def next_op_def by (simp add: r assms op_prepares c gives_def)
qed

lemma op_answers:
  assumes "m s = (Inr (r, ag), u)" "ri_task (rr_intent r) = Some i" "show_task se c i u = (Inr t, u)"
  shows "answer se c m s = (Inr \<lparr>or_request = rr_id r, or_task_id = i, or_assignment = ri_assignment (rr_intent r), or_task = t,
    or_replayed = ag\<rparr>, u)"
  unfolding answer_def next_op_def by (simp add: assms gives_def)

lemma op_step: "m s = (Inr x, t) \<Longrightarrow> f x t = y \<Longrightarrow> next_op m f s = y"
  by (simp add: next_op_def)

abbreviation op_admission :: "op_result op" where
  "op_admission \<equiv> admit op_setting op_ctx (st_id sample_store) ''fix it'' None None None None None"

lemma op_admitted: "\<exists>x. op_admission (desk_at (op_session 0 0) sample_store) = (Inr x, desk_at op_recorded (op_file ''committed'' 1 1))
    \<and> tk_state (or_task x) = Some ''queued'' \<and> \<not> or_replayed x"
proof -
  let ?d = "\<lambda>n. desk_at (op_session n 0) sample_store"
  have digest: "semantic_digest (se_world op_setting) kvs = replicate 64 CHR ''a''" for kvs
    by (simp add: semantic_digest_def op_setting_def op_world_def)
  have who: "provenance op_ctx None (?d n) = (Inr ann, ?d n)" for n
    by (simp add: provenance_def next_op_def op_read op_parts(3) checked_def)
  have none: "existing op_setting op_ctx ''task.admit'' s None 1 False None (?d n) = (Inr None, ?d n)" for s n
    by (simp add: existing_def next_op_def on_store_def desk_at_def load_def sample_store_def gives_def)
  have new: "frozen_or_minted op_setting ''wi_'' None ri_task (?d 0) = (Inr op_task, ?d 1)"
    by (simp add: frozen_or_minted_def next_op_def op_setting_def op_mints gives_def mint_def op_task_def op_digits)
  have scope: "scope_links op_ctx None None None (?d n) = (Inr (), ?d n)" for n
    by (simp add: scope_links_def project_problem_def no_problem_def next_op_def gives_def)
  have caller: "tc_caller op_ctx = ann" "se_cfg op_setting = op_cfg" by (simp_all add: op_ctx_def op_setting_def)
  let ?plan = "next_op (provenance op_ctx None) (\<lambda>source. next_op (identities_check (se_cfg op_setting) op_ctx [tc_caller op_ctx, source]) (\<lambda>_.
      next_op (scope_links op_ctx None None None) (\<lambda>_. next_op (raw_event op_setting op_ctx (st_id sample_store) ''work_item''
        [(''work_item_id'', JStr op_task), (''title'', JStr ''fix it''), (''body'', text_or None), (''created_by'', JStr (ac_alias source)),
         (''repo'', text_or None), (''project_key'', text_or None), (''workstream_id'', text_or None)] None 0) (\<lambda>req.
          plan_of [req] op_task None [source] None))))"
  have plan: "?plan (?d 1) = (Inr op_plan, ?d 2)"
    by (simp add: next_op_eq who caller op_identified scope op_read_mint plan_of_def gives_def op_plan_def del: One_nat_def)
  have rec: "record_or_replay op_setting op_ctx ''task.admit'' (replicate 64 CHR ''a'') None None ?plan (?d 1)
      = (Inr (op_receipt ''committed'' 1 1, False), desk_at op_recorded (op_file ''committed'' 1 1))"
    by (rule op_records) (rule plan)
  obtain t where t: "tk_state t = Some ''queued''"
    "show_task op_setting op_ctx op_task (desk_at op_recorded (op_file ''committed'' 1 1)) = (Inr t, desk_at op_recorded (op_file ''committed'' 1 1))"
    using op_shown by blast
  have "ri_task (rr_intent (op_receipt ''committed'' 1 1)) = Some op_task" by (simp add: op_receipt_def op_intent_def plan_intent_def op_plan_def)
  note a = op_answers [where m = "record_or_replay op_setting op_ctx ''task.admit'' (replicate 64 CHR ''a'') None None ?plan" and s = "?d 1",
      OF rec this t(2)]
  have known: "checked (provenance_alias op_ctx None) s = (Inr ''human:ann'', s)" for s by (simp add: checked_def op_parts(2))
  have "op_admission (?d 0) = (Inr \<lparr>or_request = rr_id (op_receipt ''committed'' 1 1), or_task_id = op_task,
      or_assignment = ri_assignment (rr_intent (op_receipt ''committed'' 1 1)), or_task = t, or_replayed = False\<rparr>,
      desk_at op_recorded (op_file ''committed'' 1 1))"
    unfolding admit_def Let_def digest
    by (rule op_step, rule known, rule op_step, rule none, rule op_step, rule new, rule op_step, rule op_locks(2), rule op_step,
        rule op_opened, simp only: under_reader_def a prod.case map_sum.simps id_apply)
  with t(1) show ?thesis by simp
qed

text \<open>The witnesses of the properties.\<close>

lemma request_adds_only_its_facts_witness:
  "\<exists>q. load (se_aware op_setting) (op_file ''committed'' 1 1) = Inr (Some q) \<and> so_status (rr_stages q ! 0) \<noteq> ''prepared''
    \<and> op_event \<in> ef_event ` set (recording_facts q)"
proof -
  let ?s = "desk_at (op_session 0 0) sample_store" and ?u = "desk_at op_recorded (op_file ''committed'' 1 1)"
  obtain x where "op_admission ?s = (Inr x, ?u)" using op_admitted by blast
  then have "history op_setting ?s ({} \<union> new_ids ?s ?u) ?u"
    by (intro history.invokes [OF history.starts, where c = op_ctx and m = op_admission and ls = "[]" and r = "Inr x"])
      (simp_all add: desk_at_def operation_of.admits)
  moreover have "op_event \<in> {} \<union> new_ids ?s ?u"
  proof -
    have "set (map l_event (ledger (db op_recorded))) = {op_event}" unfolding op_reads(1) op_found(1) by simp
    then show ?thesis by (auto simp: new_ids_def desk_at_def op_db_def empty_db_def)
  qed
  ultimately show ?thesis using request_adds_only_its_facts [of op_setting ?s _ ?u op_event] by (simp add: desk_at_def)
qed

lemma answered_task_is_recorded_witness:
  "\<exists>q (x :: op_result). load (se_aware op_setting) (op_file ''committed'' 1 1) = Inr (Some q) \<and> so_status (rr_stages q ! 0) = ''committed''
    \<and> list_all (matches op_world (db op_recorded)) (recording_facts q)
    \<and> find_task op_setting (tc_fleet op_ctx) (or_task_id x) (db op_recorded) = Inr (or_task x) \<and> tk_state (or_task x) = Some ''queued''"
proof -
  obtain x where x: "op_admission (desk_at (op_session 0 0) sample_store) = (Inr x, desk_at op_recorded (op_file ''committed'' 1 1))"
    "tk_state (or_task x) = Some ''queued''" using op_admitted by blast
  have d: "se_world op_setting = op_world" "\<And>c st. store (desk_at c st) = st" "\<And>c st. conn (plane (desk_at c st)) = c"
    by (simp_all add: op_setting_def desk_at_def)
  from answered_task_is_recorded [OF operation_of.admits x(1)] obtain q where
    "load (se_aware op_setting) (op_file ''committed'' 1 1) = Inr (Some q)" "so_status (rr_stages q ! 0) = ''committed''"
    "\<forall>f \<in> set (recording_facts q). matches op_world (db op_recorded) f"
    "find_task op_setting (tc_fleet op_ctx) (or_task_id x) (db op_recorded) = Inr (or_task x)"
    unfolding d by blast
  with x(2) show ?thesis by (intro exI [of _ q] exI [of _ x]) (simp add: list_all_iff)
qed

lemma recorded_request_stays_witness:
  "let s = desk_at op_recorded (op_file ''committed'' 1 1); (r, s') = op_admission s in
     db (conn (plane s')) = db op_recorded \<and> store s' = op_file ''committed'' 1 1"
proof -
  let ?s = "desk_at op_recorded (op_file ''committed'' 1 1)"
  obtain r s' where m: "op_admission ?s = (r, s')" by (cases "op_admission ?s")
  have l: "load (se_aware op_setting) (store ?s) = Inr (Some (op_receipt ''committed'' 1 1))"
    using load_written [OF op_fit(4)] by (simp add: desk_at_def op_setting_def)
  have "so_status (rr_stages (op_receipt ''committed'' 1 1) ! 0) = ''committed''" by (simp add: op_receipt_def)
  from recorded_request_stays [OF operation_of.admits m l this] m show ?thesis by (simp add: desk_at_def)
qed

end
